(* ===== verification/Fat_Prelude.thy ===== *)
theory Fat_Prelude
  imports "HOL-Library.Word" "HOL-Library.Monad_Syntax"
begin

text \<open>
  Shared ground of the FatFs development: the C integer types, the collections of
  automation facts, and generic lemmas on lists and machine words that the component
  theories use.

  Conventions of every theory of the library:
  \<^item> a C integer keeps its width (\<open>BYTE\<close>, \<open>WORD\<close>, \<open>DWORD\<close>, \<open>UINT\<close> of
    \<^verbatim>\<open>addon/fatfs/ff.h\<close>), so that \<open>+\<close>, \<open>-\<close> and \<open>*\<close> wrap as in the source;
  \<^item> a C array is a list, a pointer into it is the list with an index;
  \<^item> a function that changes the volume takes the state \<open>v\<close> and returns
    \<open>(result, v')\<close>;
  \<^item> a function that loops without a bound known from its arguments returns
    \<open>(result \<times> state) option\<close> and is a \<open>partial_function (option)\<close>: \<open>None\<close> means
    that the C function does not return.
\<close>

unbundle bit_operations_syntax

section \<open>C integer types (ff.h)\<close>

type_synonym BYTE = "8 word"
type_synonym WORD = "16 word"
type_synonym WCHAR = "16 word"
type_synonym DWORD = "32 word"
type_synonym UINT = "32 word"
type_synonym FSIZE = "32 word"

text \<open>The sector size: \<open>FF_MIN_SS = FF_MAX_SS = 512\<close> in \<^verbatim>\<open>ffconf.h\<close>, so the macro
  \<open>SS(fs)\<close> is the constant 512.\<close>

abbreviation (input) SS :: "'a::numeral" where
  "SS \<equiv> 512"

section \<open>Collections of automation facts\<close>

named_theorems frame_simps
  \<open>fields of the volume that an operation leaves unchanged\<close>

named_theorems wf_intros
  \<open>preservation of the well-formedness of the volume\<close>

section \<open>Lists\<close>

lemma list_update_nth_eq: "xs[i := x] ! j = (if i = j \<and> j < length xs then x else xs ! j)"
  by (cases "i < length xs") (auto simp: nth_list_update list_update_beyond)

lemma list_update_same_drop [simp]: "i < n \<Longrightarrow> drop n (xs[i := x]) = drop n xs"
  by (simp add: drop_update_cancel)

lemma nth_take_drop: "n + k \<le> length xs \<Longrightarrow> j < k \<Longrightarrow> take k (drop n xs) ! j = xs ! (n + j)"
  by simp

text \<open>A segment of a list and its replacement, the effect of a block copy.\<close>

definition seg :: "'a list \<Rightarrow> nat \<Rightarrow> nat \<Rightarrow> 'a list" where
  "seg xs i n = take n (drop i xs)"

definition put_seg :: "'a list \<Rightarrow> nat \<Rightarrow> 'a list \<Rightarrow> 'a list" where
  "put_seg xs i ys = take i xs @ ys @ drop (i + length ys) xs"

lemma length_seg [simp]: "i + n \<le> length xs \<Longrightarrow> length (seg xs i n) = n"
  by (simp add: seg_def)

lemma nth_seg: "i + n \<le> length xs \<Longrightarrow> j < n \<Longrightarrow> seg xs i n ! j = xs ! (i + j)"
  by (simp add: seg_def)

lemma length_put_seg [simp]: "i + length ys \<le> length xs \<Longrightarrow> length (put_seg xs i ys) = length xs"
  by (simp add: put_seg_def)

lemma nth_put_seg:
  assumes "i + length ys \<le> length xs"
  shows "put_seg xs i ys ! j = (if i \<le> j \<and> j < i + length ys then ys ! (j - i) else xs ! j)"
proof (cases "ys = []")
  case True
  then show ?thesis by (auto simp: put_seg_def)
next
  case False
  then have "i < length xs" using assms by (cases ys) auto
  then show ?thesis using assms
    by (cases "j < i") (auto simp: put_seg_def nth_append min_def not_less)
qed

lemma seg_put_seg: "i + length ys \<le> length xs \<Longrightarrow> seg (put_seg xs i ys) i (length ys) = ys"
  by (rule nth_equalityI) (simp_all add: nth_seg nth_put_seg)

section \<open>Machine words\<close>

lemma word_sub_less_iff:
  fixes a b n :: "'a::len word"
  shows "a - b < n \<longleftrightarrow> (\<exists>k < n. a = b + k)"
  by (metis add_diff_cancel_left' add.commute diff_add_cancel)

lemma unat_add_bound:
  fixes a b :: "'a::len word"
  assumes "unat a + unat b < 2 ^ LENGTH('a)"
  shows "unat (a + b) = unat a + unat b"
  using assms by (simp add: unat_word_ariths)

lemma unat_mult_bound:
  fixes a b :: "'a::len word"
  assumes "unat a * unat b < 2 ^ LENGTH('a)"
  shows "unat (a * b) = unat a * unat b"
  using assms by (simp add: unat_word_ariths)

lemma unat_lt_pow32 [simp]: "unat (x :: DWORD) < 4294967296"
  using unsigned_less [of x] by simp

lemma unat_lt_pow16 [simp]: "unat (x :: WORD) < 65536"
  using unsigned_less [of x] by simp

lemma unat_lt_pow8 [simp]: "unat (x :: BYTE) < 256"
  using unsigned_less [of x] by simp

lemma unat_ucast_WORD [simp]: "unat (ucast (x :: WORD) :: DWORD) = unat x"
  by (simp add: unsigned_ucast_eq take_bit_nat_eq_self_iff less_trans [OF unat_lt_pow16])

lemma unat_ucast_BYTE [simp]: "unat (ucast (x :: BYTE) :: DWORD) = unat x"
  by (simp add: unsigned_ucast_eq take_bit_nat_eq_self_iff less_trans [OF unat_lt_pow8])

lemma unat_of_nat_DWORD: "n < 4294967296 \<Longrightarrow> unat (of_nat n :: DWORD) = n"
  by (simp add: unat_of_nat)

lemma sector_pos:
  assumes "d dvd 512" and "k < d"
  shows "(d * i + k) div 512 = d * i div 512" "(d * i + k) mod 512 = d * i mod (512 :: nat) + k"
proof -
  let ?r = "d * i mod 512"
  have "d dvd ?r" using assms(1) by (simp add: dvd_mod)
  moreover have "?r < 512" by simp
  moreover obtain e where e: "512 = d * e" using assms(1) by (elim dvdE)
  ultimately obtain q where "?r = d * q" "d * q < d * e" by (metis dvdE)
  then have "?r + d \<le> d * e" by (metis Suc_leI mult_Suc_right mult_le_mono2 nat_mult_less_cancel_disj add.commute)
  then have lt: "?r + k < 512" using assms(2) e by linarith
  have "d * i + k = 512 * (d * i div 512) + (?r + k)" by simp
  with lt show "(d * i + k) div 512 = d * i div 512" "(d * i + k) mod 512 = ?r + k"
    by (metis add.right_neutral div_less div_mult_self4 zero_neq_numeral, metis mod_less mod_mult_self4)
qed

lemma less_pow_bits:
  fixes y :: DWORD
  shows "unat y < 2 ^ n \<longleftrightarrow> (\<forall>i \<ge> n. \<not> bit y i)"
proof
  assume lt: "unat y < 2 ^ n"
  show "\<forall>i \<ge> n. \<not> bit y i"
  proof (intro allI impI notI)
    fix i
    assume "n \<le> i" and b: "bit y i"
    then have "(2 :: nat) ^ n \<le> 2 ^ i" by (intro power_increasing) simp_all
    then have "unat y div 2 ^ i = 0" using lt by (metis div_less order_less_le_trans)
    moreover have "bit (unat y) i" using b by (simp add: bit_unsigned_iff)
    ultimately show False by (simp add: bit_iff_odd)
  qed
next
  assume "\<forall>i \<ge> n. \<not> bit y i"
  then have "take_bit n y = y" by (intro bit_word_eqI) (auto simp: bit_take_bit_iff, meson not_le)
  then have "unat y = take_bit n (unat y)" by (metis unsigned_take_bit_eq)
  then show "unat y < 2 ^ n" by (metis take_bit_nat_less_exp)
qed

lemma unat_Suc_less:
  fixes a b :: DWORD
  assumes "unat a < unat b"
  shows "unat (a + 1) = Suc (unat a)"
proof -
  have "Suc (unat a) < 4294967296" using assms unat_lt_pow32 [of b] by linarith
  then show ?thesis by (simp add: unat_word_ariths)
qed

lemma odd_word: "(c :: DWORD) AND 1 \<noteq> 0 \<longleftrightarrow> odd (unat c)"
  by (simp add: and_one_eq mod_2_eq_odd flip: bit_0) (simp add: bit_simps)

end
