(* ===== verification/Fat_Types.thy ===== *)
theory Fat_Types
  imports Fat_Prelude
begin

text \<open>
  The data of the FatFs module as \<^verbatim>\<open>addon/fatfs/ff.h\<close> and \<^verbatim>\<open>diskio.h\<close> declare it: the
  result codes, the filesystem object \<open>FATFS\<close>, the object identifier \<open>FFOBJID\<close>, the file
  object \<open>FIL\<close>, the directory object \<open>DIR\<close> and the file information \<open>FILINFO\<close>, in the
  configuration of \<^verbatim>\<open>ffconf.h\<close> (512-byte sectors, LFN on the heap, no exFAT, no file lock,
  re-entrant, \<open>FF_USE_FIND = 2\<close>), with the physical drive a volume sits on.
\<close>

unbundle bit_operations_syntax

section \<open>Result codes\<close>

datatype FRESULT =
    FR_OK | FR_DISK_ERR | FR_INT_ERR | FR_NOT_READY | FR_NO_FILE | FR_NO_PATH
  | FR_INVALID_NAME | FR_DENIED | FR_EXIST | FR_INVALID_OBJECT | FR_WRITE_PROTECTED
  | FR_INVALID_DRIVE | FR_NOT_ENABLED | FR_NO_FILESYSTEM | FR_MKFS_ABORTED | FR_TIMEOUT
  | FR_LOCKED | FR_NOT_ENOUGH_CORE | FR_TOO_MANY_OPEN_FILES | FR_INVALID_PARAMETER

datatype DRESULT = RES_OK | RES_ERROR | RES_WRPRT | RES_NOTRDY | RES_PARERR

section \<open>Constants\<close>

text \<open>Flags and masks are numerals of whatever width the expression has in the source.\<close>

abbreviation (input) FS_FAT12 :: "'a::numeral" where "FS_FAT12 \<equiv> 1"
abbreviation (input) FS_FAT16 :: "'a::numeral" where "FS_FAT16 \<equiv> 2"
abbreviation (input) FS_FAT32 :: "'a::numeral" where "FS_FAT32 \<equiv> 3"

abbreviation (input) FA_READ :: BYTE where "FA_READ \<equiv> 0x01"
abbreviation (input) FA_WRITE :: BYTE where "FA_WRITE \<equiv> 0x02"
abbreviation (input) FA_CREATE_NEW :: BYTE where "FA_CREATE_NEW \<equiv> 0x04"
abbreviation (input) FA_CREATE_ALWAYS :: BYTE where "FA_CREATE_ALWAYS \<equiv> 0x08"
abbreviation (input) FA_OPEN_ALWAYS :: BYTE where "FA_OPEN_ALWAYS \<equiv> 0x10"
abbreviation (input) FA_OPEN_APPEND :: BYTE where "FA_OPEN_APPEND \<equiv> 0x30"
abbreviation (input) FA_SEEKEND :: BYTE where "FA_SEEKEND \<equiv> 0x20"
abbreviation (input) FA_MODIFIED :: BYTE where "FA_MODIFIED \<equiv> 0x40"
abbreviation (input) FA_DIRTY :: BYTE where "FA_DIRTY \<equiv> 0x80"

abbreviation (input) AM_RDO :: BYTE where "AM_RDO \<equiv> 0x01"
abbreviation (input) AM_HID :: BYTE where "AM_HID \<equiv> 0x02"
abbreviation (input) AM_SYS :: BYTE where "AM_SYS \<equiv> 0x04"
abbreviation (input) AM_VOL :: BYTE where "AM_VOL \<equiv> 0x08"
abbreviation (input) AM_LFN :: BYTE where "AM_LFN \<equiv> 0x0F"
abbreviation (input) AM_DIR :: BYTE where "AM_DIR \<equiv> 0x10"
abbreviation (input) AM_ARC :: BYTE where "AM_ARC \<equiv> 0x20"
abbreviation (input) AM_MASK :: BYTE where "AM_MASK \<equiv> 0x3F"

abbreviation (input) NS_LOSS :: BYTE where "NS_LOSS \<equiv> 0x01"
abbreviation (input) NS_LFN :: BYTE where "NS_LFN \<equiv> 0x02"
abbreviation (input) NS_LAST :: BYTE where "NS_LAST \<equiv> 0x04"
abbreviation (input) NS_BODY :: BYTE where "NS_BODY \<equiv> 0x08"
abbreviation (input) NS_EXT :: BYTE where "NS_EXT \<equiv> 0x10"
abbreviation (input) NS_DOT :: BYTE where "NS_DOT \<equiv> 0x20"
abbreviation (input) NS_NOLFN :: BYTE where "NS_NOLFN \<equiv> 0x40"
abbreviation (input) NS_NONAME :: BYTE where "NS_NONAME \<equiv> 0x80"
abbreviation (input) NSFLAG :: nat where "NSFLAG \<equiv> 11"

abbreviation (input) DIR_Name :: nat where "DIR_Name \<equiv> 0"
abbreviation (input) DIR_Attr :: nat where "DIR_Attr \<equiv> 11"
abbreviation (input) DIR_NTres :: nat where "DIR_NTres \<equiv> 12"
abbreviation (input) DIR_CrtTime :: nat where "DIR_CrtTime \<equiv> 14"
abbreviation (input) DIR_LstAccDate :: nat where "DIR_LstAccDate \<equiv> 18"
abbreviation (input) DIR_FstClusHI :: nat where "DIR_FstClusHI \<equiv> 20"
abbreviation (input) DIR_ModTime :: nat where "DIR_ModTime \<equiv> 22"
abbreviation (input) DIR_FstClusLO :: nat where "DIR_FstClusLO \<equiv> 26"
abbreviation (input) DIR_FileSize :: nat where "DIR_FileSize \<equiv> 28"
abbreviation (input) LDIR_Ord :: nat where "LDIR_Ord \<equiv> 0"
abbreviation (input) LDIR_Attr :: nat where "LDIR_Attr \<equiv> 11"
abbreviation (input) LDIR_Type :: nat where "LDIR_Type \<equiv> 12"
abbreviation (input) LDIR_Chksum :: nat where "LDIR_Chksum \<equiv> 13"
abbreviation (input) LDIR_FstClusLO :: nat where "LDIR_FstClusLO \<equiv> 26"
abbreviation (input) SZDIRE :: "'a::numeral" where "SZDIRE \<equiv> 32"
abbreviation (input) DDEM :: BYTE where "DDEM \<equiv> 0xE5"
abbreviation (input) RDDEM :: BYTE where "RDDEM \<equiv> 0x05"
abbreviation (input) LLEF :: BYTE where "LLEF \<equiv> 0x40"

abbreviation (input) FSI_LeadSig :: nat where "FSI_LeadSig \<equiv> 0"
abbreviation (input) FSI_StrucSig :: nat where "FSI_StrucSig \<equiv> 484"
abbreviation (input) FSI_Free_Count :: nat where "FSI_Free_Count \<equiv> 488"
abbreviation (input) FSI_Nxt_Free :: nat where "FSI_Nxt_Free \<equiv> 492"
abbreviation (input) BS_55AA :: nat where "BS_55AA \<equiv> 510"

abbreviation (input) MAX_DIR :: DWORD where "MAX_DIR \<equiv> 0x200000"
abbreviation (input) MAX_FAT12 :: DWORD where "MAX_FAT12 \<equiv> 0xFF5"
abbreviation (input) MAX_FAT16 :: DWORD where "MAX_FAT16 \<equiv> 0xFFF5"
abbreviation (input) MAX_FAT32 :: DWORD where "MAX_FAT32 \<equiv> 0x0FFFFFF5"

abbreviation (input) FF_VOLUMES :: "'a::numeral" where "FF_VOLUMES \<equiv> 4"
abbreviation (input) FF_MAX_LFN :: nat where "FF_MAX_LFN \<equiv> 255"
abbreviation (input) FF_LFN_BUF :: nat where "FF_LFN_BUF \<equiv> 255"
abbreviation (input) FF_SFN_BUF :: nat where "FF_SFN_BUF \<equiv> 12"
abbreviation (input) CODEPAGE :: WORD where "CODEPAGE \<equiv> 850"

section \<open>The physical drive\<close>

text \<open>
  The drive below \<^verbatim>\<open>addon/fatfs/diskio.cpp\<close>. The \<open>CDevice\<close> behind it (SD card, USB mass
  storage) is hardware: its contents are the parameter \<open>sectors\<close>, indexed by the sector
  number of the byte offset handed to \<open>Seek\<close>, and its faults are the parameter
  \<open>faults\<close>, one entry for each coming transfer: \<open>None\<close> is a transfer that succeeds,
  \<open>Some k\<close> one that moves at most \<open>k\<close> sectors and then reports an error; when the list is
  exhausted no further transfer fails. \<open>registered\<close> is what the device name service answers
  for the drive, \<open>attached\<close> is \<open>s_pVolume[pdrv] != 0\<close>.
\<close>

record drive =
  sectors :: "nat \<Rightarrow> BYTE list"
  faults :: "nat option list"
  registered :: bool
  attached :: bool

section \<open>The filesystem object\<close>

text \<open>
  \<open>FATFS\<close>; \<open>sobj\<close>, the synchronisation object (a \<open>CSpinLock\<close>), is its state: held or
  free.
\<close>

record FATFS =
  fs_type :: BYTE
  pdrv :: BYTE
  n_fats :: BYTE
  wflag :: BYTE
  fsi_flag :: BYTE
  fs_id :: WORD
  n_rootdir :: WORD
  csize :: WORD
  lfnbuf :: "WCHAR list"
  sobj :: bool
  last_clst :: DWORD
  free_clst :: DWORD
  n_fatent :: DWORD
  fsize :: DWORD
  volbase :: DWORD
  fatbase :: DWORD
  dirbase :: DWORD
  database :: DWORD
  winsect :: DWORD
  win :: "BYTE list"

text \<open>
  A volume is a filesystem object with what its operations reach outside of it: the physical
  drive \<open>pdrv\<close> names, the outcome of the coming calls of \<open>ff_memalloc\<close> (\<open>True\<close>: the heap is
  exhausted; no entry: the allocation succeeds) and the local time in seconds that \<open>CTimer\<close>
  returns to \<open>get_fattime\<close>.
\<close>

record vol = FATFS +
  drv :: drive
  heap :: "bool list"
  now :: DWORD

section \<open>Objects of the API\<close>

text \<open>
  Pointers into \<open>fs->win\<close> (\<open>DIR.dir\<close>, \<open>FIL.dir_ptr\<close>) are offsets into it. The pointer
  \<open>FFOBJID.fs\<close> is the number of the filesystem object it points to, \<open>None\<close> when null.
\<close>

record FFOBJID =
  obj_fs :: "nat option"
  obj_id :: WORD
  attr :: BYTE
  stat :: BYTE
  sclust :: DWORD
  objsize :: FSIZE

record FIL =
  fobj :: FFOBJID
  flag :: BYTE
  err :: FRESULT
  fptr :: FSIZE
  fclust :: DWORD
  fsect :: DWORD
  dir_sect :: DWORD
  dir_ptr :: nat
  buf :: "BYTE list"

record DIR =
  dobj :: FFOBJID
  dptr :: DWORD
  dclust :: DWORD
  dsect :: DWORD
  dir :: nat
  fn :: "BYTE list"
  blk_ofs :: DWORD
  pat :: "BYTE list"

record FILINFO =
  fno_fsize :: FSIZE
  fno_fdate :: WORD
  fno_ftime :: WORD
  fno_fattrib :: BYTE
  fno_altname :: "BYTE list"
  fno_fname :: "BYTE list"

section \<open>Well-formed memory\<close>

text \<open>The arrays have the sizes of their declarations: \<open>win[512]\<close>, the LFN working buffer of
  \<open>FF_MAX_LFN + 1\<close> units, and 512 bytes in each sector of the drive.\<close>

definition wf_vol :: "vol \<Rightarrow> bool" where
  "wf_vol v \<longleftrightarrow> length (win v) = SS \<and> (\<forall>s. length (sectors (drv v) s) = SS)"

end
