(* ===== verification/Fat_Bytes.thy ===== *)
theory Fat_Bytes
  imports Fat_Types
begin

text \<open>
  \<^verbatim>\<open>addon/fatfs/ff.c\<close>, lines 580-740: little-endian loads and stores, block copy, fill and
  comparison, character lookup. A pointer is a byte list with an index.
\<close>

unbundle bit_operations_syntax

section \<open>Loads and stores\<close>

definition ld_word :: "BYTE list \<Rightarrow> nat \<Rightarrow> WORD" where
  "ld_word p i =
     (let rv = ucast (p ! (i + 1));
          rv = push_bit 8 rv OR ucast (p ! i)
      in rv)"

definition ld_dword :: "BYTE list \<Rightarrow> nat \<Rightarrow> DWORD" where
  "ld_dword p i =
     (let rv = ucast (p ! (i + 3));
          rv = push_bit 8 rv OR ucast (p ! (i + 2));
          rv = push_bit 8 rv OR ucast (p ! (i + 1));
          rv = push_bit 8 rv OR ucast (p ! i)
      in rv)"

definition st_word :: "BYTE list \<Rightarrow> nat \<Rightarrow> WORD \<Rightarrow> BYTE list" where
  "st_word p i val =
     (let p = p[i := ucast val]; val = drop_bit 8 val
      in p[i + 1 := ucast val])"

definition st_dword :: "BYTE list \<Rightarrow> nat \<Rightarrow> DWORD \<Rightarrow> BYTE list" where
  "st_dword p i val =
     (let p = p[i := ucast val]; val = drop_bit 8 val;
          p = p[i + 1 := ucast val]; val = drop_bit 8 val;
          p = p[i + 2 := ucast val]; val = drop_bit 8 val
      in p[i + 3 := ucast val])"

lemma length_st_word [simp]: "length (st_word p i x) = length p"
  by (simp add: st_word_def Let_def)

lemma length_st_dword [simp]: "length (st_dword p i x) = length p"
  by (simp add: st_dword_def Let_def)

lemma ld_st_word: "i + 1 < length p \<Longrightarrow> ld_word (st_word p i x) i = x"
  by (rule bit_word_eqI) (auto simp: ld_word_def st_word_def bit_simps)

lemma ld_st_dword:
  assumes "i + 3 < length p"
  shows "ld_dword (st_dword p i x) i = x"
proof (rule bit_word_eqI)
  fix n
  assume "n < LENGTH(32)"
  then consider "n < 8" | "8 \<le> n" "n < 16" | "16 \<le> n" "n < 24" | "24 \<le> n" "n < 32"
    by (simp add: not_less) linarith
  then show "bit (ld_dword (st_dword p i x) i) n = bit x n"
    using assms by cases (auto simp: ld_dword_def st_dword_def bit_simps)
qed

lemma nth_st_word_other: "j \<noteq> i \<Longrightarrow> j \<noteq> i + 1 \<Longrightarrow> st_word p i x ! j = p ! j"
  by (simp add: st_word_def Let_def)

lemma nth_st_dword_other: "j < i \<or> i + 3 < j \<Longrightarrow> st_dword p i x ! j = p ! j"
  by (auto simp: st_dword_def Let_def)

lemma ld_word_cong: "p ! i = q ! i \<Longrightarrow> p ! (i + 1) = q ! (i + 1) \<Longrightarrow> ld_word p i = ld_word q i"
  by (simp add: ld_word_def)

lemma ld_dword_cong:
  assumes "\<And>k. k < 4 \<Longrightarrow> p ! (i + k) = q ! (i + k)"
  shows "ld_dword p i = ld_dword q i"
  using assms [of 0] assms [of 1] assms [of 2] assms [of 3] by (simp add: ld_dword_def)

lemma ld_word_st_word_other:
  "i + 1 < j \<or> j + 1 < i \<Longrightarrow> ld_word (st_word p i x) j = ld_word p j"
  by (auto simp: ld_word_def nth_st_word_other)

lemma ld_word_st_dword_other:
  "i + 3 < j \<or> j + 1 < i \<Longrightarrow> ld_word (st_dword p i x) j = ld_word p j"
  by (auto simp: ld_word_def nth_st_dword_other)

lemma ld_dword_st_dword_other:
  "i + 3 < j \<or> j + 3 < i \<Longrightarrow> ld_dword (st_dword p i x) j = ld_dword p j"
  by (auto simp: ld_dword_def nth_st_dword_other)

lemma ld_dword_st_word_other:
  "i + 1 < j \<or> j + 3 < i \<Longrightarrow> ld_dword (st_word p i x) j = ld_dword p j"
  by (auto simp: ld_dword_def nth_st_word_other)

section \<open>Block operations\<close>

text \<open>\<open>mem_cpy\<close> copies \<open>cnt\<close> bytes upwards, one by one.\<close>

fun mem_cpy :: "BYTE list \<Rightarrow> nat \<Rightarrow> BYTE list \<Rightarrow> nat \<Rightarrow> nat \<Rightarrow> BYTE list" where
  "mem_cpy dst d src s 0 = dst"
| "mem_cpy dst d src s (Suc cnt) = mem_cpy (dst[d := src ! s]) (d + 1) src (s + 1) cnt"

text \<open>\<open>mem_set\<close> and \<open>mem_cmp\<close> test \<open>--cnt\<close> after the first byte, so a count of zero stands
  for \<open>2 ^ 32\<close> bytes. Their loops are written over the number of bytes left.\<close>

fun mem_fill :: "BYTE list \<Rightarrow> nat \<Rightarrow> BYTE \<Rightarrow> nat \<Rightarrow> BYTE list" where
  "mem_fill dst d x 0 = dst"
| "mem_fill dst d x (Suc n) = mem_fill (dst[d := x]) (d + 1) x n"

definition do_count :: "UINT \<Rightarrow> nat" where
  "do_count cnt = (if cnt = 0 then 2 ^ 32 else unat cnt)"

definition mem_set :: "BYTE list \<Rightarrow> nat \<Rightarrow> BYTE \<Rightarrow> UINT \<Rightarrow> BYTE list" where
  "mem_set dst d val cnt = mem_fill dst d val (do_count cnt)"

fun mem_cmp_loop :: "BYTE list \<Rightarrow> nat \<Rightarrow> BYTE list \<Rightarrow> nat \<Rightarrow> nat \<Rightarrow> int" where
  "mem_cmp_loop dst d src s 0 = 0"
| "mem_cmp_loop dst d src s (Suc n) =
     (let r = uint (dst ! d) - uint (src ! s)
      in if n \<noteq> 0 \<and> r = 0 then mem_cmp_loop dst (d + 1) src (s + 1) n else r)"

definition mem_cmp :: "BYTE list \<Rightarrow> nat \<Rightarrow> BYTE list \<Rightarrow> nat \<Rightarrow> UINT \<Rightarrow> int" where
  "mem_cmp dst d src s cnt = mem_cmp_loop dst d src s (do_count cnt)"

text \<open>\<open>chk_chr\<close> scans a NUL-terminated string; a list without a terminator reads as one that
  ends at its length.\<close>

fun chk_chr :: "BYTE list \<Rightarrow> int \<Rightarrow> BYTE" where
  "chk_chr [] chr = 0"
| "chk_chr (c # str) chr = (if c \<noteq> 0 \<and> uint c \<noteq> chr then chk_chr str chr else c)"

lemma length_mem_cpy [simp]: "length (mem_cpy dst d src s n) = length dst"
  by (induction dst d src s n rule: mem_cpy.induct) simp_all

lemma nth_mem_cpy:
  "d + n \<le> length dst \<Longrightarrow>
   mem_cpy dst d src s n ! j = (if d \<le> j \<and> j < d + n then src ! (s + (j - d)) else dst ! j)"
proof (induction dst d src s n rule: mem_cpy.induct)
  case (1 dst d src s)
  then show ?case by auto
next
  case (2 dst d src s cnt)
  show ?case
  proof (cases "j = d")
    case True
    with 2 show ?thesis by simp
  next
    case False
    then have "d < j \<Longrightarrow> s + 1 + (j - (d + 1)) = s + (j - d)" by arith
    with False 2 show ?thesis by auto
  qed
qed

lemma length_mem_fill [simp]: "length (mem_fill dst d x n) = length dst"
  by (induction dst d x n rule: mem_fill.induct) simp_all

lemma nth_mem_fill:
  "d + n \<le> length dst \<Longrightarrow>
   mem_fill dst d x n ! j = (if d \<le> j \<and> j < d + n then x else dst ! j)"
  by (induction dst d x n rule: mem_fill.induct) (auto simp: nth_list_update)

lemma length_mem_set [simp]: "length (mem_set dst d x n) = length dst"
  by (simp add: mem_set_def)

lemma mem_set_all: "0 < n \<Longrightarrow> length dst = unat n \<Longrightarrow> mem_set dst 0 x n = replicate (unat n) x"
  by (rule nth_equalityI) (auto simp: mem_set_def do_count_def nth_mem_fill word_gt_0)

lemma mem_cmp_loop_zero:
  "mem_cmp_loop dst d src s n = 0 \<longleftrightarrow> (\<forall>k < n. dst ! (d + k) = src ! (s + k))"
proof (induction dst d src s n rule: mem_cmp_loop.induct)
  case (1 dst d src s)
  then show ?case by simp
next
  case (2 dst d src s n)
  show ?case
  proof (cases "dst ! d = src ! s")
    case False
    then have "uint (dst ! d) \<noteq> uint (src ! s)" by (simp flip: word_uint_eq_iff)
    with False show ?thesis by (auto intro: exI [of _ 0])
  next
    case True
    show ?thesis
    proof (cases n)
      case 0
      with True show ?thesis by simp
    next
      case (Suc m)
      with True 2 show ?thesis
        by (simp add: All_less_Suc2)
    qed
  qed
qed

lemma mem_cmp_zero:
  "0 < cnt \<Longrightarrow> mem_cmp dst d src s cnt = 0 \<longleftrightarrow> (\<forall>k < unat cnt. dst ! (d + k) = src ! (s + k))"
  by (auto simp: mem_cmp_def do_count_def mem_cmp_loop_zero word_gt_0)

text \<open>A character other than NUL is found exactly when it occurs before the terminator.\<close>

lemma chk_chr_found:
  "uint c \<noteq> 0 \<Longrightarrow> chk_chr str (uint c) \<noteq> 0 \<longleftrightarrow> c \<in> set (takeWhile (\<lambda>x. x \<noteq> 0) str)"
  by (induction str) (auto simp: unsigned_eq_0_iff simp flip: word_uint_eq_iff)

end
