(* ===== verification/Fat_Disk.thy ===== *)
theory Fat_Disk
  imports Fat_Bytes
begin

text \<open>
  \<^verbatim>\<open>addon/fatfs/diskio.cpp\<close>: the functions through which FatFs reaches the drive. A transfer
  consults the next entry of the drive's fault schedule; a failing one has moved some of its
  sectors. The bounce buffer for unaligned callers is not modelled: it changes no byte that a
  successful transfer moves.
\<close>

unbundle bit_operations_syntax

abbreviation (input) STA_NOINIT :: BYTE where "STA_NOINIT \<equiv> 0x01"
abbreviation (input) STA_PROTECT :: BYTE where "STA_PROTECT \<equiv> 0x04"
abbreviation (input) CTRL_SYNC :: BYTE where "CTRL_SYNC \<equiv> 0"
abbreviation (input) GET_SECTOR_SIZE :: BYTE where "GET_SECTOR_SIZE \<equiv> 2"
abbreviation (input) CTRL_EJECT :: BYTE where "CTRL_EJECT \<equiv> 7"

section \<open>The device\<close>

definition next_fault :: "drive \<Rightarrow> nat option \<times> drive" where
  "next_fault d =
     (case faults d of [] \<Rightarrow> (None, d) | f # fs \<Rightarrow> (f, d\<lparr>faults := fs\<rparr>))"

text \<open>\<open>dev_read d s n\<close>: whether the transfer of \<open>n\<close> sectors from sector \<open>s\<close> succeeded, the
  bytes moved, the drive.\<close>

definition dev_read :: "drive \<Rightarrow> nat \<Rightarrow> nat \<Rightarrow> bool \<times> BYTE list \<times> drive" where
  "dev_read d s n =
     (case next_fault d of
        (None, d') \<Rightarrow> (True, concat (map (sectors d) [s..<s + n]), d')
      | (Some k, d') \<Rightarrow> (False, concat (map (sectors d) [s..<s + min k n]), d'))"

definition store_sectors :: "(nat \<Rightarrow> BYTE list) \<Rightarrow> nat \<Rightarrow> nat \<Rightarrow> BYTE list \<Rightarrow> nat \<Rightarrow> BYTE list" where
  "store_sectors f s n data i =
     (if s \<le> i \<and> i < s + n then seg data (SS * (i - s)) SS else f i)"

definition dev_write :: "drive \<Rightarrow> nat \<Rightarrow> nat \<Rightarrow> BYTE list \<Rightarrow> bool \<times> drive" where
  "dev_write d s n data =
     (case next_fault d of
        (None, d') \<Rightarrow> (True, d'\<lparr>sectors := store_sectors (sectors d) s n data\<rparr>)
      | (Some k, d') \<Rightarrow> (False, d'\<lparr>sectors := store_sectors (sectors d) s (min k n) data\<rparr>))"

section \<open>diskio.cpp\<close>

definition disk_status :: "BYTE \<Rightarrow> drive \<Rightarrow> BYTE" where
  "disk_status p d = (if p < FF_VOLUMES \<and> attached d then 0 else STA_NOINIT)"

definition disk_initialize :: "BYTE \<Rightarrow> drive \<Rightarrow> BYTE \<times> drive" where
  "disk_initialize p d =
     (if p \<ge> FF_VOLUMES then (STA_NOINIT, d)
      else
        let d = d\<lparr>attached := registered d\<rparr> in
        if attached d then (0, d) else (STA_NOINIT, d))"

definition disk_read :: "BYTE \<Rightarrow> DWORD \<Rightarrow> UINT \<Rightarrow> drive \<Rightarrow> DRESULT \<times> BYTE list \<times> drive" where
  "disk_read p sector count d =
     (if p \<ge> FF_VOLUMES then (RES_PARERR, [], d)
      else if \<not> attached d then (RES_NOTRDY, [], d)
      else
        let nSize = count * SS in
        case dev_read d (unat sector) (unat nSize div SS) of (ok, data, d') \<Rightarrow>
          if \<not> ok then (RES_ERROR, data, d') else (RES_OK, data, d'))"

definition disk_write :: "BYTE \<Rightarrow> BYTE list \<Rightarrow> DWORD \<Rightarrow> UINT \<Rightarrow> drive \<Rightarrow> DRESULT \<times> drive" where
  "disk_write p buff sector count d =
     (if p \<ge> FF_VOLUMES then (RES_PARERR, d)
      else if \<not> attached d then (RES_NOTRDY, d)
      else
        let nSize = count * SS in
        case dev_write d (unat sector) (unat nSize div SS) buff of (ok, d') \<Rightarrow>
          if \<not> ok then (RES_ERROR, d') else (RES_OK, d'))"

text \<open>The commands of \<open>disk_ioctl\<close>; the word stored through \<open>buff\<close> is the second result. What
  \<open>RemoveDevice\<close> of the device answers is the parameter \<open>removed\<close>.\<close>

definition disk_ioctl ::
  "bool \<Rightarrow> BYTE \<Rightarrow> BYTE \<Rightarrow> drive \<Rightarrow> DRESULT \<times> WORD option \<times> drive" where
  "disk_ioctl removed p cmd d =
     (if cmd = CTRL_SYNC then (RES_OK, None, d)
      else if cmd = GET_SECTOR_SIZE then (RES_OK, Some SS, d)
      else if cmd = CTRL_EJECT then
        (if p \<ge> FF_VOLUMES then (RES_PARERR, None, d)
         else
           let d = (if \<not> attached d then d\<lparr>attached := registered d\<rparr> else d) in
           if \<not> attached d then (RES_NOTRDY, None, d)
           else if \<not> removed then (RES_ERROR, None, d)
           else (RES_OK, None, d\<lparr>attached := False\<rparr>))
      else (RES_PARERR, None, d))"

section \<open>What a transfer does\<close>

text \<open>A sector after a store, with its length; the rest of a failing transfer is untouched.\<close>

lemma length_store_sectors:
  assumes "\<And>i. length (f i) = SS" and "length data = SS * n"
  shows "length (store_sectors f s n data i) = SS"
proof (cases "s \<le> i \<and> i < s + n")
  case True
  then have "SS * (i - s) + SS \<le> SS * n"
    by (metis add.commute add_diff_inverse_nat add_less_cancel_left leD mult_Suc_right mult_le_mono2 not_less_eq_eq not_less)
  with True assms show ?thesis by (simp add: store_sectors_def)
next
  case False
  with assms show ?thesis by (auto simp: store_sectors_def)
qed

lemma store_sectors_one: "length data = SS \<Longrightarrow> store_sectors f s (Suc 0) data = f(s := data)"
  by (rule ext) (simp add: store_sectors_def seg_def)

lemma store_sectors_none [simp]: "store_sectors f s 0 data = f"
  by (rule ext) (auto simp: store_sectors_def)

text \<open>Single-sector transfers, the only ones of the window and of the file buffers.\<close>

lemma disk_read_one:
  "disk_read p s 1 d = (r, data, d') \<Longrightarrow> r = RES_OK \<Longrightarrow>
   data = sectors d (unat s) \<and> sectors d' = sectors d \<and> attached d' = attached d"
  by (auto simp: disk_read_def dev_read_def next_fault_def Let_def
      split: if_splits option.splits list.splits prod.splits)

lemma disk_read_sectors: "disk_read p s n d = (r, data, d') \<Longrightarrow> sectors d' = sectors d"
  by (auto simp: disk_read_def dev_read_def next_fault_def Let_def
      split: if_splits option.splits list.splits prod.splits)

lemma disk_read_attached: "disk_read p s n d = (r, data, d') \<Longrightarrow> attached d' = attached d"
  by (auto simp: disk_read_def dev_read_def next_fault_def Let_def
      split: if_splits option.splits list.splits prod.splits)

lemma length_disk_read_one:
  assumes "disk_read p s 1 d = (r, data, d')" and "\<And>i. length (sectors d i) = SS"
  shows "length data \<le> SS"
  using assms by (auto simp: disk_read_def dev_read_def next_fault_def Let_def min_def le_Suc_eq
      split: if_splits option.splits list.splits prod.splits)

lemma disk_write_one:
  "disk_write p b s 1 d = (r, d') \<Longrightarrow> length b = SS \<Longrightarrow> r = RES_OK \<Longrightarrow>
   sectors d' = (sectors d)(unat s := b) \<and> attached d' = attached d"
  by (auto simp: disk_write_def dev_write_def next_fault_def Let_def store_sectors_one
      split: if_splits option.splits list.splits prod.splits)

text \<open>Whatever a single-sector write reports, the sector holds its old or its new content and
  every other sector is unchanged.\<close>

lemma disk_write_one_cases:
  "disk_write p b s 1 d = (r, d') \<Longrightarrow> length b = SS \<Longrightarrow>
   sectors d' = sectors d \<or> sectors d' = (sectors d)(unat s := b)"
  by (auto simp: disk_write_def dev_write_def next_fault_def Let_def store_sectors_one min_def le_Suc_eq
      split: if_splits option.splits list.splits prod.splits)

lemma disk_write_attached: "disk_write p b s n d = (r, d') \<Longrightarrow> attached d' = attached d"
  by (auto simp: disk_write_def dev_write_def next_fault_def Let_def
      split: if_splits option.splits list.splits prod.splits)

text \<open>On an attached drive whose schedule holds no fault every transfer succeeds.\<close>

lemma disk_read_healthy:
  "p < FF_VOLUMES \<Longrightarrow> attached d \<Longrightarrow> faults d = [] \<Longrightarrow>
   disk_read p s 1 d = (RES_OK, sectors d (unat s), d)"
  by (simp add: disk_read_def dev_read_def next_fault_def Let_def)

lemma disk_write_healthy:
  "p < FF_VOLUMES \<Longrightarrow> attached d \<Longrightarrow> faults d = [] \<Longrightarrow> length b = SS \<Longrightarrow>
   disk_write p b s 1 d = (RES_OK, d\<lparr>sectors := (sectors d)(unat s := b)\<rparr>)"
  by (simp add: disk_write_def dev_write_def next_fault_def Let_def store_sectors_one)

end
