(* ===== verification/Fat_Sample.thy ===== *)
theory Fat_Sample
  imports Fat_Types
begin

text \<open>
  Small concrete volumes on which the properties are applied: a freshly mounted volume of a
  given type with one-sector FATs at the sectors 1 and 2, a root directory at sector 3 (cluster
  2 on FAT32) and the clusters 2, 3 and 4 of one sector each at the sectors 4, 5 and 6, on a
  drive without faults of which the non-zero beginnings of some sectors are listed.
\<close>

definition sample_drive :: "(nat \<times> BYTE list) list \<Rightarrow> drive" where
  "sample_drive secs =
     \<lparr>sectors = (\<lambda>s. case map_of secs s of
                      None \<Rightarrow> replicate SS 0
                    | Some bs \<Rightarrow> take SS (bs @ replicate SS 0)),
      faults = [], registered = True, attached = True\<rparr>"

definition sample :: "BYTE \<Rightarrow> (nat \<times> BYTE list) list \<Rightarrow> vol" where
  "sample ty secs =
     \<lparr>fs_type = ty, pdrv = 0, n_fats = 2, wflag = 0, fsi_flag = 0x80, fs_id = 1,
      n_rootdir = (if ty = FS_FAT32 then 0 else 16), csize = 1, lfnbuf = replicate 256 0, sobj = False,
      last_clst = 0xFFFFFFFF, free_clst = 0xFFFFFFFF, n_fatent = 5, fsize = 1,
      volbase = 0, fatbase = 1, dirbase = (if ty = FS_FAT32 then 2 else 3), database = 4,
      winsect = 0xFFFFFFFF, win = replicate SS 0,
      drv = sample_drive secs, heap = [], now = 0\<rparr>"

text \<open>The first FAT of the samples: cluster 2 is linked to 3, which ends the chain; 4 is free.\<close>

definition table12 :: "BYTE list" where
  "table12 = [0xF8, 0xFF, 0xFF, 0x03, 0xF0, 0xFF, 0x00, 0x00]"

definition table16 :: "BYTE list" where
  "table16 = [0xF8, 0xFF, 0xFF, 0xFF, 0x03, 0x00, 0xFF, 0xFF, 0x00, 0x00]"

definition table32 :: "BYTE list" where
  "table32 = [0xF8, 0xFF, 0xFF, 0x0F, 0xFF, 0xFF, 0xFF, 0x0F, 0x03, 0x00, 0x00, 0x00,
              0xFF, 0xFF, 0xFF, 0x0F, 0x00, 0x00, 0x00, 0x00]"

lemma length_sample_sector: "length (sectors (sample_drive secs) s) = SS"
  by (auto simp: sample_drive_def min_def split: option.split)

lemma sample_fields [simp]:
  "fs_type (sample ty secs) = ty" "pdrv (sample ty secs) = 0" "n_fats (sample ty secs) = 2"
  "wflag (sample ty secs) = 0" "csize (sample ty secs) = 1" "n_fatent (sample ty secs) = 5"
  "fsize (sample ty secs) = 1" "volbase (sample ty secs) = 0" "fatbase (sample ty secs) = 1"
  "database (sample ty secs) = 4" "winsect (sample ty secs) = 0xFFFFFFFF"
  "win (sample ty secs) = replicate SS 0" "drv (sample ty secs) = sample_drive secs"
  "heap (sample ty secs) = []" "last_clst (sample ty secs) = 0xFFFFFFFF"
  "free_clst (sample ty secs) = 0xFFFFFFFF" "sobj (sample ty secs) = False"
  "n_rootdir (sample ty secs) = (if ty = FS_FAT32 then 0 else 16)"
  "dirbase (sample ty secs) = (if ty = FS_FAT32 then 2 else 3)"
  "fs_id (sample ty secs) = 1" "fsi_flag (sample ty secs) = 0x80"
  by (simp_all add: sample_def)

lemma sample_drive_fields [simp]:
  "faults (sample_drive secs) = []" "registered (sample_drive secs)" "attached (sample_drive secs)"
  by (simp_all add: sample_drive_def)

lemma wf_sample [simp]: "wf_vol (sample ty secs)"
  by (simp add: wf_vol_def length_sample_sector)

lemma nth_sample_sector:
  "i < SS \<Longrightarrow> sectors (sample_drive secs) s ! i =
     (case map_of secs s of None \<Rightarrow> 0 | Some bs \<Rightarrow> if i < length bs then bs ! i else 0)"
  by (auto simp: sample_drive_def nth_append split: option.split)

end
