(* ===== verification/Fat_Window.thy ===== *)
theory Fat_Window
  imports Fat_Disk Fat_Sample
begin

text \<open>
  \<^verbatim>\<open>addon/fatfs/ff.c\<close>, lines 1038-1140: the disk access window \<open>win[]\<close>, a write-back cache of
  one sector (\<open>sync_window\<close>, \<open>move_window\<close>), \<open>sync_fs\<close> and \<open>clst2sect\<close>. What the file
  system sees of the drive is \<open>vsec\<close>: the sectors of the drive with the window laid over the
  sector it holds. The lemmas show that moving the window changes this view nowhere outside of
  the second FAT copy, brings the wanted sector into \<open>win[]\<close>, and never drops a dirty sector.
\<close>

unbundle bit_operations_syntax

section \<open>Window operations\<close>

definition sync_window :: "vol \<Rightarrow> FRESULT \<times> vol" where
  "sync_window v =
     (if wflag v \<noteq> 0 then
        (case disk_write (pdrv v) (win v) (winsect v) 1 (drv v) of (r, d) \<Rightarrow>
           let v = v\<lparr>drv := d\<rparr> in
           if r = RES_OK then
             (let v = v\<lparr>wflag := 0\<rparr>;
                  v = (if winsect v - fatbase v < fsize v then
                         (if n_fats v = 2 then
                            v\<lparr>drv := snd (disk_write (pdrv v) (win v) (winsect v + fsize v) 1 (drv v))\<rparr>
                          else v)
                       else v)
              in (FR_OK, v))
           else (FR_DISK_ERR, v))
      else (FR_OK, v))"

definition move_window :: "vol \<Rightarrow> DWORD \<Rightarrow> FRESULT \<times> vol" where
  "move_window v sector =
     (if sector \<noteq> winsect v then
        (case sync_window v of (res, v) \<Rightarrow>
           if res = FR_OK then
             (case disk_read (pdrv v) sector 1 (drv v) of (r, data, d) \<Rightarrow>
                let v = v\<lparr>drv := d, win := data @ drop (length data) (win v)\<rparr> in
                if r \<noteq> RES_OK then (FR_DISK_ERR, v\<lparr>winsect := 0xFFFFFFFF\<rparr>)
                else (FR_OK, v\<lparr>winsect := sector\<rparr>))
           else (res, v))
      else (FR_OK, v))"

definition sync_fs :: "vol \<Rightarrow> FRESULT \<times> vol" where
  "sync_fs v =
     (case sync_window v of (res, v) \<Rightarrow>
        if res = FR_OK then
          (let v = (if fs_type v = FS_FAT32 \<and> fsi_flag v = 1 then
                      (let w = mem_set (win v) 0 0 SS;
                           w = st_word w BS_55AA 0xAA55;
                           w = st_dword w FSI_LeadSig 0x41615252;
                           w = st_dword w FSI_StrucSig 0x61417272;
                           w = st_dword w FSI_Free_Count (free_clst v);
                           w = st_dword w FSI_Nxt_Free (last_clst v);
                           v = v\<lparr>win := w, winsect := volbase v + 1\<rparr>;
                           v = v\<lparr>drv := snd (disk_write (pdrv v) (win v) (winsect v) 1 (drv v))\<rparr>
                       in v\<lparr>fsi_flag := 0\<rparr>)
                    else v)
           in case disk_ioctl False (pdrv v) CTRL_SYNC (drv v) of (r, _, d) \<Rightarrow>
                (if r \<noteq> RES_OK then (FR_DISK_ERR, v\<lparr>drv := d\<rparr>) else (res, v\<lparr>drv := d\<rparr>)))
        else (res, v))"

definition clst2sect :: "vol \<Rightarrow> DWORD \<Rightarrow> DWORD" where
  "clst2sect v clst =
     (let clst = clst - 2 in
      if clst \<ge> n_fatent v - 2 then 0
      else database v + ucast (csize v) * clst)"

section \<open>What the operations leave alone\<close>

text \<open>The mount parameters of the volume, and the rest of the state outside of the window.\<close>

definition geo :: "vol \<Rightarrow> _" where
  "geo v = ((fs_type v, pdrv v, n_fats v, fs_id v, n_rootdir v, csize v, n_fatent v, fsize v),
            volbase v, fatbase v, dirbase v, database v, sobj v, now v, attached (drv v))"

definition alloc :: "vol \<Rightarrow> BYTE \<times> DWORD \<times> DWORD" where
  "alloc v = (fsi_flag v, last_clst v, free_clst v)"

definition misc :: "vol \<Rightarrow> WCHAR list \<times> bool list" where
  "misc v = (lfnbuf v, heap v)"

lemmas state_parts = geo_def alloc_def misc_def

lemma geo_fields:
  assumes "geo v' = geo v"
  shows "fs_type v' = fs_type v" "pdrv v' = pdrv v" "n_fats v' = n_fats v" "fs_id v' = fs_id v"
    "n_rootdir v' = n_rootdir v" "csize v' = csize v" "n_fatent v' = n_fatent v"
    "fsize v' = fsize v" "volbase v' = volbase v" "fatbase v' = fatbase v"
    "dirbase v' = dirbase v" "database v' = database v" "sobj v' = sobj v" "now v' = now v"
    "attached (drv v') = attached (drv v)"
  using assms by (simp_all add: geo_def)

lemma alloc_fields:
  assumes "alloc v' = alloc v"
  shows "fsi_flag v' = fsi_flag v" "last_clst v' = last_clst v" "free_clst v' = free_clst v"
  using assms by (simp_all add: alloc_def)

lemma misc_fields:
  assumes "misc v' = misc v"
  shows "lfnbuf v' = lfnbuf v" "heap v' = heap v"
  using assms by (simp_all add: misc_def)

lemma sync_window_frame:
  "sync_window v = (res, v') \<Longrightarrow>
   geo v' = geo v \<and> alloc v' = alloc v \<and> misc v' = misc v \<and> win v' = win v \<and> winsect v' = winsect v"
  by (auto simp: sync_window_def state_parts Let_def disk_write_attached
      split: prod.splits if_splits) (metis disk_write_attached snd_conv surj_pair)+


lemma move_window_frame:
  assumes "move_window v s = (res, v')"
  shows "geo v' = geo v \<and> alloc v' = alloc v \<and> misc v' = misc v"
proof (cases "s = winsect v")
  case True
  with assms show ?thesis by (simp add: move_window_def)
next
  case False
  obtain r1 v1 where s1: "sync_window v = (r1, v1)" by fastforce
  obtain r d x where rd: "disk_read (pdrv v1) s 1 (drv v1) = (r, x, d)" by (cases "disk_read (pdrv v1) s 1 (drv v1)")
  from False assms s1 rd disk_read_attached [OF rd] have "geo v' = geo v1 \<and> alloc v' = alloc v1 \<and> misc v' = misc v1"
    by (auto simp: move_window_def state_parts Let_def split: if_splits)
  with sync_window_frame [OF s1] show ?thesis by simp
qed

section \<open>The view of the drive through the window\<close>

text \<open>
  \<open>vsec v s\<close> is the content of sector \<open>s\<close> as the file system sees it. \<open>0xFFFFFFFF\<close> in
  \<open>winsect\<close> marks an invalid window, so that number is not a sector. The second FAT copy is
  written behind the back of the view: it is \<open>in_mirror\<close>.
\<close>

definition vsec :: "vol \<Rightarrow> nat \<Rightarrow> BYTE list" where
  "vsec v s = (if s = unat (winsect v) then win v else sectors (drv v) s)"

definition in_mirror :: "vol \<Rightarrow> nat \<Rightarrow> bool" where
  "in_mirror v s \<longleftrightarrow> n_fats v = 2 \<and> (\<exists>k < fsize v. s = unat (fatbase v + k + fsize v))"

definition bad_sector :: nat where
  "bad_sector = 0xFFFFFFFF"

text \<open>A clean window agrees with the drive.\<close>

definition coherent :: "vol \<Rightarrow> bool" where
  "coherent v \<longleftrightarrow>
     (wflag v = 0 \<longrightarrow> winsect v \<noteq> 0xFFFFFFFF \<longrightarrow> sectors (drv v) (unat (winsect v)) = win v)"

lemma in_mirror_geo: "geo v' = geo v \<Longrightarrow> in_mirror v' = in_mirror v"
  by (rule ext) (simp add: in_mirror_def geo_fields [of v' v])

lemma length_vsec: "wf_vol v \<Longrightarrow> length (vsec v s) = SS"
  by (simp add: wf_vol_def vsec_def)

lemma winsect_bad: "unat (winsect v) = bad_sector \<longleftrightarrow> winsect v = 0xFFFFFFFF"
  by (simp add: bad_sector_def word_unat_eq_iff)

text \<open>The two writes of \<open>sync_window\<close>.\<close>

lemma sync_window_view:
  assumes sw: "sync_window v = (res, v')" and wf: "wf_vol v" and co: "coherent v"
  shows "wf_vol v'" and "coherent v'"
    and "s \<noteq> bad_sector \<Longrightarrow> \<not> in_mirror v s \<Longrightarrow> vsec v' s = vsec v s"
    and "res = FR_OK \<Longrightarrow> wflag v' = 0"
    and "res \<noteq> FR_OK \<Longrightarrow> res = FR_DISK_ERR \<and> wflag v' = wflag v"
proof -
  have fr: "win v' = win v" "winsect v' = winsect v" using sync_window_frame [OF sw] by simp_all
  have len: "length (win v) = SS" "\<And>s. length (sectors (drv v) s) = SS" using wf by (auto simp: wf_vol_def)
  have all: "wf_vol v' \<and> coherent v' \<and> (s \<noteq> bad_sector \<longrightarrow> \<not> in_mirror v s \<longrightarrow> vsec v' s = vsec v s)
    \<and> (res = FR_OK \<longrightarrow> wflag v' = 0) \<and> (res \<noteq> FR_OK \<longrightarrow> res = FR_DISK_ERR \<and> wflag v' = wflag v)"
  proof (cases "wflag v = 0")
    case True
    with sw wf co show ?thesis by (simp add: sync_window_def)
  next
    case False
    obtain r d where w1: "disk_write (pdrv v) (win v) (winsect v) 1 (drv v) = (r, d)" by fastforce
    show ?thesis
    proof (cases "r = RES_OK")
      case bad: False
      with False sw w1 have v': "v' = v\<lparr>drv := d\<rparr>" and res: "res = FR_DISK_ERR"
        by (auto simp: sync_window_def)
      from disk_write_one_cases [OF w1 len(1)]
      have "sectors d = sectors (drv v) \<or> sectors d = (sectors (drv v))(unat (winsect v) := win v)" .
      with v' res False len show ?thesis by (auto simp: wf_vol_def coherent_def vsec_def)
    next
      case ok: True
      then have d: "sectors d = (sectors (drv v))(unat (winsect v) := win v)"
        using disk_write_one [OF w1 len(1)] by simp
      obtain r2 d2 where w2: "disk_write (pdrv v) (win v) (winsect v + fsize v) 1 d = (r2, d2)" by fastforce
      let ?m = "winsect v - fatbase v < fsize v \<and> n_fats v = 2"
      have v': "v' = v\<lparr>drv := if ?m then d2 else d, wflag := 0\<rparr>" and res: "res = FR_OK"
        using False sw w1 w2 ok by (auto simp: sync_window_def Let_def split: if_splits)
      have mir: "?m \<Longrightarrow> in_mirror v (unat (winsect v + fsize v))"
        by (auto simp: in_mirror_def word_sub_less_iff)
      have d2: "sectors d2 = sectors d \<or> sectors d2 = (sectors d)(unat (winsect v + fsize v) := win v)"
        using disk_write_one_cases [OF w2 len(1)] .
      show ?thesis
      proof (cases ?m)
        case True
        from d2 show ?thesis
          using v' res d len mir [OF True] True by (auto simp: wf_vol_def coherent_def vsec_def)
      next
        case no: False
        then have "v' = v\<lparr>drv := d, wflag := 0\<rparr>" using v' by auto
        then show ?thesis using res d len by (auto simp: wf_vol_def coherent_def vsec_def)
      qed
    qed
  qed
  then show "wf_vol v'" and "coherent v'"
    and "s \<noteq> bad_sector \<Longrightarrow> \<not> in_mirror v s \<Longrightarrow> vsec v' s = vsec v s"
    and "res = FR_OK \<Longrightarrow> wflag v' = 0"
    and "res \<noteq> FR_OK \<Longrightarrow> res = FR_DISK_ERR \<and> wflag v' = wflag v" by simp_all
qed


lemma move_window_view:
  assumes mw: "move_window v t = (res, v')" and wf: "wf_vol v" and co: "coherent v"
  shows "wf_vol v'" and "coherent v'"
    and "s \<noteq> bad_sector \<Longrightarrow> \<not> in_mirror v s \<Longrightarrow> vsec v' s = vsec v s"
    and "res = FR_OK \<Longrightarrow> winsect v' = t"
    and "res = FR_OK \<Longrightarrow> unat t \<noteq> bad_sector \<Longrightarrow> \<not> in_mirror v (unat t) \<Longrightarrow> win v' = vsec v (unat t)"
    and "res = FR_OK \<Longrightarrow> t \<noteq> winsect v \<Longrightarrow> wflag v' = 0"
    and "res \<noteq> FR_OK \<Longrightarrow> res = FR_DISK_ERR \<and>
         (winsect v' = 0xFFFFFFFF \<and> wflag v' = 0 \<or>
          winsect v' = winsect v \<and> win v' = win v \<and> wflag v' = wflag v)"
proof -
  have all: "wf_vol v' \<and> coherent v'
    \<and> (s \<noteq> bad_sector \<longrightarrow> \<not> in_mirror v s \<longrightarrow> vsec v' s = vsec v s)
    \<and> (res = FR_OK \<longrightarrow> winsect v' = t)
    \<and> (res = FR_OK \<longrightarrow> unat t \<noteq> bad_sector \<longrightarrow> \<not> in_mirror v (unat t) \<longrightarrow> win v' = vsec v (unat t))
    \<and> (res = FR_OK \<longrightarrow> t \<noteq> winsect v \<longrightarrow> wflag v' = 0)
    \<and> (res \<noteq> FR_OK \<longrightarrow> res = FR_DISK_ERR \<and>
         (winsect v' = 0xFFFFFFFF \<and> wflag v' = 0 \<or>
          winsect v' = winsect v \<and> win v' = win v \<and> wflag v' = wflag v))"
  proof (cases "t = winsect v")
    case True
    with assms show ?thesis by (auto simp: move_window_def vsec_def)
  next
    case False
    obtain r1 v1 where s1: "sync_window v = (r1, v1)" by fastforce
    note fr = sync_window_frame [OF s1] and sv = sync_window_view [OF s1 wf co]
    show ?thesis
    proof (cases "r1 = FR_OK")
      case bad: False
      with False mw s1 have "v' = v1" "res = r1" by (auto simp: move_window_def)
      with bad fr sv sv(5) show ?thesis by simp
    next
      case ok: True
      obtain r x d where rd: "disk_read (pdrv v1) t 1 (drv v1) = (r, x, d)"
        by (cases "disk_read (pdrv v1) t 1 (drv v1)")
      have sec: "sectors d = sectors (drv v1)" using disk_read_sectors [OF rd] .
      have clean: "wflag v1 = 0" and wf1: "wf_vol v1" and co1: "coherent v1" using sv ok by simp_all
      have drive: "u \<noteq> bad_sector \<Longrightarrow> sectors (drv v1) u = vsec v1 u" for u
        using co1 clean by (cases "winsect v1 = 0xFFFFFFFF") (auto simp: vsec_def coherent_def bad_sector_def)
      show ?thesis
      proof (cases "r = RES_OK")
        case True
        then have x: "x = sectors (drv v1) (unat t)" using disk_read_one [OF rd] by simp
        have lx: "length x = SS" using wf1 x by (simp add: wf_vol_def)
        have v': "v' = v1\<lparr>drv := d, win := x, winsect := t\<rparr>" and res: "res = FR_OK"
          using False mw s1 ok rd True lx wf1 by (auto simp: move_window_def Let_def wf_vol_def)
        show ?thesis using v' res clean wf1 co1 sec x drive fr sv(3)
          by (auto simp: wf_vol_def coherent_def vsec_def bad_sector_def)
      next
        case no: False
        then have v': "v' = v1\<lparr>drv := d, win := x @ drop (length x) (win v1), winsect := 0xFFFFFFFF\<rparr>"
          and res: "res = FR_DISK_ERR"
          using False mw s1 ok rd by (auto simp: move_window_def Let_def)
        have "length x \<le> SS" using length_disk_read_one [OF rd] wf1 by (simp add: wf_vol_def)
        then show ?thesis using v' res clean wf1 co1 sec drive sv(3)
          by (auto simp: wf_vol_def coherent_def vsec_def bad_sector_def)
      qed
    qed
  qed
  then show "wf_vol v'" and "coherent v'"
    and "s \<noteq> bad_sector \<Longrightarrow> \<not> in_mirror v s \<Longrightarrow> vsec v' s = vsec v s"
    and "res = FR_OK \<Longrightarrow> winsect v' = t"
    and "res = FR_OK \<Longrightarrow> unat t \<noteq> bad_sector \<Longrightarrow> \<not> in_mirror v (unat t) \<Longrightarrow> win v' = vsec v (unat t)"
    and "res = FR_OK \<Longrightarrow> t \<noteq> winsect v \<Longrightarrow> wflag v' = 0"
    and "res \<noteq> FR_OK \<Longrightarrow> res = FR_DISK_ERR \<and>
         (winsect v' = 0xFFFFFFFF \<and> wflag v' = 0 \<or>
          winsect v' = winsect v \<and> win v' = win v \<and> wflag v' = wflag v)" by simp_all
qed

text \<open>Changing \<open>win[]\<close> and setting the dirty flag writes one sector of the view.\<close>

lemma edit_window_view:
  assumes "wf_vol v" and "length w = SS"
  shows "wf_vol (v\<lparr>win := w, wflag := 1\<rparr>)" and "coherent (v\<lparr>win := w, wflag := 1\<rparr>)"
    and "vsec (v\<lparr>win := w, wflag := 1\<rparr>) s = (if s = unat (winsect v) then w else vsec v s)"
  using assms by (auto simp: wf_vol_def coherent_def vsec_def)

text \<open>On a healthy drive the window always moves.\<close>

definition healthy :: "vol \<Rightarrow> bool" where
  "healthy v \<longleftrightarrow> pdrv v < FF_VOLUMES \<and> attached (drv v) \<and> faults (drv v) = []"

lemma sync_window_healthy:
  assumes "healthy v" and "wf_vol v"
  shows "\<exists>v'. sync_window v = (FR_OK, v') \<and> healthy v'"
  using assms disk_write_healthy [of "pdrv v" "drv v" "win v"]
  by (auto simp: sync_window_def healthy_def wf_vol_def Let_def disk_write_healthy)

lemma move_window_healthy:
  assumes h: "healthy v" and wf: "wf_vol v"
  shows "\<exists>v'. move_window v t = (FR_OK, v') \<and> healthy v'"
proof -
  obtain v1 where "sync_window v = (FR_OK, v1)" and "healthy v1"
    using sync_window_healthy [OF h wf] by blast
  with h show ?thesis by (auto simp: move_window_def healthy_def disk_read_healthy Let_def)
qed

end
