(* ===== verification/Fat_Codec.thy ===== *)
theory Fat_Codec
  imports Fat_Prelude
begin

text \<open>
  The three on-disk encodings of a file allocation table, over the table's bytes. They are the
  specification that \<open>get_fat\<close> and \<open>put_fat\<close> (\<^verbatim>\<open>ff.c\<close>, lines 1149-1275) are proved
  against: a table image is a function from byte offsets to bytes, and each encoding reads and
  writes the entry of a cluster. What the cluster-chain code relies on is the locale
  \<open>fat_codec\<close>: an entry reads back as it was written, cut to the width of the encoding, and
  writing it changes no other entry. FAT12, FAT16 and FAT32 are its three interpretations.
\<close>

unbundle bit_operations_syntax

section \<open>The interface\<close>

locale fat_codec =
  fixes dec :: "(nat \<Rightarrow> BYTE) \<Rightarrow> nat \<Rightarrow> DWORD"
    and enc :: "(nat \<Rightarrow> BYTE) \<Rightarrow> nat \<Rightarrow> DWORD \<Rightarrow> nat \<Rightarrow> BYTE"
    and cut :: DWORD
    and bytes :: "nat \<Rightarrow> nat"
  assumes dec_enc_same: "dec (enc im c x) c = x AND cut"
    and dec_enc_other: "c' \<noteq> c \<Longrightarrow> dec (enc im c x) c' = dec im c'"
    and dec_cong: "(\<And>i. i < bytes n \<Longrightarrow> im i = im' i) \<Longrightarrow> c < n \<Longrightarrow> dec im c = dec im' c"
    and enc_cong: "(\<And>i. i < bytes n \<Longrightarrow> im i = im' i) \<Longrightarrow> c < n \<Longrightarrow> i < bytes n \<Longrightarrow>
       enc im c x i = enc im' c x i"
begin

lemma dec_enc: "dec (enc im c x) c' = (if c' = c then x AND cut else dec im c')"
  by (simp add: dec_enc_same dec_enc_other)

text \<open>Freeing a list of clusters zeroes exactly their entries.\<close>

lemma dec_free_all:
  "dec (fold (\<lambda>c im. enc im c 0) cs im) c' = (if c' \<in> set cs then 0 else dec im c')"
  by (induction cs arbitrary: im) (auto simp: dec_enc)

text \<open>Appending a cluster: the new one becomes the end of the chain, the old end points to it.\<close>

lemma dec_append:
  "n \<noteq> c \<Longrightarrow> dec (enc (enc im n x) c y) c' =
     (if c' = c then y AND cut else if c' = n then x AND cut else dec im c')"
  by (simp add: dec_enc)

text \<open>Writes to different entries commute as far as any reader can tell.\<close>

lemma dec_enc_commute:
  "c \<noteq> d \<Longrightarrow> dec (enc (enc im c x) d y) c' = dec (enc (enc im d y) c x) c'"
  by (simp add: dec_enc)

text \<open>The last write to an entry wins.\<close>

lemma dec_enc_twice: "dec (enc (enc im c x) c y) c' = dec (enc im c y) c'"
  by (simp add: dec_enc)

end

section \<open>The three encodings\<close>

definition dec12 :: "(nat \<Rightarrow> BYTE) \<Rightarrow> nat \<Rightarrow> DWORD" where
  "dec12 im c =
     (let b = c + c div 2;
          w = ucast (im b) OR push_bit 8 (ucast (im (b + 1)))
      in if odd c then drop_bit 4 w else w AND 0xFFF)"

definition enc12 :: "(nat \<Rightarrow> BYTE) \<Rightarrow> nat \<Rightarrow> DWORD \<Rightarrow> nat \<Rightarrow> BYTE" where
  "enc12 im c x =
     (let b = c + c div 2 in
      if odd c then im(b := (im b AND 0x0F) OR push_bit 4 (ucast x), b + 1 := ucast (drop_bit 4 x))
      else im(b := ucast x, b + 1 := (im (b + 1) AND 0xF0) OR (ucast (drop_bit 8 x) AND 0x0F)))"

definition bytes12 :: "nat \<Rightarrow> nat" where
  "bytes12 n = n * 3 div 2 + n mod 2"

definition dec16 :: "(nat \<Rightarrow> BYTE) \<Rightarrow> nat \<Rightarrow> DWORD" where
  "dec16 im c = ucast (im (2 * c)) OR push_bit 8 (ucast (im (2 * c + 1)))"

definition enc16 :: "(nat \<Rightarrow> BYTE) \<Rightarrow> nat \<Rightarrow> DWORD \<Rightarrow> nat \<Rightarrow> BYTE" where
  "enc16 im c x = im(2 * c := ucast x, 2 * c + 1 := ucast (drop_bit 8 x))"

text \<open>A FAT32 entry is 28 bits wide; the top four bits of its double word are kept.\<close>

definition dword32 :: "(nat \<Rightarrow> BYTE) \<Rightarrow> nat \<Rightarrow> DWORD" where
  "dword32 im c =
     ucast (im (4 * c)) OR push_bit 8 (ucast (im (4 * c + 1)))
     OR push_bit 16 (ucast (im (4 * c + 2))) OR push_bit 24 (ucast (im (4 * c + 3)))"

definition dec32 :: "(nat \<Rightarrow> BYTE) \<Rightarrow> nat \<Rightarrow> DWORD" where
  "dec32 im c = dword32 im c AND 0x0FFFFFFF"

definition enc32 :: "(nat \<Rightarrow> BYTE) \<Rightarrow> nat \<Rightarrow> DWORD \<Rightarrow> nat \<Rightarrow> BYTE" where
  "enc32 im c x =
     (let x = (x AND 0x0FFFFFFF) OR (dword32 im c AND 0xF0000000) in
      im(4 * c := ucast x, 4 * c + 1 := ucast (drop_bit 8 x),
         4 * c + 2 := ucast (drop_bit 16 x), 4 * c + 3 := ucast (drop_bit 24 x)))"

section \<open>FAT12\<close>

text \<open>Entries of neighbouring clusters share a byte: the lower one owns its low nibble when
  it is even, and the upper one owns the high nibble.\<close>

lemma masks: "(0xFFF :: DWORD) = mask 12" "(0x0F :: BYTE) = mask 4"
    "(0xF0 :: BYTE) = push_bit 4 (mask 4)" "(0xFFFF :: DWORD) = mask 16"
    "(0x0FFFFFFF :: DWORD) = mask 28" "(0xF0000000 :: DWORD) = push_bit 28 (mask 4)"
  by (simp_all add: mask_eq_exp_minus_1 push_bit_eq_mult)

lemma dec12_enc12_same: "dec12 (enc12 im c x) c = x AND 0xFFF"
proof (rule bit_word_eqI)
  fix n :: nat
  assume "n < LENGTH(32)"
  consider "n < 4" | "4 \<le> n" "n < 8" | "8 \<le> n" "n < 12" | "12 \<le> n" by linarith
  then show "bit (dec12 (enc12 im c x) c) n = bit (x AND 0xFFF) n"
    by cases (auto simp: dec12_def enc12_def Let_def masks bit_simps)
qed

lemma enc12_outside:
  "i \<noteq> c + c div 2 \<Longrightarrow> i \<noteq> c + c div 2 + 1 \<Longrightarrow> enc12 im c x i = im i"
  by (simp add: enc12_def Let_def)

lemma dec12_even: "dec12 im (2 * k) = (ucast (im (3 * k)) OR push_bit 8 (ucast (im (3 * k + 1)))) AND 0xFFF"
  by (simp add: dec12_def Let_def)

lemma dec12_odd:
  "dec12 im (2 * k + 1) = drop_bit 4 (ucast (im (3 * k + 1)) OR push_bit 8 (ucast (im (3 * k + 2))))"
  by (simp add: dec12_def Let_def)

lemma enc12_even:
  "enc12 im (2 * k) x = im(3 * k := ucast x,
     3 * k + 1 := (im (3 * k + 1) AND 0xF0) OR (ucast (drop_bit 8 x) AND 0x0F))"
  by (simp add: enc12_def Let_def)

lemma enc12_odd:
  "enc12 im (2 * k + 1) x = im(3 * k + 1 := (im (3 * k + 1) AND 0x0F) OR push_bit 4 (ucast x),
     3 * k + 2 := ucast (drop_bit 4 x))"
  by (simp add: enc12_def Let_def)

lemma dec12_enc12_shared:
  "dec12 (enc12 im (2 * k) x) (2 * k + 1) = dec12 im (2 * k + 1)" (is "?odd = ?odd'")
  "dec12 (enc12 im (2 * k + 1) x) (2 * k) = dec12 im (2 * k)" (is "?even = ?even'")
proof -
  have "bit ?odd n = bit ?odd' n \<and> bit ?even n = bit ?even' n" if "n < LENGTH(32)" for n
  proof -
    consider "n < 4" | "4 \<le> n" "n < 8" | "8 \<le> n" "n < 12" | "12 \<le> n" by linarith
    then show ?thesis unfolding dec12_even dec12_odd enc12_even enc12_odd
      by cases (auto simp: masks bit_simps dest: bit_imp_le_length)
  qed
  then show "?odd = ?odd'" "?even = ?even'" by (auto intro: bit_word_eqI)
qed

lemma dec12_enc12_other:
  assumes "c' \<noteq> c"
  shows "dec12 (enc12 im c x) c' = dec12 im c'"
proof (cases "c' div 2 = c div 2")
  case True
  with assms have "c = 2 * (c div 2) \<and> c' = 2 * (c div 2) + 1 \<or> c = 2 * (c div 2) + 1 \<and> c' = 2 * (c div 2)"
    by linarith
  then obtain k where "c = 2 * k \<and> c' = 2 * k + 1 \<or> c = 2 * k + 1 \<and> c' = 2 * k" by blast
  then show ?thesis by (elim disjE) (simp_all only: dec12_enc12_shared)
next
  case False
  then have "c' div 2 < c div 2 \<or> c div 2 < c' div 2" by linarith
  then have "c' + c' div 2 + 1 < c + c div 2 \<or> c + c div 2 + 1 < c' + c' div 2"
    by (elim disjE) linarith+
  then have far: "enc12 im c x (c' + c' div 2) = im (c' + c' div 2)"
    "enc12 im c x (c' + c' div 2 + 1) = im (c' + c' div 2 + 1)"
    by (auto intro!: enc12_outside)
  show ?thesis unfolding dec12_def Let_def far ..
qed

lemma bytes12_bound: "c < n \<Longrightarrow> c + c div 2 < bytes12 n" "c < n \<Longrightarrow> c + c div 2 + 1 < bytes12 n"
  unfolding bytes12_def
  by (cases "even c"; cases "even n"; elim evenE oddE; simp)+

lemma bytes12_agree:
  assumes "\<And>i. i < bytes12 n \<Longrightarrow> im i = im' i" and "c < n"
  shows "im (c + c div 2) = im' (c + c div 2)" and "im (c + c div 2 + 1) = im' (c + c div 2 + 1)"
  by (rule assms(1), rule bytes12_bound [OF assms(2)])+

interpretation f12: fat_codec dec12 enc12 "0xFFF" bytes12
proof unfold_locales
  show "dec12 im c = dec12 im' c" if "\<And>i. i < bytes12 n \<Longrightarrow> im i = im' i" and "c < n" for im im' c n
    unfolding dec12_def Let_def by (simp only: bytes12_agree [of n im im', OF that])
  show "enc12 im c x i = enc12 im' c x i"
    if "\<And>i. i < bytes12 n \<Longrightarrow> im i = im' i" and "c < n" and "i < bytes12 n" for im im' c x i n
    using that(1) [OF that(3)] bytes12_agree [of n im im', OF that(1,2)]
    unfolding enc12_def Let_def by (simp only: fun_upd_apply split: if_split) simp
qed (rule dec12_enc12_same, rule dec12_enc12_other)

section \<open>FAT16\<close>

lemma dec16_enc16_same: "dec16 (enc16 im c x) c = x AND 0xFFFF"
proof (rule bit_word_eqI)
  fix n :: nat
  assume "n < LENGTH(32)"
  consider "n < 8" | "8 \<le> n" "n < 16" | "16 \<le> n" by linarith
  then show "bit (dec16 (enc16 im c x) c) n = bit (x AND 0xFFFF) n"
    by cases (auto simp: dec16_def enc16_def masks bit_simps)
qed

lemma enc16_outside: "i div 2 \<noteq> c \<Longrightarrow> enc16 im c x i = im i"
  by (auto simp: enc16_def)

lemma dec16_enc16_other: "c' \<noteq> c \<Longrightarrow> dec16 (enc16 im c x) c' = dec16 im c'"
  unfolding dec16_def by (simp add: enc16_outside)

interpretation f16: fat_codec dec16 enc16 "0xFFFF" "\<lambda>n. 2 * n"
proof unfold_locales
  show "dec16 im c = dec16 im' c" if "\<And>i. i < 2 * n \<Longrightarrow> im i = im' i" and "c < n" for im im' c n
    using that(1) [of "2 * c"] that(1) [of "2 * c + 1"] that(2) by (simp add: dec16_def)
  show "enc16 im c x i = enc16 im' c x i"
    if "\<And>i. i < 2 * n \<Longrightarrow> im i = im' i" and "i < 2 * n" for im im' c x i n
    using that(1) [OF that(2)] by (simp add: enc16_def)
qed (rule dec16_enc16_same, rule dec16_enc16_other)

section \<open>FAT32\<close>

lemma dword32_bytes:
  "dword32 (im(4 * c := ucast x, 4 * c + 1 := ucast (drop_bit 8 x),
      4 * c + 2 := ucast (drop_bit 16 x), 4 * c + 3 := ucast (drop_bit 24 x))) c = x"
proof (rule bit_word_eqI)
  fix n :: nat
  assume "n < LENGTH(32)"
  then consider "n < 8" | "8 \<le> n" "n < 16" | "16 \<le> n" "n < 24" | "24 \<le> n" "n < 32"
    by (simp add: not_less) linarith
  then show "bit (dword32 (im(4 * c := ucast x, 4 * c + 1 := ucast (drop_bit 8 x),
      4 * c + 2 := ucast (drop_bit 16 x), 4 * c + 3 := ucast (drop_bit 24 x))) c) n = bit x n"
    by cases (auto simp: dword32_def bit_simps)
qed

lemma dword32_enc32_same:
  "dword32 (enc32 im c x) c = (x AND 0x0FFFFFFF) OR (dword32 im c AND 0xF0000000)"
  unfolding enc32_def Let_def by (rule dword32_bytes)

lemma dec32_enc32_same: "dec32 (enc32 im c x) c = x AND 0x0FFFFFFF"
  by (rule bit_word_eqI) (auto simp: dec32_def dword32_enc32_same masks bit_simps)

lemma enc32_outside: "i div 4 \<noteq> c \<Longrightarrow> enc32 im c x i = im i"
  by (auto simp: enc32_def Let_def)

lemma dword32_enc32_other: "c' \<noteq> c \<Longrightarrow> dword32 (enc32 im c x) c' = dword32 im c'"
  unfolding dword32_def by (simp add: enc32_outside)

lemma dec32_enc32_other: "c' \<noteq> c \<Longrightarrow> dec32 (enc32 im c x) c' = dec32 im c'"
  by (simp add: dec32_def dword32_enc32_other)

lemma dword32_cong:
  "(\<And>i. i < 4 * n \<Longrightarrow> im i = im' i) \<Longrightarrow> c < n \<Longrightarrow> dword32 im c = dword32 im' c"
  unfolding dword32_def by simp

interpretation f32: fat_codec dec32 enc32 "0x0FFFFFFF" "\<lambda>n. 4 * n"
proof unfold_locales
  show dec: "dec32 im c = dec32 im' c" if "\<And>i. i < 4 * n \<Longrightarrow> im i = im' i" and "c < n" for im im' c n
    unfolding dec32_def by (simp only: dword32_cong [of n im im', OF that])
  show "enc32 im c x i = enc32 im' c x i"
    if "\<And>i. i < 4 * n \<Longrightarrow> im i = im' i" and "c < n" and "i < 4 * n" for im im' c x i n
    unfolding enc32_def Let_def dword32_cong [of n im im', OF that(1,2), simplified]
    using that(1) [OF that(3)] by simp
qed (rule dec32_enc32_same, rule dec32_enc32_other)

end
