(* ===== verification/Fat_Table.thy ===== *)
theory Fat_Table
  imports Fat_Window Fat_Codec
begin

text \<open>
  \<^verbatim>\<open>addon/fatfs/ff.c\<close>, lines 1143-1276: access to the entries of the FAT through the window
  (\<open>get_fat\<close>, \<open>put_fat\<close>). The lemmas show that they implement the encodings of
  \<open>Fat_Codec\<close> on the bytes of the first FAT copy, sector by sector, also where a FAT12 entry
  straddles two sectors; that no other sector changes; and that a failing access changes no
  entry but the one addressed.
\<close>

unbundle bit_operations_syntax

section \<open>Reading and writing an entry\<close>

definition get_fat :: "vol \<Rightarrow> DWORD \<Rightarrow> DWORD \<times> vol" where
  "get_fat v clst =
     (if clst < 2 \<or> clst \<ge> n_fatent v then (1, v)
      else if fs_type v = FS_FAT12 then
        (let bc = clst; bc = bc + bc div 2 in
         case move_window v (fatbase v + bc div SS) of (res, v) \<Rightarrow>
         if res \<noteq> FR_OK then (0xFFFFFFFF, v) else
         let wc = ucast (win v ! unat (bc mod SS)); bc = bc + 1 in
         case move_window v (fatbase v + bc div SS) of (res, v) \<Rightarrow>
         if res \<noteq> FR_OK then (0xFFFFFFFF, v) else
         let wc = wc OR push_bit 8 (ucast (win v ! unat (bc mod SS))) in
         (if clst AND 1 \<noteq> 0 then drop_bit 4 wc else wc AND 0xFFF, v))
      else if fs_type v = FS_FAT16 then
        (case move_window v (fatbase v + clst div (SS div 2)) of (res, v) \<Rightarrow>
         if res \<noteq> FR_OK then (0xFFFFFFFF, v)
         else (ucast (ld_word (win v) (unat (clst * 2 mod SS))), v))
      else if fs_type v = FS_FAT32 then
        (case move_window v (fatbase v + clst div (SS div 4)) of (res, v) \<Rightarrow>
         if res \<noteq> FR_OK then (0xFFFFFFFF, v)
         else (ld_dword (win v) (unat (clst * 4 mod SS)) AND 0x0FFFFFFF, v))
      else (1, v))"

text \<open>One byte of a FAT12 entry, or a whole entry, put into the window.\<close>

definition set_win :: "vol \<Rightarrow> BYTE list \<Rightarrow> vol" where
  "set_win v w = v\<lparr>win := w, wflag := 1\<rparr>"

definition put_fat :: "vol \<Rightarrow> DWORD \<Rightarrow> DWORD \<Rightarrow> FRESULT \<times> vol" where
  "put_fat v clst val =
     (if clst \<ge> 2 \<and> clst < n_fatent v then
        (if fs_type v = FS_FAT12 then
           (let bc = clst; bc = bc + bc div 2 in
            case move_window v (fatbase v + bc div SS) of (res, v) \<Rightarrow>
            if res \<noteq> FR_OK then (res, v) else
            let p = unat (bc mod SS); bc = bc + 1;
                v = set_win v ((win v)[p := if clst AND 1 \<noteq> 0
                                            then (win v ! p AND 0x0F) OR push_bit 4 (ucast val)
                                            else ucast val]) in
            case move_window v (fatbase v + bc div SS) of (res, v) \<Rightarrow>
            if res \<noteq> FR_OK then (res, v) else
            let p = unat (bc mod SS) in
            (res, set_win v ((win v)[p := if clst AND 1 \<noteq> 0 then ucast (drop_bit 4 val)
                                          else (win v ! p AND 0xF0) OR (ucast (drop_bit 8 val) AND 0x0F)])))
         else if fs_type v = FS_FAT16 then
           (case move_window v (fatbase v + clst div (SS div 2)) of (res, v) \<Rightarrow>
            if res \<noteq> FR_OK then (res, v)
            else (res, set_win v (st_word (win v) (unat (clst * 2 mod SS)) (ucast val))))
         else if fs_type v = FS_FAT32 then
           (case move_window v (fatbase v + clst div (SS div 4)) of (res, v) \<Rightarrow>
            if res \<noteq> FR_OK then (res, v)
            else
              let p = unat (clst * 4 mod SS);
                  val = (val AND 0x0FFFFFFF) OR (ld_dword (win v) p AND 0xF0000000)
              in (res, set_win v (st_dword (win v) p val)))
         else (FR_INT_ERR, v))
      else (FR_INT_ERR, v))"

section \<open>Views of a volume\<close>

text \<open>\<open>vok\<close> is the invariant of the window; \<open>pub\<close> are the sectors whose content is the
  file system's; \<open>view_eq\<close> relates volumes that differ in the window only.\<close>

definition vok :: "vol \<Rightarrow> bool" where
  "vok v \<longleftrightarrow> wf_vol v \<and> coherent v"

definition pub :: "vol \<Rightarrow> nat \<Rightarrow> bool" where
  "pub v s \<longleftrightarrow> s \<noteq> bad_sector \<and> \<not> in_mirror v s"

definition view_eq :: "vol \<Rightarrow> vol \<Rightarrow> bool" where
  "view_eq v v' \<longleftrightarrow> geo v' = geo v \<and> (\<forall>s. pub v s \<longrightarrow> vsec v' s = vsec v s)"

lemma pub_geo: "geo v' = geo v \<Longrightarrow> pub v' = pub v"
  by (rule ext) (simp add: pub_def in_mirror_geo [of v' v])

lemma view_eq_refl [simp]: "view_eq v v"
  by (simp add: view_eq_def)

lemma view_eq_trans: "view_eq u v \<Longrightarrow> view_eq v w \<Longrightarrow> view_eq u w"
  by (simp add: view_eq_def pub_geo [of v u])

lemma move_window_ok:
  assumes "move_window v t = (res, v')" and "vok v"
  shows "vok v'" "view_eq v v'" "alloc v' = alloc v" "misc v' = misc v" "geo v' = geo v"
    "res = FR_OK \<Longrightarrow> winsect v' = t" "res = FR_OK \<Longrightarrow> pub v (unat t) \<Longrightarrow> win v' = vsec v (unat t)"
    "res = FR_OK \<or> res = FR_DISK_ERR" "length (win v') = SS"
proof -
  have wf: "wf_vol v" and co: "coherent v" using assms(2) by (auto simp: vok_def)
  note m = move_window_view [OF assms(1) wf co] and f = move_window_frame [OF assms(1)]
  show "vok v'" using m by (simp add: vok_def)
  show "view_eq v v'" using f m(3) by (simp add: view_eq_def pub_def)
  show "alloc v' = alloc v" "misc v' = misc v" "geo v' = geo v" using f by simp_all
  show "res = FR_OK \<Longrightarrow> winsect v' = t" by (rule m(4))
  show "res = FR_OK \<Longrightarrow> pub v (unat t) \<Longrightarrow> win v' = vsec v (unat t)" using m(5) by (simp add: pub_def)
  show "res = FR_OK \<or> res = FR_DISK_ERR" using m(7) by blast
  show "length (win v') = SS" using m(1) by (simp add: wf_vol_def)
qed

lemma set_win_ok:
  assumes "vok v" and "length w = SS"
  shows "vok (set_win v w)" "geo (set_win v w) = geo v" "alloc (set_win v w) = alloc v"
    "misc (set_win v w) = misc v"
    "vsec (set_win v w) s = (if s = unat (winsect v) then w else vsec v s)"
  using assms edit_window_view(1,2) [of v w] edit_window_view(3) [of v w s]
  by (simp_all add: vok_def set_win_def state_parts)

section \<open>The table as an image\<close>

definition fat_image :: "vol \<Rightarrow> nat \<Rightarrow> BYTE" where
  "fat_image v i = vsec v (unat (fatbase v) + i div SS) ! (i mod SS)"

definition fat_bytes :: "vol \<Rightarrow> nat" where
  "fat_bytes v =
     (if fs_type v = FS_FAT12 then bytes12 (unat (n_fatent v))
      else if fs_type v = FS_FAT16 then 2 * unat (n_fatent v)
      else 4 * unat (n_fatent v))"

text \<open>The value of a cluster's entry.\<close>

definition fat_entry :: "vol \<Rightarrow> nat \<Rightarrow> DWORD" where
  "fat_entry v c =
     (if fs_type v = FS_FAT12 then dec12 (fat_image v) c
      else if fs_type v = FS_FAT16 then dec16 (fat_image v) c
      else dec32 (fat_image v) c)"

definition fat_cut :: "vol \<Rightarrow> DWORD" where
  "fat_cut v =
     (if fs_type v = FS_FAT12 then 0xFFF else if fs_type v = FS_FAT16 then 0xFFFF else 0x0FFFFFFF)"

text \<open>What the mount establishes of the FAT's place and size: the type, the cluster limits of
  the type, a table that fits its \<open>fsize\<close> sectors, and copies that do not wrap around the
  32-bit sector numbers.\<close>

definition fat_geom :: "vol \<Rightarrow> bool" where
  "fat_geom v \<longleftrightarrow>
     (fs_type v = FS_FAT12 \<and> n_fatent v \<le> 0xFF7
      \<or> fs_type v = FS_FAT16 \<and> n_fatent v \<le> 0xFFF7
      \<or> fs_type v = FS_FAT32 \<and> n_fatent v \<le> 0x0FFFFFF7)
     \<and> 3 \<le> n_fatent v \<and> fat_bytes v \<le> SS * unat (fsize v)
     \<and> unat (fatbase v) + 2 * unat (fsize v) \<le> 0xFFFFFFFF"

lemma fat_geom_geo: "geo v' = geo v \<Longrightarrow> fat_geom v' = fat_geom v"
  by (simp add: fat_geom_def fat_bytes_def geo_fields [of v' v])

lemma fat_bytes_geo: "geo v' = geo v \<Longrightarrow> fat_bytes v' = fat_bytes v"
  by (simp add: fat_bytes_def geo_fields [of v' v])

lemma fat_cut_geo: "geo v' = geo v \<Longrightarrow> fat_cut v' = fat_cut v"
  by (simp add: fat_cut_def geo_fields [of v' v])

lemma fat_geom_min: "fat_geom v \<Longrightarrow> 3 \<le> unat (n_fatent v)"
  by (simp add: fat_geom_def word_le_nat_alt)

lemma fat_types:
  assumes "fat_geom v"
  obtains (FAT12) "fs_type v = 1" "n_fatent v \<le> 0xFF7"
  | (FAT16) "fs_type v = 2" "n_fatent v \<le> 0xFFF7"
  | (FAT32) "fs_type v = 3" "n_fatent v \<le> 0x0FFFFFF7"
  using assms unfolding fat_geom_def by blast

text \<open>A cluster number fits the width of an entry; the end mark does not name a cluster.\<close>

lemma and_mask_self:
  fixes r :: DWORD
  assumes "unat r < 2 ^ k"
  shows "r AND mask k = r"
  using assms by (simp flip: take_bit_eq_mask) (simp add: word_unat_eq_iff unsigned_take_bit_eq take_bit_nat_eq_self)

lemma fat_cut_cluster:
  assumes "fat_geom v" and "r < n_fatent v"
  shows "r AND fat_cut v = r"
  using assms(1)
proof (cases rule: fat_types)
  case FAT12
  then have "unat r < 2 ^ 12" using assms(2) by (simp add: word_less_nat_alt word_le_nat_alt)
  then show ?thesis using FAT12 by (simp add: fat_cut_def masks(1) and_mask_self)
next
  case FAT16
  then have "unat r < 2 ^ 16" using assms(2) by (simp add: word_less_nat_alt word_le_nat_alt)
  then show ?thesis using FAT16 by (simp add: fat_cut_def masks(4) and_mask_self)
next
  case FAT32
  then have "unat r < 2 ^ 28" using assms(2) by (simp add: word_less_nat_alt word_le_nat_alt)
  then show ?thesis using FAT32 by (simp add: fat_cut_def masks(5) and_mask_self)
qed

lemma fat_geom_max: "fat_geom v \<Longrightarrow> unat (n_fatent v) \<le> 0x0FFFFFF7"
  by (erule fat_types) (auto simp: word_le_nat_alt)

lemma fat_cut_end: "fat_geom v \<Longrightarrow> n_fatent v \<le> fat_cut v"
  by (erule fat_types) (auto simp: fat_cut_def word_le_nat_alt)

text \<open>The sectors of the table are visible ones.\<close>

lemma fat_sector_pub:
  assumes g: "fat_geom v" and i: "i < fat_bytes v"
  shows "pub v (unat (fatbase v) + i div SS)" "unat (fatbase v) + i div SS < 2 ^ 32"
proof -
  have d: "i div SS < unat (fsize v)" using g i by (simp add: fat_geom_def less_mult_imp_div_less mult.commute)
  have b: "unat (fatbase v) + 2 * unat (fsize v) \<le> 0xFFFFFFFF" using g by (simp add: fat_geom_def)
  have "\<not> in_mirror v (unat (fatbase v) + i div SS)"
  proof
    assume "in_mirror v (unat (fatbase v) + i div SS)"
    then obtain k where k: "k < fsize v" "unat (fatbase v) + i div SS = unat (fatbase v + k + fsize v)"
      by (auto simp: in_mirror_def)
    have "unat k < unat (fsize v)" using k(1) by (simp add: word_less_nat_alt)
    then have "unat (fatbase v + k + fsize v) = unat (fatbase v) + unat k + unat (fsize v)"
      using b by (simp add: unat_add_bound)
    with k(2) d show False by simp
  qed
  with d b show "pub v (unat (fatbase v) + i div SS)" by (simp add: pub_def bad_sector_def)
  show "unat (fatbase v) + i div SS < 2 ^ 32" using d b by simp
qed

lemma fat_image_view:
  assumes "view_eq v v'" and "fat_geom v" and "i < fat_bytes v"
  shows "fat_image v' i = fat_image v i"
  using assms fat_sector_pub(1) [OF assms(2,3)] by (simp add: fat_image_def view_eq_def geo_fields [of v' v])

lemma fat_entry_cong:
  assumes "geo v' = geo v" and "\<And>i. i < fat_bytes v \<Longrightarrow> fat_image v' i = fat_image v i"
    and "fat_geom v" and "c < unat (n_fatent v)"
  shows "fat_entry v' c = fat_entry v c"
  using assms(3)
proof (cases rule: fat_types)
  case FAT12
  then show ?thesis
    using f12.dec_cong [of "unat (n_fatent v)" "fat_image v'" "fat_image v" c] assms(2,4)
    by (simp add: fat_entry_def fat_bytes_def geo_fields [OF assms(1)])
next
  case FAT16
  then show ?thesis
    using f16.dec_cong [of "unat (n_fatent v)" "fat_image v'" "fat_image v" c] assms(2,4)
    by (simp add: fat_entry_def fat_bytes_def geo_fields [OF assms(1)])
next
  case FAT32
  then show ?thesis
    using f32.dec_cong [of "unat (n_fatent v)" "fat_image v'" "fat_image v" c] assms(2,4)
    by (simp add: fat_entry_def fat_bytes_def geo_fields [OF assms(1)])
qed

lemma fat_entry_view:
  "view_eq v v' \<Longrightarrow> fat_geom v \<Longrightarrow> c < unat (n_fatent v) \<Longrightarrow> fat_entry v' c = fat_entry v c"
  by (rule fat_entry_cong) (auto simp: view_eq_def fat_image_view)

text \<open>A step that only reads: it moves the window, and at most uses up faults of the schedule.\<close>

definition quiet :: "vol \<Rightarrow> vol \<Rightarrow> bool" where
  "quiet v v' \<longleftrightarrow> (vok v \<longrightarrow> vok v' \<and> view_eq v v') \<and> geo v' = geo v \<and> alloc v' = alloc v"

lemma quiet_refl [simp, intro]: "quiet v v"
  by (simp add: quiet_def)

lemma quiet_trans: "quiet u v \<Longrightarrow> quiet v w \<Longrightarrow> quiet u w"
  unfolding quiet_def using view_eq_trans by metis

lemma quietD:
  assumes "quiet v v'"
  shows "geo v' = geo v" "alloc v' = alloc v" "vok v \<Longrightarrow> vok v'" "vok v \<Longrightarrow> view_eq v v'"
  using assms by (simp_all add: quiet_def)

lemma quiet_fields:
  assumes "quiet v v'"
  shows "fs_type v' = fs_type v" "pdrv v' = pdrv v" "n_fats v' = n_fats v" "fs_id v' = fs_id v"
    "n_rootdir v' = n_rootdir v" "csize v' = csize v" "n_fatent v' = n_fatent v"
    "fsize v' = fsize v" "volbase v' = volbase v" "fatbase v' = fatbase v"
    "dirbase v' = dirbase v" "database v' = database v" "sobj v' = sobj v" "now v' = now v"
    "fsi_flag v' = fsi_flag v" "last_clst v' = last_clst v" "free_clst v' = free_clst v"
  using geo_fields [OF quietD(1) [OF assms]] alloc_fields [OF quietD(2) [OF assms]] by simp_all

lemma quiet_view: "quiet v v' \<Longrightarrow> vok v \<Longrightarrow> pub v s \<Longrightarrow> vsec v' s = vsec v s"
  by (simp add: quiet_def view_eq_def)

lemma move_window_quiet: "move_window v t = (res, v') \<Longrightarrow> quiet v v'"
  using move_window_frame [of v t res v'] move_window_ok(1,2) [of v t res v']
  by (auto simp: quiet_def)

lemma quiet_fat_geom: "quiet v v' \<Longrightarrow> fat_geom v' = fat_geom v"
  by (rule fat_geom_geo) (rule quietD)

lemma quiet_fat_entry:
  "quiet v v' \<Longrightarrow> vok v \<Longrightarrow> fat_geom v \<Longrightarrow> c < unat (n_fatent v) \<Longrightarrow> fat_entry v' c = fat_entry v c"
  by (rule fat_entry_view) (auto simp: quiet_def)

section \<open>Reading an entry\<close>

text \<open>After a successful move to the sector that holds byte \<open>i\<close> of the table, that byte is in
  the window.\<close>

lemma fat_unat:
  assumes "fat_geom v" and "i < fat_bytes v" and "unat s = i div SS"
  shows "unat (fatbase v + s) = unat (fatbase v) + i div SS"
  using fat_sector_pub(2) [OF assms(1,2)] assms(3) by (simp add: unat_add_bound)

lemma fat_byte:
  assumes "move_window v (fatbase v + s) = (FR_OK, v')" and "vok v" and "fat_geom v"
    and "i < fat_bytes v" and "unat s = i div SS"
  shows "win v' ! (i mod SS) = fat_image v i"
  using move_window_ok(7) [OF assms(1,2)] fat_sector_pub(1) [OF assms(3,4)] fat_unat [OF assms(3-5)]
  by (simp add: fat_image_def)

lemma get_fat_quiet: "get_fat v c = (r, v') \<Longrightarrow> quiet v v'"
  by (auto simp: get_fat_def Let_def split: if_splits prod.splits
      dest!: move_window_quiet intro: quiet_trans)

lemma get_fat_range: "c < 2 \<or> n_fatent v \<le> c \<Longrightarrow> get_fat v c = (1, v)"
  by (auto simp: get_fat_def)

text \<open>Byte positions of the entries within the table and within their sectors.\<close>

lemma pos12:
  fixes c :: DWORD
  assumes "c < n" and "n \<le> 0xFF7"
  shows "unat (c + c div 2) = unat c + unat c div 2"
    and "unat (c + c div 2 + 1) = unat c + unat c div 2 + 1"
    and "unat c + unat c div 2 + 1 < bytes12 (unat n)"
proof -
  have "unat c < unat n" "unat n \<le> 0xFF7" using assms by (simp_all add: word_less_nat_alt word_le_nat_alt)
  then show "unat (c + c div 2) = unat c + unat c div 2"
    "unat (c + c div 2 + 1) = unat c + unat c div 2 + 1"
    by (simp_all add: unat_word_ariths unat_div)
  show "unat c + unat c div 2 + 1 < bytes12 (unat n)"
    by (rule bytes12_bound) fact
qed

lemma pos_scaled:
  fixes c :: DWORD
  assumes "unat c * k < 2 ^ 32" and "k = 2 \<or> k = 4"
  shows "unat (c * of_nat k mod SS) = k * unat c mod SS" "unat (c div of_nat (SS div k)) = k * unat c div SS"
proof -
  have "unat (c * of_nat k) = unat c * k"
    using assms by (auto simp: unat_word_ariths)
  then show "unat (c * of_nat k mod SS) = k * unat c mod SS" by (simp add: unat_mod mult.commute)
  show "unat (c div of_nat (SS div k)) = k * unat c div SS"
    using assms(2) by (auto simp: unat_div)
qed

lemma ucast_ld_word: "ucast (ld_word p i) = (ucast (p ! i) OR push_bit 8 (ucast (p ! (i + 1))) :: DWORD)"
  by (rule bit_word_eqI) (auto simp: ld_word_def bit_simps dest: bit_imp_le_length)

lemma get_fat12:
  assumes g: "get_fat v c = (r, v')" and ok: "vok v" and ge: "fat_geom v"
    and c: "2 \<le> c" "c < n_fatent v" and ty: "fs_type v = 1"
  shows "r = 0xFFFFFFFF \<or> r = fat_entry v (unat c)"
proof -
  let ?b = "unat c + unat c div 2"
  have rg: "\<not> (c < 2 \<or> n_fatent v \<le> c)" using c by auto
  have n: "n_fatent v \<le> 0xFF7" using ge ty by (simp add: fat_geom_def)
  note p = pos12 [OF c(2) n]
  have inb: "?b < fat_bytes v" "?b + 1 < fat_bytes v" using p(3) ty by (simp_all add: fat_bytes_def)
  obtain r1 v1 where m1: "move_window v (fatbase v + (c + c div 2) div SS) = (r1, v1)" by fastforce
  obtain r2 v2 where m2: "move_window v1 (fatbase v1 + (c + c div 2 + 1) div SS) = (r2, v2)" by fastforce
  note q1 = move_window_quiet [OF m1]
  show ?thesis
  proof (cases "r1 = FR_OK \<and> r2 = FR_OK")
    case False
    then show ?thesis using g rg ty m1 m2 by (cases "r1 = FR_OK") (auto simp: get_fat_def Let_def)
  next
    case True
    have ok1: "vok v1" and ge1: "fat_geom v1" using quietD(3) [OF q1 ok] quiet_fat_geom [OF q1] ge by simp_all
    have b1: "win v1 ! (?b mod SS) = fat_image v ?b"
      using fat_byte [OF _ ok ge inb(1)] m1 True by (simp add: unat_div p(1))
    have "win v2 ! ((?b + 1) mod SS) = fat_image v1 (?b + 1)"
      using fat_byte [OF _ ok1 ge1] m2 True inb(2) fat_bytes_geo [OF quietD(1) [OF q1]]
      by (simp add: unat_div p(2)[simplified])
    also have "\<dots> = fat_image v (?b + 1)"
      by (rule fat_image_view [OF quietD(4) [OF q1 ok] ge inb(2)])
    finally show ?thesis
      using g rg ty m1 m2 True b1 p(1,2)
      by (auto simp: get_fat_def Let_def unat_mod odd_word fat_entry_def dec12_def)
  qed
qed

lemma get_fat16:
  assumes g: "get_fat v c = (r, v')" and ok: "vok v" and ge: "fat_geom v"
    and c: "2 \<le> c" "c < n_fatent v" and ty: "fs_type v = 2"
  shows "r = 0xFFFFFFFF \<or> r = fat_entry v (unat c)"
proof -
  let ?b = "2 * unat c"
  have rg: "\<not> (c < 2 \<or> n_fatent v \<le> c)" using c by auto
  have n: "n_fatent v \<le> 0xFFF7" using ge ty by (simp add: fat_geom_def)
  have cn: "unat c < unat (n_fatent v)" "unat (n_fatent v) \<le> 0xFFF7"
    using c(2) n by (simp_all add: word_less_nat_alt word_le_nat_alt)
  have inb: "?b < fat_bytes v" "?b + 1 < fat_bytes v" using cn ty by (auto simp: fat_bytes_def)
  have p: "unat (c * 2 mod SS) = ?b mod SS" "unat (c div (SS div 2)) = ?b div SS"
    using pos_scaled [of c 2] cn by simp_all
  obtain r1 v1 where m1: "move_window v (fatbase v + c div (SS div 2)) = (r1, v1)" by fastforce
  show ?thesis
  proof (cases "r1 = FR_OK")
    case False
    then show ?thesis using g rg ty m1 by (auto simp: get_fat_def Let_def)
  next
    case True
    note d = sector_pos [of 2 1 "unat c", simplified]
    have "win v1 ! (?b mod SS) = fat_image v ?b" "win v1 ! (?b mod SS + 1) = fat_image v (?b + 1)"
      using fat_byte [OF _ ok ge inb(1)] fat_byte [OF _ ok ge inb(2)] m1 True p(2) d by simp_all
    then show ?thesis
      using g rg ty m1 True p(1)
      by (auto simp: get_fat_def Let_def fat_entry_def dec16_def ucast_ld_word)
  qed
qed

lemma get_fat32:
  assumes g: "get_fat v c = (r, v')" and ok: "vok v" and ge: "fat_geom v"
    and c: "2 \<le> c" "c < n_fatent v" and ty: "fs_type v = 3"
  shows "r = 0xFFFFFFFF \<or> r = fat_entry v (unat c)"
proof -
  let ?b = "4 * unat c"
  have rg: "\<not> (c < 2 \<or> n_fatent v \<le> c)" using c by auto
  have n: "n_fatent v \<le> 0x0FFFFFF7" using ge ty by (simp add: fat_geom_def)
  have cn: "unat c < unat (n_fatent v)" "unat (n_fatent v) \<le> 0x0FFFFFF7"
    using c(2) n by (simp_all add: word_less_nat_alt word_le_nat_alt)
  have inb: "?b + k < fat_bytes v" if "k < 4" for k using cn ty that by (auto simp: fat_bytes_def)
  have p: "unat (c * 4 mod SS) = ?b mod SS" "unat (c div (SS div 4)) = ?b div SS"
    using pos_scaled [of c 4] cn by simp_all
  obtain r1 v1 where m1: "move_window v (fatbase v + c div (SS div 4)) = (r1, v1)" by fastforce
  show ?thesis
  proof (cases "r1 = FR_OK")
    case False
    then show ?thesis using g rg ty m1 by (auto simp: get_fat_def Let_def)
  next
    case True
    have "win v1 ! (?b mod SS + k) = fat_image v (?b + k)" if "k < 4" for k
    proof -
      show ?thesis using sector_pos [of 4 k "unat c", OF _ that] fat_byte [OF _ ok ge inb [OF that]] m1 True p(2) by simp
    qed
    from this [of 0] this [of 1] this [of 2] this [of 3]
    have "ld_dword (win v1) (?b mod SS) = dword32 (fat_image v) (unat c)"
      by (simp add: ld_dword_def dword32_def push_bit_or ac_simps)
    then show ?thesis
      using g rg ty m1 True p(1)
      by (simp add: get_fat_def Let_def fat_entry_def dec32_def)
  qed
qed

lemma get_fat_value:
  assumes "get_fat v c = (r, v')" and "vok v" and ge: "fat_geom v" and "2 \<le> c" "c < n_fatent v"
  shows "r = 0xFFFFFFFF \<or> r = fat_entry v (unat c)"
  using ge
proof (cases rule: fat_types)
  case FAT12 then show ?thesis using get_fat12 assms by blast
next
  case FAT16 then show ?thesis using get_fat16 assms by blast
next
  case FAT32 then show ?thesis using get_fat32 assms by blast
qed

section \<open>Writing an entry\<close>

text \<open>\<open>fat_edit v v' im\<close>: \<open>v'\<close> is \<open>v\<close> with the bytes \<open>im\<close> in the table; nothing else of the
  view, the mount parameters or the allocation state has changed.\<close>

definition in_fat :: "vol \<Rightarrow> nat \<Rightarrow> bool" where
  "in_fat v s \<longleftrightarrow> unat (fatbase v) \<le> s \<and> s < unat (fatbase v) + unat (fsize v)"

definition fat_edit :: "vol \<Rightarrow> vol \<Rightarrow> (nat \<Rightarrow> BYTE) \<Rightarrow> bool" where
  "fat_edit v v' im \<longleftrightarrow>
     vok v' \<and> geo v' = geo v \<and> alloc v' = alloc v \<and> misc v' = misc v
     \<and> (\<forall>i < fat_bytes v. fat_image v' i = im i)
     \<and> (\<forall>s. pub v s \<longrightarrow> \<not> in_fat v s \<longrightarrow> vsec v' s = vsec v s)"

lemma fat_edit_refl: "vok v \<Longrightarrow> fat_edit v v (fat_image v)"
  by (simp add: fat_edit_def)

lemma fat_edit_move:
  assumes e: "fat_edit v v1 im" and m: "move_window v1 t = (r, v2)" and g: "fat_geom v"
  shows "fat_edit v v2 im"
proof -
  have ok: "vok v1" and geo: "geo v1 = geo v" using e by (simp_all add: fat_edit_def)
  note mo = move_window_ok [OF m ok]
  have g1: "fat_geom v1" using fat_geom_geo [OF geo] g by simp
  have "fat_image v2 i = im i" if "i < fat_bytes v" for i
    using fat_image_view [OF mo(2) g1, of i] that e fat_bytes_geo [OF geo] by (simp add: fat_edit_def)
  moreover have "vsec v2 s = vsec v s" if "pub v s" "\<not> in_fat v s" for s
    using mo(2) that e pub_geo [OF geo] by (simp add: view_eq_def fat_edit_def)
  ultimately show ?thesis using mo e by (simp add: fat_edit_def)
qed

lemma fat_edit_set:
  assumes e: "fat_edit v v1 im" and g: "fat_geom v" and i: "i < fat_bytes v"
    and s: "winsect v1 = fatbase v + s" "unat s = i div SS"
  shows "fat_edit v (set_win v1 ((win v1)[i mod SS := b])) (im(i := b))"
proof -
  let ?w = "(win v1)[i mod SS := b]"
  have ok: "vok v1" and geo: "geo v1 = geo v" using e by (simp_all add: fat_edit_def)
  have len: "length (win v1) = SS" using ok by (simp add: vok_def wf_vol_def)
  note so = set_win_ok [OF ok, of ?w]
  have ws: "unat (winsect v1) = unat (fatbase v) + i div SS" using fat_unat [OF g i s(2)] s(1) by simp
  have fb: "fatbase v1 = fatbase v" "fatbase (set_win v1 ?w) = fatbase v"
    using geo_fields(10) [OF geo] by (simp_all add: set_win_def)
  have "fat_image (set_win v1 ?w) j = (im(i := b)) j" if j: "j < fat_bytes v" for j
  proof (cases "j div SS = i div SS")
    case True
    have "fat_image v1 j = im j" using e j by (simp add: fat_edit_def)
    then have "win v1 ! (j mod SS) = im j" using True ws fb by (simp add: fat_image_def vsec_def)
    moreover have "j mod SS = i mod SS \<longleftrightarrow> j = i" using True by (metis div_mod_decomp)
    ultimately show ?thesis
      using True ws fb len so(5) [of "unat (fatbase v) + i div SS"]
      by (auto simp: fat_image_def nth_list_update)
  next
    case False
    then have "j \<noteq> i" by auto
    with False show ?thesis
      using ws fb len so(5) [of "unat (fatbase v) + j div SS"] e j
      by (simp add: fat_image_def fat_edit_def)
  qed
  moreover have "vsec (set_win v1 ?w) t = vsec v t" if "pub v t" "\<not> in_fat v t" for t
  proof -
    have "i div SS < unat (fsize v)" using g i by (simp add: fat_geom_def less_mult_imp_div_less mult.commute)
    then have "t \<noteq> unat (winsect v1)" using ws that(2) by (auto simp: in_fat_def)
    then show ?thesis using so(5) [of t] e that len by (simp add: fat_edit_def)
  qed
  ultimately show ?thesis using so e len by (simp add: fat_edit_def)
qed

text \<open>The entry a codec sees after an edit of the table.\<close>

lemma fat_edit_entry:
  assumes e: "fat_edit v v' im" and g: "fat_geom v" and c: "c < unat (n_fatent v)"
  shows "fat_entry v' c =
    (if fs_type v = FS_FAT12 then dec12 im c else if fs_type v = FS_FAT16 then dec16 im c else dec32 im c)"
proof -
  have geo: "geo v' = geo v" and im: "\<And>i. i < fat_bytes v \<Longrightarrow> fat_image v' i = im i"
    using e by (simp_all add: fat_edit_def)
  show ?thesis
    using g im f12.dec_cong [of "unat (n_fatent v)" "fat_image v'" im c]
      f16.dec_cong [of "unat (n_fatent v)" "fat_image v'" im c]
      f32.dec_cong [of "unat (n_fatent v)" "fat_image v'" im c] c
    by (cases rule: fat_types) (simp_all add: fat_entry_def fat_bytes_def geo_fields [OF geo])
qed

lemma set_win_twice: "set_win (set_win v w) w' = set_win v w'"
  by (simp add: set_win_def)

lemma win_set_win [simp]: "win (set_win v w) = w"
  by (simp add: set_win_def)

lemma winsect_set_win [simp]: "winsect (set_win v w) = winsect v"
  by (simp add: set_win_def)

lemma fatbase_set_win [simp]: "fatbase (set_win v w) = fatbase v"
  by (simp add: set_win_def)

text \<open>The first half of a FAT12 entry alone changes no other entry either.\<close>

definition half12 :: "(nat \<Rightarrow> BYTE) \<Rightarrow> nat \<Rightarrow> DWORD \<Rightarrow> nat \<Rightarrow> BYTE" where
  "half12 im c x =
     (let b = c + c div 2 in
      im(b := if odd c then (im b AND 0x0F) OR push_bit 4 (ucast x) else ucast x))"

lemma dec12_half12_other:
  assumes "c' \<noteq> c"
  shows "dec12 (half12 im c x) c' = dec12 im c'"
proof (cases "c' div 2 = c div 2")
  case True
  with assms have "c = 2 * (c div 2) \<and> c' = 2 * (c div 2) + 1 \<or> c = 2 * (c div 2) + 1 \<and> c' = 2 * (c div 2)"
    by linarith
  then obtain k where "c = 2 * k \<and> c' = 2 * k + 1 \<or> c = 2 * k + 1 \<and> c' = 2 * k" by blast
  then show ?thesis
  proof
    assume "c = 2 * k \<and> c' = 2 * k + 1"
    then show ?thesis
      using dec12_odd [of "half12 im (2 * k) x" k] dec12_odd [of im k] by (simp add: half12_def Let_def)
  next
    assume k: "c = 2 * k + 1 \<and> c' = 2 * k"
    then have "dec12 (half12 im c x) c' = dec12 (enc12 im c x) c'"
      using dec12_even [of _ k] enc12_odd [of im k x] by (simp add: half12_def)
    with dec12_enc12_other [OF assms] show ?thesis by simp
  qed
next
  case False
  then have "c' div 2 < c div 2 \<or> c div 2 < c' div 2" by linarith
  then have "c' + c' div 2 + 1 < c + c div 2 \<or> c + c div 2 + 1 < c' + c' div 2"
    by (elim disjE) linarith+
  then have far: "half12 im c x (c' + c' div 2) = im (c' + c' div 2)"
    "half12 im c x (c' + c' div 2 + 1) = im (c' + c' div 2 + 1)"
    by (auto simp: half12_def Let_def)
  show ?thesis unfolding dec12_def Let_def far ..
qed

lemma put_fat12:
  assumes g: "put_fat v c x = (res, v')" and ok: "vok v" and ge: "fat_geom v"
    and c: "2 \<le> c" "c < n_fatent v" and ty: "fs_type v = 1"
  shows "res = FR_OK \<Longrightarrow> fat_edit v v' (enc12 (fat_image v) (unat c) x)"
    and "res \<noteq> FR_OK \<Longrightarrow> res = FR_DISK_ERR \<and>
      (fat_edit v v' (fat_image v) \<or> fat_edit v v' (half12 (fat_image v) (unat c) x))"
proof -
  let ?b = "unat c + unat c div 2"
  have n: "n_fatent v \<le> 0xFF7" using ge ty by (simp add: fat_geom_def)
  note p = pos12 [OF c(2) n]
  have inb: "?b < fat_bytes v" "?b + 1 < fat_bytes v" using p(3) ty by (simp_all add: fat_bytes_def)
  obtain r1 v1 where m1: "move_window v (fatbase v + (c + c div 2) div SS) = (r1, v1)" by fastforce
  have e1: "fat_edit v v1 (fat_image v)" by (rule fat_edit_move [OF fat_edit_refl [OF ok] m1 ge])
  have goal: "(res = FR_OK \<longrightarrow> fat_edit v v' (enc12 (fat_image v) (unat c) x)) \<and>
    (res \<noteq> FR_OK \<longrightarrow> res = FR_DISK_ERR \<and>
      (fat_edit v v' (fat_image v) \<or> fat_edit v v' (half12 (fat_image v) (unat c) x)))"
  proof (cases "r1 = FR_OK")
    case False
    then have "res = r1" "v' = v1" using g c ty m1 by (auto simp: put_fat_def Let_def)
    then show ?thesis using False e1 move_window_ok(8) [OF m1 ok] by auto
  next
    case True
    let ?x1 = "if odd (unat c) then (fat_image v ?b AND 0x0F) OR push_bit 4 (ucast x) else ucast x"
    define u where "u = set_win v1 ((win v1)[?b mod SS := ?x1])"
    have w1: "winsect v1 = fatbase v + (c + c div 2) div SS"
      using move_window_ok(6) [OF m1 ok] True by simp
    have eu: "fat_edit v u (half12 (fat_image v) (unat c) x)"
      using fat_edit_set [OF e1 ge inb(1) w1, of ?x1] p(1) by (simp add: u_def half12_def Let_def unat_div)
    have fb: "fatbase v1 = fatbase v" "fatbase u = fatbase v"
      using geo_fields(10) [of v1 v] geo_fields(10) [of u v] e1 eu by (simp_all add: fat_edit_def)
    have b1: "win v1 ! (?b mod SS) = fat_image v ?b"
      using fat_byte [OF _ ok ge inb(1)] m1 True by (simp add: unat_div p(1))
    obtain r2 v2 where m2: "move_window u (fatbase v + (c + c div 2 + 1) div SS) = (r2, v2)" by fastforce
    have e2: "fat_edit v v2 (half12 (fat_image v) (unat c) x)" by (rule fat_edit_move [OF eu m2 ge])
    let ?x2 = "if odd (unat c) then ucast (drop_bit 4 x)
       else (win v2 ! (Suc ?b mod SS) AND 0xF0) OR (ucast (drop_bit 8 x) AND 0x0F)"
    have step: "put_fat v c x = (if r2 \<noteq> FR_OK then (r2, v2)
       else (r2, set_win v2 ((win v2)[Suc ?b mod SS := ?x2])))"
      using c ty m1 m2 True b1 p(1,2)
      by (cases "odd (unat c)") (simp_all add: put_fat_def Let_def odd_word unat_mod u_def fb(1))
    have oku: "vok u" and geou: "geo u = geo v" using eu by (simp_all add: fat_edit_def)
    show ?thesis
    proof (cases "r2 = FR_OK")
      case False
      then show ?thesis using step g e2 move_window_ok(8) [OF m2 oku] by auto
    next
      case ok2: True
      have w2: "winsect v2 = fatbase v + (c + c div 2 + 1) div SS"
        using move_window_ok(6) [OF m2 oku] ok2 fb by simp
      have "win v2 ! ((?b + 1) mod SS) = fat_image u (?b + 1)"
        using fat_byte [OF m2 [folded fb(2), unfolded ok2] oku] fat_geom_geo [OF geou] ge fat_bytes_geo [OF geou] inb(2)
        by (simp add: unat_div p(2) [simplified])
      also have "\<dots> = fat_image v (?b + 1)" using eu inb(2) by (simp add: fat_edit_def half12_def Let_def)
      finally have b2: "win v2 ! (Suc ?b mod SS) = fat_image v (Suc ?b)" by simp
      have "fat_edit v v' ((half12 (fat_image v) (unat c) x)(?b + 1 := ?x2))"
        using fat_edit_set [OF e2 ge inb(2) w2, of ?x2] p(2) step g ok2 by (simp add: unat_div)
      moreover have "(half12 (fat_image v) (unat c) x)(?b + 1 := ?x2) = enc12 (fat_image v) (unat c) x"
        unfolding b2 by (simp add: half12_def enc12_def Let_def)
      ultimately show ?thesis using step g ok2 by simp
    qed
  qed
  show "res = FR_OK \<Longrightarrow> fat_edit v v' (enc12 (fat_image v) (unat c) x)"
    and "res \<noteq> FR_OK \<Longrightarrow> res = FR_DISK_ERR \<and>
      (fat_edit v v' (fat_image v) \<or> fat_edit v v' (half12 (fat_image v) (unat c) x))"
    using goal by simp_all
qed

lemma put_fat16:
  assumes g: "put_fat v c x = (res, v')" and ok: "vok v" and ge: "fat_geom v"
    and c: "2 \<le> c" "c < n_fatent v" and ty: "fs_type v = 2"
  shows "res = FR_OK \<Longrightarrow> fat_edit v v' (enc16 (fat_image v) (unat c) x)"
    and "res \<noteq> FR_OK \<Longrightarrow> res = FR_DISK_ERR \<and> fat_edit v v' (fat_image v)"
proof -
  let ?b = "2 * unat c"
  have n: "n_fatent v \<le> 0xFFF7" using ge ty by (simp add: fat_geom_def)
  have cn: "unat c < unat (n_fatent v)" "unat (n_fatent v) \<le> 0xFFF7"
    using c(2) n by (simp_all add: word_less_nat_alt word_le_nat_alt)
  have inb: "?b < fat_bytes v" "?b + 1 < fat_bytes v" using cn ty by (auto simp: fat_bytes_def)
  have p: "unat (c * 2 mod SS) = ?b mod SS" "unat (c div (SS div 2)) = ?b div SS"
    using pos_scaled [of c 2] cn by simp_all
  note d = sector_pos [of 2 1 "unat c", simplified]
  obtain r1 v1 where m1: "move_window v (fatbase v + c div (SS div 2)) = (r1, v1)" by fastforce
  have e1: "fat_edit v v1 (fat_image v)" by (rule fat_edit_move [OF fat_edit_refl [OF ok] m1 ge])
  have step: "(res, v') = (if r1 \<noteq> FR_OK then (r1, v1)
      else (r1, set_win v1 (st_word (win v1) (?b mod SS) (ucast x))))"
    using g c ty m1 p(1) by (cases "r1 = FR_OK") (simp_all add: put_fat_def)
  have goal: "(res = FR_OK \<longrightarrow> fat_edit v v' (enc16 (fat_image v) (unat c) x)) \<and>
    (res \<noteq> FR_OK \<longrightarrow> res = FR_DISK_ERR \<and> fat_edit v v' (fat_image v))"
  proof (cases "r1 = FR_OK")
    case False
    then show ?thesis using step e1 move_window_ok(8) [OF m1 ok] by auto
  next
    case True
    let ?a = "ucast (ucast x :: WORD) :: BYTE" and ?h = "ucast (drop_bit 8 (ucast x :: WORD)) :: BYTE"
    have w1: "winsect v1 = fatbase v + c div (SS div 2)"
      using move_window_ok(6) [OF m1 ok] True by simp
    define u where "u = set_win v1 ((win v1)[?b mod SS := ?a])"
    have eu: "fat_edit v u ((fat_image v)(?b := ?a))"
      unfolding u_def by (rule fat_edit_set [OF e1 ge inb(1) w1]) (rule p(2))
    have wu: "winsect u = fatbase v + c div (SS div 2)" using w1 by (simp add: u_def)
    have "fat_edit v (set_win u ((win u)[(?b + 1) mod SS := ?h])) ((fat_image v)(?b := ?a, ?b + 1 := ?h))"
      by (rule fat_edit_set [OF eu ge inb(2) wu]) (simp only: p(2) d(1) Suc_eq_plus1 [symmetric])
    moreover have "set_win u ((win u)[(?b + 1) mod SS := ?h]) = set_win v1 (st_word (win v1) (?b mod SS) (ucast x))"
      by (simp add: u_def set_win_twice st_word_def d)
    moreover have "?a = ucast x" "?h = ucast (drop_bit 8 x)"
      by (rule bit_word_eqI; simp add: bit_simps)+
    ultimately have "fat_edit v (set_win v1 (st_word (win v1) (?b mod SS) (ucast x)))
       (enc16 (fat_image v) (unat c) x)" by (simp add: enc16_def)
    then show ?thesis using step True by simp
  qed
  show "res = FR_OK \<Longrightarrow> fat_edit v v' (enc16 (fat_image v) (unat c) x)"
    and "res \<noteq> FR_OK \<Longrightarrow> res = FR_DISK_ERR \<and> fat_edit v v' (fat_image v)"
    using goal by simp_all
qed

text \<open>A double word stored into the table.\<close>

lemma fat_edit_dword:
  assumes e: "fat_edit v v1 im" and g: "fat_geom v" and i: "\<And>k. k < 4 \<Longrightarrow> 4 * j + k < fat_bytes v"
    and s: "winsect v1 = fatbase v + s" "unat s = 4 * j div SS"
  shows "fat_edit v (set_win v1 (st_dword (win v1) (4 * j mod SS) x))
    (im(4 * j := ucast x, 4 * j + 1 := ucast (drop_bit 8 x),
        4 * j + 2 := ucast (drop_bit 16 x), 4 * j + 3 := ucast (drop_bit 24 x)))"
proof -
  let ?b = "4 * j"
  have d: "(?b + k) div SS = ?b div SS" "(?b + k) mod SS = ?b mod SS + k" if "k < 4" for k
    using sector_pos [of 4 k j] that by simp_all
  define u1 where "u1 = set_win v1 ((win v1)[?b mod SS := ucast x])"
  define u2 where "u2 = set_win u1 ((win u1)[(?b + 1) mod SS := ucast (drop_bit 8 x)])"
  define u3 where "u3 = set_win u2 ((win u2)[(?b + 2) mod SS := ucast (drop_bit 16 x)])"
  have e1: "fat_edit v u1 (im(?b := ucast x))"
    unfolding u1_def using i [of 0] by (intro fat_edit_set [OF e g _ s]) simp
  have e2: "fat_edit v u2 (im(?b := ucast x, ?b + 1 := ucast (drop_bit 8 x)))"
    unfolding u2_def using i [of 1] s d [of 1] by (intro fat_edit_set [OF e1 g]) (simp_all add: u1_def)
  have e3: "fat_edit v u3 (im(?b := ucast x, ?b + 1 := ucast (drop_bit 8 x), ?b + 2 := ucast (drop_bit 16 x)))"
    unfolding u3_def using i [of 2] s d [of 2] by (intro fat_edit_set [OF e2 g]) (simp_all add: u1_def u2_def)
  have "fat_edit v (set_win u3 ((win u3)[(?b + 3) mod SS := ucast (drop_bit 24 x)]))
    (im(?b := ucast x, ?b + 1 := ucast (drop_bit 8 x), ?b + 2 := ucast (drop_bit 16 x),
        ?b + 3 := ucast (drop_bit 24 x)))"
    using i [of 3] s d [of 3] by (intro fat_edit_set [OF e3 g]) (simp_all add: u1_def u2_def u3_def)
  moreover have "set_win u3 ((win u3)[(?b + 3) mod SS := ucast (drop_bit 24 x)])
    = set_win v1 (st_dword (win v1) (?b mod SS) x)"
    using d [of 1] d [of 2] d [of 3]
    by (simp add: u1_def u2_def u3_def set_win_twice st_dword_def Let_def drop_bit_drop_bit ac_simps)
  ultimately show ?thesis by simp
qed

lemma put_fat32:
  assumes g: "put_fat v c x = (res, v')" and ok: "vok v" and ge: "fat_geom v"
    and c: "2 \<le> c" "c < n_fatent v" and ty: "fs_type v = 3"
  shows "res = FR_OK \<Longrightarrow> fat_edit v v' (enc32 (fat_image v) (unat c) x)"
    and "res \<noteq> FR_OK \<Longrightarrow> res = FR_DISK_ERR \<and> fat_edit v v' (fat_image v)"
proof -
  let ?b = "4 * unat c"
  have n: "n_fatent v \<le> 0x0FFFFFF7" using ge ty by (simp add: fat_geom_def)
  have cn: "unat c < unat (n_fatent v)" "unat (n_fatent v) \<le> 0x0FFFFFF7"
    using c(2) n by (simp_all add: word_less_nat_alt word_le_nat_alt)
  have inb: "?b + k < fat_bytes v" if "k < 4" for k using cn ty that by (auto simp: fat_bytes_def)
  have p: "unat (c * 4 mod SS) = ?b mod SS" "unat (c div (SS div 4)) = ?b div SS"
    using pos_scaled [of c 4] cn by simp_all
  obtain r1 v1 where m1: "move_window v (fatbase v + c div (SS div 4)) = (r1, v1)" by fastforce
  have e1: "fat_edit v v1 (fat_image v)" by (rule fat_edit_move [OF fat_edit_refl [OF ok] m1 ge])
  let ?x = "(x AND 0x0FFFFFFF) OR (ld_dword (win v1) (?b mod SS) AND 0xF0000000)"
  have step: "(res, v') = (if r1 \<noteq> FR_OK then (r1, v1)
      else (r1, set_win v1 (st_dword (win v1) (?b mod SS) ?x)))"
    using g c ty m1 p(1) by (cases "r1 = FR_OK") (simp_all add: put_fat_def Let_def)
  have goal: "(res = FR_OK \<longrightarrow> fat_edit v v' (enc32 (fat_image v) (unat c) x)) \<and>
    (res \<noteq> FR_OK \<longrightarrow> res = FR_DISK_ERR \<and> fat_edit v v' (fat_image v))"
  proof (cases "r1 = FR_OK")
    case False
    then show ?thesis using step e1 move_window_ok(8) [OF m1 ok] by auto
  next
    case True
    have w1: "winsect v1 = fatbase v + c div (SS div 4)"
      using move_window_ok(6) [OF m1 ok] True by simp
    have "win v1 ! (?b mod SS + k) = fat_image v (?b + k)" if "k < 4" for k
      using sector_pos [of 4 k "unat c", OF _ that] fat_byte [OF _ ok ge inb [OF that]] m1 True p(2) by simp
    from this [of 0] this [of 1] this [of 2] this [of 3]
    have old: "ld_dword (win v1) (?b mod SS) = dword32 (fat_image v) (unat c)"
      by (simp add: ld_dword_def dword32_def push_bit_or ac_simps)
    show ?thesis
      using fat_edit_dword [OF e1 ge inb w1 p(2), of ?x] step True
      by (simp add: enc32_def Let_def old)
  qed
  show "res = FR_OK \<Longrightarrow> fat_edit v v' (enc32 (fat_image v) (unat c) x)"
    and "res \<noteq> FR_OK \<Longrightarrow> res = FR_DISK_ERR \<and> fat_edit v v' (fat_image v)"
    using goal by simp_all
qed

text \<open>What a write of an entry does, whatever the type of the FAT: on success the entry reads
  back, cut to its width, and no other entry changes; on a disk error no other entry changes
  either.\<close>

lemma put_fat_range: "c < 2 \<or> n_fatent v \<le> c \<Longrightarrow> put_fat v c x = (FR_INT_ERR, v)"
  by (auto simp: put_fat_def)

lemma put_fat_edit:
  assumes g: "put_fat v c x = (res, v')" and ok: "vok v" and ge: "fat_geom v"
  shows "\<exists>im. fat_edit v v' im"
proof (cases "c < 2 \<or> n_fatent v \<le> c")
  case True
  then show ?thesis using put_fat_range [OF True] g fat_edit_refl [OF ok] by auto
next
  case False
  then have c: "2 \<le> c" "c < n_fatent v" by auto
  from ge show ?thesis
  proof (cases rule: fat_types)
    case FAT12 then show ?thesis using put_fat12 [OF g ok ge c] by blast
  next
    case FAT16 then show ?thesis using put_fat16 [OF g ok ge c] by blast
  next
    case FAT32 then show ?thesis using put_fat32 [OF g ok ge c] by blast
  qed
qed

lemma put_fat_frame:
  assumes "put_fat v c x = (res, v')" and "vok v" and "fat_geom v"
  shows "vok v'" "geo v' = geo v" "alloc v' = alloc v" "misc v' = misc v" "fat_geom v'"
    "pub v s \<Longrightarrow> \<not> in_fat v s \<Longrightarrow> vsec v' s = vsec v s"
proof -
  obtain im where e: "fat_edit v v' im" using put_fat_edit [OF assms] by blast
  then show "vok v'" "geo v' = geo v" "alloc v' = alloc v" "misc v' = misc v"
    "pub v s \<Longrightarrow> \<not> in_fat v s \<Longrightarrow> vsec v' s = vsec v s" by (simp_all add: fat_edit_def)
  then show "fat_geom v'" using fat_geom_geo assms(3) by blast
qed

lemma put_fat_same:
  assumes g: "put_fat v c x = (FR_OK, v')" and ok: "vok v" and ge: "fat_geom v"
  shows "fat_entry v' (unat c) = x AND fat_cut v" "2 \<le> c" "c < n_fatent v"
proof -
  show c: "2 \<le> c" "c < n_fatent v" using g put_fat_range [of c v x] by (metis FRESULT.distinct(3) Pair_inject not_less)+
  then have cn: "unat c < unat (n_fatent v)" by (simp add: word_less_nat_alt)
  from ge show "fat_entry v' (unat c) = x AND fat_cut v"
  proof (cases rule: fat_types)
    case FAT12
    then show ?thesis using fat_edit_entry [OF put_fat12(1) [OF g ok ge c] ge cn]
      by (simp add: f12.dec_enc_same fat_cut_def)
  next
    case FAT16
    then show ?thesis using fat_edit_entry [OF put_fat16(1) [OF g ok ge c] ge cn]
      by (simp add: f16.dec_enc_same fat_cut_def)
  next
    case FAT32
    then show ?thesis using fat_edit_entry [OF put_fat32(1) [OF g ok ge c] ge cn]
      by (simp add: f32.dec_enc_same fat_cut_def)
  qed
qed

lemma put_fat_other:
  assumes g: "put_fat v c x = (res, v')" and ok: "vok v" and ge: "fat_geom v"
    and d: "d \<noteq> unat c" "d < unat (n_fatent v)"
  shows "fat_entry v' d = fat_entry v d"
proof (cases "c < 2 \<or> n_fatent v \<le> c")
  case True
  then show ?thesis using put_fat_range [OF True] g by simp
next
  case False
  then have c: "2 \<le> c" "c < n_fatent v" by auto
  have old: "fat_entry v d = (if fs_type v = FS_FAT12 then dec12 (fat_image v) d
     else if fs_type v = FS_FAT16 then dec16 (fat_image v) d else dec32 (fat_image v) d)"
    by (simp add: fat_entry_def)
  from ge show ?thesis
  proof (cases rule: fat_types)
    case FAT12
    then show ?thesis
      using put_fat12 [OF g ok ge c] fat_edit_entry [OF _ ge d(2)] old d(1)
      by (cases "res = FR_OK") (auto simp: f12.dec_enc_other dec12_half12_other)
  next
    case FAT16
    then show ?thesis
      using put_fat16 [OF g ok ge c] fat_edit_entry [OF _ ge d(2)] old d(1)
      by (cases "res = FR_OK") (auto simp: f16.dec_enc_other)
  next
    case FAT32
    then show ?thesis
      using put_fat32 [OF g ok ge c] fat_edit_entry [OF _ ge d(2)] old d(1)
      by (cases "res = FR_OK") (auto simp: f32.dec_enc_other)
  qed
qed

lemma put_fat_res: "put_fat v c x = (res, v') \<Longrightarrow> vok v \<Longrightarrow> fat_geom v \<Longrightarrow>
    res = FR_OK \<or> res = FR_DISK_ERR \<or> res = FR_INT_ERR"
  using put_fat12 put_fat16 put_fat32 put_fat_range [of c v x] fat_types [of v]
  by (cases "c < 2 \<or> n_fatent v \<le> c") (auto simp: not_less not_le, metis)

lemma put_fat_inside:
  assumes "put_fat v c x = (res, v')" and "vok v" and "fat_geom v" and "\<not> (c < 2 \<or> n_fatent v \<le> c)"
  shows "res = FR_OK \<or> res = FR_DISK_ERR"
proof -
  have c: "2 \<le> c" "c < n_fatent v" using assms(4) by auto
  from assms(3) show ?thesis
  proof (cases rule: fat_types)
    case FAT12
    then show ?thesis using put_fat12(2) [OF assms(1-3) c] by blast
  next
    case FAT16
    then show ?thesis using put_fat16(2) [OF assms(1-3) c] by blast
  next
    case FAT32
    then show ?thesis using put_fat32(2) [OF assms(1-3) c] by blast
  qed
qed

section \<open>The table on a healthy drive\<close>

lemma move_window_healthyE:
  assumes "healthy v" and "vok v" and "move_window v t = (r, v')"
  shows "r = FR_OK" "healthy v'" "vok v'"
  using move_window_healthy [of v t] move_window_ok(1) [OF assms(3,2)] assms by (auto simp: vok_def)

lemma get_fat_healthy:
  assumes h: "healthy v" and ok: "vok v" and g: "get_fat v c = (r, v')"
  shows "healthy v'" "r \<noteq> 0xFFFFFFFF"
proof -
  have nb: "\<not> bit w 31" for w :: WORD using bit_imp_le_length [of w 31] by auto
  have "healthy v' \<and> \<not> bit r 31"
  proof (cases "c < 2 \<or> n_fatent v \<le> c")
    case True
    then show ?thesis using g h get_fat_range [OF True] by (simp add: bit_1_iff)
  next
    case False
    obtain r1 v1 where m1: "move_window v (fatbase v + (c + c div 2) div SS) = (r1, v1)" by fastforce
    obtain r2 v2 where m2: "move_window v1 (fatbase v1 + (c + c div 2 + 1) div SS) = (r2, v2)" by fastforce
    obtain r3 v3 where m3: "move_window v (fatbase v + c div (SS div 2)) = (r3, v3)" by fastforce
    obtain r4 v4 where m4: "move_window v (fatbase v + c div (SS div 4)) = (r4, v4)" by fastforce
    note h1 = move_window_healthyE [OF h ok m1]
    note h2 = move_window_healthyE [OF h1(2,3) m2]
    note h3 = move_window_healthyE [OF h ok m3] and h4 = move_window_healthyE [OF h ok m4]
    show ?thesis
      using g False h m1 m2 m3 m4 h1 h2 h3 h4
      by (auto simp: get_fat_def Let_def masks bit_simps nb split: if_splits dest: bit_imp_le_length)
  qed
  then show "healthy v'" "r \<noteq> 0xFFFFFFFF" by auto
qed

lemma put_fat_healthy:
  assumes h: "healthy v" and ok: "vok v" and ge: "fat_geom v"
    and c: "2 \<le> c" "c < n_fatent v" and g: "put_fat v c x = (res, v')"
  shows "res = FR_OK" "healthy v'"
proof -
  have hs: "healthy u \<Longrightarrow> healthy (set_win u w)" for u w by (simp add: healthy_def set_win_def)
  have vs: "vok u \<Longrightarrow> vok (set_win u ((win u)[i := b]))" for u i b
    by (rule set_win_ok(1)) (simp_all add: vok_def wf_vol_def)
  obtain r1 v1 where m1: "move_window v (fatbase v + (c + c div 2) div SS) = (r1, v1)" by fastforce
  note h1 = move_window_healthyE [OF h ok m1]
  obtain r3 v3 where m3: "move_window v (fatbase v + c div (SS div 2)) = (r3, v3)" by fastforce
  obtain r4 v4 where m4: "move_window v (fatbase v + c div (SS div 4)) = (r4, v4)" by fastforce
  note h3 = move_window_healthyE [OF h ok m3] and h4 = move_window_healthyE [OF h ok m4]
  have "res = FR_OK \<and> healthy v'"
    using ge
  proof (cases rule: fat_types)
    case FAT12
    let ?u = "set_win v1 ((win v1)[unat ((c + c div 2) mod SS) :=
      if c AND 1 \<noteq> 0 then (win v1 ! unat ((c + c div 2) mod SS) AND 0x0F) OR push_bit 4 (ucast x)
      else ucast x])"
    obtain r2 v2 where m2: "move_window ?u (fatbase ?u + (c + c div 2 + 1) div SS) = (r2, v2)" by fastforce
    note h2 = move_window_healthyE [OF hs [OF h1(2)] vs [OF h1(3)] m2]
    show ?thesis
      using g c FAT12(1) m1 m2 h1(1) h2 by (simp add: put_fat_def Let_def) (blast intro: hs)
  next
    case FAT16
    then show ?thesis using g c m3 h3 by (auto simp: put_fat_def intro: hs)
  next
    case FAT32
    then show ?thesis using g c m4 h4 by (auto simp: put_fat_def Let_def intro: hs)
  qed
  then show "res = FR_OK" "healthy v'" by simp_all
qed

section \<open>The sample volumes\<close>

lemma healthy_sample [simp]: "healthy (sample ty secs)"
  by (simp add: healthy_def)

lemma vok_sample [simp]: "vok (sample ty secs)"
  by (simp add: vok_def coherent_def)

lemma fat_geom_sample: "ty = 1 \<or> ty = 2 \<or> ty = 3 \<Longrightarrow> fat_geom (sample ty secs)"
  by (auto simp: fat_geom_def fat_bytes_def bytes12_def)

lemma vsec_sample: "s \<noteq> bad_sector \<Longrightarrow> vsec (sample ty secs) s = sectors (sample_drive secs) s"
  by (simp add: vsec_def bad_sector_def)

lemma fat_image_sample:
  "i < 512 \<Longrightarrow> fat_image (sample ty ((Suc 0, bs) # secs)) i = (if i < length bs then bs ! i else 0)"
  by (simp add: fat_image_def vsec_sample bad_sector_def nth_sample_sector)

lemma sample_entries:
  "fat_entry (sample 1 ((Suc 0, table12) # secs)) 2 = 3" "fat_entry (sample 1 ((Suc 0, table12) # secs)) 3 = 0xFFF"
  "fat_entry (sample 1 ((Suc 0, table12) # secs)) 4 = 0"
  "fat_entry (sample 2 ((Suc 0, table16) # secs)) 2 = 3" "fat_entry (sample 2 ((Suc 0, table16) # secs)) 3 = 0xFFFF"
  "fat_entry (sample 2 ((Suc 0, table16) # secs)) 4 = 0"
  "fat_entry (sample 3 ((Suc 0, table32) # secs)) 2 = 3" "fat_entry (sample 3 ((Suc 0, table32) # secs)) 3 = 0x0FFFFFFF"
  "fat_entry (sample 3 ((Suc 0, table32) # secs)) 4 = 0"
  by (simp_all add: fat_entry_def dec12_def dec16_def dec32_def dword32_def fat_image_sample
      table12_def table16_def table32_def)

section \<open>The window as a cache\<close>

lemma clean_window:
  assumes "vok v" and "wflag v = 0" and "pub v s"
  shows "sectors (drv v) s = vsec v s"
proof -
  have "s = unat (winsect v) \<Longrightarrow> winsect v \<noteq> 0xFFFFFFFF"
    using assms(3) winsect_bad [of v] by (auto simp: pub_def)
  with assms(1,2) show ?thesis by (auto simp: vok_def vsec_def coherent_def)
qed

text \<open>C1: The window is a transparent cache of one sector. Whatever the drive does, moving the
  window changes the content of no sector as the file system sees it; when it reports success,
  the window holds the sector that was asked for, and if the window had to move, every sector of
  the drive is up to date: the dirty sector was written back and not dropped.\<close>

theorem window_cache:
  assumes "vok v" and "move_window v t = (res, v')"
  shows "vok v' \<and> (\<forall>s. pub v s \<longrightarrow> vsec v' s = vsec v s) \<and>
    (if res = FR_OK
     then winsect v' = t \<and> (pub v (unat t) \<longrightarrow> win v' = vsec v (unat t)) \<and>
       (t \<noteq> winsect v \<longrightarrow> (\<forall>s. pub v s \<longrightarrow> sectors (drv v') s = vsec v s))
     else res = FR_DISK_ERR)"
proof -
  have wf: "wf_vol v" "coherent v" using assms(1) by (simp_all add: vok_def)
  note m = move_window_ok [OF assms(2,1)]
  have "sectors (drv v') s = vsec v s" if "t \<noteq> winsect v" "res = FR_OK" "pub v s" for s
    using clean_window [OF m(1)] move_window_view(6) [OF assms(2) wf] m(2) that pub_geo [OF m(5)]
    by (simp add: view_eq_def)
  with m show ?thesis by (auto simp: view_eq_def)
qed

theorem window_cache_witness:
  "\<exists>v. move_window (sample 2 [(1, table16)]) 1 = (FR_OK, v) \<and> win v ! 4 = 3"
proof -
  let ?v = "sample 2 [(1, table16)]"
  obtain v where m: "move_window ?v 1 = (FR_OK, v)"
    using move_window_healthy [of ?v 1] by auto
  have "pub ?v 1" using fat_sector_pub(1) [of ?v 0] fat_geom_sample [of 2] by (simp add: fat_bytes_def)
  with window_cache [OF _ m] have "win v = vsec ?v 1" by simp
  with m show ?thesis by (simp add: vsec_sample bad_sector_def nth_sample_sector table16_def)
qed

text \<open>C37: On a healthy drive, writing back a dirty sector of the FAT writes it to both copies of
  the table, and nothing else.\<close>

theorem fat_mirrored:
  assumes "vok v" and "healthy v" and "wflag v \<noteq> 0" and "n_fats v = 2" and "fat_geom v"
    and "in_fat v (unat (winsect v))"
  shows "\<exists>v'. sync_window v = (FR_OK, v') \<and> wflag v' = 0 \<and>
     sectors (drv v') = (sectors (drv v))
       (unat (winsect v) := win v, unat (winsect v) + unat (fsize v) := win v)"
proof -
  have h: "pdrv v < FF_VOLUMES" "attached (drv v)" "faults (drv v) = []" "length (win v) = SS"
    using assms(1,2) by (simp_all add: healthy_def vok_def wf_vol_def)
  have "winsect v - fatbase v < fsize v"
    using assms(6) by (auto simp: in_fat_def word_less_nat_alt unat_sub word_le_nat_alt)
  moreover have "unat (winsect v + fsize v) = unat (winsect v) + unat (fsize v)"
    using assms(5,6) by (simp add: in_fat_def fat_geom_def unat_add_bound)
  ultimately show ?thesis
    using assms(3,4) h by (simp add: sync_window_def disk_write_healthy Let_def)
qed

theorem fat_mirrored_witness:
  "\<exists>v'. sync_window ((sample 2 [])\<lparr>winsect := 1, win := replicate SS 7, wflag := 1\<rparr>) = (FR_OK, v') \<and>
     sectors (drv v') 2 = replicate SS 7"
proof -
  let ?v = "(sample 2 [])\<lparr>winsect := 1, win := replicate SS 7, wflag := 1\<rparr>"
  have g: "fat_geom ?v" using fat_geom_sample [of 2 "[]"] fat_geom_geo [of ?v "sample 2 []"]
    by (simp add: geo_def)
  have "vok ?v" using edit_window_view(1,2) [of "(sample 2 [])\<lparr>winsect := 1\<rparr>" "replicate SS 7"]
    by (simp add: vok_def wf_vol_def length_sample_sector coherent_def)
  with fat_mirrored [of ?v] g show ?thesis by (auto simp: healthy_def in_fat_def)
qed

section \<open>The table\<close>

text \<open>C2: Writing an entry of the FAT, for the three types alike, also where a FAT12 entry is
  split over two sectors: a cluster number outside of the table is refused and nothing changes;
  on success the entry holds the value, cut to its width; and in every case, a disk error
  included, no other entry changes, no sector outside of the table, and no mount parameter.\<close>

theorem table_write:
  assumes "vok v" and "fat_geom v" and "put_fat v c x = (res, v')"
  shows "vok v' \<and> geo v' = geo v \<and>
    (if c < 2 \<or> n_fatent v \<le> c then res = FR_INT_ERR \<and> v' = v
     else res = FR_OK \<and> fat_entry v' (unat c) = x AND fat_cut v \<or> res = FR_DISK_ERR) \<and>
    (\<forall>d < unat (n_fatent v). d \<noteq> unat c \<longrightarrow> fat_entry v' d = fat_entry v d) \<and>
    (\<forall>s. pub v s \<longrightarrow> \<not> in_fat v s \<longrightarrow> vsec v' s = vsec v s)"
proof (cases "c < 2 \<or> n_fatent v \<le> c")
  case True
  then show ?thesis using put_fat_range [OF True] assms by simp
next
  case False
  then have "res = FR_OK \<or> res = FR_DISK_ERR"
    using put_fat_inside [OF assms(3,1,2)] by simp
  then show ?thesis
    using False put_fat_same(1) put_fat_other put_fat_frame assms by auto
qed

theorem table_write_witness:
  "\<exists>v'. put_fat (sample 1 [(1, table12)]) 3 4 = (FR_OK, v') \<and> fat_entry v' 3 = 4 \<and> fat_entry v' 2 = 3"
proof -
  let ?v = "sample 1 [(1, table12)]"
  have g: "fat_geom ?v" by (rule fat_geom_sample) simp
  obtain r v' where p: "put_fat ?v 3 4 = (r, v')" by fastforce
  then have "r = FR_OK" using put_fat_healthy [of ?v 3 4 r v'] g by simp
  with p table_write [OF _ g p] show ?thesis
    by (simp add: sample_entries fat_cut_def)
qed

text \<open>C26: Reading an entry of the FAT changes nothing that the file system sees; for a cluster
  of the table it gives the entry's value, or \<open>0xFFFFFFFF\<close> when the drive fails, which a healthy
  one never does; for another number it gives 1.\<close>

theorem table_read:
  assumes "vok v" and "fat_geom v" and "get_fat v c = (r, v')"
  shows "vok v' \<and> (\<forall>s. pub v s \<longrightarrow> vsec v' s = vsec v s) \<and>
    (if c < 2 \<or> n_fatent v \<le> c then r = 1
     else r = fat_entry v (unat c) \<or> r = 0xFFFFFFFF \<and> \<not> healthy v)"
  using quietD [OF get_fat_quiet [OF assms(3)]] get_fat_value [OF assms(3,1,2)]
    get_fat_range [of c v] get_fat_healthy(2) [OF _ assms(1,3)] assms
  by (auto simp: view_eq_def not_less not_le)

theorem table_read_witness:
  "\<exists>v'. get_fat (sample 3 [(1, table32)]) 2 = (3, v')"
proof -
  let ?v = "sample 3 [(1, table32)]"
  obtain r v' where g: "get_fat ?v 2 = (r, v')" by fastforce
  with table_read [OF _ fat_geom_sample g] show ?thesis by (simp add: sample_entries)
qed

end
