(* ===== verification/Fat_Chain.thy ===== *)
theory Fat_Chain
  imports Fat_Table
begin

text \<open>
  \<^verbatim>\<open>addon/fatfs/ff.c\<close>, lines 1411-1604: cluster chains (\<open>remove_chain\<close>, \<open>create_chain\<close>). Both
  loop over the FAT. The lemmas show that they return on every volume whose FAT is sound, that
  removing a chain frees exactly its clusters, and that the cluster an allocation returns was
  free, is now the end of a chain, is linked from the cluster it stretches, and is the only
  entry (with that one) that has changed.
\<close>

unbundle bit_operations_syntax

section \<open>Remove a chain\<close>

definition note_freed :: "vol \<Rightarrow> vol" where
  "note_freed v =
     (if free_clst v < n_fatent v - 2
      then v\<lparr>free_clst := free_clst v + 1, fsi_flag := fsi_flag v OR 1\<rparr> else v)"

text \<open>The \<open>do\<close> loop of \<open>remove_chain\<close>.\<close>

partial_function (option) remove_loop :: "vol \<Rightarrow> DWORD \<Rightarrow> (FRESULT \<times> vol) option" where
  "remove_loop v clst =
     (case get_fat v clst of (nxt, v) \<Rightarrow>
      if nxt = 0 then Some (FR_OK, v)
      else if nxt = 1 then Some (FR_INT_ERR, v)
      else if nxt = 0xFFFFFFFF then Some (FR_DISK_ERR, v)
      else case put_fat v clst 0 of (res, v) \<Rightarrow>
        if res \<noteq> FR_OK then Some (res, v)
        else let v = note_freed v in
          if nxt < n_fatent v then remove_loop v nxt else Some (FR_OK, v))"

definition remove_chain :: "vol \<Rightarrow> DWORD \<Rightarrow> DWORD \<Rightarrow> (FRESULT \<times> vol) option" where
  "remove_chain v clst pclst =
     (if clst < 2 \<or> clst \<ge> n_fatent v then Some (FR_INT_ERR, v)
      else if pclst \<noteq> 0 then
        (case put_fat v pclst 0xFFFFFFFF of (res, v) \<Rightarrow>
           if res \<noteq> FR_OK then Some (res, v) else remove_loop v clst)
      else remove_loop v clst)"

section \<open>Stretch or create a chain\<close>

text \<open>The \<open>for (;;)\<close> loop of \<open>create_chain\<close>: \<open>Inl\<close> is a return with that value, \<open>Inr\<close> the
  free cluster with which the loop is left.\<close>

partial_function (option) find_free ::
    "vol \<Rightarrow> DWORD \<Rightarrow> DWORD \<Rightarrow> ((DWORD + DWORD) \<times> vol) option" where
  "find_free v scl ncl =
     (let ncl = ncl + 1;
          wrap = (ncl \<ge> n_fatent v);
          ncl = (if wrap then 2 else ncl)
      in if wrap \<and> ncl > scl then Some (Inl 0, v)
         else case get_fat v ncl of (cs, v) \<Rightarrow>
           if cs = 0 then Some (Inr ncl, v)
           else if cs = 1 \<or> cs = 0xFFFFFFFF then Some (Inl cs, v)
           else if ncl = scl then Some (Inl 0, v)
           else find_free v scl ncl)"

text \<open>The start of the search, up to the test of \<open>free_clst\<close>: \<open>Inl\<close> is an early return.\<close>

definition create_start :: "vol \<Rightarrow> DWORD \<Rightarrow> (DWORD + DWORD) \<times> vol" where
  "create_start v clst =
     (if clst = 0 then
        (let scl = last_clst v in
         (Inr (if scl = 0 \<or> scl \<ge> n_fatent v then 1 else scl), v))
      else
        (case get_fat v clst of (cs, v) \<Rightarrow>
          if cs < 2 then (Inl 1, v)
          else if cs = 0xFFFFFFFF then (Inl cs, v)
          else if cs < n_fatent v then (Inl cs, v)
          else (Inr clst, v)))"

text \<open>Choosing the free cluster: next to the stretched one, else by the search.\<close>

definition create_find :: "vol \<Rightarrow> DWORD \<Rightarrow> DWORD \<Rightarrow> ((DWORD + DWORD) \<times> vol) option" where
  "create_find v clst scl =
     (if scl = clst then
        (let ncl = scl + 1; ncl = (if ncl \<ge> n_fatent v then 2 else ncl) in
         case get_fat v ncl of (cs, v) \<Rightarrow>
           if cs = 1 \<or> cs = 0xFFFFFFFF then Some (Inl cs, v)
           else if cs \<noteq> 0 then
             (let cs = last_clst v; scl = (if cs \<ge> 2 \<and> cs < n_fatent v then cs else scl)
              in find_free v scl scl)
           else Some (Inr ncl, v))
      else find_free v scl scl)"

text \<open>Marking and linking the cluster found.\<close>

definition create_link :: "vol \<Rightarrow> DWORD \<Rightarrow> DWORD \<Rightarrow> DWORD \<times> vol" where
  "create_link v clst ncl =
     (case put_fat v ncl 0xFFFFFFFF of (res, v) \<Rightarrow>
      case (if res = FR_OK \<and> clst \<noteq> 0 then put_fat v clst ncl else (res, v)) of (res, v) \<Rightarrow>
        if res = FR_OK then
          (let v = v\<lparr>last_clst := ncl\<rparr>;
               v = (if free_clst v \<le> n_fatent v - 2 then v\<lparr>free_clst := free_clst v - 1\<rparr> else v)
           in (ncl, v\<lparr>fsi_flag := fsi_flag v OR 1\<rparr>))
        else (if res = FR_DISK_ERR then 0xFFFFFFFF else 1, v))"

definition create_chain :: "vol \<Rightarrow> DWORD \<Rightarrow> (DWORD \<times> vol) option" where
  "create_chain v clst =
     (case create_start v clst of
        (Inl r, v) \<Rightarrow> Some (r, v)
      | (Inr scl, v) \<Rightarrow>
          if free_clst v = 0 then Some (0, v)
          else do {
            (r, v) \<leftarrow> create_find v clst scl;
            case r of Inl cs \<Rightarrow> Some (cs, v) | Inr ncl \<Rightarrow> Some (create_link v clst ncl)
          })"

section \<open>Steps that change the table only\<close>

text \<open>\<open>fat_only v v'\<close>: nothing but the FAT and the allocation hints differs.\<close>

definition fat_only :: "vol \<Rightarrow> vol \<Rightarrow> bool" where
  "fat_only v v' \<longleftrightarrow>
     vok v' \<and> geo v' = geo v
     \<and> (\<forall>s. pub v s \<longrightarrow> \<not> in_fat v s \<longrightarrow> vsec v' s = vsec v s)"

lemma in_fat_geo: "geo v' = geo v \<Longrightarrow> in_fat v' s = in_fat v s"
  by (simp add: in_fat_def geo_fields [of v' v])

lemma fat_only_refl: "vok v \<Longrightarrow> fat_only v v"
  by (simp add: fat_only_def)

lemma fat_only_trans:
  assumes "fat_only u v" and "fat_only v w"
  shows "fat_only u w"
  using assms pub_geo [of v u] in_fat_geo [of v u] by (simp add: fat_only_def)

lemma fat_onlyD:
  assumes "fat_only v v'"
  shows "vok v'" "geo v' = geo v" "n_fatent v' = n_fatent v" "fat_geom v' = fat_geom v"
    "fat_cut v' = fat_cut v"
  using assms geo_fields(7) [of v' v] fat_geom_geo [of v' v] fat_cut_geo [of v' v]
  by (simp_all add: fat_only_def)

lemma quiet_fat_only: "quiet v v' \<Longrightarrow> vok v \<Longrightarrow> fat_only v v'"
  by (simp add: fat_only_def quiet_def view_eq_def)

lemma put_fat_only: "put_fat v c x = (res, v') \<Longrightarrow> vok v \<Longrightarrow> fat_geom v \<Longrightarrow> fat_only v v'"
  using put_fat_frame [of v c x res v'] by (simp add: fat_only_def)

text \<open>The allocation hints are no part of the view.\<close>

definition same_disk :: "vol \<Rightarrow> vol \<Rightarrow> bool" where
  "same_disk v v' \<longleftrightarrow> vok v' = vok v \<and> geo v' = geo v \<and> vsec v' = vsec v \<and> healthy v' = healthy v"

lemma same_disk_alloc [simp]:
  "same_disk v (v\<lparr>free_clst := a\<rparr>)" "same_disk v (v\<lparr>last_clst := b\<rparr>)" "same_disk v (v\<lparr>fsi_flag := c\<rparr>)"
  by (auto simp: same_disk_def vok_def wf_vol_def coherent_def state_parts vsec_def healthy_def)

lemma same_disk_trans: "same_disk u v \<Longrightarrow> same_disk v w \<Longrightarrow> same_disk u w"
  by (simp add: same_disk_def)

lemma same_diskD:
  assumes "same_disk v v'"
  shows "vok v' = vok v" "geo v' = geo v" "fat_entry v' = fat_entry v" "healthy v' = healthy v"
    "n_fatent v' = n_fatent v" "fat_geom v' = fat_geom v" "fat_cut v' = fat_cut v"
proof -
  have geo: "geo v' = geo v" and vs: "vsec v' = vsec v" using assms by (simp_all add: same_disk_def)
  show "vok v' = vok v" "geo v' = geo v" "healthy v' = healthy v" using assms by (simp_all add: same_disk_def)
  show "n_fatent v' = n_fatent v" "fat_geom v' = fat_geom v" "fat_cut v' = fat_cut v"
    using geo_fields(7) [OF geo] fat_geom_geo [OF geo] fat_cut_geo [OF geo] by simp_all
  have "fat_image v' = fat_image v" by (rule ext) (simp add: fat_image_def vs geo_fields [OF geo])
  then show "fat_entry v' = fat_entry v" by (intro ext) (simp add: fat_entry_def geo_fields [OF geo])
qed

lemma same_disk_fat_only: "same_disk v v' \<Longrightarrow> vok v \<Longrightarrow> fat_only v v'"
  by (simp add: same_disk_def fat_only_def)

lemma same_disk_freed: "same_disk v (note_freed v)"
  unfolding note_freed_def using same_disk_trans [OF same_disk_alloc(1) same_disk_alloc(3)]
  by (simp add: same_disk_def)

section \<open>Chains of a table\<close>

text \<open>\<open>chain E n c cs\<close>: following the entries \<open>E\<close> of a table of \<open>n\<close> entries from cluster \<open>c\<close>
  passes through the clusters \<open>cs\<close> and ends at an entry outside of the table.\<close>

fun chain :: "(nat \<Rightarrow> DWORD) \<Rightarrow> DWORD \<Rightarrow> DWORD \<Rightarrow> DWORD list \<Rightarrow> bool" where
  "chain E n c [] \<longleftrightarrow> False"
| "chain E n c (x # cs) \<longleftrightarrow>
     x = c \<and> 2 \<le> c \<and> c < n \<and>
     (if cs = [] then n \<le> E (unat c)
      else 2 \<le> E (unat c) \<and> E (unat c) < n \<and> chain E n (E (unat c)) cs)"

lemma chain_range: "chain E n c cs \<Longrightarrow> \<forall>x \<in> set cs. 2 \<le> x \<and> x < n"
  by (induction cs arbitrary: c) (auto split: if_splits)

lemma chain_nonzero: "chain E n c cs \<Longrightarrow> x \<in> set cs \<Longrightarrow> 2 \<le> E (unat x)"
proof (induction cs arbitrary: c)
  case (Cons y cs)
  have "2 \<le> n" using Cons.prems by auto
  then show ?case using Cons by (auto split: if_splits)
qed simp

lemma chain_cong: "chain E n c cs \<Longrightarrow> (\<And>x. x \<in> set cs \<Longrightarrow> E' (unat x) = E (unat x)) \<Longrightarrow> chain E' n c cs"
  by (induction cs arbitrary: c) (auto split: if_splits)

lemma chain_change:
  assumes "chain E n c cs" and "x \<notin> set cs"
    and "\<And>d. d < unat n \<Longrightarrow> d \<noteq> unat x \<Longrightarrow> E' d = E d"
  shows "chain E' n c cs"
proof (rule chain_cong [OF assms(1)])
  fix y
  assume y: "y \<in> set cs"
  then have "unat y < unat n" using chain_range [OF assms(1)] by (simp add: word_less_nat_alt)
  moreover have "y \<noteq> x" using y assms(2) by blast
  then have "unat y \<noteq> unat x" by (metis word_unat_eq_iff)
  ultimately show "E' (unat y) = E (unat y)" by (rule assms(3))
qed

lemma chain_suffix: "chain E n c cs \<Longrightarrow> x \<in> set cs \<Longrightarrow> \<exists>ys zs. cs = ys @ zs \<and> chain E n x zs"
proof (induction cs arbitrary: c)
  case (Cons y cs)
  show ?case
  proof (cases "x = y")
    case True
    then show ?thesis using Cons.prems by (intro exI [of _ "[]"] exI [of _ "y # cs"]) auto
  next
    case False
    then have "cs \<noteq> []" "x \<in> set cs" using Cons.prems by auto
    then obtain ys zs where "cs = ys @ zs" "chain E n x zs"
      using Cons.IH [of "E (unat c)"] Cons.prems by auto
    then show ?thesis by (intro exI [of _ "y # ys"] exI [of _ zs]) auto
  qed
qed simp

text \<open>The clusters of a chain are determined by its start, so no cluster repeats.\<close>

lemma chain_unique: "chain E n c cs \<Longrightarrow> chain E n c ds \<Longrightarrow> cs = ds"
proof (induction cs arbitrary: c ds)
  case (Cons x cs)
  then show ?case by (cases ds) (auto split: if_splits)
qed simp

lemma chain_distinct: "chain E n c cs \<Longrightarrow> distinct cs"
proof (induction cs arbitrary: c)
  case (Cons x cs)
  have "x \<notin> set cs"
  proof
    assume "x \<in> set cs"
    then have "cs \<noteq> []" by auto
    with Cons.prems have "chain E n (E (unat c)) cs" and x: "x = c" by auto
    from chain_suffix [OF this(1) \<open>x \<in> set cs\<close>] obtain ys zs where "cs = ys @ zs" "chain E n x zs" by blast
    moreover have "x # cs = zs" using chain_unique [OF Cons.prems, of zs] calculation x by simp
    ultimately show False by (metis append_Cons append_self_conv2 length_Cons length_append linorder_not_le not_add_less2 lessI le_add2)
  qed
  moreover have "distinct cs" using Cons by (cases "cs = []") auto
  ultimately show ?case by simp
qed simp

section \<open>Removing a chain\<close>

lemma all_ones_and [simp]: "(0xFFFFFFFF :: DWORD) AND x = x"
proof -
  have m: "(0xFFFFFFFF :: DWORD) = - 1" by simp
  show ?thesis unfolding m by (rule and.left_neutral)
qed

text \<open>Free clusters, counted: the measure of the removal.\<close>

definition used_entries :: "vol \<Rightarrow> nat set" where
  "used_entries v = {c. c < unat (n_fatent v) \<and> fat_entry v c \<noteq> 0}"

lemma finite_used [simp]: "finite (used_entries v)"
  by (rule finite_subset [of _ "{..< unat (n_fatent v)}"]) (auto simp: used_entries_def)

lemma get_fat_entryD:
  assumes g: "get_fat v c = (r, v1)" and ok: "vok v" and ge: "fat_geom v"
  shows "vok v1" "fat_geom v1" "n_fatent v1 = n_fatent v" "fat_only v v1"
    "\<And>d. d < unat (n_fatent v) \<Longrightarrow> fat_entry v1 d = fat_entry v d" "used_entries v1 = used_entries v"
    "r \<noteq> 1 \<Longrightarrow> r \<noteq> 0xFFFFFFFF \<Longrightarrow> 2 \<le> c \<and> c < n_fatent v \<and> r = fat_entry v (unat c)"
proof -
  note q = get_fat_quiet [OF g]
  show "vok v1" "fat_geom v1" "n_fatent v1 = n_fatent v"
    using quietD(3) [OF q ok] quiet_fat_geom [OF q] ge quiet_fields(7) [OF q] by simp_all
  show "fat_only v v1" by (rule quiet_fat_only [OF q ok])
  show ent: "\<And>d. d < unat (n_fatent v) \<Longrightarrow> fat_entry v1 d = fat_entry v d"
    by (rule quiet_fat_entry [OF q ok ge])
  then show "used_entries v1 = used_entries v" by (auto simp: used_entries_def quiet_fields(7) [OF q])
  show "r \<noteq> 1 \<Longrightarrow> r \<noteq> 0xFFFFFFFF \<Longrightarrow> 2 \<le> c \<and> c < n_fatent v \<and> r = fat_entry v (unat c)"
    using get_fat_value [OF g ok ge] get_fat_range [of c v] g by (metis Pair_inject not_less)
qed

lemma remove_loop_returns:
  assumes "vok v" and "fat_geom v"
  shows "\<exists>res v'. remove_loop v c = Some (res, v') \<and> fat_only v v' \<and> used_entries v' \<subseteq> used_entries v"
  using assms
proof (induction "card (used_entries v)" arbitrary: v c rule: less_induct)
  case less
  obtain nxt v1 where g: "get_fat v c = (nxt, v1)" by fastforce
  note gd = get_fat_entryD [OF g less.prems]
  show ?case
  proof (cases "nxt = 0 \<or> nxt = 1 \<or> nxt = 0xFFFFFFFF")
    case True
    then show ?thesis using g gd(4,6) by (subst remove_loop.simps) auto
  next
    case False
    with gd(7) have c: "2 \<le> c" "c < n_fatent v" and e: "fat_entry v (unat c) \<noteq> 0" by auto
    obtain res v2 where p: "put_fat v1 c 0 = (res, v2)" by fastforce
    have o2: "fat_only v1 v2" by (rule put_fat_only [OF p gd(1,2)])
    have cn: "unat c < unat (n_fatent v)" using c(2) by (simp add: word_less_nat_alt)
    have n2: "n_fatent v2 = n_fatent v" using fat_onlyD(3) [OF o2] gd(3) by simp
    have other: "d \<noteq> unat c \<Longrightarrow> d < unat (n_fatent v) \<Longrightarrow> fat_entry v2 d = fat_entry v d" for d
      using put_fat_other [OF p gd(1,2)] gd(3,5) by simp
    have sub: "used_entries v2 \<subseteq> used_entries v"
    proof
      fix d
      assume "d \<in> used_entries v2"
      then show "d \<in> used_entries v"
        using other [of d] e cn by (cases "d = unat c") (auto simp: used_entries_def n2)
    qed
    show ?thesis
    proof (cases "res = FR_OK")
      case bad: False
      then show ?thesis using g False p sub fat_only_trans [OF gd(4) o2]
        by (subst remove_loop.simps) auto
    next
      case True
      let ?v3 = "note_freed v2"
      have sd: "same_disk v2 ?v3" by (rule same_disk_freed)
      have u3: "used_entries ?v3 = used_entries v2" by (simp add: used_entries_def same_diskD [OF sd])
      have "fat_entry v2 (unat c) = 0" using put_fat_same(1) [OF p [unfolded True] gd(1,2)] by simp
      then have "unat c \<notin> used_entries v2" by (simp add: used_entries_def)
      moreover have "unat c \<in> used_entries v" using e cn by (simp add: used_entries_def)
      ultimately have lt: "card (used_entries ?v3) < card (used_entries v)"
        unfolding u3 using sub by (intro psubset_card_mono) auto
      have ok3: "vok ?v3" "fat_geom ?v3" using same_diskD [OF sd] fat_onlyD [OF o2] gd(2) by simp_all
      have o3: "fat_only v ?v3"
        by (rule fat_only_trans [OF fat_only_trans [OF gd(4) o2] same_disk_fat_only [OF sd]])
           (rule fat_onlyD(1) [OF o2])
      show ?thesis
      proof (cases "nxt < n_fatent ?v3")
        case True
        from less.hyps [OF lt ok3] obtain res' v' where
          "remove_loop ?v3 nxt = Some (res', v')" "fat_only ?v3 v'" "used_entries v' \<subseteq> used_entries ?v3"
          by blast
        then show ?thesis using g False p \<open>res = FR_OK\<close> True sub u3 fat_only_trans [OF o3]
          by (subst remove_loop.simps) (auto simp: Let_def)
      next
        case no: False
        then show ?thesis using g False p \<open>res = FR_OK\<close> sub u3 o3
          by (subst remove_loop.simps) (auto simp: Let_def)
      qed
    qed
  qed
qed

lemma get_fat_healthyD:
  assumes "get_fat v c = (r, v1)" and "healthy v" and "vok v" and "fat_geom v" and "2 \<le> c" "c < n_fatent v"
  shows "r = fat_entry v (unat c)" "healthy v1"
  using get_fat_healthy [OF assms(2,3,1)] get_fat_value [OF assms(1,3,4,5,6)] by simp_all

lemma note_freed_count:
  assumes "unat (free_clst v) + Suc k \<le> unat (n_fatent v - 2)"
  shows "free_clst (note_freed v) = free_clst v + 1 \<and> unat (free_clst v + 1) = Suc (unat (free_clst v))"
proof -
  have "Suc (unat (free_clst v)) < 4294967296"
    using assms unat_lt_pow32 [of "n_fatent v - 2"] by linarith
  with assms show ?thesis by (simp add: note_freed_def word_less_nat_alt unat_word_ariths)
qed

lemma remove_loop_frees:
  assumes "healthy v" and "vok v" and "fat_geom v" and "chain (fat_entry v) (n_fatent v) c cs"
  shows "\<exists>v'. remove_loop v c = Some (FR_OK, v') \<and> healthy v' \<and> fat_only v v' \<and>
    (\<forall>d < unat (n_fatent v). fat_entry v' d = (if d \<in> unat ` set cs then 0 else fat_entry v d)) \<and>
    (unat (free_clst v) + length cs \<le> unat (n_fatent v - 2) \<longrightarrow>
     free_clst v' = free_clst v + of_nat (length cs))"
  using assms
proof (induction cs arbitrary: v c)
  case (Cons x cs)
  obtain nxt v1 where g: "get_fat v c = (nxt, v1)" by fastforce
  obtain res v2 where p: "put_fat v1 c 0 = (res, v2)" by fastforce
  have ch: "x = c" "2 \<le> c" "c < n_fatent v" using Cons.prems(4) by auto
  note gd = get_fat_entryD [OF g Cons.prems(2,3)]
  note gh = get_fat_healthyD [OF g Cons.prems(1-3) ch(2,3)]
  have c1: "c < n_fatent v1" using ch(3) gd(3) by simp
  note ph = put_fat_healthy [OF gh(2) gd(1,2) ch(2) c1 p]
  have o2: "fat_only v1 v2" by (rule put_fat_only [OF p gd(1,2)])
  let ?v3 = "note_freed v2"
  have sd: "same_disk v2 ?v3" by (rule same_disk_freed)
  have n2: "n_fatent v2 = n_fatent v" using fat_onlyD(3) [OF o2] gd(3) by simp
  have n3: "n_fatent ?v3 = n_fatent v" using n2 same_diskD(5) [OF sd] by simp
  have ok3: "vok ?v3" "fat_geom ?v3" "healthy ?v3"
    using same_diskD [OF sd] fat_onlyD [OF o2] gd(2) ph by simp_all
  have o3: "fat_only v ?v3"
    by (rule fat_only_trans [OF fat_only_trans [OF gd(4) o2] same_disk_fat_only [OF sd]])
       (rule fat_onlyD(1) [OF o2])
  have ent: "fat_entry ?v3 d = (if d = unat c then 0 else fat_entry v d)" if "d < unat (n_fatent v)" for d
    using put_fat_same(1) [OF p [unfolded ph(1)] gd(1,2)] put_fat_other [OF p gd(1,2), of d] gd(3,5) that
      same_diskD(3) [OF sd] by simp
  have fc: "alloc v2 = alloc v"
    using quietD(2) [OF get_fat_quiet [OF g]] put_fat_frame(3) [OF p gd(1,2)] by simp
  have cnt: "free_clst ?v3 = free_clst v + 1 \<and> unat (free_clst v + 1) = Suc (unat (free_clst v))"
    if "unat (free_clst v) + Suc (length cs) \<le> unat (n_fatent v - 2)"
    using note_freed_count [of v2 "length cs"] that n2 fc by (simp add: alloc_def)
  have two: "2 \<le> n_fatent v" using ch(2,3) by simp
  have nxt: "nxt \<noteq> 0" "nxt \<noteq> 1" "nxt \<noteq> 0xFFFFFFFF"
    using chain_nonzero [OF Cons.prems(4), of c] gh(1) ch(1) get_fat_healthy(2) [OF Cons.prems(1,2) g]
    by (auto simp: word_le_nat_alt)
  have step: "remove_loop v c = (if nxt < n_fatent v then remove_loop ?v3 nxt else Some (FR_OK, ?v3))"
    using g p ph(1) nxt n3 by (subst remove_loop.simps) (simp add: Let_def)
  show ?case
  proof (cases "cs = []")
    case True
    then have "\<not> nxt < n_fatent v" using Cons.prems(4) gh(1) by (simp add: not_less)
    then show ?thesis using step ok3(3) o3 ent True cnt ch(1) by simp
  next
    case False
    with Cons.prems(4) gh(1) have nx: "nxt < n_fatent v" "chain (fat_entry v) (n_fatent v) nxt cs" by auto
    have "c \<notin> set cs" using chain_distinct [OF Cons.prems(4)] ch(1) by simp
    then have "chain (fat_entry ?v3) (n_fatent ?v3) nxt cs"
      unfolding n3 by (rule chain_change [OF nx(2)]) (simp add: ent)
    from Cons.IH [OF ok3(3,1,2) this] obtain v' where v': "remove_loop ?v3 nxt = Some (FR_OK, v')"
      "healthy v'" "fat_only ?v3 v'"
      "\<forall>d < unat (n_fatent v). fat_entry v' d = (if d \<in> unat ` set cs then 0 else fat_entry ?v3 d)"
      "unat (free_clst ?v3) + length cs \<le> unat (n_fatent v - 2) \<longrightarrow>
       free_clst v' = free_clst ?v3 + of_nat (length cs)"
      using n3 by auto
    then show ?thesis
      using step nx(1) fat_only_trans [OF o3 v'(3)] ent ch(1) cnt by (auto simp: algebra_simps)
  qed
qed simp

text \<open>The whole of \<open>remove_chain\<close>: it returns on every volume, and on a healthy drive it frees
  the clusters of the chain and, if there is a previous cluster, makes that the end.\<close>

lemma remove_loop_frees_only:
  assumes "vok v" and "fat_geom v"
  obtains res v' where "remove_loop v c = Some (res, v')" "fat_only v v'"
    "\<And>d. d < unat (n_fatent v) \<Longrightarrow> fat_entry v d = 0 \<Longrightarrow> fat_entry v' d = 0"
proof -
  from remove_loop_returns [OF assms, of c] obtain res v' where
    r: "remove_loop v c = Some (res, v')" "fat_only v v'" "used_entries v' \<subseteq> used_entries v" by blast
  have "fat_entry v' d = 0" if "d < unat (n_fatent v)" "fat_entry v d = 0" for d
    using that r(3) fat_onlyD(3) [OF r(2)] by (auto simp: used_entries_def)
  with r(1,2) show ?thesis using that by blast
qed

lemma remove_chain_total:
  assumes "vok v" and "fat_geom v"
  shows "\<exists>res v'. remove_chain v c p = Some (res, v') \<and> fat_only v v' \<and>
    (\<forall>d < unat (n_fatent v). p = 0 \<or> d \<noteq> unat p \<longrightarrow> fat_entry v d = 0 \<longrightarrow> fat_entry v' d = 0)"
proof -
  obtain r1 v1 where p1: "put_fat v p 0xFFFFFFFF = (r1, v1)" by fastforce
  have o1: "fat_only v v1" by (rule put_fat_only [OF p1 assms])
  have v1: "vok v1" "fat_geom v1" "n_fatent v1 = n_fatent v" using fat_onlyD [OF o1] assms by simp_all
  have e1: "fat_entry v1 d = fat_entry v d" if "d < unat (n_fatent v)" "d \<noteq> unat p" for d
    using put_fat_other [OF p1 assms that(2,1)] .
  obtain r2 v2 where l0: "remove_loop v c = Some (r2, v2)" "fat_only v v2"
    "\<And>d. d < unat (n_fatent v) \<Longrightarrow> fat_entry v d = 0 \<Longrightarrow> fat_entry v2 d = 0"
    by (rule remove_loop_frees_only [OF assms, of c]) blast
  obtain r3 v3 where l1: "remove_loop v1 c = Some (r3, v3)" "fat_only v1 v3"
    "\<And>d. d < unat (n_fatent v1) \<Longrightarrow> fat_entry v1 d = 0 \<Longrightarrow> fat_entry v3 d = 0"
    by (rule remove_loop_frees_only [OF v1(1,2), of c]) blast
  show ?thesis
    using p1 o1 fat_only_refl [OF assms(1)] fat_only_trans [OF o1 l1(2)] l0 l1(1,3) v1(3) e1
    by (auto simp: remove_chain_def)
qed

lemma remove_chain_frees:
  assumes h: "healthy v" "vok v" "fat_geom v" and ch: "chain (fat_entry v) (n_fatent v) c cs"
    and p: "p = 0 \<or> 2 \<le> p \<and> p < n_fatent v \<and> p \<notin> set cs"
  shows "\<exists>v'. remove_chain v c p = Some (FR_OK, v') \<and> healthy v' \<and> fat_only v v' \<and>
    (\<forall>d < unat (n_fatent v). fat_entry v' d =
       (if d \<in> unat ` set cs then 0 else if p \<noteq> 0 \<and> d = unat p then fat_cut v else fat_entry v d)) \<and>
    (unat (free_clst v) + length cs \<le> unat (n_fatent v - 2) \<longrightarrow>
     free_clst v' = free_clst v + of_nat (length cs))"
proof (cases "p = 0")
  case True
  have "\<not> (c < 2 \<or> n_fatent v \<le> c)" using ch by (cases cs) auto
  with True remove_loop_frees [OF h ch] show ?thesis by (auto simp: remove_chain_def)
next
  case False
  have rg: "\<not> (c < 2 \<or> n_fatent v \<le> c)" using ch by (cases cs) auto
  have pr: "2 \<le> p" "p < n_fatent v" "p \<notin> set cs" using p False by auto
  obtain r1 v1 where p1: "put_fat v p 0xFFFFFFFF = (r1, v1)" by fastforce
  note ph = put_fat_healthy [OF h pr(1,2) p1]
  have o1: "fat_only v v1" by (rule put_fat_only [OF p1 h(2,3)])
  have ok1: "vok v1" "fat_geom v1" "n_fatent v1 = n_fatent v" using fat_onlyD [OF o1] h by simp_all
  have ent: "fat_entry v1 d = (if d = unat p then fat_cut v else fat_entry v d)" if "d < unat (n_fatent v)" for d
    using put_fat_same(1) [OF p1 [unfolded ph(1)] h(2,3)] put_fat_other [OF p1 h(2,3), of d] that by simp
  have "chain (fat_entry v1) (n_fatent v1) c cs"
    unfolding ok1(3) by (rule chain_change [OF ch pr(3)]) (simp add: ent)
  from remove_loop_frees [OF ph(2) ok1(1,2) this] obtain v' where v': "remove_loop v1 c = Some (FR_OK, v')"
    "healthy v'" "fat_only v1 v'"
    "\<forall>d < unat (n_fatent v). fat_entry v' d = (if d \<in> unat ` set cs then 0 else fat_entry v1 d)"
    "unat (free_clst v1) + length cs \<le> unat (n_fatent v - 2) \<longrightarrow>
     free_clst v' = free_clst v1 + of_nat (length cs)" using ok1(3) by auto
  have "free_clst v1 = free_clst v" using put_fat_frame(3) [OF p1 h(2,3)] by (simp add: alloc_def)
  then have "unat (free_clst v) + length cs \<le> unat (n_fatent v - 2) \<longrightarrow>
     free_clst v' = free_clst v + of_nat (length cs)" using v'(5) by simp
  moreover have "remove_chain v c p = Some (FR_OK, v')"
    using p1 ph(1) False rg v'(1) by (simp add: remove_chain_def)
  moreover have "\<forall>d < unat (n_fatent v). fat_entry v' d =
       (if d \<in> unat ` set cs then 0 else if p \<noteq> 0 \<and> d = unat p then fat_cut v else fat_entry v d)"
    using v'(4) ent False by simp
  ultimately show ?thesis using v'(2) fat_only_trans [OF o1 v'(3)] by blast
qed

section \<open>Searching for a free cluster\<close>

text \<open>An entry of the table holds the reserved value 1, which the search takes for an error.\<close>

definition bad_entry :: "vol \<Rightarrow> bool" where
  "bad_entry v \<longleftrightarrow> (\<exists>d. 2 \<le> d \<and> d < unat (n_fatent v) \<and> fat_entry v d = 1)"

lemma bad_entry_read:
  assumes g: "get_fat v c = (r, v1)" and ok: "vok v" and ge: "fat_geom v"
  shows "bad_entry v1 = bad_entry v" "r = 1 \<Longrightarrow> 2 \<le> c \<Longrightarrow> c < n_fatent v \<Longrightarrow> bad_entry v"
proof -
  show "bad_entry v1 = bad_entry v"
    using get_fat_entryD(3,5) [OF g ok ge] by (auto simp: bad_entry_def)
  assume "r = 1" "2 \<le> c" "c < n_fatent v"
  then show "bad_entry v"
    using get_fat_value [OF g ok ge] unfolding bad_entry_def
    by (intro exI [of _ "unat c"]) (auto simp: word_le_nat_alt word_less_nat_alt)
qed

text \<open>The clusters the search still has to visit, from the one after \<open>k\<close> round to \<open>s\<close>.\<close>

definition round :: "nat \<Rightarrow> nat \<Rightarrow> nat \<Rightarrow> nat set" where
  "round n s k = (if k < s then {k<..s} else {k<..<n} \<union> {2..s})"

lemma find_free_search:
  assumes "vok v" and "fat_geom v" and "1 \<le> unat scl" "unat scl < unat (n_fatent v)"
    and "unat ncl < unat (n_fatent v)" and "1 \<le> unat ncl"
  shows "\<exists>r v'. find_free v scl ncl = Some (r, v') \<and> quiet v v' \<and> (healthy v \<longrightarrow> healthy v') \<and>
    (\<forall>k. r = Inr k \<longrightarrow> 2 \<le> k \<and> k < n_fatent v \<and> fat_entry v (unat k) = 0) \<and>
    (\<forall>e. r = Inl e \<longrightarrow> e = 0 \<or> e = 1 \<and> bad_entry v \<or> e = 0xFFFFFFFF \<and> \<not> healthy v) \<and>
    (r = Inl 0 \<longrightarrow> (\<forall>d \<in> round (unat (n_fatent v)) (unat scl) (unat ncl). fat_entry v d \<noteq> 0))"
  using assms
proof (induction "if ncl < scl then unat scl - unat ncl else unat (n_fatent v) - unat ncl + unat scl"
    arbitrary: v ncl rule: less_induct)
  case less
  let ?n = "unat (n_fatent v)" and ?wrap = "n_fatent v \<le> ncl + 1"
  define k where "k = (if ?wrap then 2 else ncl + 1)"
  have u1: "unat (ncl + 1) = Suc (unat ncl)"
    by (rule unat_Suc_less [OF less.prems(5)])
  have wr: "?wrap \<longleftrightarrow> unat ncl = ?n - 1"
    using less.prems(5) u1 by (auto simp: word_le_nat_alt)
  have uk: "unat k = (if unat ncl = ?n - 1 then 2 else Suc (unat ncl))"
    using wr u1 by (simp add: k_def)
  show ?case
  proof (cases "?wrap \<and> k > scl")
    case True
    then have "unat scl < 2" "unat ncl = ?n - 1" using wr by (auto simp: k_def word_less_nat_alt)
    then have "round ?n (unat scl) (unat ncl) = {}" using less.prems by (auto simp: round_def)
    moreover have "find_free v scl ncl = Some (Inl 0, v)"
      using True by (subst find_free.simps) (auto simp: k_def Let_def)
    ultimately show ?thesis by simp
  next
    case no: False
    obtain cs v1 where g: "get_fat v k = (cs, v1)" by fastforce
    note q = get_fat_quiet [OF g] and gd = get_fat_entryD [OF g less.prems(1,2)]
    have step: "find_free v scl ncl =
       (if cs = 0 then Some (Inr k, v1)
        else if cs = 1 \<or> cs = 0xFFFFFFFF then Some (Inl cs, v1)
        else if k = scl then Some (Inl 0, v1) else find_free v1 scl k)"
      using no g by (subst find_free.simps) (auto simp: k_def Let_def)
    have hv: "healthy v \<longrightarrow> healthy v1 \<and> cs \<noteq> 0xFFFFFFFF"
      using get_fat_healthy [OF _ less.prems(1) g] by simp
    show ?thesis
    proof (cases "cs = 0 \<or> cs = 1 \<or> cs = 0xFFFFFFFF")
      case True
      have kr: "2 \<le> k" "k < n_fatent v"
        using uk less.prems(5,6) fat_geom_min [OF less.prems(2)] by (auto simp: word_le_nat_alt word_less_nat_alt)
      show ?thesis using True step q kr gd(7) hv bad_entry_read(2) [OF g less.prems(1,2) _ kr] by auto
    next
      case False
      with gd(7) have k: "2 \<le> k" "k < n_fatent v" and e: "fat_entry v (unat k) \<noteq> 0" by auto
      have kn: "unat k < ?n" using k(2) by (simp add: word_less_nat_alt)
      have sk: "k = scl \<longleftrightarrow> unat k = unat scl" by (simp add: word_unat_eq_iff)
      show ?thesis
      proof (cases "k = scl")
        case True
        have "round ?n (unat scl) (unat ncl) = {unat k}"
          using uk True less.prems(3-5) by (auto simp: round_def split: if_splits)
        then show ?thesis using step False True q hv e by auto
      next
        case ne: False
        have ws: "?wrap \<Longrightarrow> 2 \<le> unat scl" using no by (auto simp: k_def word_less_nat_alt)
        have rd: "round ?n (unat scl) (unat ncl) = insert (unat k) (round ?n (unat scl) (unat k))"
          using uk sk ne less.prems(3-5) ws wr kn by (auto simp: round_def split: if_splits)
        have n1: "n_fatent v1 = n_fatent v" by (rule gd(3))
        have lt: "(if k < scl then unat scl - unat k else unat (n_fatent v1) - unat k + unat scl)
          < (if ncl < scl then unat scl - unat ncl else unat (n_fatent v) - unat ncl + unat scl)"
          using uk sk ne less.prems(3-5) ws wr kn n1 by (auto simp: word_less_nat_alt split: if_splits)
        obtain r v' where r: "find_free v1 scl k = Some (r, v')" "quiet v1 v'" "healthy v1 \<longrightarrow> healthy v'"
          "\<forall>k. r = Inr k \<longrightarrow> 2 \<le> k \<and> k < n_fatent v \<and> fat_entry v1 (unat k) = 0"
          "\<forall>e. r = Inl e \<longrightarrow> e = 0 \<or> e = 1 \<and> bad_entry v1 \<or> e = 0xFFFFFFFF \<and> \<not> healthy v1"
          "r = Inl 0 \<longrightarrow> (\<forall>d \<in> round ?n (unat scl) (unat k). fat_entry v1 d \<noteq> 0)"
          using less.hyps [OF lt gd(1,2)] less.prems(3,4) kn n1 k(1) by (auto simp: word_le_nat_alt)
        have "\<forall>d \<in> round ?n (unat scl) (unat k). d < ?n"
          using less.prems(4) by (auto simp: round_def split: if_splits)
        then show ?thesis
          using step False ne r quiet_trans [OF q r(2)] hv rd e gd(5) bad_entry_read(1) [OF g less.prems(1,2)]
          by (auto simp: word_less_nat_alt)
      qed
    qed
  qed
qed

section \<open>Allocating a cluster\<close>

text \<open>What the two steps before the link find out.\<close>

lemma create_start_ok:
  assumes s: "create_start v c = (r, v')" and ok: "vok v" and ge: "fat_geom v"
  shows "quiet v v'" "healthy v \<longrightarrow> healthy v'"
    "r = Inl e \<Longrightarrow> c \<noteq> 0 \<and> (e = 1 \<or> e = 0xFFFFFFFF \<and> \<not> healthy v \<or>
       2 \<le> c \<and> c < n_fatent v \<and> 2 \<le> e \<and> e < n_fatent v \<and> e = fat_entry v (unat c))"
    "r = Inr k \<Longrightarrow> 1 \<le> unat k \<and> unat k < unat (n_fatent v) \<and>
       (if c = 0 then True else k = c \<and> 2 \<le> c \<and> n_fatent v \<le> fat_entry v (unat c))"
proof -
  have n3: "3 \<le> unat (n_fatent v)" by (rule fat_geom_min [OF ge])
  have "quiet v v' \<and> (healthy v \<longrightarrow> healthy v') \<and>
    (r = Inl e \<longrightarrow> c \<noteq> 0 \<and> (e = 1 \<or> e = 0xFFFFFFFF \<and> \<not> healthy v \<or>
       2 \<le> c \<and> c < n_fatent v \<and> 2 \<le> e \<and> e < n_fatent v \<and> e = fat_entry v (unat c))) \<and>
    (r = Inr k \<longrightarrow> 1 \<le> unat k \<and> unat k < unat (n_fatent v) \<and>
       (if c = 0 then True else k = c \<and> 2 \<le> c \<and> n_fatent v \<le> fat_entry v (unat c)))"
  proof (cases "c = 0")
    case True
    have "last_clst v \<noteq> 0 \<Longrightarrow> 1 \<le> unat (last_clst v)" by (simp add: Suc_le_eq unat_gt_0)
    with True s n3 show ?thesis by (auto simp: create_start_def Let_def word_le_nat_alt)
  next
    case False
    obtain cs v1 where g: "get_fat v c = (cs, v1)" by fastforce
    note gd = get_fat_entryD [OF g ok ge]
    have hv: "healthy v \<longrightarrow> healthy v1 \<and> cs \<noteq> 0xFFFFFFFF" using get_fat_healthy [OF _ ok g] by simp
    have le: "2 \<le> cs \<Longrightarrow> cs \<noteq> 1" by (auto simp: word_le_nat_alt)
    show ?thesis
      using s g False get_fat_quiet [OF g] hv gd(3) gd(7) le
      by (auto simp: create_start_def not_less word_less_nat_alt word_le_nat_alt split: if_splits)
  qed
  then show "quiet v v'" "healthy v \<longrightarrow> healthy v'"
    "r = Inl e \<Longrightarrow> c \<noteq> 0 \<and> (e = 1 \<or> e = 0xFFFFFFFF \<and> \<not> healthy v \<or>
       2 \<le> c \<and> c < n_fatent v \<and> 2 \<le> e \<and> e < n_fatent v \<and> e = fat_entry v (unat c))"
    "r = Inr k \<Longrightarrow> 1 \<le> unat k \<and> unat k < unat (n_fatent v) \<and>
       (if c = 0 then True else k = c \<and> 2 \<le> c \<and> n_fatent v \<le> fat_entry v (unat c))" by auto
qed

lemma round_full: "1 \<le> s \<Longrightarrow> s < n \<Longrightarrow> 2 \<le> d \<Longrightarrow> d < n \<Longrightarrow> d \<in> round n s s"
  by (auto simp: round_def)

lemma create_find_ok:
  assumes ok: "vok v" and ge: "fat_geom v" and s: "1 \<le> unat scl" "unat scl < unat (n_fatent v)"
  shows "\<exists>r v'. create_find v c scl = Some (r, v') \<and> quiet v v' \<and> (healthy v \<longrightarrow> healthy v') \<and>
    (\<forall>k. r = Inr k \<longrightarrow> 2 \<le> k \<and> k < n_fatent v \<and> fat_entry v (unat k) = 0) \<and>
    (\<forall>e. r = Inl e \<longrightarrow> e = 0 \<or> e = 1 \<and> bad_entry v \<or> e = 0xFFFFFFFF \<and> \<not> healthy v) \<and>
    (r = Inl 0 \<longrightarrow> (\<forall>d. 2 \<le> d \<longrightarrow> d < unat (n_fatent v) \<longrightarrow> fat_entry v d \<noteq> 0))"
proof (cases "scl = c")
  case False
  then show ?thesis using find_free_search [OF ok ge s s(2,1)] round_full [OF s]
    by (auto simp: create_find_def)
next
  case True
  define k where "k = (if scl + 1 \<ge> n_fatent v then 2 else scl + 1)"
  obtain cs v1 where g: "get_fat v k = (cs, v1)" by fastforce
  note q = get_fat_quiet [OF g] and gd = get_fat_entryD [OF g ok ge]
  have hv: "healthy v \<longrightarrow> healthy v1 \<and> cs \<noteq> 0xFFFFFFFF" using get_fat_healthy [OF _ ok g] by simp
  define scl' where "scl' = (if last_clst v \<ge> 2 \<and> last_clst v < n_fatent v then last_clst v else scl)"
  have s': "1 \<le> unat scl'" "unat scl' < unat (n_fatent v1)"
    using s gd(3) by (auto simp: scl'_def word_le_nat_alt word_less_nat_alt)
  have step: "create_find v c scl =
    (if cs = 1 \<or> cs = 0xFFFFFFFF then Some (Inl cs, v1)
     else if cs \<noteq> 0 then find_free v1 scl' scl' else Some (Inr k, v1))"
    unfolding create_find_def Let_def k_def [symmetric] scl'_def
    using True g quiet_fields(16,7) [OF q] by simp
  show ?thesis
  proof (cases "cs = 0 \<or> cs = 1 \<or> cs = 0xFFFFFFFF")
    case True
    have kr: "2 \<le> k" "k < n_fatent v"
      using s fat_geom_min [OF ge] unat_Suc_less [OF s(2)] by (auto simp: k_def word_le_nat_alt word_less_nat_alt)
    show ?thesis using True step q hv kr gd(7) bad_entry_read(2) [OF g ok ge _ kr] by auto
  next
    case False
    obtain r v' where r: "find_free v1 scl' scl' = Some (r, v')" "quiet v1 v'" "healthy v1 \<longrightarrow> healthy v'"
      "\<forall>k. r = Inr k \<longrightarrow> 2 \<le> k \<and> k < n_fatent v \<and> fat_entry v1 (unat k) = 0"
      "\<forall>e. r = Inl e \<longrightarrow> e = 0 \<or> e = 1 \<and> bad_entry v1 \<or> e = 0xFFFFFFFF \<and> \<not> healthy v1"
      "r = Inl 0 \<longrightarrow> (\<forall>d \<in> round (unat (n_fatent v)) (unat scl') (unat scl'). fat_entry v1 d \<noteq> 0)"
      using find_free_search [OF gd(1,2) s' s'(2,1)] gd(3) by auto
    have "r = Inl 0 \<longrightarrow> (\<forall>d. 2 \<le> d \<longrightarrow> d < unat (n_fatent v) \<longrightarrow> fat_entry v d \<noteq> 0)"
      using r(6) gd(5) round_full [OF s'] gd(3) by metis
    then show ?thesis
      using step False quiet_trans [OF q r(2)] hv gd(5) gd(3) r bad_entry_read(1) [OF g ok ge]
      by (auto simp: word_less_nat_alt)
  qed
qed

lemma note_alloc_disk:
  "same_disk v (let v = v\<lparr>last_clst := k\<rparr>;
       v = (if free_clst v \<le> n_fatent v - 2 then v\<lparr>free_clst := free_clst v - 1\<rparr> else v)
     in v\<lparr>fsi_flag := fsi_flag v OR 1\<rparr>)"
  by (auto simp: Let_def same_disk_def vok_def wf_vol_def coherent_def state_parts vsec_def healthy_def)

lemma create_link_ok:
  assumes l: "create_link v c k = (r, v')" and ok: "vok v" and ge: "fat_geom v"
    and k: "2 \<le> k" "k < n_fatent v" "k \<noteq> c"
  shows "fat_only v v'"
    and "\<forall>d < unat (n_fatent v). d \<noteq> unat k \<longrightarrow> d \<noteq> unat c \<longrightarrow> fat_entry v' d = fat_entry v d"
    and "r = 1 \<or> r = 0xFFFFFFFF \<or> r = k \<and> fat_entry v' (unat k) = fat_cut v \<and> last_clst v' = k \<and>
       (c \<noteq> 0 \<longrightarrow> 2 \<le> c \<and> c < n_fatent v \<and> fat_entry v' (unat c) = k)"
    and "healthy v \<Longrightarrow> c = 0 \<or> 2 \<le> c \<and> c < n_fatent v \<Longrightarrow> r = k \<and> healthy v'"
proof -
  obtain r1 v1 where p1: "put_fat v k 0xFFFFFFFF = (r1, v1)" by fastforce
  note o1 = put_fat_only [OF p1 ok ge]
  have ok1: "vok v1" "fat_geom v1" "n_fatent v1 = n_fatent v" using fat_onlyD [OF o1] ge by simp_all
  obtain r2 v2 where p2: "(if r1 = FR_OK \<and> c \<noteq> 0 then put_fat v1 c k else (r1, v1)) = (r2, v2)" by fastforce
  have o2: "fat_only v1 v2" using p2 put_fat_only [OF _ ok1(1,2)] fat_only_refl [OF ok1(1)]
    by (auto split: if_splits)
  let ?v3 = "let v = v2\<lparr>last_clst := k\<rparr>;
       v = (if free_clst v \<le> n_fatent v - 2 then v\<lparr>free_clst := free_clst v - 1\<rparr> else v)
     in v\<lparr>fsi_flag := fsi_flag v OR 1\<rparr>"
  have res: "(r, v') = (if r2 = FR_OK then (k, ?v3) else (if r2 = FR_DISK_ERR then 0xFFFFFFFF else 1, v2))"
    using l unfolding create_link_def p1 prod.case p2
    by (cases "r2 = FR_OK") (simp_all only: Let_def if_True if_False refl FRESULT.distinct not_True_eq_False)
  note sd = note_alloc_disk [of v2 k]
  have o3: "fat_only v v2" by (rule fat_only_trans [OF o1 o2])
  have o4: "fat_only v ?v3"
    by (rule fat_only_trans [OF o3 same_disk_fat_only [OF sd]]) (rule fat_onlyD(1) [OF o3])
  show "fat_only v v'" using res o3 o4 by (auto split: if_splits)
  have ent': "fat_entry v' = fat_entry v2" using res same_diskD(3) [OF sd] by (auto split: if_splits)
  have other: "fat_entry v2 d = fat_entry v d" if "d < unat (n_fatent v)" "d \<noteq> unat k" "d \<noteq> unat c" for d
    using put_fat_other [OF p1 ok ge that(2,1)] put_fat_other [OF _ ok1(1,2) that(3)] that(1) ok1(3) p2
    by (auto split: if_splits)
  then show "\<forall>d < unat (n_fatent v). d \<noteq> unat k \<longrightarrow> d \<noteq> unat c \<longrightarrow> fat_entry v' d = fat_entry v d"
    using ent' by simp
  have kc: "unat k \<noteq> unat c" using k(3) by (metis word_unat_eq_iff)
  have kn: "unat k < unat (n_fatent v)" using k(2) by (simp add: word_less_nat_alt)
  have success: "fat_entry v2 (unat k) = fat_cut v \<and>
      (c \<noteq> 0 \<longrightarrow> 2 \<le> c \<and> c < n_fatent v \<and> fat_entry v2 (unat c) = k)" if "r2 = FR_OK"
  proof (cases "c = 0")
    case True
    with p2 that have "r1 = FR_OK" "v2 = v1" by (auto split: if_splits)
    then show ?thesis using put_fat_same(1) [OF p1 [unfolded \<open>r1 = FR_OK\<close>] ok ge] True by simp
  next
    case False
    with p2 that have r1: "r1 = FR_OK" and pc: "put_fat v1 c k = (FR_OK, v2)" by (auto split: if_splits)
    note sk = put_fat_same [OF p1 [unfolded r1] ok ge] and sc = put_fat_same [OF pc ok1(1,2)]
    have "k AND fat_cut v1 = k" by (rule fat_cut_cluster [OF ok1(2)]) (simp add: ok1(3) k(2))
    then show ?thesis using sk sc ok1(3) put_fat_other [OF pc ok1(1,2) kc] kn by simp
  qed
  show "r = 1 \<or> r = 0xFFFFFFFF \<or> r = k \<and> fat_entry v' (unat k) = fat_cut v \<and> last_clst v' = k \<and>
       (c \<noteq> 0 \<longrightarrow> 2 \<le> c \<and> c < n_fatent v \<and> fat_entry v' (unat c) = k)"
    using res success ent' by (auto simp: Let_def split: if_splits)
  assume h: "healthy v" and c: "c = 0 \<or> 2 \<le> c \<and> c < n_fatent v"
  note h1 = put_fat_healthy [OF h ok ge k(1,2) p1]
  have "r2 = FR_OK \<and> healthy v2"
    using p2 h1 c put_fat_healthy [OF h1(2) ok1(1,2) _ _ ] ok1(3) by (auto split: if_splits)
  then show "r = k \<and> healthy v'" using res same_diskD(4) [OF sd] by simp
qed

text \<open>The outcomes of \<open>create_chain\<close>: an error of the table or the request, a failing drive, no
  free cluster, an existing link followed, a new cluster.\<close>

inductive allocates :: "vol \<Rightarrow> DWORD \<Rightarrow> DWORD \<Rightarrow> vol \<Rightarrow> bool" for v c where
  reserved: "c \<noteq> 0 \<or> bad_entry v \<or> \<not> healthy v \<Longrightarrow> allocates v c 1 v'"
| broken: "\<not> healthy v \<Longrightarrow> allocates v c 0xFFFFFFFF v'"
| full: "quiet v v' \<Longrightarrow> free_clst v = 0 \<or> (\<forall>d. 2 \<le> d \<longrightarrow> d < unat (n_fatent v) \<longrightarrow> fat_entry v d \<noteq> 0)
    \<Longrightarrow> allocates v c 0 v'"
| linked: "quiet v v' \<Longrightarrow> c \<noteq> 0 \<Longrightarrow> 2 \<le> r \<Longrightarrow> r < n_fatent v \<Longrightarrow> fat_entry v (unat c) = r
    \<Longrightarrow> allocates v c r v'"
| fresh: "2 \<le> r \<Longrightarrow> r < n_fatent v \<Longrightarrow> fat_entry v (unat r) = 0 \<Longrightarrow> fat_entry v' (unat r) = fat_cut v
    \<Longrightarrow> last_clst v' = r
    \<Longrightarrow> (c \<noteq> 0 \<Longrightarrow> 2 \<le> c \<and> c < n_fatent v \<and> n_fatent v \<le> fat_entry v (unat c) \<and> fat_entry v' (unat c) = r)
    \<Longrightarrow> (\<And>d. d < unat (n_fatent v) \<Longrightarrow> d \<noteq> unat r \<Longrightarrow> d \<noteq> unat c \<Longrightarrow> fat_entry v' d = fat_entry v d)
    \<Longrightarrow> allocates v c r v'"

inductive_cases allocatesE: "allocates v c r v'"

text \<open>Linking the free cluster the search has found, from a volume that has only been read.\<close>

lemma create_link_allocates:
  assumes q: "quiet v v2" and h: "healthy v \<longrightarrow> healthy v2" and ok: "vok v" and ge: "fat_geom v"
    and k: "2 \<le> k" "k < n_fatent v" "fat_entry v (unat k) = 0"
    and c: "c \<noteq> 0 \<Longrightarrow> 2 \<le> c \<and> c < n_fatent v \<and> n_fatent v \<le> fat_entry v (unat c)"
    and l: "create_link v2 c k = (r, v3)"
  shows "fat_only v v3 \<and> (healthy v \<longrightarrow> healthy v3) \<and> allocates v c r v3"
proof -
  have ok2: "vok v2" "fat_geom v2" "n_fatent v2 = n_fatent v" "fat_cut v2 = fat_cut v"
    using quietD(3) [OF q ok] quiet_fat_geom [OF q] ge quiet_fields [OF q] fat_cut_geo [OF quietD(1) [OF q]]
    by simp_all
  have "k \<noteq> 0" using k(1) by (auto simp: word_le_nat_alt)
  then have kc: "k \<noteq> c" using k(3) c fat_geom_min [OF ge] by (auto simp: word_le_nat_alt)
  have k2: "k < n_fatent v2" using k(2) ok2(3) by simp
  note lo = create_link_ok [OF l ok2(1,2) k(1) k2 kc]
  have h3: "healthy v \<longrightarrow> r = k \<and> healthy v3" using lo(4) h c ok2(3) by auto
  have "2 \<le> unat k" "unat k < 0x0FFFFFF7" using k(1,2) fat_geom_max [OF ge]
    by (simp_all add: word_le_nat_alt word_less_nat_alt)
  then have k1: "k \<noteq> 1" "k \<noteq> 0xFFFFFFFF" by auto
  have "allocates v c r v3"
  proof (cases "r = k")
    case True
    have "c \<noteq> 0 \<Longrightarrow> fat_entry v3 (unat c) = k" and "fat_entry v3 (unat k) = fat_cut v" "last_clst v3 = k"
      using lo(3) True k1 ok2(4) by auto
    moreover have "fat_entry v3 d = fat_entry v d" if "d < unat (n_fatent v)" "d \<noteq> unat k" "d \<noteq> unat c" for d
      using lo(2) that quiet_fat_entry [OF q ok ge that(1)] ok2(3) by simp
    ultimately show ?thesis using True k c by (intro fresh) auto
  next
    case False
    with lo(3) h3 have "\<not> healthy v" "r = 1 \<or> r = 0xFFFFFFFF" by auto
    then show ?thesis by (auto intro: reserved broken)
  qed
  with h3 fat_only_trans [OF quiet_fat_only [OF q ok] lo(1)] show ?thesis by blast
qed

text \<open>The whole of \<open>create_chain\<close>.\<close>

lemma create_chain_allocates:
  assumes ok: "vok v" and ge: "fat_geom v"
  shows "\<exists>r v'. create_chain v c = Some (r, v') \<and> fat_only v v' \<and> (healthy v \<longrightarrow> healthy v') \<and> allocates v c r v'"
proof -
  obtain s v1 where st: "create_start v c = (s, v1)" by fastforce
  note so = create_start_ok [OF st ok ge] and q = create_start_ok(1) [OF st ok ge]
  have ok1: "vok v1" "fat_geom v1" "n_fatent v1 = n_fatent v" "free_clst v1 = free_clst v"
    using quietD(3) [OF q ok] quiet_fat_geom [OF q] ge quiet_fields [OF q] by simp_all
  have ent1: "d < unat (n_fatent v) \<Longrightarrow> fat_entry v1 d = fat_entry v d" for d
    by (rule quiet_fat_entry [OF q ok ge])
  then have bad: "bad_entry v1 = bad_entry v" using ok1(3) by (auto simp: bad_entry_def)
  show ?thesis
  proof (cases s)
    case (Inl e)
    from so(3) [OF this] q have "allocates v c e v1" by (auto intro: allocates.intros)
    with st so(2) quiet_fat_only [OF q ok] Inl show ?thesis by (auto simp: create_chain_def)
  next
    case (Inr scl)
    note sk = so(4) [OF Inr]
    have s1: "1 \<le> unat scl" "unat scl < unat (n_fatent v1)" using sk ok1(3) by simp_all
    have c: "c \<noteq> 0 \<Longrightarrow> 2 \<le> c \<and> c < n_fatent v \<and> n_fatent v \<le> fat_entry v (unat c)"
      using sk by (auto simp: word_less_nat_alt)
    show ?thesis
    proof (cases "free_clst v = 0")
      case True
      then show ?thesis using st Inr so(2) quiet_fat_only [OF q ok] q ok1(4)
        by (auto simp: create_chain_def intro: full)
    next
      case False
      from create_find_ok [OF ok1(1,2) s1, of c] obtain r v2 where
        f: "create_find v1 c scl = Some (r, v2)" "quiet v1 v2" "healthy v1 \<longrightarrow> healthy v2"
        "\<forall>k. r = Inr k \<longrightarrow> 2 \<le> k \<and> k < n_fatent v1 \<and> fat_entry v1 (unat k) = 0"
        "\<forall>e. r = Inl e \<longrightarrow> e = 0 \<or> e = 1 \<and> bad_entry v1 \<or> e = 0xFFFFFFFF \<and> \<not> healthy v1"
        "r = Inl 0 \<longrightarrow> (\<forall>d. 2 \<le> d \<longrightarrow> d < unat (n_fatent v1) \<longrightarrow> fat_entry v1 d \<noteq> 0)"
        by blast
      have q2: "quiet v v2" by (rule quiet_trans [OF q f(2)])
      have h2: "healthy v \<longrightarrow> healthy v2" using so(2) f(3) by blast
      have step: "create_chain v c = (case r of Inl cs \<Rightarrow> Some (cs, v2) | Inr ncl \<Rightarrow> Some (create_link v2 c ncl))"
        using st Inr f(1) False ok1(4) by (simp add: create_chain_def)
      show ?thesis
      proof (cases r)
        case (Inl e)
        have "e = 0 \<or> e = 1 \<and> bad_entry v \<or> e = 0xFFFFFFFF \<and> \<not> healthy v"
          using f(5) Inl bad so(2) by blast
        moreover have "e = 0 \<Longrightarrow> \<forall>d. 2 \<le> d \<longrightarrow> d < unat (n_fatent v) \<longrightarrow> fat_entry v d \<noteq> 0"
          using f(6) Inl ok1(3) ent1 by auto
        ultimately have "allocates v c e v2" using q2 by (auto intro: reserved broken full)
        with step Inl h2 quiet_fat_only [OF q2 ok] show ?thesis by simp
      next
        case (Inr k)
        have k: "2 \<le> k" "k < n_fatent v" "fat_entry v (unat k) = 0"
          using f(4) Inr ok1(3) ent1 [of "unat k"] by (auto simp: word_less_nat_alt)
        obtain r' v3 where l: "create_link v2 c k = (r', v3)" by fastforce
        from create_link_allocates [OF q2 h2 ok ge k c l] step Inr l show ?thesis by simp
      qed
    qed
  qed
qed

section \<open>Properties\<close>

lemma sample_chains:
  "chain (fat_entry (sample 1 ((Suc 0, table12) # secs))) 5 2 [2, 3]"
  "chain (fat_entry (sample 2 ((Suc 0, table16) # secs))) 5 2 [2, 3]"
  "chain (fat_entry (sample 3 ((Suc 0, table32) # secs))) 5 2 [2, 3]"
  by (simp_all add: sample_entries)

text \<open>C8: Removing a cluster chain on a healthy drive succeeds and frees exactly the clusters of
  the chain: their entries become 0, the cluster before them (if one is given) becomes the end
  of its chain, every other entry and every sector outside of the table keep their content, and
  the count of free clusters, when it is known, grows by the length of the chain.\<close>

theorem chain_removed:
  assumes "healthy v" and "vok v" and "fat_geom v" and "chain (fat_entry v) (n_fatent v) c cs"
    and "p = 0 \<or> 2 \<le> p \<and> p < n_fatent v \<and> p \<notin> set cs"
  shows "\<exists>v'. remove_chain v c p = Some (FR_OK, v') \<and> healthy v' \<and> vok v' \<and> geo v' = geo v \<and>
    (\<forall>d < unat (n_fatent v). fat_entry v' d =
       (if d \<in> unat ` set cs then 0 else if p \<noteq> 0 \<and> d = unat p then fat_cut v else fat_entry v d)) \<and>
    (\<forall>s. pub v s \<longrightarrow> \<not> in_fat v s \<longrightarrow> vsec v' s = vsec v s) \<and>
    (unat (free_clst v) + length cs \<le> unat (n_fatent v - 2) \<longrightarrow>
     free_clst v' = free_clst v + of_nat (length cs))"
  using remove_chain_frees [OF assms] by (auto simp: fat_only_def)

theorem chain_removed_witness:
  "\<exists>v'. remove_chain (sample 2 [(1, table16)]) 2 0 = Some (FR_OK, v') \<and>
     fat_entry v' 2 = 0 \<and> fat_entry v' 3 = 0"
proof -
  let ?v = "sample 2 [(1, table16)]"
  have "chain (fat_entry ?v) (n_fatent ?v) 2 [2, 3]" by (simp add: sample_entries)
  from chain_removed [OF _ _ fat_geom_sample this, of 0] show ?thesis by auto
qed

text \<open>C25: Removing a chain returns on every volume, whatever the FAT contains (a loop of clusters,
  a link to a free cluster, a link out of the table) and whatever the drive does. It touches nothing
  outside of the FAT and makes no used entry of a free one, but for the cluster before the chain, if
  one is given: the entry of that one is overwritten with the end of a chain whatever it held.\<close>

theorem chain_removal_returns:
  assumes "vok v" and "fat_geom v"
  shows "\<exists>res v'. remove_chain v c p = Some (res, v') \<and> vok v' \<and> geo v' = geo v \<and>
    (\<forall>s. pub v s \<longrightarrow> \<not> in_fat v s \<longrightarrow> vsec v' s = vsec v s) \<and>
    (\<forall>d < unat (n_fatent v). p = 0 \<or> d \<noteq> unat p \<longrightarrow> fat_entry v d = 0 \<longrightarrow> fat_entry v' d = 0)"
proof -
  obtain res v' where r: "remove_chain v c p = Some (res, v')" "fat_only v v'"
    and e: "\<And>d. d < unat (n_fatent v) \<Longrightarrow> p = 0 \<or> d \<noteq> unat p \<Longrightarrow> fat_entry v d = 0 \<Longrightarrow> fat_entry v' d = 0"
    using remove_chain_total [OF assms, of c p] by blast
  then show ?thesis by (auto simp: fat_only_def)
qed

text \<open>A FAT in which the clusters 2 and 3 form a loop.\<close>

definition loop16 :: "BYTE list" where
  "loop16 = [0xF8, 0xFF, 0xFF, 0xFF, 0x03, 0x00, 0x02, 0x00]"

theorem chain_removal_returns_witness:
  "\<exists>res v'. remove_chain (sample 2 [(1, loop16)]) 2 0 = Some (res, v') \<and> vok v' \<and> fat_entry v' 4 = 0"
proof -
  have "fat_entry (sample 2 [(Suc 0, loop16)]) 4 = 0"
    by (simp add: fat_entry_def dec16_def fat_image_sample loop16_def)
  moreover have "fat_geom (sample 2 [(1, loop16)])" by (rule fat_geom_sample) simp
  ultimately show ?thesis
    using chain_removal_returns [of "sample 2 [(1, loop16)]" 2 0] by auto
qed

text \<open>C16: Allocating a cluster returns on every volume and changes nothing but the FAT. The number
  returned is an error (1, or \<open>0xFFFFFFFF\<close> when the drive fails), or 0 and nothing has changed,
  or the cluster to which \<open>c\<close> was linked already and nothing has changed, or else a cluster that
  was free: its entry is now the end of a chain, the end \<open>c\<close> of the chain to stretch is linked to
  it, and no other entry has changed.\<close>

theorem cluster_allocated:
  assumes "vok v" and "fat_geom v"
  shows "\<exists>r v'. create_chain v c = Some (r, v') \<and> vok v' \<and> geo v' = geo v \<and>
    (\<forall>s. pub v s \<longrightarrow> \<not> in_fat v s \<longrightarrow> vsec v' s = vsec v s) \<and>
    (r = 1 \<or> r = 0xFFFFFFFF \<and> \<not> healthy v
     \<or> (r = 0 \<or> c \<noteq> 0 \<and> 2 \<le> r \<and> r < n_fatent v \<and> r = fat_entry v (unat c))
       \<and> (\<forall>d < unat (n_fatent v). fat_entry v' d = fat_entry v d)
     \<or> 2 \<le> r \<and> r < n_fatent v \<and> fat_entry v (unat r) = 0 \<and> fat_entry v' (unat r) = fat_cut v
       \<and> (c \<noteq> 0 \<longrightarrow> n_fatent v \<le> fat_entry v (unat c) \<and> fat_entry v' (unat c) = r)
       \<and> (\<forall>d < unat (n_fatent v). d \<noteq> unat r \<longrightarrow> d \<noteq> unat c \<longrightarrow> fat_entry v' d = fat_entry v d))"
proof -
  obtain r v' where c: "create_chain v c = Some (r, v')" "fat_only v v'" "allocates v c r v'"
    using create_chain_allocates [OF assms, of c] by blast
  from c(3) show ?thesis
    using c quiet_fat_entry [OF _ assms, of v']
    by cases (intro exI [of _ r] exI [of _ v'], auto simp: fat_only_def)+
qed

lemma sample_cluster:
  assumes "2 \<le> r" and "r < n_fatent (sample 2 ((Suc 0, table16) # secs))"
    and "fat_entry (sample 2 ((Suc 0, table16) # secs)) (unat r) = 0"
  shows "r = 4"
proof -
  have "unat r < 5" "2 \<le> unat r" using assms by (simp_all add: word_le_nat_alt word_less_nat_alt)
  then have "unat r = 2 \<or> unat r = 3 \<or> unat r = 4" by linarith
  with assms(3) have "unat r = unat (4 :: DWORD)" by (auto simp: sample_entries)
  then show ?thesis by (simp only: word_unat_eq_iff)
qed

theorem cluster_allocated_witness:
  "\<exists>r v'. create_chain (sample 2 [(1, table16)]) 0 = Some (r, v') \<and>
     (r = 0 \<or> r = 1 \<or> r = 4 \<and> fat_entry v' 4 = 0xFFFF)"
proof -
  let ?v = "sample 2 [(Suc 0, table16)]"
  have g: "fat_geom ?v" by (rule fat_geom_sample) simp
  have cut: "fat_cut ?v = 0xFFFF" by (simp add: fat_cut_def)
  obtain r v' where c: "create_chain ?v 0 = Some (r, v')" and
    "r = 1 \<or> r = 0 \<or> 2 \<le> r \<and> r < n_fatent ?v \<and> fat_entry ?v (unat r) = 0 \<and> fat_entry v' (unat r) = fat_cut ?v"
    using cluster_allocated [OF vok_sample g, of 0] by (auto simp del: sample_fields)
  then have "r = 0 \<or> r = 1 \<or> r = 4 \<and> fat_entry v' 4 = 0xFFFF"
    using sample_cluster [of r "[]"] cut by auto
  with c show ?thesis by auto
qed

text \<open>C36: On a healthy drive, starting a new chain never fails as long as a cluster is free, the
  free count does not deny it, and the table holds no reserved value 1: the search, which starts
  after the last cluster allocated and wraps around, misses none.\<close>

theorem cluster_found:
  assumes "vok v" and "fat_geom v" and "healthy v" and "free_clst v \<noteq> 0"
    and "2 \<le> d" and "d < unat (n_fatent v)" and "fat_entry v d = 0" and "\<not> bad_entry v"
  shows "\<exists>r v'. create_chain v 0 = Some (r, v') \<and> healthy v' \<and> 2 \<le> r \<and> r < n_fatent v \<and>
    fat_entry v (unat r) = 0 \<and> fat_entry v' (unat r) = fat_cut v \<and> last_clst v' = r"
proof -
  obtain r v' where c: "create_chain v 0 = Some (r, v')" "healthy v'" "allocates v 0 r v'"
    using create_chain_allocates [OF assms(1,2), of 0] assms(3) by blast
  from c(3) show ?thesis
    using c assms by cases auto
qed

theorem cluster_found_witness:
  "\<exists>v'. create_chain (sample 2 [(1, table16)]) 0 = Some (4, v') \<and> fat_entry v' 4 = 0xFFFF"
proof -
  let ?v = "sample 2 [(Suc 0, table16)]"
  have g: "fat_geom ?v" by (rule fat_geom_sample) simp
  have cut: "fat_cut ?v = 0xFFFF" by (simp add: fat_cut_def)
  have "fat_entry ?v d \<noteq> 1" if "2 \<le> d" "d < 5" for d
  proof -
    from that have "d = 2 \<or> d = 3 \<or> d = 4" by linarith
    then show ?thesis by (elim disjE) (simp_all add: sample_entries)
  qed
  then have "\<not> bad_entry ?v" by (simp add: bad_entry_def)
  with cluster_found [of ?v 4] g obtain r v' where c: "create_chain ?v 0 = Some (r, v')" "2 \<le> r"
    "r < n_fatent ?v" "fat_entry ?v (unat r) = 0" "fat_entry v' (unat r) = fat_cut ?v"
    by (auto simp: sample_entries)
  with sample_cluster [of r "[]"] cut show ?thesis by auto
qed

end
