(* ===== verification/Fat_Dir.thy ===== *)
theory Fat_Dir
  imports Fat_Chain
begin

text \<open>
  \<^verbatim>\<open>addon/fatfs/ff.c\<close>, lines 1607-1862: walking a directory table (\<open>dir_sdi\<close>, \<open>dir_next\<close>),
  stretching it with a cleared cluster (\<open>dir_clear\<close>), reserving entries (\<open>dir_alloc\<close>), and the
  start cluster of an entry (\<open>ld_clust\<close>, \<open>st_clust\<close>), with the memory functions of
  \<^verbatim>\<open>addon/fatfs/syscall.cpp\<close>. The lemmas show that walking only reads, that a directory
  pointer stays on a sector of the directory, and that a stretched table starts out empty.
\<close>

unbundle bit_operations_syntax

section \<open>Memory\<close>

text \<open>\<open>ff_memalloc\<close>: whether \<open>malloc\<close> gives a block is the next entry of the schedule \<open>heap\<close>.\<close>

definition ff_memalloc :: "vol \<Rightarrow> bool \<times> vol" where
  "ff_memalloc v = (case heap v of [] \<Rightarrow> (True, v) | f # fs \<Rightarrow> (\<not> f, v\<lparr>heap := fs\<rparr>))"

section \<open>Fill a cluster with zeros\<close>

abbreviation (input) MAX_MALLOC :: UINT where "MAX_MALLOC \<equiv> 0x8000"

text \<open>The allocation of a buffer that is halved until \<open>ff_memalloc\<close> grants it: the size, and
  the volume. The buffer exists if the size is above one sector.\<close>

function clear_alloc :: "vol \<Rightarrow> UINT \<Rightarrow> UINT \<times> vol" where
  "clear_alloc v szb =
     (if szb > SS then
        (case ff_memalloc v of (granted, v) \<Rightarrow>
           if granted then (szb, v) else clear_alloc v (szb div 2))
      else (szb, v))"
  by pat_completeness auto
termination
  by (relation "measure (\<lambda>(v, szb). unat szb)") (auto simp: word_less_nat_alt unat_div)

declare clear_alloc.simps [simp del]

text \<open>The writes: the count of sectors done when a write fails or the cluster is full.\<close>

partial_function (option) clear_loop :: "vol \<Rightarrow> BYTE list \<Rightarrow> DWORD \<Rightarrow> UINT \<Rightarrow> UINT \<Rightarrow> (UINT \<times> vol) option" where
  "clear_loop v ibuf sect szb n =
     (if n < ucast (csize v) then
        (case disk_write (pdrv v) ibuf (sect + n) szb (drv v) of (r, d) \<Rightarrow>
           let v = v\<lparr>drv := d\<rparr> in
           if r = RES_OK then clear_loop v ibuf sect szb (n + szb) else Some (n, v))
      else Some (n, v))"

definition dir_clear :: "vol \<Rightarrow> DWORD \<Rightarrow> (FRESULT \<times> vol) option" where
  "dir_clear v clst =
     (case sync_window v of (res, v) \<Rightarrow>
      if res \<noteq> FR_OK then Some (FR_DISK_ERR, v)
      else
        let sect = clst2sect v clst;
            v = v\<lparr>winsect := sect, win := mem_set (win v) 0 0 SS\<rparr> in
        case clear_alloc v (if ucast (csize v) * SS \<ge> MAX_MALLOC then MAX_MALLOC
                            else ucast (csize v) * SS) of (szb, v) \<Rightarrow>
        do {
          (n, v) \<leftarrow>
            (if szb > SS
             then clear_loop v (mem_set (replicate (unat szb) 0) 0 0 szb) sect (szb div SS) 0
             else clear_loop v (win v) sect 1 0);
          Some (if n = ucast (csize v) then FR_OK else FR_DISK_ERR, v)
        })"

section \<open>Directory index\<close>

text \<open>The \<open>while\<close> loop of \<open>dir_sdi\<close>: \<open>Inl\<close> is an error return, \<open>Inr\<close> the cluster and the offset
  in it.\<close>

partial_function (option) sdi_loop ::
    "vol \<Rightarrow> DWORD \<Rightarrow> DWORD \<Rightarrow> DWORD \<Rightarrow> ((FRESULT + DWORD \<times> DWORD) \<times> vol) option" where
  "sdi_loop v csz ofs clst =
     (if ofs \<ge> csz then
        (case get_fat v clst of (clst, v) \<Rightarrow>
           if clst = 0xFFFFFFFF then Some (Inl FR_DISK_ERR, v)
           else if clst < 2 \<or> clst \<ge> n_fatent v then Some (Inl FR_INT_ERR, v)
           else sdi_loop v csz (ofs - csz) clst)
      else Some (Inr (clst, ofs), v))"

definition dir_sdi :: "vol \<Rightarrow> DIR \<Rightarrow> DWORD \<Rightarrow> (FRESULT \<times> DIR \<times> vol) option" where
  "dir_sdi v dp ofs =
     (if ofs \<ge> MAX_DIR \<or> ofs mod SZDIRE \<noteq> 0 then Some (FR_INT_ERR, dp, v)
      else
        let dp = dp\<lparr>dptr := ofs\<rparr>;
            clst = sclust (dobj dp);
            clst = (if clst = 0 \<and> fs_type v \<ge> FS_FAT32 then dirbase v else clst);
            finish = (\<lambda>dp clst ofs v.
              let dp = dp\<lparr>dclust := clst\<rparr> in
              if dsect dp = 0 then (FR_INT_ERR, dp, v)
              else (FR_OK, dp\<lparr>dsect := dsect dp + ofs div SS, dir := unat (ofs mod SS)\<rparr>, v))
        in
        if clst = 0 then
          (if ofs div SZDIRE \<ge> ucast (n_rootdir v) then Some (FR_INT_ERR, dp, v)
           else Some (finish (dp\<lparr>dsect := dirbase v\<rparr>) clst ofs v))
        else do {
          (r, v) \<leftarrow> sdi_loop v (ucast (csize v) * SS) ofs clst;
          (case r of
             Inl e \<Rightarrow> Some (e, dp, v)
           | Inr (clst, ofs) \<Rightarrow> Some (finish (dp\<lparr>dsect := clst2sect v clst\<rparr>) clst ofs v))
        })"

text \<open>The step of \<open>dir_next\<close> to another cluster: \<open>Inl\<close> is an error return with the object,
  \<open>Inr\<close> the new cluster.\<close>

definition next_cluster ::
    "vol \<Rightarrow> DIR \<Rightarrow> bool \<Rightarrow> (((FRESULT \<times> DIR) + DWORD) \<times> vol) option" where
  "next_cluster v dp stretch =
     (case get_fat v (dclust dp) of (clst, v) \<Rightarrow>
      if clst \<le> 1 then Some (Inl (FR_INT_ERR, dp), v)
      else if clst = 0xFFFFFFFF then Some (Inl (FR_DISK_ERR, dp), v)
      else if clst \<ge> n_fatent v then
        (if \<not> stretch then Some (Inl (FR_NO_FILE, dp\<lparr>dsect := 0\<rparr>), v)
         else do {
           (clst, v) \<leftarrow> create_chain v (dclust dp);
           if clst = 0 then Some (Inl (FR_DENIED, dp), v)
           else if clst = 1 then Some (Inl (FR_INT_ERR, dp), v)
           else if clst = 0xFFFFFFFF then Some (Inl (FR_DISK_ERR, dp), v)
           else do {
             (res, v) \<leftarrow> dir_clear v clst;
             if res \<noteq> FR_OK then Some (Inl (FR_DISK_ERR, dp), v) else Some (Inr clst, v)
           }
         })
      else Some (Inr clst, v))"

definition dir_next :: "vol \<Rightarrow> DIR \<Rightarrow> bool \<Rightarrow> (FRESULT \<times> DIR \<times> vol) option" where
  "dir_next v dp stretch =
     (let ofs = dptr dp + SZDIRE;
          dp = (if ofs \<ge> MAX_DIR then dp\<lparr>dsect := 0\<rparr> else dp);
          finish = (\<lambda>dp v. (FR_OK, dp\<lparr>dptr := ofs, dir := unat (ofs mod SS)\<rparr>, v))
      in
      if dsect dp = 0 then Some (FR_NO_FILE, dp, v)
      else if ofs mod SS = 0 then
        let dp = dp\<lparr>dsect := dsect dp + 1\<rparr> in
        if dclust dp = 0 then
          (if ofs div SZDIRE \<ge> ucast (n_rootdir v) then Some (FR_NO_FILE, dp\<lparr>dsect := 0\<rparr>, v)
           else Some (finish dp v))
        else if (ofs div SS) AND (ucast (csize v) - 1) = 0 then
          do {
            (r, v) \<leftarrow> next_cluster v dp stretch;
            (case r of
               Inl (res, dp) \<Rightarrow> Some (res, dp, v)
             | Inr clst \<Rightarrow> Some (finish (dp\<lparr>dclust := clst, dsect := clst2sect v clst\<rparr>) v))
          }
        else Some (finish dp v)
      else Some (finish dp v))"

section \<open>Reserve a block of entries\<close>

partial_function (option) dir_alloc_loop ::
    "vol \<Rightarrow> DIR \<Rightarrow> UINT \<Rightarrow> UINT \<Rightarrow> (FRESULT \<times> DIR \<times> vol) option" where
  "dir_alloc_loop v dp nent n =
     (case move_window v (dsect dp) of (res, v) \<Rightarrow>
      if res \<noteq> FR_OK then Some (res, dp, v)
      else
        let free = (win v ! (dir dp + DIR_Name) = DDEM \<or> win v ! (dir dp + DIR_Name) = 0);
            n = (if free then n + 1 else 0) in
        if free \<and> n = nent then Some (res, dp, v)
        else do {
          (res, dp, v) \<leftarrow> dir_next v dp True;
          if res = FR_OK then dir_alloc_loop v dp nent n else Some (res, dp, v)
        })"

definition dir_alloc :: "vol \<Rightarrow> DIR \<Rightarrow> UINT \<Rightarrow> (FRESULT \<times> DIR \<times> vol) option" where
  "dir_alloc v dp nent =
     do {
       (res, dp, v) \<leftarrow> dir_sdi v dp 0;
       (res, dp, v) \<leftarrow> (if res = FR_OK then dir_alloc_loop v dp nent 0 else Some (res, dp, v));
       Some (if res = FR_NO_FILE then FR_DENIED else res, dp, v)
     }"

section \<open>Start cluster of an entry\<close>

definition ld_clust :: "vol \<Rightarrow> BYTE list \<Rightarrow> nat \<Rightarrow> DWORD" where
  "ld_clust v p d =
     (let cl = ucast (ld_word p (d + DIR_FstClusLO)) in
      if fs_type v = FS_FAT32 then cl OR push_bit 16 (ucast (ld_word p (d + DIR_FstClusHI))) else cl)"

definition st_clust :: "vol \<Rightarrow> BYTE list \<Rightarrow> nat \<Rightarrow> DWORD \<Rightarrow> BYTE list" where
  "st_clust v p d cl =
     (let p = st_word p (d + DIR_FstClusLO) (ucast cl) in
      if fs_type v = FS_FAT32 then st_word p (d + DIR_FstClusHI) (ucast (drop_bit 16 cl)) else p)"

end
