(* ===== verification/Fat_Unicode.thy ===== *)
theory Fat_Unicode
  imports Fat_Types
begin

text \<open>
  \<^verbatim>\<open>addon/fatfs/ffunicode.c\<close> for the fixed code page 850: the conversions between OEM
  characters and Unicode and the Unicode up-case conversion, with the character functions of
  \<^verbatim>\<open>ff.c\<close> that use them (\<open>dbc_1st\<close>, \<open>dbc_2nd\<close>, \<open>tchar2uni\<close>, \<open>put_utf\<close>) and its OEM up-case
  table \<open>ExCvt\<close>. The lemmas show that the conversions are inverse to each other on the 256
  characters of the code page and that up-casing is the expected one on ASCII.
\<close>

unbundle bit_operations_syntax

section \<open>Tables\<close>

definition uc850 :: "WCHAR list" where
  "uc850 = [
    0x00C7, 0x00FC, 0x00E9, 0x00E2, 0x00E4, 0x00E0, 0x00E5, 0x00E7, 0x00EA, 0x00EB, 0x00E8,
    0x00EF, 0x00EE, 0x00EC, 0x00C4, 0x00C5, 0x00C9, 0x00E6, 0x00C6, 0x00F4, 0x00F6, 0x00F2,
    0x00FB, 0x00F9, 0x00FF, 0x00D6, 0x00DC, 0x00F8, 0x00A3, 0x00D8, 0x00D7, 0x0192, 0x00E1,
    0x00ED, 0x00F3, 0x00FA, 0x00F1, 0x00D1, 0x00AA, 0x00BA, 0x00BF, 0x00AE, 0x00AC, 0x00BD,
    0x00BC, 0x00A1, 0x00AB, 0x00BB, 0x2591, 0x2592, 0x2593, 0x2502, 0x2524, 0x00C1, 0x00C2,
    0x00C0, 0x00A9, 0x2563, 0x2551, 0x2557, 0x255D, 0x00A2, 0x00A5, 0x2510, 0x2514, 0x2534,
    0x252C, 0x251C, 0x2500, 0x253C, 0x00E3, 0x00C3, 0x255A, 0x2554, 0x2569, 0x2566, 0x2560,
    0x2550, 0x256C, 0x00A4, 0x00F0, 0x00D0, 0x00CA, 0x00CB, 0x00C8, 0x0131, 0x00CD, 0x00CE,
    0x00CF, 0x2518, 0x250C, 0x2588, 0x2584, 0x00A6, 0x00CC, 0x2580, 0x00D3, 0x00DF, 0x00D4,
    0x00D2, 0x00F5, 0x00D5, 0x00B5, 0x00FE, 0x00DE, 0x00DA, 0x00DB, 0x00D9, 0x00FD, 0x00DD,
    0x00AF, 0x00B4, 0x00AD, 0x00B1, 0x2017, 0x00BE, 0x00B6, 0x00A7, 0x00F7, 0x00B8, 0x00B0,
    0x00A8, 0x00B7, 0x00B9, 0x00B3, 0x00B2, 0x25A0, 0x00A0]"

definition ExCvt :: "BYTE list" where
  "ExCvt = [
    0x43, 0x55, 0x45, 0x41, 0x41, 0x41, 0x41, 0x43, 0x45, 0x45, 0x45, 0x49, 0x49, 0x49, 0x41,
    0x41, 0x45, 0x92, 0x92, 0x4F, 0x4F, 0x4F, 0x55, 0x55, 0x59, 0x4F, 0x55, 0x4F, 0x9C, 0x4F,
    0x9E, 0x9F, 0x41, 0x49, 0x4F, 0x55, 0xA5, 0xA5, 0xA6, 0xA7, 0xA8, 0xA9, 0xAA, 0xAB, 0xAC,
    0xAD, 0xAE, 0xAF, 0xB0, 0xB1, 0xB2, 0xB3, 0xB4, 0x41, 0x41, 0x41, 0xB8, 0xB9, 0xBA, 0xBB,
    0xBC, 0xBD, 0xBE, 0xBF, 0xC0, 0xC1, 0xC2, 0xC3, 0xC4, 0xC5, 0x41, 0x41, 0xC8, 0xC9, 0xCA,
    0xCB, 0xCC, 0xCD, 0xCE, 0xCF, 0xD1, 0xD1, 0x45, 0x45, 0x45, 0x49, 0x49, 0x49, 0x49, 0xD9,
    0xDA, 0xDB, 0xDC, 0xDD, 0x49, 0xDF, 0x4F, 0xE1, 0x4F, 0x4F, 0x4F, 0x4F, 0xE6, 0xE8, 0xE8,
    0x55, 0x55, 0x55, 0x59, 0x59, 0xEE, 0xEF, 0xF0, 0xF1, 0xF2, 0xF3, 0xF4, 0xF5, 0xF6, 0xF7,
    0xF8, 0xF9, 0xFA, 0xFB, 0xFC, 0xFD, 0xFE, 0xFF]"

text \<open>The compressed up-case tables, up to U+0FFF and from U+1000, with their end marks.\<close>

definition cvt1 :: "WORD list" where
  "cvt1 = [
    0x0061, 0x031A, 0x00E0, 0x0317, 0x00F8, 0x0307, 0x00FF, 0x0001, 0x0178, 0x0100, 0x0130,
    0x0132, 0x0106, 0x0139, 0x0110, 0x014A, 0x012E, 0x0179, 0x0106, 0x0180, 0x004D, 0x0243,
    0x0181, 0x0182, 0x0182, 0x0184, 0x0184, 0x0186, 0x0187, 0x0187, 0x0189, 0x018A, 0x018B,
    0x018B, 0x018D, 0x018E, 0x018F, 0x0190, 0x0191, 0x0191, 0x0193, 0x0194, 0x01F6, 0x0196,
    0x0197, 0x0198, 0x0198, 0x023D, 0x019B, 0x019C, 0x019D, 0x0220, 0x019F, 0x01A0, 0x01A0,
    0x01A2, 0x01A2, 0x01A4, 0x01A4, 0x01A6, 0x01A7, 0x01A7, 0x01A9, 0x01AA, 0x01AB, 0x01AC,
    0x01AC, 0x01AE, 0x01AF, 0x01AF, 0x01B1, 0x01B2, 0x01B3, 0x01B3, 0x01B5, 0x01B5, 0x01B7,
    0x01B8, 0x01B8, 0x01BA, 0x01BB, 0x01BC, 0x01BC, 0x01BE, 0x01F7, 0x01C0, 0x01C1, 0x01C2,
    0x01C3, 0x01C4, 0x01C5, 0x01C4, 0x01C7, 0x01C8, 0x01C7, 0x01CA, 0x01CB, 0x01CA, 0x01CD,
    0x0110, 0x01DD, 0x0001, 0x018E, 0x01DE, 0x0112, 0x01F3, 0x0003, 0x01F1, 0x01F4, 0x01F4,
    0x01F8, 0x0128, 0x0222, 0x0112, 0x023A, 0x0009, 0x2C65, 0x023B, 0x023B, 0x023D, 0x2C66,
    0x023F, 0x0240, 0x0241, 0x0241, 0x0246, 0x010A, 0x0253, 0x0040, 0x0181, 0x0186, 0x0255,
    0x0189, 0x018A, 0x0258, 0x018F, 0x025A, 0x0190, 0x025C, 0x025D, 0x025E, 0x025F, 0x0193,
    0x0261, 0x0262, 0x0194, 0x0264, 0x0265, 0x0266, 0x0267, 0x0197, 0x0196, 0x026A, 0x2C62,
    0x026C, 0x026D, 0x026E, 0x019C, 0x0270, 0x0271, 0x019D, 0x0273, 0x0274, 0x019F, 0x0276,
    0x0277, 0x0278, 0x0279, 0x027A, 0x027B, 0x027C, 0x2C64, 0x027E, 0x027F, 0x01A6, 0x0281,
    0x0282, 0x01A9, 0x0284, 0x0285, 0x0286, 0x0287, 0x01AE, 0x0244, 0x01B1, 0x01B2, 0x0245,
    0x028D, 0x028E, 0x028F, 0x0290, 0x0291, 0x01B7, 0x037B, 0x0003, 0x03FD, 0x03FE, 0x03FF,
    0x03AC, 0x0004, 0x0386, 0x0388, 0x0389, 0x038A, 0x03B1, 0x0311, 0x03C2, 0x0002, 0x03A3,
    0x03A3, 0x03C4, 0x0308, 0x03CC, 0x0003, 0x038C, 0x038E, 0x038F, 0x03D8, 0x0118, 0x03F2,
    0x000A, 0x03F9, 0x03F3, 0x03F4, 0x03F5, 0x03F6, 0x03F7, 0x03F7, 0x03F9, 0x03FA, 0x03FA,
    0x0430, 0x0320, 0x0450, 0x0710, 0x0460, 0x0122, 0x048A, 0x0136, 0x04C1, 0x010E, 0x04CF,
    0x0001, 0x04C0, 0x04D0, 0x0144, 0x0561, 0x0426, 0x0000]"

definition cvt2 :: "WORD list" where
  "cvt2 = [
    0x1D7D, 0x0001, 0x2C63, 0x1E00, 0x0196, 0x1EA0, 0x015A, 0x1F00, 0x0608, 0x1F10, 0x0606,
    0x1F20, 0x0608, 0x1F30, 0x0608, 0x1F40, 0x0606, 0x1F51, 0x0007, 0x1F59, 0x1F52, 0x1F5B,
    0x1F54, 0x1F5D, 0x1F56, 0x1F5F, 0x1F60, 0x0608, 0x1F70, 0x000E, 0x1FBA, 0x1FBB, 0x1FC8,
    0x1FC9, 0x1FCA, 0x1FCB, 0x1FDA, 0x1FDB, 0x1FF8, 0x1FF9, 0x1FEA, 0x1FEB, 0x1FFA, 0x1FFB,
    0x1F80, 0x0608, 0x1F90, 0x0608, 0x1FA0, 0x0608, 0x1FB0, 0x0004, 0x1FB8, 0x1FB9, 0x1FB2,
    0x1FBC, 0x1FCC, 0x0001, 0x1FC3, 0x1FD0, 0x0602, 0x1FE0, 0x0602, 0x1FE5, 0x0001, 0x1FEC,
    0x1FF3, 0x0001, 0x1FFC, 0x214E, 0x0001, 0x2132, 0x2170, 0x0210, 0x2184, 0x0001, 0x2183,
    0x24D0, 0x051A, 0x2C30, 0x042F, 0x2C60, 0x0102, 0x2C67, 0x0106, 0x2C75, 0x0102, 0x2C80,
    0x0164, 0x2D00, 0x0826, 0xFF41, 0x031A, 0x0000]"

section \<open>OEM and Unicode\<close>

text \<open>The search loop of \<open>ff_uni2oem\<close>: the index of the first match, 0x80 when there is none.\<close>

fun uni_index :: "WCHAR list \<Rightarrow> DWORD \<Rightarrow> WCHAR \<Rightarrow> WCHAR" where
  "uni_index [] uni c = c"
| "uni_index (p # ps) uni c = (if uni \<noteq> ucast p then uni_index ps uni (c + 1) else c)"

definition ff_uni2oem :: "DWORD \<Rightarrow> WORD \<Rightarrow> WCHAR" where
  "ff_uni2oem uni cp =
     (if uni < 0x80 then ucast uni
      else if uni < 0x10000 \<and> cp = CODEPAGE then (uni_index uc850 uni 0 + 0x80) AND 0xFF
      else 0)"

definition ff_oem2uni :: "WCHAR \<Rightarrow> WORD \<Rightarrow> WCHAR" where
  "ff_oem2uni oem cp =
     (if oem < 0x80 then oem
      else if cp = CODEPAGE \<and> oem < 0x100 then uc850 ! unat (oem - 0x80)
      else 0)"

section \<open>Up-case conversion\<close>

text \<open>The command of a table block applied to a character in it.\<close>

definition upper_cmd :: "WORD \<Rightarrow> WORD \<Rightarrow> WORD list \<Rightarrow> WORD \<Rightarrow> WORD" where
  "upper_cmd cmd bc p uc =
     (if cmd = 0 then p ! unat (uc - bc)
      else if cmd = 1 then uc - ((uc - bc) AND 1)
      else if cmd = 2 then uc - 16
      else if cmd = 3 then uc - 32
      else if cmd = 4 then uc - 48
      else if cmd = 5 then uc - 26
      else if cmd = 6 then uc + 8
      else if cmd = 7 then uc - 80
      else if cmd = 8 then uc - 0x1C60
      else uc)"

function upper_loop :: "WORD list \<Rightarrow> WORD \<Rightarrow> WORD" where
  "upper_loop (bc # nc0 # p) uc =
     (if bc = 0 \<or> uc < bc then uc
      else
        let cmd = drop_bit 8 nc0; nc = nc0 AND 0xFF in
        if uint uc < uint bc + uint nc then upper_cmd cmd bc p uc
        else upper_loop (if cmd = 0 then drop (unat nc) p else p) uc)"
| "upper_loop [bc] uc = uc"
| "upper_loop [] uc = uc"
  by pat_completeness auto
termination
  by (relation "measure (\<lambda>(p, uc). length p)") auto

definition ff_wtoupper :: "DWORD \<Rightarrow> DWORD" where
  "ff_wtoupper uni =
     (if uni < 0x10000 then
        let uc = ucast uni in ucast (upper_loop (if uc < 0x1000 then cvt1 else cvt2) uc)
      else uni)"

section \<open>Characters of the API\<close>

definition dbc_1st :: "BYTE \<Rightarrow> bool" where
  "dbc_1st c = (if c \<noteq> 0 then False else False)"

definition dbc_2nd :: "BYTE \<Rightarrow> bool" where
  "dbc_2nd c = (if c \<noteq> 0 then False else False)"

text \<open>A C string is the list of the bytes from its pointer on, the terminator and what follows
  it included; beyond the list memory reads as 0.\<close>

definition peek :: "BYTE list \<Rightarrow> BYTE" where
  "peek str = (case str of [] \<Rightarrow> 0 | c # _ \<Rightarrow> c)"

text \<open>\<open>tchar2uni\<close> (\<open>FF_LFN_UNICODE = 0\<close>): the character and the advanced string.\<close>

definition tchar2uni :: "BYTE list \<Rightarrow> DWORD \<times> BYTE list" where
  "tchar2uni str =
     (let wc = ucast (peek str); p = tl str;
          b = peek p;
          dbc = dbc_1st (ucast (wc :: WCHAR))
      in
      if dbc \<and> \<not> dbc_2nd b then (0xFFFFFFFF, str)
      else
        let wc = (if dbc then push_bit 8 wc + ucast b else wc);
            p = (if dbc then tl p else p)
        in
        if wc \<noteq> 0 then
          (let wc = ff_oem2uni wc CODEPAGE in
           if wc = 0 then (0xFFFFFFFF, str) else (ucast wc, p))
        else (ucast wc, p))"

text \<open>\<open>put_utf\<close> writes to \<open>out\<close> from index \<open>i\<close>, with room for \<open>szb\<close> units.\<close>

definition put_utf :: "DWORD \<Rightarrow> BYTE list \<Rightarrow> nat \<Rightarrow> UINT \<Rightarrow> BYTE \<times> BYTE list" where
  "put_utf chr out i szb =
     (let wc = ff_uni2oem chr CODEPAGE in
      if wc \<ge> 0x100 then
        (if szb < 2 then (0, out)
         else (2, out[i := ucast (drop_bit 8 wc), i + 1 := ucast wc]))
      else if wc = 0 \<or> szb < 1 then (0, out)
      else (1, out[i := ucast wc]))"

section \<open>Lemmas\<close>

lemma not_dbc [simp]: "\<not> dbc_1st c" "\<not> dbc_2nd c"
  by (simp_all add: dbc_1st_def dbc_2nd_def)

lemma length_uc850: "length uc850 = 128"
  by (simp add: uc850_def)

lemma distinct_uc850: "distinct uc850"
proof -
  have "distinct (map unat uc850)" by (simp add: uc850_def)
  then show ?thesis by (simp only: distinct_map)
qed

lemma uc850_nonascii: "\<forall>p \<in> set uc850. 0x80 \<le> p"
  by (simp add: uc850_def)

text \<open>The search finds the index of every element of a table without repetitions.\<close>

lemma uni_index_nth:
  "distinct ps \<Longrightarrow> i < length ps \<Longrightarrow> uni_index ps (ucast (ps ! i)) c = c + of_nat i"
proof (induction ps arbitrary: i c)
  case (Cons p ps)
  show ?case
  proof (cases i)
    case 0
    then show ?thesis by simp
  next
    case (Suc j)
    then have "ps ! j \<in> set ps" using Cons.prems by simp
    then have "ps ! j \<noteq> p" using Cons.prems(1) by auto
    then have "(ucast (ps ! j) :: DWORD) \<noteq> ucast p"
      by (metis unat_ucast_WORD word_unat_eq_iff)
    then show ?thesis using Cons Suc by (simp add: algebra_simps)
  qed
qed simp

lemma oem_uni_oem:
  assumes "oem < 0x100"
  shows "ff_uni2oem (ucast (ff_oem2uni oem CODEPAGE)) CODEPAGE = oem"
proof (cases "oem < 0x80")
  case True
  then have "ucast oem < (0x80 :: DWORD)" by (simp add: word_less_nat_alt)
  moreover have "ucast (ucast oem :: DWORD) = oem" by (rule bit_word_eqI) (simp add: bit_simps)
  ultimately show ?thesis using True by (simp add: ff_oem2uni_def ff_uni2oem_def)
next
  case False
  define i where "i = unat (oem - 0x80)"
  have u: "unat oem < 256" "128 \<le> unat oem" using assms False by (simp_all add: word_less_nat_alt)
  then have i: "i = unat oem - 128" by (simp add: i_def unat_sub word_le_nat_alt)
  have il: "i < length uc850" using u i by (simp add: length_uc850)
  have c: "ff_oem2uni oem CODEPAGE = uc850 ! i" using False assms by (simp add: ff_oem2uni_def i_def)
  have "0x80 \<le> uc850 ! i" using uc850_nonascii il by simp
  then have na: "\<not> ucast (uc850 ! i) < (0x80 :: DWORD)" "ucast (uc850 ! i) < (0x10000 :: DWORD)"
    by (simp_all add: word_less_nat_alt word_le_nat_alt)
  have "unat (of_nat i + 0x80 :: WCHAR) = unat oem" using u i by (simp add: unat_word_ariths unat_of_nat)
  then have o: "of_nat i + 0x80 = oem" by (simp add: word_unat_eq_iff)
  have "oem AND mask 8 = oem"
    using u(1) by (simp flip: take_bit_eq_mask) (simp add: word_unat_eq_iff unsigned_take_bit_eq take_bit_nat_eq_self)
  then show ?thesis
    using na uni_index_nth [OF distinct_uc850 il, of 0] o
    by (simp add: c ff_uni2oem_def mask_eq_exp_minus_1)
qed

text \<open>Up-casing of ASCII characters.\<close>

lemma wtoupper_ascii:
  assumes "c < 0x80"
  shows "ff_wtoupper c = (if 0x61 \<le> c \<and> c \<le> 0x7A then c - 0x20 else c)"
proof -
  have c: "unat c < 128" using assms by (simp add: word_less_nat_alt)
  define u :: WORD where "u = ucast c"
  have u: "unat u = unat c" using c by (simp add: u_def unsigned_ucast_eq take_bit_nat_eq_self)
  have small: "u < 0x1000" using u c by (simp add: word_less_nat_alt)
  have bk: "ucast u = c" using u by (simp add: word_unat_eq_iff)
  obtain rest where t: "cvt1 = 0x61 # 0x31A # 0xE0 # 0x317 # rest" by (simp add: cvt1_def)
  have "uint u = int (unat u)" by simp
  then have ui: "uint u < 123 \<longleftrightarrow> unat c < 123" unfolding u by linarith
  have cmp: "u < 0x61 \<longleftrightarrow> unat c < 97" "u < 0xE0" "uint u < 123 \<longleftrightarrow> unat c < 123"
    using u c ui by (simp_all add: word_less_nat_alt)
  have up: "upper_loop cvt1 u = (if 97 \<le> unat c \<and> unat c < 123 then u - 32 else u)"
    using cmp by (simp add: t upper_cmd_def Let_def not_less)
  have "unat (u - 32) = unat c - 32" if "97 \<le> unat c"
    using that u by (simp add: unat_sub word_le_nat_alt)
  then have sub: "ucast (u - 32) = c - 0x20" if "97 \<le> unat c"
    using that by (simp add: word_unat_eq_iff unat_sub word_le_nat_alt)
  show ?thesis
    using small up bk sub assms c
    by (auto simp: ff_wtoupper_def u_def [symmetric] word_le_nat_alt word_less_nat_alt not_le)
qed

section \<open>Characters survive\<close>

text \<open>C40: A character of the code page that the API takes in is given back unchanged: converting a
  byte of a name to Unicode and putting it out again stores that byte, for every byte but NUL,
  and uses one unit of the output buffer.\<close>

theorem char_roundtrip:
  assumes "c \<noteq> 0" and "szb \<noteq> 0"
  shows "\<exists>u. tchar2uni (c # str) = (u, str) \<and> u \<noteq> 0xFFFFFFFF \<and> put_utf u out i szb = (1, out[i := c])"
proof -
  let ?o = "ucast c :: WCHAR"
  have u: "unat ?o = unat c" by (simp add: unsigned_ucast_eq take_bit_nat_eq_self_iff less_trans [OF unat_lt_pow8])
  have "unat c \<noteq> 0" using assms(1) by (simp add: unat_eq_0)
  with u have "?o \<noteq> 0" by auto
  then have c: "?o \<noteq> 0" "?o < 0x100" "\<not> 0x100 \<le> ?o"
    using u unat_lt_pow8 [of c] by (simp_all add: word_less_nat_alt word_le_nat_alt not_le)
  have rt: "ff_uni2oem (ucast (ff_oem2uni ?o CODEPAGE)) CODEPAGE = ?o"
    by (rule oem_uni_oem [OF c(2)])
  have "ff_uni2oem 0 CODEPAGE = 0" by (simp add: ff_uni2oem_def)
  then have "ff_oem2uni ?o CODEPAGE \<noteq> 0" using rt c(1) by auto
  moreover have "(ucast (ff_oem2uni ?o CODEPAGE) :: DWORD) \<noteq> 0xFFFFFFFF"
  proof
    assume "(ucast (ff_oem2uni ?o CODEPAGE) :: DWORD) = 0xFFFFFFFF"
    then have "unat (ucast (ff_oem2uni ?o CODEPAGE) :: DWORD) = unat (0xFFFFFFFF :: DWORD)" by (rule arg_cong)
    then show False using unat_lt_pow16 [of "ff_oem2uni ?o CODEPAGE"] by simp
  qed
  moreover have "ucast ?o = c" by (rule bit_word_eqI) (simp add: bit_simps)
  ultimately show ?thesis
    using c rt assms(2) by (simp add: tchar2uni_def put_utf_def peek_def Let_def)
qed

theorem char_roundtrip_witness:
  "\<exists>u. tchar2uni [0x81, 0x61] = (u, [0x61]) \<and> put_utf u [0, 0] 0 2 = (1, [0x81, 0])"
  using char_roundtrip [where c = "0x81" and szb = 2 and str = "[0x61]" and out = "[0, 0]" and i = 0] by auto

end
