(* ===== verification/Fat_Lfn.thy ===== *)
theory Fat_Lfn
  imports Fat_Bytes Fat_Unicode
begin

text \<open>
  \<^verbatim>\<open>addon/fatfs/ff.c\<close>, lines 1866-2054: long file names in directory entries. A name of up to
  255 UTF-16 units is spread over entries of 13 units each (\<open>put_lfn\<close>), read back
  (\<open>pick_lfn\<close>), compared case-insensitively (\<open>cmp_lfn\<close>) and tied to its short entry by a
  checksum (\<open>sum_sfn\<close>); \<open>gen_numname\<close> makes a numbered short name. An entry is a byte list
  with the offset of its first byte. The lemmas show that the entries of a name read back as
  that name and compare equal to it, and that a numbered short name keeps to its eight bytes.
\<close>

unbundle bit_operations_syntax

definition LfnOfs :: "nat list" where
  "LfnOfs = [1, 3, 5, 7, 9, 14, 16, 18, 20, 22, 24, 28, 30]"

section \<open>Compare, pick, put\<close>

text \<open>The \<open>for\<close> loops run over the offsets left; \<open>None\<close> is \<open>return 0\<close>.\<close>

fun cmp_lfn_loop ::
    "nat list \<Rightarrow> WCHAR list \<Rightarrow> BYTE list \<Rightarrow> nat \<Rightarrow> UINT \<Rightarrow> WCHAR \<Rightarrow> (UINT \<times> WCHAR) option" where
  "cmp_lfn_loop [] lfn p d i wc = Some (i, wc)"
| "cmp_lfn_loop (s # ss) lfn p d i wc =
     (let uc = ld_word p (d + s) in
      if wc \<noteq> 0 then
        (if i \<ge> of_nat (FF_MAX_LFN + 1)
            \<or> ff_wtoupper (ucast uc) \<noteq> ff_wtoupper (ucast (lfn ! unat i)) then None
         else cmp_lfn_loop ss lfn p d (i + 1) uc)
      else if uc \<noteq> 0xFFFF then None
      else cmp_lfn_loop ss lfn p d i wc)"

definition cmp_lfn :: "WCHAR list \<Rightarrow> BYTE list \<Rightarrow> nat \<Rightarrow> bool" where
  "cmp_lfn lfn p d =
     (if ld_word p (d + LDIR_FstClusLO) \<noteq> 0 then False
      else
        let i = (ucast (p ! (d + LDIR_Ord) AND 0x3F) - 1) * 13 in
        case cmp_lfn_loop LfnOfs lfn p d i 1 of
          None \<Rightarrow> False
        | Some (i, wc) \<Rightarrow>
            \<not> (p ! (d + LDIR_Ord) AND LLEF \<noteq> 0 \<and> wc \<noteq> 0 \<and> lfn ! unat i \<noteq> 0))"

text \<open>\<open>pick_lfn\<close> stores into the working buffer as it goes, also when it then fails.\<close>

fun pick_lfn_loop ::
    "nat list \<Rightarrow> WCHAR list \<Rightarrow> BYTE list \<Rightarrow> nat \<Rightarrow> UINT \<Rightarrow> WCHAR
     \<Rightarrow> (UINT \<times> WCHAR) option \<times> WCHAR list" where
  "pick_lfn_loop [] lfn p d i wc = (Some (i, wc), lfn)"
| "pick_lfn_loop (s # ss) lfn p d i wc =
     (let uc = ld_word p (d + s) in
      if wc \<noteq> 0 then
        (if i \<ge> of_nat (FF_MAX_LFN + 1) then (None, lfn)
         else pick_lfn_loop ss (lfn[unat i := uc]) p d (i + 1) uc)
      else if uc \<noteq> 0xFFFF then (None, lfn)
      else pick_lfn_loop ss lfn p d i wc)"

definition pick_lfn :: "WCHAR list \<Rightarrow> BYTE list \<Rightarrow> nat \<Rightarrow> bool \<times> WCHAR list" where
  "pick_lfn lfn p d =
     (if ld_word p (d + LDIR_FstClusLO) \<noteq> 0 then (False, lfn)
      else
        let i = (ucast (p ! (d + LDIR_Ord) AND NOT LLEF) - 1) * 13 in
        case pick_lfn_loop LfnOfs lfn p d i 1 of
          (None, lfn) \<Rightarrow> (False, lfn)
        | (Some (i, wc), lfn) \<Rightarrow>
            if p ! (d + LDIR_Ord) AND LLEF \<noteq> 0 \<and> wc \<noteq> 0 then
              (if i \<ge> of_nat (FF_MAX_LFN + 1) then (False, lfn) else (True, lfn[unat i := 0]))
            else (True, lfn))"

fun put_lfn_loop ::
    "nat list \<Rightarrow> WCHAR list \<Rightarrow> BYTE list \<Rightarrow> nat \<Rightarrow> UINT \<Rightarrow> WCHAR \<Rightarrow> BYTE list \<times> UINT \<times> WCHAR" where
  "put_lfn_loop [] lfn p d i wc = (p, i, wc)"
| "put_lfn_loop (s # ss) lfn p d i wc =
     (let (wc, i) = (if wc \<noteq> 0xFFFF then (lfn ! unat i, i + 1) else (wc, i));
          p = st_word p (d + s) wc;
          wc = (if wc = 0 then 0xFFFF else wc)
      in put_lfn_loop ss lfn p d i wc)"

definition put_lfn :: "WCHAR list \<Rightarrow> BYTE list \<Rightarrow> nat \<Rightarrow> BYTE \<Rightarrow> BYTE \<Rightarrow> BYTE list" where
  "put_lfn lfn p d ord chk =
     (let p = p[d + LDIR_Chksum := chk];
          p = p[d + LDIR_Attr := AM_LFN];
          p = p[d + LDIR_Type := 0];
          p = st_word p (d + LDIR_FstClusLO) 0;
          i = (ucast ord - 1) * 13
      in case put_lfn_loop LfnOfs lfn p d i 0 of (p, i, wc) \<Rightarrow>
           let ord = (if wc = 0xFFFF \<or> lfn ! unat i = 0 then ord OR LLEF else ord)
           in p[d + LDIR_Ord := ord])"

section \<open>Numbered short names\<close>

text \<open>The hash of the long name: 16 steps for each unit up to the terminator.\<close>

fun crc_bits :: "nat \<Rightarrow> DWORD \<Rightarrow> WCHAR \<Rightarrow> DWORD" where
  "crc_bits 0 sr wc = sr"
| "crc_bits (Suc n) sr wc =
     (let sr = push_bit 1 sr + ucast (wc AND 1);
          wc = drop_bit 1 wc;
          sr = (if sr AND 0x10000 \<noteq> 0 then sr XOR 0x11021 else sr)
      in crc_bits n sr wc)"

fun crc_name :: "DWORD \<Rightarrow> WCHAR list \<Rightarrow> DWORD" where
  "crc_name sr [] = sr"
| "crc_name sr (wc # lfn) = (if wc \<noteq> 0 then crc_name (crc_bits 16 sr wc) lfn else sr)"

text \<open>The hexadecimal digits, stored downwards from index \<open>i\<close>; the indices of the number and of
  the name are at most 8 and kept as naturals.\<close>

lemma div16_less:
  fixes seq :: UINT
  assumes "seq div 16 \<noteq> 0"
  shows "unat (seq div 16) < unat seq"
proof -
  have "0 < unat (seq div 16)" using assms by (simp add: unat_gt_0)
  then show ?thesis by (simp add: unat_div)
qed

function num_digits :: "BYTE list \<Rightarrow> UINT \<Rightarrow> nat \<Rightarrow> BYTE list \<times> nat" where
  "num_digits ns seq i =
     (let c = ucast (seq mod 16 + 0x30);
          c = (if c > 0x39 then c + 7 else c);
          ns = ns[i := c];
          i = i - 1;
          seq = seq div 16
      in if seq \<noteq> 0 then num_digits ns seq i else (ns, i))"
  by pat_completeness auto
termination
  by (relation "measure (\<lambda>(ns, seq, i). unat seq)") (auto intro: div16_less)

declare num_digits.simps [simp del]

function num_place :: "BYTE list \<Rightarrow> nat \<Rightarrow> nat \<Rightarrow> nat" where
  "num_place dst i j =
     (if j < i \<and> dst ! j \<noteq> 0x20 then
        (if dbc_1st (dst ! j) then
           (if j = i - 1 then j else num_place dst i (j + 2))
         else num_place dst i (j + 1))
      else j)"
  by pat_completeness auto
termination
  by (relation "measure (\<lambda>(dst, i, j). i - j)") auto

declare num_place.simps [simp del]

function num_append :: "BYTE list \<Rightarrow> BYTE list \<Rightarrow> nat \<Rightarrow> nat \<Rightarrow> BYTE list" where
  "num_append dst ns i j =
     (let dst = dst[j := if i < 8 then ns ! i else 0x20];
          i = (if i < 8 then i + 1 else i);
          j = j + 1
      in if j < 8 then num_append dst ns i j else dst)"
  by pat_completeness auto
termination
  by (relation "measure (\<lambda>(dst, ns, i, j). 8 - j)") auto

declare num_append.simps [simp del]

definition num_seq :: "WCHAR list \<Rightarrow> UINT \<Rightarrow> UINT" where
  "num_seq lfn seq = (if seq > 5 then crc_name seq lfn else seq)"

definition gen_numname :: "BYTE list \<Rightarrow> BYTE list \<Rightarrow> WCHAR list \<Rightarrow> UINT \<Rightarrow> BYTE list" where
  "gen_numname dst src lfn seq =
     (let dst = mem_cpy dst 0 src 0 11;
          seq = num_seq lfn seq
      in case num_digits (replicate 8 0) seq 7 of (ns, i) \<Rightarrow>
           let ns = ns[i := 0x7E];
               j = num_place dst i 0
           in num_append dst ns i j)"

section \<open>Checksum of a short name\<close>

fun sum_sfn_loop :: "nat \<Rightarrow> BYTE \<Rightarrow> BYTE list \<Rightarrow> nat \<Rightarrow> BYTE" where
  "sum_sfn_loop 0 s p d = s"
| "sum_sfn_loop (Suc n) s p d = sum_sfn_loop n (drop_bit 1 s + push_bit 7 s + p ! d) p (d + 1)"

definition sum_sfn :: "BYTE list \<Rightarrow> nat \<Rightarrow> BYTE" where
  "sum_sfn p d = sum_sfn_loop 11 0 p d"

section \<open>Entries read back as they were written\<close>

text \<open>The fields of an entry do not overlap: the offsets of its units increase by two at least.\<close>

fun spaced :: "nat list \<Rightarrow> bool" where
  "spaced [] = True"
| "spaced (s # ss) = ((\<forall>t \<in> set ss. s + 1 < t) \<and> spaced ss)"

lemma LfnOfs_facts [simp]: "spaced LfnOfs" "length LfnOfs = 13"
  by (simp_all add: LfnOfs_def)

lemma LfnOfs_range: "s \<in> set LfnOfs \<Longrightarrow> 1 \<le> s \<and> s + 1 < 32 \<and> s \<noteq> 10 \<and> s \<notin> {11, 12, 13, 25, 26, 27}"
  by (auto simp: LfnOfs_def)

text \<open>A name is \<open>n\<close> units, none of them 0 or 0xFFFF, and a terminator, in a buffer of 256
  units. What an entry stores for index \<open>k\<close> is the unit, the terminator, or padding.\<close>

definition is_name :: "WCHAR list \<Rightarrow> nat \<Rightarrow> bool" where
  "is_name lfn n \<longleftrightarrow> length lfn = FF_MAX_LFN + 1 \<and> n \<le> FF_MAX_LFN \<and> lfn ! n = 0
     \<and> (\<forall>k < n. lfn ! k \<noteq> 0 \<and> lfn ! k \<noteq> 0xFFFF)"

definition lfn_unit :: "WCHAR list \<Rightarrow> nat \<Rightarrow> nat \<Rightarrow> WCHAR" where
  "lfn_unit lfn n k = (if k \<le> n then lfn ! k else 0xFFFF)"

text \<open>\<open>name_part lfn n m ss p d\<close>: the offsets \<open>ss\<close> hold the units from index \<open>m\<close> on.\<close>

fun name_part :: "WCHAR list \<Rightarrow> nat \<Rightarrow> nat \<Rightarrow> nat list \<Rightarrow> BYTE list \<Rightarrow> nat \<Rightarrow> bool" where
  "name_part lfn n m [] p d = True"
| "name_part lfn n m (s # ss) p d =
     (ld_word p (d + s) = lfn_unit lfn n m \<and> name_part lfn n (Suc m) ss p d)"

lemma name_part_cong:
  "\<forall>s \<in> set ss. ld_word q (d + s) = ld_word p (d + s) \<Longrightarrow>
   name_part lfn n m ss q d = name_part lfn n m ss p d"
  by (induction ss arbitrary: m) auto

lemma name_end: "is_name lfn n \<Longrightarrow> m \<le> n \<Longrightarrow> lfn ! m = 0 \<longleftrightarrow> m = n"
  by (cases "m = n") (auto simp: is_name_def)

lemma name_mark: "is_name lfn n \<Longrightarrow> m \<le> n \<Longrightarrow> lfn ! m \<noteq> 0xFFFF"
  by (cases "m = n") (auto simp: is_name_def)

lemma name_index: "is_name lfn n \<Longrightarrow> unat (i :: UINT) \<le> n \<Longrightarrow> unat (i + 1) = Suc (unat i)"
  by (rule unat_Suc_less [of i "of_nat 256"]) (simp add: is_name_def unat_of_nat)

text \<open>Where the loops are when index \<open>m\<close> comes next; the marks of a finished name are 0xFFFF
  for the writer and 0 for the readers.\<close>

definition at_unit :: "nat \<Rightarrow> nat \<Rightarrow> WCHAR \<Rightarrow> UINT \<Rightarrow> WCHAR \<Rightarrow> bool" where
  "at_unit n m mark i wc \<longleftrightarrow>
     (if m \<le> n then unat i = m \<and> wc \<noteq> mark else unat i = Suc n \<and> wc = mark)"

lemma put_lfn_loop_part:
  assumes "is_name lfn n" and "spaced ss" and "\<forall>s \<in> set ss. d + s + 1 < length p"
    and "at_unit n m 0xFFFF i wc" and "put_lfn_loop ss lfn p d i wc = (p', i', wc')"
  shows "name_part lfn n m ss p' d \<and> at_unit n (m + length ss) 0xFFFF i' wc' \<and> length p' = length p
    \<and> (\<forall>j. (\<forall>s \<in> set ss. j \<noteq> d + s \<and> j \<noteq> d + s + 1) \<longrightarrow> p' ! j = p ! j)"
  using assms(2-)
proof (induction ss arbitrary: p i wc m)
  case Nil
  then show ?case by simp
next
  case (Cons s ss)
  define wc1 where "wc1 = (if wc \<noteq> 0xFFFF then lfn ! unat i else wc)"
  define i1 where "i1 = (if wc \<noteq> 0xFFFF then i + 1 else i)"
  define q where "q = st_word p (d + s) wc1"
  have run: "put_lfn_loop ss lfn q d i1 (if wc1 = 0 then 0xFFFF else wc1) = (p', i', wc')"
    using Cons.prems(4) by (auto simp: wc1_def i1_def q_def Let_def split: if_splits)
  have wc1: "wc1 = lfn_unit lfn n m"
    using Cons.prems(3) by (auto simp: wc1_def lfn_unit_def at_unit_def split: if_splits)
  have next_at: "at_unit n (Suc m) 0xFFFF i1 (if wc1 = 0 then 0xFFFF else wc1)"
  proof (cases "m \<le> n")
    case True
    then show ?thesis
      using Cons.prems(3) name_end [OF assms(1) True] name_mark [OF assms(1) True] name_index [OF assms(1), of i]
      by (auto simp: at_unit_def i1_def wc1 lfn_unit_def)
  next
    case False
    then show ?thesis using Cons.prems(3) by (auto simp: at_unit_def i1_def wc1 lfn_unit_def)
  qed
  have q: "length q = length p" "ld_word q (d + s) = wc1"
    using Cons.prems(2) by (simp_all add: q_def ld_st_word)
  have pre: "spaced ss" "\<forall>s \<in> set ss. d + s + 1 < length q" and gap: "\<forall>t \<in> set ss. s + 1 < t"
    using Cons.prems(1,2) by (simp_all add: q)
  note IH = Cons.IH [OF pre next_at run]
  have frame: "p' ! j = q ! j" if "\<forall>s \<in> set ss. j \<noteq> d + s \<and> j \<noteq> d + s + 1" for j
    using IH that by blast
  have "p' ! (d + s) = q ! (d + s)" "p' ! (d + s + 1) = q ! (d + s + 1)"
    by (rule frame, use gap in fastforce)+
  then have "ld_word p' (d + s) = wc1" using q(2) by (metis ld_word_cong)
  moreover have "p' ! j = p ! j" if "\<forall>t \<in> set (s # ss). j \<noteq> d + t \<and> j \<noteq> d + t + 1" for j
    using frame [of j] that by (simp add: q_def nth_st_word_other)
  ultimately show ?case using IH wc1 by (simp add: q)
qed

lemma pick_lfn_loop_part:
  assumes "is_name lfn n" and "name_part lfn n m ss p d" and "length b = FF_MAX_LFN + 1"
    and "at_unit n m 0 i wc"
  shows "\<exists>i' wc' b'. pick_lfn_loop ss b p d i wc = (Some (i', wc'), b')
    \<and> at_unit n (m + length ss) 0 i' wc' \<and> length b' = FF_MAX_LFN + 1
    \<and> (\<forall>j. b' ! j = (if m \<le> j \<and> j < m + length ss \<and> j \<le> n then lfn ! j else b ! j))"
  using assms(2-)
proof (induction ss arbitrary: b i wc m)
  case Nil
  then show ?case by auto
next
  case (Cons s ss)
  have uc: "ld_word p (d + s) = lfn_unit lfn n m" and rest: "name_part lfn n (Suc m) ss p d"
    using Cons.prems(1) by simp_all
  have le: "n \<le> FF_MAX_LFN" using assms(1) by (simp add: is_name_def)
  show ?case
  proof (cases "m \<le> n")
    case True
    then have i: "unat i = m" and wc: "wc \<noteq> 0" using Cons.prems(3) by (auto simp: at_unit_def)
    have small: "\<not> i \<ge> of_nat (FF_MAX_LFN + 1)" using i True le by (simp add: word_le_nat_alt unat_of_nat)
    have "at_unit n (Suc m) 0 (i + 1) (lfn ! m)"
      using True i name_end [OF assms(1) True] name_index [OF assms(1), of i] by (auto simp: at_unit_def)
    from Cons.IH [OF rest _ this, of "b[m := lfn ! m]"] Cons.prems(2)
    obtain i' wc' b' where run: "pick_lfn_loop ss (b[m := lfn ! m]) p d (i + 1) (lfn ! m) = (Some (i', wc'), b')"
      and res: "at_unit n (Suc m + length ss) 0 i' wc'" "length b' = FF_MAX_LFN + 1"
        "\<forall>j. b' ! j = (if Suc m \<le> j \<and> j < Suc m + length ss \<and> j \<le> n then lfn ! j else b[m := lfn ! m] ! j)"
      by auto
    have "pick_lfn_loop (s # ss) b p d i wc = (Some (i', wc'), b')"
      using run small wc uc i True by (simp add: lfn_unit_def)
    then show ?thesis using res True le Cons.prems(2) by (auto simp: list_update_nth_eq)
  next
    case False
    then have i: "unat i = Suc n" and wc: "wc = 0" using Cons.prems(3) by (auto simp: at_unit_def)
    then have "at_unit n (Suc m) 0 i wc" using False by (simp add: at_unit_def)
    from Cons.IH [OF rest Cons.prems(2) this] obtain i' wc' b' where
      run: "pick_lfn_loop ss b p d i wc = (Some (i', wc'), b')"
      and res: "at_unit n (Suc m + length ss) 0 i' wc'" "length b' = FF_MAX_LFN + 1"
        "\<forall>j. b' ! j = (if Suc m \<le> j \<and> j < Suc m + length ss \<and> j \<le> n then lfn ! j else b ! j)"
      by auto
    have "pick_lfn_loop (s # ss) b p d i wc = (Some (i', wc'), b')"
      using run wc uc False by (simp add: lfn_unit_def)
    then show ?thesis using res False by auto
  qed
qed

lemma cmp_lfn_loop_part:
  assumes "is_name lfn n" and "name_part lfn n m ss p d" and "at_unit n m 0 i wc"
  shows "\<exists>i' wc'. cmp_lfn_loop ss lfn p d i wc = Some (i', wc') \<and> at_unit n (m + length ss) 0 i' wc'"
  using assms(2-)
proof (induction ss arbitrary: i wc m)
  case Nil
  then show ?case by simp
next
  case (Cons s ss)
  have uc: "ld_word p (d + s) = lfn_unit lfn n m" and rest: "name_part lfn n (Suc m) ss p d"
    using Cons.prems(1) by simp_all
  show ?case
  proof (cases "m \<le> n")
    case True
    then have i: "unat i = m" and wc: "wc \<noteq> 0" using Cons.prems(2) by (auto simp: at_unit_def)
    have small: "\<not> i \<ge> of_nat (FF_MAX_LFN + 1)"
      using i True assms(1) by (simp add: word_le_nat_alt unat_of_nat is_name_def)
    have "at_unit n (Suc m) 0 (i + 1) (lfn ! m)"
      using True i name_end [OF assms(1) True] name_index [OF assms(1), of i] by (auto simp: at_unit_def)
    from Cons.IH [OF rest this] show ?thesis
      using small wc uc i True by (auto simp: lfn_unit_def)
  next
    case False
    then have wc: "wc = 0" and "at_unit n (Suc m) 0 i wc" using Cons.prems(2) by (auto simp: at_unit_def)
    from Cons.IH [OF rest this(2)] show ?thesis using wc uc False by (auto simp: lfn_unit_def)
  qed
qed

text \<open>An entry at \<open>d\<close> that holds part \<open>k\<close> (from 1) of a name; the last part carries the flag.\<close>

definition is_part :: "WCHAR list \<Rightarrow> nat \<Rightarrow> nat \<Rightarrow> BYTE list \<Rightarrow> nat \<Rightarrow> bool" where
  "is_part lfn n k p d \<longleftrightarrow>
     ld_word p (d + LDIR_FstClusLO) = 0 \<and> name_part lfn n (13 * (k - 1)) LfnOfs p d
     \<and> p ! (d + LDIR_Ord) = (if n \<le> 13 * k then of_nat k OR LLEF else of_nat k)"

definition part_no :: "nat \<Rightarrow> nat \<Rightarrow> bool" where
  "part_no n k \<longleftrightarrow> 1 \<le> k \<and> 13 * (k - 1) \<le> n \<and> n \<le> FF_MAX_LFN"

lemma low_six_bits:
  fixes x a b :: BYTE
  assumes hi: "\<And>i. bit x i \<Longrightarrow> i < 6" and a: "\<And>i. bit a i \<longleftrightarrow> i < 6" and b: "\<And>i. bit b i \<longleftrightarrow> i = 6"
  shows "(x OR b) AND a = x" "x AND a = x" "(x OR b) AND NOT b = x" "x AND NOT b = x" "x AND b = 0"
    "(x OR b) AND b = b"
  by (rule bit_word_eqI; use hi in \<open>auto simp: bit_and_iff bit_or_iff bit_not_iff a b\<close>)+

lemma low_six:
  fixes x :: BYTE
  assumes "\<And>i. bit x i \<Longrightarrow> i < 6"
  shows "(x OR 0x40) AND 0x3F = x \<and> x AND 0x3F = x \<and> (x OR 0x40) AND NOT 0x40 = x \<and> x AND NOT 0x40 = x
    \<and> x AND 0x40 = 0 \<and> (x OR 0x40) AND 0x40 = 0x40"
proof -
  have "bit (mask 6 :: BYTE) i \<longleftrightarrow> i < 6" "bit (2 ^ 6 :: BYTE) i \<longleftrightarrow> i = 6" for i
    by (auto simp only: bit_mask_iff bit_exp_iff possible_bit_word) simp_all
  from low_six_bits [OF assms this] show ?thesis by (simp add: mask_eq_exp_minus_1)
qed

lemma ord_bits:
  assumes "k < 64"
  shows "(of_nat k OR 0x40 :: BYTE) AND 0x3F = of_nat k" "(of_nat k :: BYTE) AND 0x3F = of_nat k"
    "(of_nat k OR 0x40 :: BYTE) AND NOT 0x40 = of_nat k" "(of_nat k :: BYTE) AND NOT 0x40 = of_nat k"
    "(of_nat k :: BYTE) AND 0x40 = 0" "(of_nat k OR 0x40 :: BYTE) AND 0x40 \<noteq> 0"
proof -
  have hi: "i < 6" if "bit (of_nat k :: BYTE) i" for i
  proof (rule ccontr)
    assume "\<not> i < 6"
    then have "(2 :: nat) ^ 6 \<le> 2 ^ i" by (intro power_increasing) simp_all
    then have "k div 2 ^ i = 0" using assms by simp
    then have "\<not> bit k i" by (simp add: bit_iff_odd)
    then show False using that by (simp add: bit_of_nat_iff)
  qed
  show "(of_nat k OR 0x40 :: BYTE) AND 0x3F = of_nat k" "(of_nat k :: BYTE) AND 0x3F = of_nat k"
    "(of_nat k OR 0x40 :: BYTE) AND NOT 0x40 = of_nat k" "(of_nat k :: BYTE) AND NOT 0x40 = of_nat k"
    "(of_nat k :: BYTE) AND 0x40 = 0" "(of_nat k OR 0x40 :: BYTE) AND 0x40 \<noteq> 0"
    using low_six [OF hi] by simp_all
qed

lemma part_no_max: "part_no n k \<Longrightarrow> k \<le> 20"
  by (cases k) (auto simp: part_no_def)

lemma part_index:
  assumes "part_no n k"
  shows "unat ((ucast (of_nat k :: BYTE) - 1 :: UINT) * 13) = 13 * (k - 1)"
proof -
  obtain j where k: "k = Suc j" and j: "j < 20" using assms part_no_max [OF assms] by (cases k) (auto simp: part_no_def)
  have "(ucast (of_nat k :: BYTE) :: UINT) = of_nat k"
    by (rule word_unat_eq_iff [THEN iffD2]) (use k j in \<open>simp add: unat_of_nat del: of_nat_Suc\<close>)
  then have "ucast (of_nat k :: BYTE) - 1 = (of_nat j :: UINT)" using k by simp
  then have "(ucast (of_nat k :: BYTE) - 1 :: UINT) * 13 = of_nat (13 * j)" by simp
  then show ?thesis using j k by (simp only: unat_of_nat) simp
qed

lemma at_unit_start:
  "part_no n k \<Longrightarrow> mark \<noteq> wc \<Longrightarrow>
   at_unit n (13 * (k - 1)) mark ((ucast (of_nat k :: BYTE) - 1) * 13) wc"
  using part_index [of n k] by (auto simp: at_unit_def part_no_def)

lemma put_lfn_is_part:
  fixes chk :: BYTE
  assumes nm: "is_name lfn n" and k: "part_no n k" and len: "d + 32 \<le> length p"
  defines "e \<equiv> put_lfn lfn p d (of_nat k) chk"
  shows "is_part lfn n k e d \<and> e ! (d + LDIR_Chksum) = chk \<and> e ! (d + LDIR_Attr) = AM_LFN
    \<and> e ! (d + LDIR_Type) = 0 \<and> length e = length p \<and> (\<forall>j. j < d \<or> d + 32 \<le> j \<longrightarrow> e ! j = p ! j)"
proof -
  define q where "q = st_word (((p[d + LDIR_Chksum := chk])[d + LDIR_Attr := AM_LFN])[d + LDIR_Type := 0])
    (d + LDIR_FstClusLO) 0"
  obtain p' i' wc' where run: "put_lfn_loop LfnOfs lfn q d ((ucast (of_nat k :: BYTE) - 1) * 13) 0 = (p', i', wc')"
    by (metis prod_cases3)
  have lq: "length q = length p" by (simp add: q_def)
  have rng: "\<forall>s \<in> set LfnOfs. d + s + 1 < length q" using LfnOfs_range len by (fastforce simp: lq)
  note * = put_lfn_loop_part [OF nm LfnOfs_facts(1) rng at_unit_start [OF k] run]
  then have part: "name_part lfn n (13 * (k - 1)) LfnOfs p' d" and at: "at_unit n (13 * k) 0xFFFF i' wc'"
    and lp: "length p' = length p"
    and frame: "\<And>j. \<forall>s \<in> set LfnOfs. j \<noteq> d + s \<and> j \<noteq> d + s + 1 \<Longrightarrow> p' ! j = q ! j"
    using k by (auto simp: part_no_def lq diff_mult_distrib2)
  have e: "e = p'[d := if n \<le> 13 * k then of_nat k OR LLEF else of_nat k]"
    using run at name_end [OF nm, of "13 * k"]
    by (auto simp: e_def put_lfn_def q_def Let_def at_unit_def split: if_splits)
  have same: "name_part lfn n (13 * (k - 1)) LfnOfs e d = name_part lfn n (13 * (k - 1)) LfnOfs p' d"
    by (rule name_part_cong) (use LfnOfs_range in \<open>fastforce simp: e ld_word_def\<close>)
  have keep: "p' ! (d + j) = q ! (d + j)" if "j \<in> {11, 12, 13, 26, 27}" for j
    by (rule frame) (use that LfnOfs_range in fastforce)
  have out: "p' ! j = q ! j" if "j < d \<or> d + 32 \<le> j" for j
    by (rule frame) (use that LfnOfs_range in fastforce)
  have "ld_word e (d + LDIR_FstClusLO) = ld_word q (d + LDIR_FstClusLO)"
    by (rule ld_word_cong) (use keep [of 26] keep [of 27] in \<open>simp_all add: e add.commute\<close>)
  also have "\<dots> = 0" using len by (simp add: q_def ld_st_word)
  finally show ?thesis using part same keep [of 11] keep [of 12] keep [of 13] out len lp
    by (auto simp: is_part_def e q_def nth_st_word_other)
qed

lemma part_ord:
  assumes "is_part lfn n k p d" and "part_no n k"
  shows "p ! (d + LDIR_Ord) AND 0x3F = of_nat k" "p ! (d + LDIR_Ord) AND NOT LLEF = of_nat k"
    "p ! (d + LDIR_Ord) AND LLEF \<noteq> 0 \<longleftrightarrow> n \<le> 13 * k"
  using assms part_no_max [OF assms(2)] by (simp_all add: is_part_def ord_bits ord_bits(3,4) [simplified])

text \<open>Reading a part fills the indices of the part, and the terminator after the last one.\<close>

definition part_range :: "nat \<Rightarrow> nat \<Rightarrow> nat \<Rightarrow> bool" where
  "part_range n k j \<longleftrightarrow> 13 * (k - 1) \<le> j \<and> j \<le> n \<and> (j < 13 * k \<or> n \<le> 13 * k)"

lemma pick_lfn_part:
  assumes nm: "is_name lfn n" and k: "part_no n k" and part: "is_part lfn n k p d"
    and len: "length b = FF_MAX_LFN + 1"
  shows "\<exists>b'. pick_lfn b p d = (True, b') \<and> length b' = FF_MAX_LFN + 1
    \<and> (\<forall>j. b' ! j = (if part_range n k j then lfn ! j else b ! j))"
proof -
  note ord = part_ord [OF part k]
  have m: "13 * (k - 1) + length LfnOfs = 13 * k" using k by (simp add: part_no_def diff_mult_distrib2)
  obtain i' wc' b' where run: "pick_lfn_loop LfnOfs b p d ((ucast (of_nat k :: BYTE) - 1) * 13) 1 = (Some (i', wc'), b')"
    and at: "at_unit n (13 * k) 0 i' wc'" and b': "length b' = FF_MAX_LFN + 1"
      "\<And>j. b' ! j = (if 13 * (k - 1) \<le> j \<and> j < 13 * k \<and> j \<le> n then lfn ! j else b ! j)"
    using pick_lfn_loop_part [OF nm _ len at_unit_start [OF k], of LfnOfs p d 1] part m
    by (auto simp: is_part_def)
  show ?thesis
  proof (cases "n \<le> 13 * k \<and> wc' \<noteq> 0")
    case True
    then have i: "unat i' = n" "n = 13 * k" using at by (auto simp: at_unit_def split: if_splits)
    then have "\<not> i' \<ge> of_nat (FF_MAX_LFN + 1)" using k by (simp add: word_le_nat_alt unat_of_nat part_no_def)
    then have "pick_lfn b p d = (True, b'[n := 0])"
      using True part ord run i by (simp add: pick_lfn_def is_part_def)
    then show ?thesis using i b' nm by (auto simp: list_update_nth_eq part_range_def is_name_def)
  next
    case False
    then have "pick_lfn b p d = (True, b')" using part ord run by (auto simp: pick_lfn_def is_part_def)
    moreover have "n \<le> 13 * k \<Longrightarrow> n < 13 * k" using False at by (auto simp: at_unit_def split: if_splits)
    ultimately show ?thesis using b' by (auto simp: part_range_def)
  qed
qed

lemma cmp_lfn_part:
  assumes nm: "is_name lfn n" and k: "part_no n k" and part: "is_part lfn n k p d"
  shows "cmp_lfn lfn p d"
proof -
  note ord = part_ord [OF part k]
  have m: "13 * (k - 1) + length LfnOfs = 13 * k" using k by (simp add: part_no_def diff_mult_distrib2)
  obtain i' wc' where run: "cmp_lfn_loop LfnOfs lfn p d ((ucast (of_nat k :: BYTE) - 1) * 13) 1 = Some (i', wc')"
    and at: "at_unit n (13 * k) 0 i' wc'"
    using cmp_lfn_loop_part [OF nm _ at_unit_start [OF k], of LfnOfs p d 1] part m
    by (auto simp: is_part_def)
  have "n \<le> 13 * k \<Longrightarrow> wc' \<noteq> 0 \<Longrightarrow> lfn ! unat i' = 0"
    using at nm by (auto simp: at_unit_def is_name_def split: if_splits)
  then show ?thesis using part ord run by (auto simp: cmp_lfn_def is_part_def)
qed

text \<open>Reading a list of entries, in the order of the table.\<close>

fun pick_all :: "WCHAR list \<Rightarrow> BYTE list list \<Rightarrow> bool \<times> WCHAR list" where
  "pick_all b [] = (True, b)"
| "pick_all b (e # es) =
     (case pick_lfn b e 0 of (ok, b) \<Rightarrow> if ok then pick_all b es else (False, b))"

lemma pick_all_parts:
  assumes nm: "is_name lfn n"
  shows "\<forall>k \<in> set ks. part_no n k \<and> is_part lfn n k (f k) 0 \<Longrightarrow> length b = FF_MAX_LFN + 1 \<Longrightarrow>
    \<exists>b'. pick_all b (map f ks) = (True, b') \<and> length b' = FF_MAX_LFN + 1
      \<and> (\<forall>j. b' ! j = (if \<exists>k \<in> set ks. part_range n k j then lfn ! j else b ! j))"
proof (induction ks arbitrary: b)
  case Nil
  then show ?case by simp
next
  case (Cons k ks)
  then obtain b1 where "pick_lfn b (f k) 0 = (True, b1)" "length b1 = FF_MAX_LFN + 1"
    "\<And>j. b1 ! j = (if part_range n k j then lfn ! j else b ! j)"
    using pick_lfn_part [OF nm, of k "f k" 0 b] by auto
  moreover from Cons.IH [OF _ this(2)] Cons.prems obtain b' where
    "pick_all b1 (map f ks) = (True, b')" "length b' = FF_MAX_LFN + 1"
    "\<And>j. b' ! j = (if \<exists>k \<in> set ks. part_range n k j then lfn ! j else b1 ! j)" by auto
  ultimately show ?case by auto
qed

text \<open>The entries \<open>dir_register\<close> writes for a name of \<open>n\<close> units: parts \<open>(n + 12) div 13\<close> down
  to 1, each into some 32-byte entry of the table.\<close>

definition lfn_entries :: "WCHAR list \<Rightarrow> nat \<Rightarrow> (nat \<Rightarrow> BYTE list) \<Rightarrow> BYTE \<Rightarrow> BYTE list list" where
  "lfn_entries lfn n p chk =
     map (\<lambda>k. put_lfn lfn (p k) 0 (of_nat k) chk) (rev [1..<Suc ((n + 12) div 13)])"

lemma le_div_bound: "n \<le> 13 * ((n + 12) div (13 :: nat))"
  by linarith

lemma parts_cover:
  assumes "1 \<le> n" and "j \<le> n"
  shows "\<exists>k \<in> set (rev [1..<Suc ((n + 12) div 13)]). part_range n k j"
proof -
  define N where "N = (n + 12) div 13"
  have N: "n \<le> 13 * N" "13 * N \<le> n + 12" unfolding N_def by (rule le_div_bound, rule times_div_less_eq_dividend)
  show ?thesis
  proof (cases "j div 13 < N")
    case True
    have "13 * (j div 13) \<le> j" "j < 13 * Suc (j div 13)"
      using dividend_less_times_div [of 13 j] by simp_all
    then have "part_range n (Suc (j div 13)) j" using assms by (simp add: part_range_def)
    with True show ?thesis by (intro bexI [of _ "Suc (j div 13)"]) (auto simp: N_def)
  next
    case False
    then have "13 * N \<le> j" by (metis not_less mult_le_mono2 div_times_less_eq_dividend mult.commute le_trans)
    then have "j = n" "n = 13 * N" using assms N by linarith+
    then have "part_range n N j" by (simp add: part_range_def)
    moreover have "1 \<le> N" using assms N by linarith
    ultimately show ?thesis by (intro bexI [of _ N]) (auto simp: N_def)
  qed
qed

lemma parts_no:
  assumes "is_name lfn n" and "k \<in> set (rev [1..<Suc ((n + 12) div 13)])"
  shows "part_no n k"
proof -
  have "1 \<le> k" "k \<le> (n + 12) div 13" using assms(2) by auto
  then show ?thesis using assms(1) by (auto simp: part_no_def is_name_def)
qed

lemma is_name_buffer:
  "length xs = n \<Longrightarrow> n \<le> 255 \<Longrightarrow> \<forall>x \<in> set xs. x \<noteq> 0 \<and> x \<noteq> 0xFFFF \<Longrightarrow>
   is_name (xs @ replicate (256 - n) 0) n"
  by (auto simp: is_name_def nth_append)

lemma take_eq_nth: "n \<le> length xs \<Longrightarrow> n \<le> length ys \<Longrightarrow> (\<And>j. j < n \<Longrightarrow> xs ! j = ys ! j) \<Longrightarrow> take n xs = take n ys"
  by (rule nth_take_lemma) auto

text \<open>C17: A long name survives its directory entries. Whatever the 32-byte entries of the table
  held before, the entries \<open>put_lfn\<close> writes for a name of 1 to 255 units, read back in table
  order by \<open>pick_lfn\<close> into any working buffer, give the name with its terminator; each of them
  compares equal to the name under \<open>cmp_lfn\<close>, carries the long-name attribute and the checksum,
  and exactly the first one in the table carries the last-entry flag.\<close>

theorem lfn_roundtrip:
  assumes "is_name lfn n" and "1 \<le> n" and "\<And>k. 32 \<le> length (p k)" and "length b = FF_MAX_LFN + 1"
  shows "fst (pick_all b (lfn_entries lfn n p chk))
    \<and> take (Suc n) (snd (pick_all b (lfn_entries lfn n p chk))) = take (Suc n) lfn
    \<and> (\<forall>e \<in> set (lfn_entries lfn n p chk).
         cmp_lfn lfn e 0 \<and> e ! LDIR_Attr = AM_LFN \<and> e ! LDIR_Chksum = chk)
    \<and> (\<forall>i < (n + 12) div 13. (lfn_entries lfn n p chk ! i) ! LDIR_Ord =
         (if i = 0 then of_nat ((n + 12) div 13) OR LLEF else of_nat ((n + 12) div 13 - i)))"
proof -
  let ?ks = "rev [1..<Suc ((n + 12) div 13)]"
  let ?f = "\<lambda>k. put_lfn lfn (p k) 0 (of_nat k) chk"
  have part: "part_no n k \<and> is_part lfn n k (?f k) 0 \<and> ?f k ! LDIR_Chksum = chk \<and> ?f k ! LDIR_Attr = AM_LFN"
    if "k \<in> set ?ks" for k
    using put_lfn_is_part [OF assms(1) parts_no [OF assms(1) that], of 0 "p k" chk] assms(3)
      parts_no [OF assms(1) that] by simp
  obtain b' where b': "pick_all b (map ?f ?ks) = (True, b')" "length b' = FF_MAX_LFN + 1"
    "\<And>j. b' ! j = (if \<exists>k \<in> set ?ks. part_range n k j then lfn ! j else b ! j)"
    using pick_all_parts [OF assms(1), of ?ks ?f b] part assms(4) by auto
  have "take (Suc n) b' = take (Suc n) lfn"
    by (rule take_eq_nth) (use b' parts_cover [OF assms(2)] assms(1) in \<open>auto simp: is_name_def less_Suc_eq_le\<close>)
  moreover have "(lfn_entries lfn n p chk ! i) ! LDIR_Ord =
      (if i = 0 then of_nat ((n + 12) div 13) OR LLEF else of_nat ((n + 12) div 13 - i))"
    if i: "i < (n + 12) div 13" for i
  proof -
    have k: "?ks ! i = (n + 12) div 13 - i" using i by (simp add: rev_nth del: upt_Suc)
    have mem: "?ks ! i \<in> set ?ks" using i by (intro nth_mem) simp
    have last: "n \<le> 13 * ((n + 12) div 13 - i) \<longleftrightarrow> i = 0"
      using i assms(2) by (cases i) (auto simp: diff_mult_distrib2)
    have "lfn_entries lfn n p chk ! i = ?f (?ks ! i)" using i by (simp add: lfn_entries_def del: upt_Suc)
    then show ?thesis using part [OF mem, unfolded k] last unfolding k by (simp add: is_part_def)
  qed
  moreover have "\<forall>e \<in> set (lfn_entries lfn n p chk).
      cmp_lfn lfn e 0 \<and> e ! LDIR_Attr = AM_LFN \<and> e ! LDIR_Chksum = chk"
    using part cmp_lfn_part [OF assms(1)] unfolding lfn_entries_def set_map by blast
  moreover have "pick_all b (lfn_entries lfn n p chk) = (True, b')" unfolding lfn_entries_def by (rule b'(1))
  ultimately show ?thesis by simp
qed

theorem lfn_roundtrip_witness:
  "take 15 (snd (pick_all (replicate 256 0)
      (lfn_entries ([0x4C, 0x6F, 0x6E, 0x67, 0x20, 0x6E, 0x61, 0x6D, 0x65, 0x2E, 0x74, 0x65, 0x78, 0x74]
         @ replicate (256 - 14) 0) 14 (\<lambda>k. replicate 32 0) 0xAB))) =
   [0x4C, 0x6F, 0x6E, 0x67, 0x20, 0x6E, 0x61, 0x6D, 0x65, 0x2E, 0x74, 0x65, 0x78, 0x74, 0]"
proof -
  have "is_name ([0x4C, 0x6F, 0x6E, 0x67, 0x20, 0x6E, 0x61, 0x6D, 0x65, 0x2E, 0x74, 0x65, 0x78, 0x74]
         @ replicate (256 - 14) 0) 14" by (rule is_name_buffer) simp_all
  from lfn_roundtrip [OF this, of "\<lambda>k. replicate 32 0" "replicate 256 0" "0xAB"] show ?thesis by simp
qed

section \<open>The numbered name\<close>

lemma crc_step:
  fixes x :: DWORD
  assumes "unat x < 2 ^ 17"
  shows "unat (if x AND 0x10000 \<noteq> 0 then x XOR 0x11021 else x) < 2 ^ 16"
proof -
  have c: "bit (0x10000 :: DWORD) i \<longleftrightarrow> i = 16" for i
    using bit_exp_iff [where 'a = "32 word", of 16 i] by auto
  have p: "bit (0x11021 :: DWORD) 16" by simp
  have q: "\<forall>i \<ge> 17. \<not> bit (0x11021 :: DWORD) i" unfolding less_pow_bits [symmetric] by simp
  have x: "\<forall>i \<ge> 17. \<not> bit x i" using assms by (simp only: less_pow_bits)
  show ?thesis
  proof (cases "bit x 16")
    case True
    then have "bit (x AND 0x10000) 16" by (simp add: bit_and_iff c)
    then have "x AND 0x10000 \<noteq> 0" by auto
    moreover have "\<not> bit (x XOR 0x11021) i" if "16 \<le> i" for i
      using that True p q x by (cases "i = 16") (auto simp: bit_xor_iff)
    ultimately show ?thesis by (simp only: less_pow_bits if_True simp_thms) blast
  next
    case False
    then have "x AND 0x10000 = 0" by (intro bit_word_eqI) (simp only: bit_and_iff c bit_0_eq, auto)
    moreover have "\<not> bit x i" if "16 \<le> i" for i
      using that False x by (cases "i = 16") auto
    ultimately show ?thesis by (simp only: less_pow_bits if_False simp_thms) blast
  qed
qed

lemma crc_bits_less: "unat sr < 2 ^ 16 \<Longrightarrow> unat (crc_bits n sr wc) < 2 ^ 16"
proof (induction n sr wc rule: crc_bits.induct)
  case (1 sr wc)
  then show ?case by simp
next
  case (2 n sr wc)
  let ?b = "ucast (wc AND 1) :: DWORD"
  have "unat ?b \<le> 1" using word_and_le1 [of wc 1] by (simp add: word_le_nat_alt and.commute)
  then have "unat (push_bit 1 sr + ?b) < 2 ^ 17"
    using 2(2) by (simp add: push_bit_eq_mult unat_word_ariths)
  from crc_step [OF this] show ?case using 2(1) by (simp only: crc_bits.simps Let_def)
qed

lemma crc_name_less: "unat sr < 2 ^ 16 \<Longrightarrow> unat (crc_name sr lfn) < 2 ^ 16"
  by (induction sr lfn rule: crc_name.induct) (simp_all only: crc_name.simps crc_bits_less split: if_split, auto)

text \<open>The number in upper-case hexadecimal digits.\<close>

definition hex_digit :: "nat \<Rightarrow> BYTE" where
  "hex_digit k = (if k < 10 then 0x30 + of_nat k else 0x37 + of_nat k)"

fun hex_digits :: "nat \<Rightarrow> BYTE list" where
  "hex_digits n = (if n < 16 then [hex_digit n] else hex_digits (n div 16) @ [hex_digit (n mod 16)])"

declare hex_digits.simps [simp del]

lemma hex_digits_length: "n < 16 ^ k \<Longrightarrow> 1 \<le> k \<Longrightarrow> 1 \<le> length (hex_digits n) \<and> length (hex_digits n) \<le> k"
proof (induction n arbitrary: k rule: hex_digits.induct)
  case (1 n)
  show ?case
  proof (cases "n < 16")
    case True
    then show ?thesis using 1 by (simp add: hex_digits.simps [of n])
  next
    case False
    then obtain m where k: "k = Suc m" "1 \<le> m" using 1(2,3) by (cases k; cases "k = 1") auto
    then have "n div 16 < 16 ^ m" using 1(2) by (simp add: div_less_iff_less_mult mult.commute)
    then show ?thesis using 1(1) [OF False _ k(2)] k False by (simp add: hex_digits.simps [of n])
  qed
qed

lemma digit_char:
  fixes x :: UINT
  defines "c \<equiv> ucast (x mod 16 + 0x30) :: BYTE"
  shows "(if c > 0x39 then c + 7 else c) = hex_digit (unat x mod 16)"
proof -
  have x: "x mod 16 = of_nat (unat x mod 16)" by (rule word_unat_eq_iff [THEN iffD2]) (simp add: unat_mod unat_of_nat)
  have "\<forall>k \<in> set [0..<16]. (let c = ucast (of_nat k + 0x30 :: UINT) :: BYTE in (if c > 0x39 then c + 7 else c)) = hex_digit k"
    by code_simp
  moreover have "unat x mod 16 \<in> set [0..<16]" by simp
  ultimately have "(let c = ucast (of_nat (unat x mod 16) + 0x30 :: UINT) :: BYTE in (if c > 0x39 then c + 7 else c))
      = hex_digit (unat x mod 16)" by blast
  then show ?thesis unfolding c_def x Let_def .
qed

lemma num_digits_hex:
  "length (hex_digits (unat seq)) \<le> Suc i \<Longrightarrow> i < length ns \<Longrightarrow>
   num_digits ns seq i =
     (take (Suc i - length (hex_digits (unat seq))) ns @ hex_digits (unat seq) @ drop (Suc i) ns,
      i - length (hex_digits (unat seq)))"
proof (induction ns seq i rule: num_digits.induct)
  case (1 ns seq i)
  let ?d = "hex_digit (unat seq mod 16)"
  have step: "num_digits ns seq i =
      (if seq div 16 \<noteq> 0 then num_digits (ns[i := ?d]) (seq div 16) (i - 1) else (ns[i := ?d], i - 1))"
    by (subst num_digits.simps) (simp only: Let_def digit_char)
  have zero: "seq div 16 = 0 \<longleftrightarrow> unat seq < 16"
    by (simp add: unat_eq_zero [symmetric] unat_div div_eq_0_iff)
  show ?case
  proof (cases "unat seq < 16")
    case True
    then have "hex_digits (unat seq) = [?d]" by (simp add: hex_digits.simps)
    then show ?thesis using True zero step 1(3) by (simp add: upd_conv_take_nth_drop)
  next
    case False
    then have h: "hex_digits (unat seq) = hex_digits (unat (seq div 16)) @ [?d]"
      by (simp add: hex_digits.simps [of "unat seq"] unat_div)
    have "1 \<le> length (hex_digits (unat (seq div 16)))" by (subst hex_digits.simps) simp
    moreover have "length (hex_digits (unat (seq div 16))) \<le> i" using 1(2) h by simp
    ultimately have i: "0 < i" "i < length ns" "length (hex_digits (unat (seq div 16))) \<le> Suc (i - 1)"
      using 1(3) by linarith+
    have "num_digits (ns[i := ?d]) (seq div 16) (i - 1) =
       (take (Suc (i - 1) - length (hex_digits (unat (seq div 16)))) (ns[i := ?d])
          @ hex_digits (unat (seq div 16)) @ drop (Suc (i - 1)) (ns[i := ?d]),
        i - 1 - length (hex_digits (unat (seq div 16))))"
      using 1(1) [OF refl refl refl refl refl] False zero i by (simp add: digit_char)
    then show ?thesis using step False zero h i
      by (simp add: upd_conv_take_nth_drop drop_append)
  qed
qed

lemma num_place_space:
  "i \<le> length dst \<Longrightarrow> j \<le> i \<Longrightarrow>
   num_place dst i j = j + length (takeWhile (\<lambda>c. c \<noteq> 0x20) (take (i - j) (drop j dst)))"
proof (induction dst i j rule: num_place.induct)
  case (1 dst i j)
  show ?case
  proof (cases "j < i")
    case True
    then have "drop j dst = dst ! j # drop (Suc j) dst" "i - j = Suc (i - Suc j)"
      using 1(3) by (simp_all add: Cons_nth_drop_Suc)
    then have "take (i - j) (drop j dst) = dst ! j # take (i - Suc j) (drop (Suc j) dst)" by simp
    then show ?thesis using True 1 by (subst num_place.simps) (simp add: dbc_1st_def)
  next
    case False
    then show ?thesis by (subst num_place.simps) simp
  qed
qed

lemma num_append_fill:
  "j < 8 \<Longrightarrow> i \<le> 8 \<Longrightarrow> length ns = 8 \<Longrightarrow> 8 \<le> length dst \<Longrightarrow>
   num_append dst ns i j = take j dst @ take (8 - j) (drop i ns @ replicate 8 0x20) @ drop 8 dst"
proof (induction dst ns i j rule: num_append.induct)
  case (1 dst ns i j)
  let ?c = "if i < 8 then ns ! i else 0x20"
  let ?i = "if i < 8 then i + 1 else i"
  have head: "take (8 - j) (drop i ns @ replicate 8 0x20) = ?c # take (7 - j) (drop ?i ns @ replicate 8 0x20)"
  proof (cases "i < 8")
    case True
    then have "drop i ns = ns ! i # drop (Suc i) ns" "8 - j = Suc (7 - j)"
      using 1(2,4) by (simp_all add: Cons_nth_drop_Suc)
    then show ?thesis using True by simp
  next
    case False
    then show ?thesis using 1(2,3,4) by (simp add: min_def take_Cons' eval_nat_numeral)
  qed
  show ?case
  proof (cases "Suc j < 8")
    case True
    then have "num_append dst ns i j = num_append (dst[j := ?c]) ns ?i (Suc j)"
      by (subst num_append.simps) simp
    also have "\<dots> = take (Suc j) (dst[j := ?c]) @ take (7 - j) (drop ?i ns @ replicate 8 0x20) @ drop 8 dst"
      using 1(1) [OF refl refl refl] True 1(3,4,5) by simp
    finally show ?thesis using head 1(2,5) by (simp add: take_Suc_conv_app_nth)
  next
    case False
    then have j: "j = 7" using 1(2) by simp
    then have "num_append dst ns i j = dst[7 := ?c]" by (subst num_append.simps) simp
    then show ?thesis using head j 1(5) by (simp add: upd_conv_take_nth_drop)
  qed
qed

lemma num_seq_less: "unat seq < 2 ^ 16 \<Longrightarrow> unat (num_seq lfn seq) < 2 ^ 16"
  by (simp only: num_seq_def crc_name_less split: if_split) simp

lemma mem_cpy_front:
  "n \<le> length dst \<Longrightarrow> n \<le> length src \<Longrightarrow> mem_cpy dst 0 src 0 n = take n src @ drop n dst"
  by (rule nth_equalityI) (auto simp: nth_mem_cpy nth_append)

text \<open>The numbered short name. From a short name of 11 bytes, \<open>gen_numname\<close> makes the body's
  characters before the first space, as many as fit, a tilde, and the number in at most four
  hexadecimal digits (the number itself up to 5, a 16-bit hash of the long name above), padded
  with spaces to exactly 8 bytes; the extension is copied and nothing after byte 11 changes.\<close>

theorem numbered_name:
  fixes lfn :: "WCHAR list"
  assumes "11 \<le> length src" and "11 \<le> length dst" and "unat seq < 2 ^ 16"
  defines "ds \<equiv> hex_digits (unat (num_seq lfn seq))"
    and "body \<equiv> takeWhile (\<lambda>c. c \<noteq> 0x20) (take (7 - length (hex_digits (unat (num_seq lfn seq)))) src)"
  shows "gen_numname dst src lfn seq =
      body @ 0x7E # ds @ replicate (7 - length body - length ds) 0x20 @ take 3 (drop 8 src) @ drop 11 dst
    \<and> length body + 1 + length ds \<le> 8 \<and> 1 \<le> length ds \<and> length ds \<le> 4"
proof -
  have "1 \<le> length (hex_digits (unat (num_seq lfn seq))) \<and> length (hex_digits (unat (num_seq lfn seq))) \<le> 4"
    by (rule hex_digits_length) (use num_seq_less [OF assms(3), of lfn] in simp_all)
  then have ds: "1 \<le> length ds" "length ds \<le> 4" by (simp_all add: ds_def)
  define i where "i = 7 - length ds"
  define ns where "ns = (take (8 - length ds) (replicate 8 0) @ ds)[i := (0x7E :: BYTE)]"
  define cp where "cp = mem_cpy dst 0 src 0 11"
  have cp: "cp = take 11 src @ drop 11 dst" "length cp = length dst"
    using assms(1,2) by (simp_all add: cp_def mem_cpy_front)
  have dig: "num_digits (replicate 8 0) (num_seq lfn seq) 7 = (take (8 - length ds) (replicate 8 0) @ ds, i)"
    using num_digits_hex [of "num_seq lfn seq" 7 "replicate 8 0"] ds by (simp add: ds_def i_def)
  have ns: "length ns = 8" "drop i ns = 0x7E # ds"
  proof -
    have i: "8 - length ds = Suc i" using ds by (simp add: i_def)
    show "length ns = 8"
      unfolding ns_def length_list_update length_append length_take length_replicate using ds by simp
    have "take (8 - length ds) (replicate 8 0) = replicate (Suc i) (0 :: BYTE)" using i by simp
    then show "drop i ns = 0x7E # ds" by (simp add: ns_def drop_update_swap del: replicate_Suc) simp
  qed
  have body: "num_place cp i 0 = length body" "body = take (length body) cp" "length body \<le> i"
  proof -
    have "i \<le> 11" by (simp add: i_def)
    then have tk: "take i cp = take i src" using assms(1) by (simp add: cp(1))
    have b: "body = takeWhile (\<lambda>c. c \<noteq> 0x20) (take i cp)" by (simp add: body_def i_def ds_def tk [unfolded i_def ds_def])
    show "num_place cp i 0 = length body" using num_place_space [of i cp 0] ds cp(2) assms(2) by (simp add: b i_def)
    show le: "length body \<le> i" unfolding b by (metis length_take length_takeWhile_le min.bounded_iff)
    have "body = take (length body) (take i cp)" unfolding b by (metis takeWhile_eq_take)
    then show "body = take (length body) cp" using le by (simp add: min_def)
  qed
  have "gen_numname dst src lfn seq = num_append cp ns i (length body)"
    using dig body(1) by (simp only: gen_numname_def Let_def cp_def [symmetric] dig prod.case ns_def [symmetric])
  also have "\<dots> = take (length body) cp @ take (8 - length body) (drop i ns @ replicate 8 0x20) @ drop 8 cp"
    by (rule num_append_fill) (use body(3) ds ns cp assms(2) in \<open>simp_all add: i_def\<close>)
  also have "drop 8 cp = take 3 (drop 8 src) @ drop 11 dst"
    using assms(1) by (simp add: cp drop_take)
  also have "take (8 - length body) (drop i ns @ replicate 8 0x20) = 0x7E # ds @ replicate (7 - length body - length ds) 0x20"
  proof -
    have "8 - length body = Suc (7 - length body)" "length ds \<le> 7 - length body"
      using body(3) ds by (simp_all add: i_def)
    then show ?thesis by (simp add: ns(2) min_def)
  qed
  finally show ?thesis using ds body(2,3) by (simp add: i_def)
qed

theorem numbered_name_witness:
  "gen_numname (replicate 12 0) [0x4C, 0x4F, 0x4E, 0x47, 0x4E, 0x41, 0x4D, 0x45, 0x54, 0x58, 0x54, 3] [0x6C, 0] 3
     = [0x4C, 0x4F, 0x4E, 0x47, 0x4E, 0x41, 0x7E, 0x33, 0x54, 0x58, 0x54, 0]"
  using numbered_name [of "[0x4C, 0x4F, 0x4E, 0x47, 0x4E, 0x41, 0x4D, 0x45, 0x54, 0x58, 0x54, 3]" "replicate 12 0" 3 "[0x6C, 0]"]
  by (simp add: num_seq_def hex_digits.simps hex_digit_def)

end
