(* ===== verification/Fat_Name.thy ===== *)
theory Fat_Name
  imports Fat_Lfn
begin

text \<open>
  \<^verbatim>\<open>addon/fatfs/ff.c\<close>, lines 2748-3178: names given by the user. \<open>create_name\<close> turns the top
  segment of a path into a long name and a short name in directory form, \<open>get_ldnumber\<close> strips
  the drive prefix, and \<open>pattern_matching\<close> decides the wildcard patterns of \<open>f_findfirst\<close>. The
  lemmas show that a pattern matches exactly the names that the usual reading of \<open>?\<close> and \<open>*\<close>
  gives, and which names and drive prefixes are accepted.
\<close>

unbundle bit_operations_syntax

abbreviation (input) IsUpper :: "'a::{ord,numeral} \<Rightarrow> bool" where "IsUpper c \<equiv> c \<ge> 0x41 \<and> c \<le> 0x5A"
abbreviation (input) IsLower :: "'a::{ord,numeral} \<Rightarrow> bool" where "IsLower c \<equiv> c \<ge> 0x61 \<and> c \<le> 0x7A"
abbreviation (input) IsDigit :: "'a::{ord,numeral} \<Rightarrow> bool" where "IsDigit c \<equiv> c \<ge> 0x30 \<and> c \<le> 0x39"
abbreviation (input) IsSurrogate :: "'a::{ord,numeral} \<Rightarrow> bool" where
  "IsSurrogate c \<equiv> c \<ge> 0xD800 \<and> c \<le> 0xDFFF"

text \<open>The units of a buffer; beyond the list memory reads as 0.\<close>

definition at :: "'a::len word list \<Rightarrow> nat \<Rightarrow> 'a word" where
  "at xs i = (if i < length xs then xs ! i else 0)"

section \<open>Pattern matching\<close>

definition get_achar :: "BYTE list \<Rightarrow> DWORD \<times> BYTE list" where
  "get_achar ptr =
     (let chr = ucast (peek ptr) :: DWORD;
          chr = (if IsLower chr then chr - 0x20 else chr);
          chr = (if chr \<ge> 0x80 then ucast (ExCvt ! unat (chr - 0x80)) else chr)
      in (chr, tl ptr))"

text \<open>The wildcard block: the pattern after it, the number of \<open>?\<close>, and whether it holds a \<open>*\<close>.\<close>

fun wild_block :: "BYTE list \<Rightarrow> nat \<Rightarrow> bool \<Rightarrow> BYTE list \<times> nat \<times> bool" where
  "wild_block [] nm nx = ([], nm, nx)"
| "wild_block (c # pp) nm nx =
     (if c = 0x3F then wild_block pp (nm + 1) nx
      else if c = 0x2A then wild_block pp nm True
      else (c # pp, nm, nx))"

text \<open>The pre-skip: \<open>None\<close> when the name has fewer characters.\<close>

fun skip_chars :: "nat \<Rightarrow> BYTE list \<Rightarrow> BYTE list option" where
  "skip_chars 0 nam = Some nam"
| "skip_chars (Suc n) nam =
     (case get_achar nam of (c, nam) \<Rightarrow> if c = 0 then None else skip_chars n nam)"

text \<open>\<open>pattern_matching\<close> calls itself from its inner loop. The states of the recursion: a call, the
  top of the \<open>do\<close> loop, and the inner \<open>for (;;)\<close> with its pointers \<open>pp\<close> and \<open>np\<close>.\<close>

datatype pm_state =
    PM_Call "BYTE list" "BYTE list" nat bool
  | PM_Loop "BYTE list" "BYTE list" bool
  | PM_For "BYTE list" "BYTE list" bool "BYTE list" "BYTE list"

partial_function (option) pm_run :: "pm_state \<Rightarrow> bool option" where
  "pm_run s =
     (case s of
        PM_Call pt nam skip star \<Rightarrow>
          (case skip_chars skip nam of
             None \<Rightarrow> Some False
           | Some nam \<Rightarrow> if peek pt = 0 \<and> star then Some True else pm_run (PM_Loop pt nam star))
      | PM_Loop pt nam star \<Rightarrow> pm_run (PM_For pt nam star pt nam)
      | PM_For pt nam star pp np \<Rightarrow>
          (if peek pp = 0x3F \<or> peek pp = 0x2A then
             (case wild_block pp 0 False of (pp, nm, nx) \<Rightarrow>
              do {
                r \<leftarrow> pm_run (PM_Call pp np nm nx);
                if r then Some True
                else if star \<and> peek np \<noteq> 0 then pm_run (PM_Loop pt (snd (get_achar nam)) star)
                else Some False
              })
           else
             case get_achar pp of (pc, pp) \<Rightarrow>
             case get_achar np of (nc, np) \<Rightarrow>
               if pc \<noteq> nc then
                 (if star \<and> nc \<noteq> 0 then pm_run (PM_Loop pt (snd (get_achar nam)) star) else Some False)
               else if pc = 0 then Some True
               else pm_run (PM_For pt nam star pp np)))"

definition pattern_matching :: "BYTE list \<Rightarrow> BYTE list \<Rightarrow> nat \<Rightarrow> bool \<Rightarrow> bool option" where
  "pattern_matching pt nam skip star = pm_run (PM_Call pt nam skip star)"

section \<open>Segments of a path\<close>

text \<open>Reading the long name: \<open>Inl\<close> is the return of \<open>FR_INVALID_NAME\<close>, \<open>Inr\<close> the last character,
  the length, and the rest of the path.\<close>

definition illegal_lfn :: "BYTE list" where
  "illegal_lfn = [0x22, 0x2A, 0x3A, 0x3C, 0x3E, 0x3F, 0x7C, 0x7F, 0]"

lemma tchar2uni_shorter:
  assumes "tchar2uni p = (uc, p')" and "ucast uc \<ge> (0x20 :: WCHAR)" and "uc \<noteq> 0xFFFFFFFF"
  shows "length p' < length p"
proof (cases p)
  case Nil
  then have "uc = 0" using assms(1) by (simp add: tchar2uni_def peek_def)
  then show ?thesis using assms(2) by (simp add: word_le_nat_alt)
next
  case (Cons c q)
  then show ?thesis using assms(1,3) by (auto simp: tchar2uni_def Let_def peek_def split: if_splits)
qed

function pick_name ::
    "WCHAR list \<Rightarrow> nat \<Rightarrow> BYTE list \<Rightarrow> (FRESULT + WCHAR \<times> nat \<times> BYTE list) \<times> WCHAR list" where
  "pick_name lfn di p =
     (case tchar2uni p of (uc, p) \<Rightarrow>
      if uc = 0xFFFFFFFF then (Inl FR_INVALID_NAME, lfn)
      else
        let (lfn, di) = (if uc \<ge> 0x10000 then (lfn[di := ucast (drop_bit 16 uc)], di + 1) else (lfn, di));
            wc = ucast uc :: WCHAR
        in
        if wc < 0x20 \<or> wc = 0x2F \<or> wc = 0x5C then (Inr (wc, di, p), lfn)
        else if wc < 0x80 \<and> chk_chr illegal_lfn (uint wc) \<noteq> 0 then (Inl FR_INVALID_NAME, lfn)
        else if di \<ge> FF_MAX_LFN then (Inl FR_INVALID_NAME, lfn)
        else pick_name (lfn[di := wc]) (di + 1) p)"
  by pat_completeness auto
termination
  by (relation "measure (\<lambda>(lfn, di, p). length p)")
     (auto simp: not_less intro: tchar2uni_shorter [OF sym] split: if_splits)

declare pick_name.simps [simp del]

definition is_sep :: "BYTE \<Rightarrow> bool" where
  "is_sep c \<longleftrightarrow> c = 0x2F \<or> c = 0x5C"

text \<open>Snipping off trailing spaces and dots; counting leading spaces; finding the last dot.\<close>

fun snip :: "WCHAR list \<Rightarrow> nat \<Rightarrow> nat" where
  "snip lfn 0 = 0"
| "snip lfn (Suc d) = (if lfn ! d \<noteq> 0x20 \<and> lfn ! d \<noteq> 0x2E then Suc d else snip lfn d)"

fun lead_spaces :: "WCHAR list \<Rightarrow> nat" where
  "lead_spaces [] = 0"
| "lead_spaces (c # cs) = (if c = 0x20 then Suc (lead_spaces cs) else 0)"

fun last_dot :: "WCHAR list \<Rightarrow> nat \<Rightarrow> nat" where
  "last_dot lfn 0 = 0"
| "last_dot lfn (Suc d) = (if lfn ! d \<noteq> 0x2E then last_dot lfn d else Suc d)"

text \<open>A character of the long name in the code page, upper case if it is an extended one.\<close>

definition sfn_oem :: "WCHAR \<Rightarrow> BYTE \<Rightarrow> WCHAR \<times> BYTE" where
  "sfn_oem wc cf =
     (if wc \<ge> 0x80 then
        (let cf = cf OR NS_LFN;
             wc = ff_uni2oem (ucast wc) CODEPAGE;
             wc = (if wc AND 0x80 \<noteq> 0 then ucast (ExCvt ! unat (wc AND 0x7F)) else wc)
         in (wc, cf))
      else (wc, cf))"

definition illegal_sfn :: "BYTE list" where
  "illegal_sfn = [0x2B, 0x2C, 0x3B, 0x3D, 0x5B, 0x5D, 0]"

text \<open>A single-byte character as it is stored, with the case flags \<open>b\<close> and the name flags.\<close>

definition sfn_char :: "WCHAR \<Rightarrow> BYTE \<Rightarrow> BYTE \<Rightarrow> WCHAR \<times> BYTE \<times> BYTE" where
  "sfn_char wc b cf =
     (if wc = 0 \<or> chk_chr illegal_sfn (uint wc) \<noteq> 0 then (0x5F, b, cf OR (NS_LOSS OR NS_LFN))
      else
        let b = (if IsUpper wc then b OR 2 else b) in
        if IsLower wc then (wc - 0x20, b OR 1, cf) else (wc, b, cf))"

text \<open>The loop that writes the short name: \<open>si\<close> reads the long name, \<open>i\<close> writes within the field
  that ends at \<open>ni\<close>, and \<open>di\<close> is the position after the last dot.\<close>

function sfn_loop ::
    "WCHAR list \<Rightarrow> nat \<Rightarrow> nat \<Rightarrow> nat \<Rightarrow> nat \<Rightarrow> BYTE \<Rightarrow> BYTE \<Rightarrow> BYTE list
     \<Rightarrow> nat \<times> BYTE \<times> BYTE \<times> BYTE list" where
  "sfn_loop lfn di si i ni b cf sfn =
     (let wc = at lfn si; si = si + 1; lossy = cf OR (NS_LOSS OR NS_LFN) in
      if wc = 0 then (ni, b, cf, sfn)
      else if wc = 0x20 \<or> wc = 0x2E \<and> si \<noteq> di then sfn_loop lfn di si i ni b lossy sfn
      else if i \<ge> ni \<or> si = di then
        (if ni = 11 then (ni, b, lossy, sfn)
         else
           let cf = (if si \<noteq> di then lossy else cf) in
           if si > di then (ni, b, cf, sfn)
           else sfn_loop lfn di di 8 11 (push_bit 2 b) cf sfn)
      else
        case sfn_oem wc cf of (wc, cf) \<Rightarrow>
        if wc \<ge> 0x100 then
          (if i \<ge> ni - 1 then sfn_loop lfn di si ni ni b (cf OR (NS_LOSS OR NS_LFN)) sfn
           else sfn_loop lfn di si (i + 2) ni b cf (sfn[i := ucast (drop_bit 8 wc), i + 1 := ucast wc]))
        else
          case sfn_char wc b cf of (wc, b, cf) \<Rightarrow>
          sfn_loop lfn di si (i + 1) ni b cf (sfn[i := ucast wc]))"
  by pat_completeness auto
termination
  by (relation "measure (\<lambda>(lfn, di, si, i, ni, b, cf, sfn). length lfn + 1 - si)")
     (auto simp: at_def split: if_splits)

declare sfn_loop.simps [simp del]

text \<open>The flags at the end of \<open>create_name\<close>.\<close>

definition sfn_flags :: "nat \<Rightarrow> BYTE \<Rightarrow> BYTE \<Rightarrow> BYTE" where
  "sfn_flags ni b cf =
     (let b = (if ni = 8 then push_bit 2 b else b);
          cf = (if b AND 0x0C = 0x0C \<or> b AND 0x03 = 0x03 then cf OR NS_LFN else cf)
      in if cf AND NS_LFN = 0 then
           (let cf = (if b AND 0x01 \<noteq> 0 then cf OR NS_EXT else cf)
            in if b AND 0x04 \<noteq> 0 then cf OR NS_BODY else cf)
         else cf)"

text \<open>\<open>create_name\<close> on the working buffer, the name field of the directory object and the path:
  the result, the three of them after the call.\<close>

definition create_name ::
    "WCHAR list \<Rightarrow> BYTE list \<Rightarrow> BYTE list \<Rightarrow> FRESULT \<times> WCHAR list \<times> BYTE list \<times> BYTE list" where
  "create_name lfn sfn path =
     (case pick_name lfn 0 path of
        (Inl e, lfn) \<Rightarrow> (e, lfn, sfn, path)
      | (Inr (wc, di, p), lfn) \<Rightarrow>
          let path = dropWhile is_sep p;
              cf = (if wc < 0x20 then NS_LAST else 0);
              di = snip lfn di;
              lfn = lfn[di := 0]
          in
          if di = 0 then (FR_INVALID_NAME, lfn, sfn, path)
          else
            let si = lead_spaces lfn;
                cf = (if si > 0 \<or> lfn ! si = 0x2E then cf OR (NS_LOSS OR NS_LFN) else cf);
                di = last_dot lfn di;
                sfn = mem_set sfn 0 0x20 11
            in case sfn_loop lfn di si 0 8 0 cf sfn of (ni, b, cf, sfn) \<Rightarrow>
                 let sfn = (if sfn ! 0 = DDEM then sfn[0 := RDDEM] else sfn)
                 in (FR_OK, lfn, sfn[NSFLAG := sfn_flags ni b cf], path))"

section \<open>Drive prefixes\<close>

definition VolumeStr :: "BYTE list list" where
  "VolumeStr = [[0x53, 0x44, 0], [0x55, 0x53, 0x42, 0], [0x55, 0x53, 0x42, 0x32, 0],
                [0x55, 0x53, 0x42, 0x33, 0]]"

text \<open>The search for a colon: the character the loop ends with and the index after it.\<close>

function find_colon :: "BYTE list \<Rightarrow> nat \<Rightarrow> BYTE \<times> nat" where
  "find_colon path t =
     (let tc = at path t; t = t + 1 in
      if tc \<ge> 0x20 \<and> tc \<noteq> 0x3A then find_colon path t else (tc, t))"
  by pat_completeness auto
termination
  by (relation "measure (\<lambda>(path, t). length path - t)") (auto simp: at_def split: if_splits)

declare find_colon.simps [simp del]

text \<open>Comparing a volume ID with the path: the last character of the ID and the index reached.\<close>

fun vol_cmp :: "BYTE list \<Rightarrow> BYTE list \<Rightarrow> nat \<Rightarrow> BYTE \<times> nat" where
  "vol_cmp [] path t = (0, t + 1)"
| "vol_cmp (c # sp) path t =
     (let tc = at path t; t = t + 1;
          c = (if IsLower c then c - 0x20 else c);
          tc = (if IsLower tc then tc - 0x20 else tc)
      in if c \<noteq> 0 \<and> c = tc then vol_cmp sp path t else (c, t))"

fun vol_search :: "BYTE list list \<Rightarrow> BYTE list \<Rightarrow> nat \<Rightarrow> nat \<Rightarrow> nat" where
  "vol_search [] path tt i = i"
| "vol_search (sp # sps) path tt i =
     (case vol_cmp sp path 0 of (c, tp) \<Rightarrow>
        if c \<noteq> 0 \<or> tp \<noteq> tt then vol_search sps path tt (i + 1) else i)"

text \<open>\<open>None\<close> is a null path.\<close>

definition get_ldnumber :: "BYTE list option \<Rightarrow> int \<times> BYTE list option" where
  "get_ldnumber path0 =
     (case path0 of
        None \<Rightarrow> (- 1, None)
      | Some path \<Rightarrow>
          case find_colon path 0 of (tc, tt) \<Rightarrow>
          if tc = 0x3A then
            (let i = (if IsDigit (at path 0) \<and> tt = 2 then unat (at path 0) - 0x30
                      else vol_search VolumeStr path tt 0)
             in if i < FF_VOLUMES then (int i, Some (drop tt path)) else (- 1, Some path))
          else (0, Some path))"

section \<open>Patterns mean what they look like\<close>

text \<open>A C string ends before its first NUL; a character counts in upper case. The usual reading
  of a pattern: \<open>?\<close> is any character, \<open>*\<close> any string.\<close>

definition cstr :: "BYTE list \<Rightarrow> BYTE list" where
  "cstr s = takeWhile (\<lambda>c. c \<noteq> 0) s"

definition achar :: "BYTE \<Rightarrow> DWORD" where
  "achar c = fst (get_achar [c])"

abbreviation (input) is_wild :: "BYTE \<Rightarrow> bool" where "is_wild c \<equiv> c = 0x3F \<or> c = 0x2A"

text \<open>When two characters of a pattern and a name count as the same: the letters of code page 850 that
  differ in nothing but case and accent. The classes begin with the capital letter; the long ones
  are A, C, E, I, O, U and Y with their accented forms, then the letters AE, N with tilde, eth and
  thorn in both cases.\<close>

definition letter_classes :: "BYTE list list" where
  "letter_classes = [
     [0x41, 0x61, 0x83, 0x84, 0x85, 0x86, 0x8E, 0x8F, 0xA0, 0xB5, 0xB6, 0xB7, 0xC6, 0xC7],
     [0x43, 0x63, 0x80, 0x87],
     [0x45, 0x65, 0x82, 0x88, 0x89, 0x8A, 0x90, 0xD2, 0xD3, 0xD4],
     [0x49, 0x69, 0x8B, 0x8C, 0x8D, 0xA1, 0xD5, 0xD6, 0xD7, 0xD8, 0xDE],
     [0x4F, 0x6F, 0x93, 0x94, 0x95, 0x99, 0x9B, 0x9D, 0xA2, 0xE0, 0xE2, 0xE3, 0xE4, 0xE5],
     [0x55, 0x75, 0x81, 0x96, 0x97, 0x9A, 0xA3, 0xE9, 0xEA, 0xEB],
     [0x59, 0x79, 0x98, 0xEC, 0xED],
     [0x92, 0x91],
     [0xA5, 0xA4],
     [0xD1, 0xD0],
     [0xE8, 0xE7],
     [0x42, 0x62], [0x44, 0x64], [0x46, 0x66], [0x47, 0x67], [0x48, 0x68], [0x4A, 0x6A],
     [0x4B, 0x6B], [0x4C, 0x6C], [0x4D, 0x6D], [0x4E, 0x6E], [0x50, 0x70], [0x51, 0x71],
     [0x52, 0x72], [0x53, 0x73], [0x54, 0x74], [0x56, 0x76], [0x57, 0x77], [0x58, 0x78],
     [0x5A, 0x7A]]"

definition same_char :: "BYTE \<Rightarrow> BYTE \<Rightarrow> bool" where
  "same_char p n \<longleftrightarrow> p = n \<or> (\<exists>C \<in> set letter_classes. p \<in> set C \<and> n \<in> set C)"

fun glob :: "BYTE list \<Rightarrow> BYTE list \<Rightarrow> bool" where
  "glob [] ns = (ns = [])"
| "glob (p # ps) [] = (p = 0x2A \<and> glob ps [])"
| "glob (p # ps) (n # ns) =
     (if p = 0x2A then glob ps (n # ns) \<or> glob (p # ps) ns
      else (p = 0x3F \<or> same_char p n) \<and> glob ps ns)"

text \<open>\<open>get_achar\<close> tells exactly these classes apart.\<close>

definition letters :: "BYTE set" where
  "letters = (\<Union>C \<in> set letter_classes. set C)"

lemma class_achar: "C \<in> set letter_classes \<Longrightarrow> c \<in> set C \<Longrightarrow> achar c = ucast (hd C)"
proof -
  have "list_all (\<lambda>C. list_all (\<lambda>c. achar c = ucast (hd C)) C) letter_classes"
    by (simp add: letter_classes_def achar_def get_achar_def peek_def Let_def ExCvt_def)
  then show "C \<in> set letter_classes \<Longrightarrow> c \<in> set C \<Longrightarrow> achar c = ucast (hd C)"
    by (simp add: list_all_iff)
qed

lemma class_heads: "distinct (map hd letter_classes)" "list_all (\<lambda>C. hd C \<in> set C) letter_classes"
  by (simp_all add: letter_classes_def)

fun keeps_others :: "BYTE \<Rightarrow> BYTE list \<Rightarrow> bool" where
  "keeps_others c [] = True"
| "keeps_others c (x # xs) = ((x = c \<or> c \<in> letters) \<and> keeps_others (c + 1) xs)"

lemma keeps_others_nth:
  "keeps_others c xs \<Longrightarrow> i < length xs \<Longrightarrow> c + of_nat i \<notin> letters \<Longrightarrow> xs ! i = c + of_nat i"
proof (induction xs arbitrary: c i)
  case (Cons x xs)
  then show ?case by (cases i) (auto simp: add.assoc)
qed simp

lemma letters_set: "letters = set (concat letter_classes)"
  by (simp add: letters_def)

lemmas letter_simps = letters_set [unfolded letter_classes_def, simplified]

lemma ExCvt_others: "keeps_others 0x80 ExCvt"
  by (simp add: ExCvt_def letter_simps)

lemma lower_letters: "\<exists>zs. length zs = 26 \<and> set zs = {0} \<and> keeps_others 0x61 zs"
  by (rule exI [of _ "[0, 0, 0, 0, 0, 0, 0, 0, 0, 0, 0, 0, 0, 0, 0, 0, 0, 0, 0, 0, 0, 0, 0, 0, 0, 0]"])
    (simp add: letter_simps)

lemma other_achar:
  assumes "c \<notin> letters"
  shows "achar c = ucast c"
proof -
  define u where "u = (ucast c :: DWORD)"
  have u: "unat u = unat c" by (simp add: u_def)
  have "\<not> IsLower u"
  proof
    assume "IsLower u"
    then have b: "0x61 \<le> unat c" "unat c \<le> 0x7A" by (simp_all add: word_le_nat_alt u)
    then have "c = 0x61 + of_nat (unat c - 0x61)" by (simp add: of_nat_diff)
    moreover obtain zs where z: "length zs = 26" "set zs = {0}" "keeps_others 0x61 zs"
      using lower_letters by blast
    moreover have "zs ! (unat c - 0x61) \<in> set zs" using b z(1) by (intro nth_mem) simp
    ultimately have "c = 0" using keeps_others_nth [OF z(3), of "unat c - 0x61"] assms b by simp
    then show False using b by simp
  qed
  then have eq: "achar c = (if u \<ge> 0x80 then ucast (ExCvt ! unat (u - 0x80)) else u)"
    by (simp only: achar_def get_achar_def peek_def list.case fst_conv Let_def u_def if_False)
  show ?thesis
  proof (cases "u \<ge> 0x80")
    case True
    then have n: "0x80 \<le> unat c" by (simp add: word_le_nat_alt u)
    have i: "unat (u - 0x80) = unat c - 0x80" using True by (simp add: unat_sub u)
    have ce: "0x80 + of_nat (unat c - 0x80) = c" using n by (simp add: of_nat_diff)
    have "length ExCvt = 128" "unat u < 256" by (simp_all add: ExCvt_def u_def)
    then have "unat c - 0x80 < length ExCvt" using n unfolding u by linarith
    from keeps_others_nth [OF ExCvt_others this] assms have "ExCvt ! (unat c - 0x80) = c"
      unfolding ce by simp
    then show ?thesis using eq True i by simp
  qed (use eq u_def in simp)
qed

lemma same_char_iff [simp]: "same_char p n \<longleftrightarrow> achar p = achar n"
proof
  assume "same_char p n"
  then show "achar p = achar n" unfolding same_char_def using class_achar by metis
next
  assume eq: "achar p = achar n"
  have inj: "x = y" if "(ucast x :: DWORD) = ucast y" for x y :: BYTE
    using that by (simp add: word_unat_eq_iff)
  have hd_in: "hd C \<in> set C" if "C \<in> set letter_classes" for C
    using class_heads(2) that by (simp add: list_all_iff)
  have out: False if C: "C \<in> set letter_classes" "x \<in> set C" and y: "y \<notin> letters" and e: "achar x = achar y" for x y C
  proof -
    have "hd C = y" using class_achar [OF C] other_achar [OF y] e by (intro inj) simp
    then show False using hd_in [OF C(1)] C(1) y by (auto simp: letters_def)
  qed
  have "p \<in> letters \<longleftrightarrow> n \<in> letters"
    using out [of _ p n] out [of _ n p] eq unfolding letters_def by (metis UN_E)
  then consider C D where "C \<in> set letter_classes" "p \<in> set C" "D \<in> set letter_classes" "n \<in> set D"
    | "p \<notin> letters" "n \<notin> letters"
    unfolding letters_def by blast
  then show "same_char p n"
  proof cases
    case (1 C D)
    have "hd C = hd D" using class_achar [OF 1(1,2)] class_achar [OF 1(3,4)] eq by (intro inj) simp
    then have "C = D" using class_heads(1) 1(1,3) by (auto simp: distinct_map inj_on_def)
    then show ?thesis using 1 by (auto simp: same_char_def)
  next
    case 2
    have "p = n" using other_achar 2 eq by (intro inj) metis
    then show ?thesis by (simp add: same_char_def)
  qed
qed

lemma get_achar_eq: "get_achar s = (achar (peek s), tl s)"
  by (cases s) (simp_all add: achar_def get_achar_def Let_def peek_def)

lemma ExCvt_nonzero: "\<forall>c \<in> set ExCvt. c \<noteq> 0"
  by (simp add: ExCvt_def)

lemma achar_zero: "achar c = 0 \<longleftrightarrow> c = 0"
proof
  assume z: "achar c = 0"
  define u where "u = (ucast c :: DWORD)"
  define w where "w = (if IsLower u then u - 0x20 else u)"
  have u: "unat u < 256" by (simp add: u_def)
  have eq: "achar c = (if w \<ge> 0x80 then ucast (ExCvt ! unat (w - 0x80)) else w)"
    by (simp only: achar_def get_achar_def peek_def list.case fst_conv Let_def w_def u_def)
  show "c = 0"
  proof (cases "w \<ge> 0x80")
    case True
    then have "u = w" by (auto simp: w_def word_le_nat_alt unat_sub_if_size split: if_splits)
    then have "unat (w - 0x80) < 128" using u True by (simp add: unat_sub word_le_nat_alt)
    then have "ExCvt ! unat (w - 0x80) \<in> set ExCvt" by (intro nth_mem) (simp add: ExCvt_def)
    then have "ExCvt ! unat (w - 0x80) \<noteq> 0" using ExCvt_nonzero by blast
    moreover have "achar c = ucast (ExCvt ! unat (w - 0x80))"
      using True eq by simp
    ultimately show ?thesis using z by (simp add: unsigned_ucast_eq word_unat_eq_iff)
  next
    case False
    then have "w = 0" using z eq by simp
    then have "u = 0" by (auto simp: w_def word_le_nat_alt split: if_splits)
    then show ?thesis by (metis u_def unat_ucast_BYTE unat_eq_zero)
  qed
qed (simp add: achar_def get_achar_def peek_def Let_def)

lemma cstr_simps [simp]:
  "cstr [] = []" "cstr (c # s) = (if c = 0 then [] else c # cstr s)"
  by (simp_all add: cstr_def)

lemma cstr_peek: "cstr s = (if peek s = 0 then [] else peek s # cstr (tl s))"
  by (cases s) (simp_all add: peek_def)

text \<open>\<open>globs\<close> allows the name to start later, the meaning of the argument \<open>inf\<close>.\<close>

definition globs :: "bool \<Rightarrow> BYTE list \<Rightarrow> BYTE list \<Rightarrow> bool" where
  "globs star P N \<longleftrightarrow> (if star then \<exists>k. glob P (drop k N) else glob P N)"

lemma glob_star: "glob (0x2A # P) N \<longleftrightarrow> (\<exists>k. glob P (drop k N))"
proof (induction N)
  case Nil
  then show ?case by simp
next
  case (Cons n N)
  have "(\<exists>k. glob P (drop k (n # N))) \<longleftrightarrow> glob P (n # N) \<or> (\<exists>k. glob P (drop k N))"
    by (metis drop_0 drop_Suc_Cons not0_implies_Suc)
  then show ?case using Cons by simp
qed

lemma glob_any: "p = 0x3F \<Longrightarrow> glob (p # P) N \<longleftrightarrow> N \<noteq> [] \<and> glob P (tl N)"
  by (cases N) simp_all

lemma globs_any: "globs star (0x3F # P) N \<longleftrightarrow> N \<noteq> [] \<and> globs star P (tl N)"
proof (cases star)
  case True
  have "(\<exists>k. drop k N \<noteq> [] \<and> glob P (tl (drop k N))) \<longleftrightarrow> N \<noteq> [] \<and> (\<exists>k. glob P (drop k (tl N)))"
  proof
    assume "\<exists>k. drop k N \<noteq> [] \<and> glob P (tl (drop k N))"
    then show "N \<noteq> [] \<and> (\<exists>k. glob P (drop k (tl N)))" by (metis drop_Nil tl_drop)
  next
    assume "N \<noteq> [] \<and> (\<exists>k. glob P (drop k (tl N)))"
    then obtain k where N: "N \<noteq> []" and k: "glob P (drop k (tl N))" by blast
    show "\<exists>k. drop k N \<noteq> [] \<and> glob P (tl (drop k N))"
    proof (cases "k < length N")
      case True
      then show ?thesis using k by (intro exI [of _ k]) (simp add: tl_drop)
    next
      case False
      then have "glob P []" using k by simp
      then show ?thesis using N by (intro exI [of _ "length N - 1"]) (cases N, simp_all add: tl_drop)
    qed
  qed
  then show ?thesis using True by (simp only: globs_def glob_any if_True)
next
  case False
  then show ?thesis by (simp add: globs_def glob_any)
qed

lemma globs_star: "globs star (0x2A # P) N \<longleftrightarrow> globs True P N"
  by (cases star) (simp_all add: globs_def glob_star, metis drop_0 drop_drop)

lemma wild_block_globs:
  "wild_block pp nm nx = (pp', nm', nx') \<Longrightarrow>
   (nm \<le> length N \<and> globs nx (cstr pp) (drop nm N)) =
     (nm' \<le> length N \<and> globs nx' (cstr pp') (drop nm' N))
   \<and> \<not> is_wild (peek pp') \<and> length (cstr pp') \<le> length (cstr pp)
   \<and> (is_wild (peek pp) \<longrightarrow> length (cstr pp') < length (cstr pp))"
proof (induction pp nm nx rule: wild_block.induct)
  case (1 nm nx)
  then show ?case by (auto simp: peek_def)
next
  case (2 c pp nm nx)
  consider "c = 0x3F" | "c = 0x2A" | "\<not> is_wild c" by blast
  then show ?case
  proof cases
    case 1
    then have "Suc nm \<le> length N \<longleftrightarrow> nm \<le> length N \<and> drop nm N \<noteq> []" by auto
    moreover have "tl (drop nm N) = drop (Suc nm) N" by (simp add: tl_drop drop_Suc)
    ultimately show ?thesis using 2(1) [OF 1] 2(3) 1 by (auto simp: globs_any peek_def)
  next
    case 2
    then show ?thesis using "2.IH"(2) "2.prems" by (auto simp: globs_star peek_def)
  next
    case 3
    then show ?thesis using 2(3) by (auto simp: peek_def)
  qed
qed

text \<open>Plain characters of the pattern against characters of the name.\<close>

definition plain :: "BYTE list \<Rightarrow> BYTE list \<Rightarrow> bool" where
  "plain Q M \<longleftrightarrow> list_all2 (\<lambda>p n. \<not> is_wild p \<and> achar p = achar n) Q M"

lemma glob_plain: "plain Q M \<Longrightarrow> glob (Q @ P) (M @ N) = glob P N"
  unfolding plain_def by (induction rule: list_all2_induct) auto

lemma glob_length: "glob (Q @ P) N \<Longrightarrow> \<forall>p \<in> set Q. \<not> is_wild p \<Longrightarrow> length Q \<le> length N"
  by (induction "Q @ P" N arbitrary: Q rule: glob.induct) (auto simp: Cons_eq_append_conv)

lemma plain_no_wild: "plain Q M \<Longrightarrow> \<forall>p \<in> set Q. \<not> is_wild p"
  unfolding plain_def by (induction rule: list_all2_induct) auto

lemma plain_length: "plain Q M \<Longrightarrow> length Q = length M"
  unfolding plain_def by (rule list_all2_lengthD)

text \<open>What a state of the recursion is to answer. Below the first call the name may start later
  only for a pattern that begins with a plain character.\<close>

fun pm_spec :: "pm_state \<Rightarrow> bool" where
  "pm_spec (PM_Call pt nam skip star) \<longleftrightarrow> skip \<le> length (cstr nam) \<and> globs star (cstr pt) (drop skip (cstr nam))"
| "pm_spec (PM_Loop pt nam star) \<longleftrightarrow> globs star (cstr pt) (cstr nam)"
| "pm_spec (PM_For pt nam star pp np) \<longleftrightarrow> globs star (cstr pt) (cstr nam)"

fun pm_ok :: "pm_state \<Rightarrow> bool" where
  "pm_ok (PM_Call pt nam skip star) \<longleftrightarrow> (star \<longrightarrow> \<not> is_wild (peek pt))"
| "pm_ok (PM_Loop pt nam star) \<longleftrightarrow> (star \<longrightarrow> \<not> is_wild (peek pt) \<and> peek pt \<noteq> 0)"
| "pm_ok (PM_For pt nam star pp np) \<longleftrightarrow> (star \<longrightarrow> \<not> is_wild (peek pt) \<and> peek pt \<noteq> 0)
     \<and> (\<exists>Q M. cstr pt = Q @ cstr pp \<and> cstr nam = M @ cstr np \<and> plain Q M)"

fun pm_meas :: "pm_state \<Rightarrow> nat \<times> nat \<times> nat" where
  "pm_meas (PM_Call pt nam skip star) = (length (cstr pt), length (cstr nam), length (cstr pt) + 2)"
| "pm_meas (PM_Loop pt nam star) = (length (cstr pt), length (cstr nam), length (cstr pt) + 1)"
| "pm_meas (PM_For pt nam star pp np) = (length (cstr pt), length (cstr nam), length (cstr pp))"

definition pm_less :: "(pm_state \<times> pm_state) set" where
  "pm_less = inv_image (less_than <*lex*> less_than <*lex*> less_than) pm_meas"

lemma wf_pm_less: "wf pm_less"
  unfolding pm_less_def by (intro wf_inv_image wf_lex_prod wf_less_than)

lemma skip_chars_cstr:
  "skip_chars n nam = (if n \<le> length (cstr nam) then Some (drop n nam) else None)"
  "n \<le> length (cstr nam) \<Longrightarrow> cstr (drop n nam) = drop n (cstr nam)"
proof -
  show "skip_chars n nam = (if n \<le> length (cstr nam) then Some (drop n nam) else None)"
  proof (induction n nam rule: skip_chars.induct)
    case (2 n nam)
    then show ?case
      by (cases nam) (auto simp: get_achar_eq achar_zero peek_def drop_Suc)
  qed simp
  show "n \<le> length (cstr nam) \<Longrightarrow> cstr (drop n nam) = drop n (cstr nam)"
    by (induction n arbitrary: nam) (auto split: if_splits simp: drop_Suc,
        metis cstr_peek drop_Suc list.sel(3) list.size(3) not_less_eq_eq zero_le length_Cons Suc_le_mono)
qed

text \<open>A later start is of no use once the name has ended under the pattern.\<close>

lemma globs_exhausted:
  assumes "\<forall>p \<in> set Q. \<not> is_wild p" and "length N \<le> length Q" and "Q \<noteq> []"
    and "\<not> glob (Q @ P) N"
  shows "\<not> globs star (Q @ P) N"
proof
  assume "globs star (Q @ P) N"
  then obtain k where k: "glob (Q @ P) (drop k N)" unfolding globs_def by (metis drop_0)
  with assms(1) have "length Q \<le> length N - k" using glob_length by fastforce
  then have "k = 0" using assms(2,3) by (cases Q) auto
  with k assms(4) show False by simp
qed

lemma globs_shift: "N \<noteq> [] \<Longrightarrow> \<not> glob P N \<Longrightarrow> globs True P N = globs True P (tl N)"
  unfolding globs_def by simp (metis drop_0 drop_Suc not0_implies_Suc)

text \<open>The inner loop, given that the smaller states answer as specified.\<close>

lemma pm_for_wild:
  assumes IH: "\<And>t. (t, PM_For pt nam star pp np) \<in> pm_less \<Longrightarrow> pm_ok t \<Longrightarrow> pm_run t = Some (pm_spec t)"
    and ok: "pm_ok (PM_For pt nam star pp np)" and wild: "is_wild (peek pp)"
  shows "pm_run (PM_For pt nam star pp np) = Some (globs star (cstr pt) (cstr nam))"
proof -
  obtain Q M where Q: "cstr pt = Q @ cstr pp" "cstr nam = M @ cstr np" "plain Q M"
    using ok by auto
  obtain pp' nm nx where wb: "wild_block pp 0 False = (pp', nm, nx)" by (metis prod_cases3)
  note w = wild_block_globs [OF wb, of "cstr np"]
  then have call: "pm_run (PM_Call pp' np nm nx) = Some (pm_spec (PM_Call pp' np nm nx))"
    using wild Q by (intro IH) (auto simp: pm_less_def)
  have r: "pm_spec (PM_Call pp' np nm nx) = glob (cstr pt) (cstr nam)"
    using w glob_plain [OF Q(3)] Q(1,2) by (simp add: globs_def)
  show ?thesis
  proof (cases "glob (cstr pt) (cstr nam)")
    case True
    then have "globs star (cstr pt) (cstr nam)" unfolding globs_def by (metis drop_0)
    then show ?thesis using True wild wb call r
      by (subst pm_run.simps) (auto simp del: pm_spec.simps)
  next
    case no: False
    show ?thesis
    proof (cases "star \<and> peek np \<noteq> 0")
      case True
      then have ne: "cstr nam \<noteq> []" using Q(2) cstr_peek [of np] by auto
      then have tl: "cstr (tl nam) = tl (cstr nam)" using cstr_peek [of nam] by (auto split: if_splits)
      have "pm_run (PM_Loop pt (tl nam) star) = Some (pm_spec (PM_Loop pt (tl nam) star))"
        using ok ne tl by (intro IH) (auto simp: pm_less_def)
      then show ?thesis using True no wild wb call r globs_shift [OF ne no] tl
        by (subst pm_run.simps) (auto simp: get_achar_eq)
    next
      case False
      have "\<not> globs star (cstr pt) (cstr nam)"
      proof (cases star)
        case True
        then have "cstr np = []" using False cstr_peek [of np] by simp
        then have "length (cstr nam) \<le> length Q" using Q plain_length by simp
        moreover have "Q \<noteq> []"
          using Q(1) ok True wild cstr_peek [of pt] cstr_peek [of pp] by (auto split: if_splits)
        ultimately show ?thesis
          using globs_exhausted [OF plain_no_wild [OF Q(3)], of "cstr nam" "cstr pp" star] no Q(1) by simp
      qed (simp add: globs_def no)
      then show ?thesis using False no wild wb call r
        by (subst pm_run.simps) (auto simp: get_achar_eq simp del: pm_spec.simps)
    qed
  qed
qed

lemma pm_for_plain:
  assumes IH: "\<And>t. (t, PM_For pt nam star pp np) \<in> pm_less \<Longrightarrow> pm_ok t \<Longrightarrow> pm_run t = Some (pm_spec t)"
    and ok: "pm_ok (PM_For pt nam star pp np)" and wild: "\<not> is_wild (peek pp)"
  shows "pm_run (PM_For pt nam star pp np) = Some (globs star (cstr pt) (cstr nam))"
proof -
  obtain Q M where Q: "cstr pt = Q @ cstr pp" "cstr nam = M @ cstr np" "plain Q M"
    using ok by auto
  have gl: "glob (cstr pt) (cstr nam) = glob (cstr pp) (cstr np)" using glob_plain [OF Q(3)] Q(1,2) by simp
  show ?thesis
  proof (cases "achar (peek pp) = achar (peek np)")
    case same: True
    show ?thesis
    proof (cases "peek pp = 0")
      case True
      then have np: "peek np = 0" using same achar_zero by metis
      then have "glob (cstr pt) (cstr nam)" using gl True cstr_peek [of pp] cstr_peek [of np] by simp
      then have "globs star (cstr pt) (cstr nam)" unfolding globs_def by (metis drop_0)
      then show ?thesis using True np same wild
        by (subst pm_run.simps) (auto simp: get_achar_eq achar_zero)
    next
      case False
      then have ne: "peek np \<noteq> 0" using same achar_zero by metis
      have "plain (Q @ [peek pp]) (M @ [peek np])"
        using Q(3) same wild unfolding plain_def by (auto intro: list_all2_appendI)
      then have "\<exists>Q M. cstr pt = Q @ cstr (tl pp) \<and> cstr nam = M @ cstr (tl np) \<and> plain Q M"
        using Q(1,2) False ne cstr_peek [of pp] cstr_peek [of np]
        by (intro exI [of _ "Q @ [peek pp]"] exI [of _ "M @ [peek np]"]) simp
      then have "pm_run (PM_For pt nam star (tl pp) (tl np)) = Some (pm_spec (PM_For pt nam star (tl pp) (tl np)))"
        using ok False cstr_peek [of pp] by (intro IH) (auto simp: pm_less_def)
      then show ?thesis using False ne same wild
        by (subst pm_run.simps) (auto simp: get_achar_eq achar_zero)
    qed
  next
    case diff: False
    have no: "\<not> glob (cstr pt) (cstr nam)"
      using gl diff wild cstr_peek [of pp] cstr_peek [of np] by (auto split: if_splits)
    show ?thesis
    proof (cases "star \<and> peek np \<noteq> 0")
      case True
      then have ne: "cstr nam \<noteq> []" using Q(2) cstr_peek [of np] by auto
      then have tl: "cstr (tl nam) = tl (cstr nam)" using cstr_peek [of nam] by (auto split: if_splits)
      have "pm_run (PM_Loop pt (tl nam) star) = Some (pm_spec (PM_Loop pt (tl nam) star))"
        using ok ne tl by (intro IH) (auto simp: pm_less_def)
      then show ?thesis using True diff wild globs_shift [OF ne no] tl
        by (subst pm_run.simps) (auto simp: get_achar_eq achar_zero)
    next
      case False
      have "\<not> globs star (cstr pt) (cstr nam)"
      proof (cases star)
        case True
        then have np: "peek np = 0" "cstr np = []" using False cstr_peek [of np] by simp_all
        then have "peek pp \<noteq> 0" using diff by auto
        then have pt: "cstr pt = (Q @ [peek pp]) @ cstr (tl pp)" using Q(1) cstr_peek [of pp] by simp
        have "length (cstr nam) \<le> length (Q @ [peek pp])" using Q np plain_length by simp
        then show ?thesis
          using globs_exhausted [of "Q @ [peek pp]" "cstr nam" "cstr (tl pp)" star]
            plain_no_wild [OF Q(3)] wild no pt by simp
      qed (simp add: globs_def no)
      then show ?thesis using False diff wild
        by (subst pm_run.simps) (auto simp: get_achar_eq achar_zero)
    qed
  qed
qed

lemma pm_run_spec: "pm_ok s \<Longrightarrow> pm_run s = Some (pm_spec s)"
proof (induction s rule: wf_induct_rule [OF wf_pm_less])
  case (1 s)
  show ?case
  proof (cases s)
    case (PM_Call pt nam skip star)
    show ?thesis
    proof (cases "skip \<le> length (cstr nam)")
      case True
      then have nam: "skip_chars skip nam = Some (drop skip nam)" "cstr (drop skip nam) = drop skip (cstr nam)"
        by (simp_all add: skip_chars_cstr)
      show ?thesis
      proof (cases "peek pt = 0 \<and> star")
        case True
        then have "globs star (cstr pt) (drop skip (cstr nam))"
          using cstr_peek [of pt] by (auto simp: globs_def intro: exI [of _ "length (cstr nam)"])
        then show ?thesis using PM_Call True nam \<open>skip \<le> length (cstr nam)\<close>
          by (subst pm_run.simps) simp
      next
        case False
        then have "pm_run (PM_Loop pt (drop skip nam) star) = Some (pm_spec (PM_Loop pt (drop skip nam) star))"
          using 1 PM_Call nam by (intro 1(1)) (auto simp: pm_less_def)
        then show ?thesis using PM_Call False nam True by (subst pm_run.simps) auto
      qed
    next
      case False
      then show ?thesis using PM_Call by (subst pm_run.simps) (simp add: skip_chars_cstr)
    qed
  next
    case (PM_Loop pt nam star)
    have "\<exists>Q M. cstr pt = Q @ cstr pt \<and> cstr nam = M @ cstr nam \<and> plain Q M"
      by (intro exI [of _ "[]"]) (simp add: plain_def)
    then have "pm_run (PM_For pt nam star pt nam) = Some (pm_spec (PM_For pt nam star pt nam))"
      using 1 PM_Loop by (intro 1(1)) (auto simp: pm_less_def)
    then show ?thesis using PM_Loop by (subst pm_run.simps) simp
  next
    case (PM_For pt nam star pp np)
    then show ?thesis using pm_for_wild [of pt nam star pp np] pm_for_plain [of pt nam star pp np] 1 by auto
  qed
qed

text \<open>C28: \<open>pattern_matching\<close> as \<open>f_findnext\<close> calls it returns for every pattern and every name,
  and answers whether the name matches the pattern in the usual reading: \<open>?\<close> stands for one
  character, \<open>*\<close> for any number of them, and any other character for itself or for a letter that
  differs from it in case or accent only (\<open>same_char\<close>: U stands for U, u and both cases of U with a
  diaeresis, grave, circumflex or acute; no other two characters of code page 850 match).\<close>

theorem pattern_is_glob: "pattern_matching pt nam 0 False = Some (glob (cstr pt) (cstr nam))"
  by (simp add: pattern_matching_def pm_run_spec globs_def)

section \<open>Drive prefixes name the configured volumes\<close>

definition up_char :: "BYTE \<Rightarrow> BYTE" where
  "up_char c = (if IsLower c then c - 0x20 else c)"

text \<open>The volume a prefix means: a digit, or one of the volume IDs SD, USB, USB2 and USB3 in
  either case.\<close>

definition drive_of :: "BYTE list \<Rightarrow> nat option" where
  "drive_of pre =
     (let n = map up_char pre in
      if length pre = 1 \<and> IsDigit (hd pre) then
        (if unat (hd pre) - 0x30 < FF_VOLUMES then Some (unat (hd pre) - 0x30) else None)
      else if n = [0x53, 0x44] then Some 0
      else if n = [0x55, 0x53, 0x42] then Some 1
      else if n = [0x55, 0x53, 0x42, 0x32] then Some 2
      else if n = [0x55, 0x53, 0x42, 0x33] then Some 3
      else None)"

abbreviation (input) before_colon :: "BYTE list \<Rightarrow> BYTE list" where
  "before_colon path \<equiv> takeWhile (\<lambda>c. c \<ge> 0x20 \<and> c \<noteq> 0x3A) path"

lemma find_colon_eq:
  "t \<le> length path \<Longrightarrow>
   find_colon path t = (let n = t + length (before_colon (drop t path)) in (at path n, n + 1))"
proof (induction path t rule: find_colon.induct)
  case (1 path t)
  show ?case
  proof (cases "t < length path")
    case True
    then have "drop t path = path ! t # drop (Suc t) path" by (simp add: Cons_nth_drop_Suc)
    then show ?thesis using 1 True by (subst find_colon.simps) (simp add: Let_def at_def)
  next
    case False
    then show ?thesis by (subst find_colon.simps) (simp add: Let_def at_def)
  qed
qed

lemma vol_cmp_eq:
  assumes "\<forall>c \<in> set w. c \<noteq> 0 \<and> \<not> IsLower c"
  shows "(fst (vol_cmp (w @ [0]) path t) = 0 \<longleftrightarrow> (\<forall>k < length w. up_char (at path (t + k)) = w ! k))
    \<and> (fst (vol_cmp (w @ [0]) path t) = 0 \<longrightarrow> snd (vol_cmp (w @ [0]) path t) = t + length w + 1)"
  using assms
proof (induction w arbitrary: t)
  case Nil
  then show ?case by simp
next
  case (Cons c w)
  then have c: "c \<noteq> 0" "\<not> IsLower c" by simp_all
  have all: "(\<forall>k < length (c # w). up_char (at path (t + k)) = (c # w) ! k) \<longleftrightarrow>
      up_char (at path t) = c \<and> (\<forall>k < length w. up_char (at path (Suc t + k)) = w ! k)"
    by (simp add: All_less_Suc2)
  show ?case unfolding all using c Cons.IH [of "Suc t"] Cons.prems
    by (simp add: Let_def up_char_def [symmetric]) (auto simp: up_char_def)
qed

lemma vol_cmp_match:
  assumes w: "\<forall>c \<in> set w. c \<noteq> 0 \<and> \<not> IsLower c" and n: "n \<le> length path"
  shows "(case vol_cmp (w @ [0]) path 0 of (c, tp) \<Rightarrow> c \<noteq> 0 \<or> tp \<noteq> n + 1) \<longleftrightarrow> map up_char (take n path) \<noteq> w"
proof -
  have "map up_char (take n path) = w \<longleftrightarrow> length w = n \<and> (\<forall>k < length w. up_char (at path k) = w ! k)"
    using n by (auto simp: list_eq_iff_nth_eq at_def)
  then show ?thesis using vol_cmp_eq [OF w, of path 0] by (auto split: prod.split)
qed

lemma vol_search_step:
  assumes "\<forall>c \<in> set w. c \<noteq> 0 \<and> \<not> IsLower c" and "n \<le> length path"
  shows "vol_search ((w @ [0]) # sps) path (n + 1) i =
    (if map up_char (take n path) = w then i else vol_search sps path (n + 1) (i + 1))"
  using vol_cmp_match [OF assms] by (cases "vol_cmp (w @ [0]) path 0") auto

lemma VolumeStr_ids:
  "VolumeStr = [[0x53, 0x44] @ [0], [0x55, 0x53, 0x42] @ [0], [0x55, 0x53, 0x42, 0x32] @ [0],
                [0x55, 0x53, 0x42, 0x33] @ [0]]"
  by (simp add: VolumeStr_def)

text \<open>Drive prefixes. A path whose text before the first control character holds no colon is
  on drive 0 and is left whole. Otherwise what stands before the first colon must be a digit below
  the number of volumes or a volume ID in either case; the path continues after the colon. Any
  other prefix gives -1 and leaves the path alone, and so does a null path.\<close>

theorem drive_prefix:
  "get_ldnumber None = (- 1, None)
   \<and> get_ldnumber (Some path) =
      (let pre = before_colon path; rest = drop (length pre) path in
       if rest \<noteq> [] \<and> hd rest = 0x3A then
         (case drive_of pre of Some i \<Rightarrow> (int i, Some (tl rest)) | None \<Rightarrow> (- 1, Some path))
       else (0, Some path))"
proof -
  define pre where "pre = before_colon path"
  define n where "n = length pre"
  have n: "n \<le> length path" "pre = take n path"
    unfolding n_def pre_def by (rule length_takeWhile_le, rule takeWhile_eq_take)
  have fc: "find_colon path 0 = (at path n, n + 1)"
    using find_colon_eq [of 0 path] by (simp add: n_def pre_def Let_def)
  have colon: "at path n = 0x3A \<longleftrightarrow> drop n path \<noteq> [] \<and> hd (drop n path) = 0x3A"
    by (auto simp: at_def hd_drop_conv_nth)
  have first: "at path 0 = hd pre" if "length pre = 1"
  proof -
    have "n = 1" "path \<noteq> []" using that n(1) by (auto simp: n_def)
    then show ?thesis using n(2) by (cases path) (simp_all add: at_def)
  qed
  have digit: "IsDigit (at path 0) \<and> n + 1 = 2 \<longleftrightarrow> length pre = 1 \<and> IsDigit (hd pre)"
    using first by (auto simp: n_def)
  have search: "vol_search VolumeStr path (n + 1) 0 =
      (let m = map up_char pre in
       if m = [0x53, 0x44] then 0 else if m = [0x55, 0x53, 0x42] then 1
       else if m = [0x55, 0x53, 0x42, 0x32] then 2 else if m = [0x55, 0x53, 0x42, 0x33] then 3 else 4)"
  proof -
    have step: "vol_search ((w @ [0]) # sps) path (n + 1) i =
        (if map up_char pre = w then i else vol_search sps path (n + 1) (i + 1))"
      if "list_all (\<lambda>c. c \<noteq> 0 \<and> \<not> IsLower c) w" for w sps i
      unfolding n(2) by (rule vol_search_step) (use that n(1) in \<open>simp_all add: list_all_iff\<close>)
    let ?ok = "list_all (\<lambda>c :: BYTE. c \<noteq> 0 \<and> \<not> IsLower c)"
    have "?ok [0x53, 0x44]" "?ok [0x55, 0x53, 0x42]" "?ok [0x55, 0x53, 0x42, 0x32]"
      "?ok [0x55, 0x53, 0x42, 0x33]" by simp_all
    note s = this [THEN step]
    show ?thesis unfolding VolumeStr_ids Let_def by (simp only: s) simp
  qed
  define i where "i = (if IsDigit (at path 0) \<and> n + 1 = 2 then unat (at path 0) - 0x30
    else vol_search VolumeStr path (n + 1) 0)"
  have g: "get_ldnumber (Some path) =
      (if at path n = 0x3A then (if i < FF_VOLUMES then (int i, Some (drop (n + 1) path)) else (- 1, Some path))
       else (0, Some path))"
    by (simp only: get_ldnumber_def fc option.case prod.case Let_def i_def)
  have i: "i < FF_VOLUMES \<longleftrightarrow> drive_of pre \<noteq> None" "drive_of pre = Some j \<Longrightarrow> i = j" for j
    unfolding i_def digit search drive_of_def Let_def using first by (auto split: if_splits)
  have null: "get_ldnumber None = (- 1, None)" by (simp add: get_ldnumber_def)
  show ?thesis unfolding pre_def [symmetric] n_def [symmetric] Let_def g colon
    using null i by (cases "drive_of pre") (simp_all add: tl_drop drop_Suc)
qed

section \<open>Names that are accepted\<close>

text \<open>The units a long name may hold, and the bytes a short name may hold, by their codes: no
  control character, and none of the characters the FAT specification forbids. A short name also
  has no lower-case letter, dot or any of \<open>+ , ; = [ ]\<close>.\<close>

definition lfn_code :: "nat \<Rightarrow> bool" where
  "lfn_code n \<longleftrightarrow> 0x20 \<le> n \<and> n \<noteq> 0xFFFF
     \<and> n \<notin> {0x22, 0x2A, 0x2F, 0x3A, 0x3C, 0x3E, 0x3F, 0x5C, 0x7C, 0x7F}"

definition sfn_code :: "nat \<Rightarrow> bool" where
  "sfn_code n \<longleftrightarrow> lfn_code n \<and> \<not> (0x61 \<le> n \<and> n \<le> 0x7A)
     \<and> n \<notin> {0x2B, 0x2C, 0x2E, 0x3B, 0x3D, 0x5B, 0x5D}"

lemma unat_ucast_BYTE_WCHAR [simp]: "unat (ucast (x :: BYTE) :: WCHAR) = unat x"
  by (simp add: unsigned_ucast_eq take_bit_nat_eq_self_iff less_trans [OF unat_lt_pow8])

lemma tchar2uni_range:
  assumes "tchar2uni p = (uc, p')" and "uc \<noteq> 0xFFFFFFFF"
  shows "uc < 0x10000 \<and> unat uc \<noteq> 0xFFFF"
proof -
  have tab: "unat (u :: WCHAR) \<noteq> 0xFFFF" if "u \<in> set uc850" for u
  proof -
    have "\<forall>u \<in> set uc850. unat u \<noteq> 0xFFFF" by (simp add: uc850_def)
    then show ?thesis using that by blast
  qed
  have oem: "unat (ff_oem2uni (ucast c) CODEPAGE) \<noteq> 0xFFFF" for c :: BYTE
  proof (cases "unat c < 0x80")
    case True
    then show ?thesis by (simp add: ff_oem2uni_def word_less_nat_alt)
  next
    case False
    have "(0x80 :: WCHAR) \<le> ucast c" using False by (simp add: word_le_nat_alt)
    from unat_sub [OF this] have "unat (ucast c - 0x80 :: WCHAR) = unat c - 0x80" by simp
    then have "unat (ucast c - 0x80 :: WCHAR) < length uc850"
      unfolding length_uc850 using unat_lt_pow8 [of c] False by linarith
    then have "uc850 ! unat (ucast c - 0x80 :: WCHAR) \<in> set uc850" by (rule nth_mem)
    then show ?thesis using tab False by (simp add: ff_oem2uni_def word_less_nat_alt)
  qed
  have "\<exists>w :: WCHAR. uc = ucast w \<and> unat w \<noteq> 0xFFFF"
    using assms oem [of "peek p"] by (auto simp: tchar2uni_def Let_def intro: exI [of _ 0] split: if_splits)
  then obtain w :: WCHAR where "uc = ucast w" "unat w \<noteq> 0xFFFF" by blast
  then show ?thesis by (simp add: word_less_nat_alt)
qed

lemma illegal_lfn_code:
  assumes "\<not> wc < (0x20 :: WCHAR)" "wc \<noteq> 0x2F" "wc \<noteq> 0x5C" "\<not> (wc < 0x80 \<and> chk_chr illegal_lfn (uint wc) \<noteq> 0)"
    and "unat wc \<noteq> 0xFFFF"
  shows "lfn_code (unat wc)"
proof -
  have n: "unat wc \<noteq> 0x2F" "unat wc \<noteq> 0x5C" "0x20 \<le> unat wc"
    using assms(1-3) word_unat_eq_iff [of wc "0x2F"] word_unat_eq_iff [of wc "0x5C"]
    by (simp_all add: word_less_nat_alt)
  have "unat wc \<notin> {0x22, 0x2A, 0x3A, 0x3C, 0x3E, 0x3F, 0x7C, 0x7F}"
  proof
    assume *: "unat wc \<in> {0x22, 0x2A, 0x3A, 0x3C, 0x3E, 0x3F, 0x7C, 0x7F}"
    then have "wc < 0x80" by (auto simp: word_less_nat_alt)
    have "\<forall>m \<in> {0x22, 0x2A, 0x3A, 0x3C, 0x3E, 0x3F, 0x7C, 0x7F}. chk_chr illegal_lfn m \<noteq> 0"
      by (simp add: illegal_lfn_def)
    moreover have "uint wc \<in> {0x22, 0x2A, 0x3A, 0x3C, 0x3E, 0x3F, 0x7C, 0x7F}"
    proof -
      define m where "m = unat wc"
      have "uint wc = int m" unfolding m_def by (rule uint_nat)
      then show ?thesis using * unfolding m_def [symmetric] by auto
    qed
    ultimately show False using \<open>wc < 0x80\<close> assms(4) by blast
  qed
  then show ?thesis using n assms(5) by (simp add: lfn_code_def)
qed

lemma pick_name_ok:
  assumes "pick_name lfn di p = (r, lfn')" and "length lfn = FF_MAX_LFN + 1" and "di \<le> FF_MAX_LFN"
    and "\<forall>k < di. lfn_code (unat (lfn ! k))"
  shows "length lfn' = FF_MAX_LFN + 1 \<and>
    (case r of Inl e \<Rightarrow> e = FR_INVALID_NAME
     | Inr (wc, n, q) \<Rightarrow> n \<le> FF_MAX_LFN \<and> (\<forall>k < n. lfn_code (unat (lfn' ! k))))"
  using assms
proof (induction lfn di p rule: pick_name.induct)
  case (1 lfn di p)
  obtain uc q where t: "tchar2uni p = (uc, q)" by fastforce
  show ?case
  proof (cases "uc = 0xFFFFFFFF")
    case True
    then show ?thesis using 1(2,3) t by (subst (asm) pick_name.simps) auto
  next
    case valid: False
    then have uc: "\<not> uc \<ge> 0x10000" "unat uc \<noteq> 0xFFFF" using tchar2uni_range [OF t] by auto
    define wc where "wc = (ucast uc :: WCHAR)"
    have w: "unat wc = unat uc"
      using uc(1) by (simp add: wc_def unsigned_ucast_eq take_bit_nat_eq_self_iff word_le_nat_alt not_le)
    have step: "pick_name lfn di p =
       (if wc < 0x20 \<or> wc = 0x2F \<or> wc = 0x5C then (Inr (wc, di, q), lfn)
        else if wc < 0x80 \<and> chk_chr illegal_lfn (uint wc) \<noteq> 0 then (Inl FR_INVALID_NAME, lfn)
        else if di \<ge> FF_MAX_LFN then (Inl FR_INVALID_NAME, lfn)
        else pick_name (lfn[di := wc]) (di + 1) q)"
      using t valid uc(1) by (subst pick_name.simps) (simp only: prod.case Let_def if_False wc_def [symmetric])
    show ?thesis
    proof (cases "wc < 0x20 \<or> wc = 0x2F \<or> wc = 0x5C \<or> wc < 0x80 \<and> chk_chr illegal_lfn (uint wc) \<noteq> 0
        \<or> di \<ge> FF_MAX_LFN")
      case True
      then show ?thesis using step 1(2-5) by (auto split: if_splits)
    next
      case False
      then have "lfn_code (unat wc)" using uc(2) w by (intro illegal_lfn_code) auto
      then have "\<forall>k < di + 1. lfn_code (unat (lfn[di := wc] ! k))"
        using 1(3,4,5) False by (auto simp: nth_list_update less_Suc_eq)
      moreover have "pick_name (lfn[di := wc]) (di + 1) q = (r, lfn')" using step 1(2) False by auto
      ultimately show ?thesis
        using 1(1) [OF t [symmetric] valid, of "(lfn, di)" lfn di wc] False uc(1) 1(3) by (simp add: wc_def)
    qed
  qed
qed

lemma snip_le: "snip lfn d \<le> d"
  by (induction lfn d rule: snip.induct) auto

lemma snip_last: "0 < snip lfn d \<Longrightarrow> lfn ! (snip lfn d - 1) \<noteq> 0x20 \<and> lfn ! (snip lfn d - 1) \<noteq> 0x2E"
  by (induction lfn d rule: snip.induct) (auto split: if_splits)

text \<open>The characters of a short name.\<close>

lemma ExCvt_code: "\<forall>e \<in> set ExCvt. sfn_code (unat e)"
  by (simp add: ExCvt_def sfn_code_def lfn_code_def)

lemma uni_index_range: "uni_index ps u c = c + of_nat (length ps) \<or> (\<exists>i < length ps. uni_index ps u c = c + of_nat i)"
proof (induction ps arbitrary: c)
  case (Cons p ps)
  show ?case
  proof (cases "u = ucast p")
    case False
    then show ?thesis using Cons [of "c + 1"] by (auto simp: add.assoc intro: exI [of _ "Suc _"])
  qed (auto intro: exI [of _ 0])
qed simp

lemma uni2oem_high:
  assumes "(0x80 :: WCHAR) \<le> wc"
  shows "ff_uni2oem (ucast wc) CODEPAGE = 0 \<or> (ff_uni2oem (ucast wc) CODEPAGE) AND 0x80 \<noteq> 0"
proof -
  let ?i = "uni_index uc850 (ucast wc) 0"
  have eq: "ff_uni2oem (ucast wc) CODEPAGE = (?i + 0x80) AND 0xFF"
    using assms by (simp add: ff_uni2oem_def word_less_nat_alt word_le_nat_alt)
  have "?i = 0x80 \<or> (\<exists>i < 128. ?i = of_nat i)"
    using uni_index_range [of uc850 "ucast wc" 0] by (simp add: length_uc850)
  then show ?thesis
  proof
    assume "?i = 0x80"
    then show ?thesis by (simp add: eq)
  next
    assume "\<exists>i < 128. ?i = of_nat i"
    then obtain i where i: "i < 128" "?i = of_nat i" by blast
    have "\<forall>i \<in> set [0..<128]. ((of_nat i + 0x80 :: WCHAR) AND 0xFF) AND 0x80 \<noteq> 0" by code_simp
    then have "((of_nat i + 0x80 :: WCHAR) AND 0xFF) AND 0x80 \<noteq> 0" using i(1) by auto
    then show ?thesis unfolding eq i(2) by (rule disjI2)
  qed
qed

lemma sfn_oem_code:
  assumes "lfn_code (unat wc)" and "sfn_oem wc cf = (w, cf')"
  shows "unat w = 0 \<or> unat w = unat wc \<and> unat wc < 0x80 \<or> sfn_code (unat w) \<and> unat w < 0x100"
proof (cases "wc \<ge> 0x80")
  case True
  let ?o = "ff_uni2oem (ucast wc) CODEPAGE"
  consider "?o = 0" | "?o AND 0x80 \<noteq> 0" using uni2oem_high [OF True] by blast
  then show ?thesis
  proof cases
    case 1
    then show ?thesis using assms(2) True by (auto simp: sfn_oem_def Let_def)
  next
    case 2
    have "?o AND 0x7F \<le> 0x7F" by (rule word_and_le1)
    then have "unat (?o AND 0x7F) < length ExCvt" by (simp add: word_le_nat_alt ExCvt_def)
    then have "sfn_code (unat (ExCvt ! unat (?o AND 0x7F)))" using ExCvt_code nth_mem by blast
    then show ?thesis using assms(2) True 2 by (auto simp: sfn_oem_def Let_def)
  qed
next
  case False
  then show ?thesis using assms(2) by (auto simp: sfn_oem_def word_le_nat_alt)
qed

lemma illegal_sfn_chars:
  "chk_chr illegal_sfn (uint wc) \<noteq> 0 \<longleftrightarrow> unat (wc :: WCHAR) \<in> {0x2B, 0x2C, 0x3B, 0x3D, 0x5B, 0x5D}"
proof -
  define m where "m = unat wc"
  have u: "uint wc = int m" unfolding m_def by (rule uint_nat)
  show ?thesis unfolding u m_def [symmetric] by (simp add: illegal_sfn_def)
qed

lemma unat_ucast_small: "unat (w :: WCHAR) < 0x100 \<Longrightarrow> unat (ucast w :: BYTE) = unat w"
  by (simp add: unsigned_ucast_eq take_bit_nat_eq_self_iff)

lemma sfn_char_code:
  assumes "unat w = 0 \<or> (lfn_code (unat w) \<and> unat w \<noteq> 0x2E \<and> unat w < 0x100)"
    and "sfn_char w b cf = (w', b', cf')"
  shows "sfn_code (unat (ucast w' :: BYTE))"
proof -
  consider "w = 0 \<or> chk_chr illegal_sfn (uint w) \<noteq> 0"
    | "w \<noteq> 0" "chk_chr illegal_sfn (uint w) = 0" "IsLower w"
    | "w \<noteq> 0" "chk_chr illegal_sfn (uint w) = 0" "\<not> IsLower w" by blast
  then show ?thesis
  proof cases
    case 1
    then have "w' = 0x5F" using assms(2) by (simp add: sfn_char_def)
    then show ?thesis by (simp add: sfn_code_def lfn_code_def)
  next
    case 2
    then have w': "w' = w - 0x20" using assms(2) by (auto simp: sfn_char_def Let_def)
    have n: "97 \<le> unat w" "unat w \<le> 122" using 2(3) by (simp_all add: word_le_nat_alt)
    then have "unat w' = unat w - 32" unfolding w' by (subst unat_sub) (simp_all add: word_le_nat_alt)
    then show ?thesis using n by (simp add: unat_ucast_small sfn_code_def lfn_code_def) linarith
  next
    case 3
    then have w': "w' = w" using assms(2) by (auto simp: sfn_char_def Let_def split: if_splits)
    have "unat w \<noteq> 0" using 3(1) by (simp add: unat_eq_zero)
    then have "lfn_code (unat w)" "unat w \<noteq> 0x2E" "unat w < 0x100" using assms(1) by auto
    moreover have "unat w \<notin> {0x2B, 0x2C, 0x3B, 0x3D, 0x5B, 0x5D}" using 3(2) illegal_sfn_chars by blast
    moreover have "\<not> (0x61 \<le> unat w \<and> unat w \<le> 0x7A)" using 3(3) by (simp add: word_le_nat_alt)
    ultimately show ?thesis unfolding w' by (simp add: unat_ucast_small sfn_code_def)
  qed
qed

lemma sfn_loop_ok:
  assumes "sfn_loop lfn di si i ni b cf sfn = (ni', b', cf', sfn')"
    and "ni \<le> 11" and "length sfn = 12" and "\<forall>k < 11. sfn_code (unat (sfn ! k))" and "si \<le> m"
    and body: "at lfn m = 0" "\<forall>k < m. lfn_code (unat (lfn ! k))" "di \<le> m"
  shows "length sfn' = 12 \<and> (\<forall>k < 11. sfn_code (unat (sfn' ! k)))"
  using assms(1-5)
proof (induction "length lfn - si" arbitrary: si i ni b cf sfn rule: less_induct)
  case less
  define wc where "wc = at lfn si"
  define lossy where "lossy = cf OR (NS_LOSS OR NS_LFN)"
  have step: "sfn_loop lfn di si i ni b cf sfn =
     (if wc = 0 then (ni, b, cf, sfn)
      else if wc = 0x20 \<or> wc = 0x2E \<and> si + 1 \<noteq> di then sfn_loop lfn di (si + 1) i ni b lossy sfn
      else if i \<ge> ni \<or> si + 1 = di then
        (if ni = 11 then (ni, b, lossy, sfn)
         else
           let cf = (if si + 1 \<noteq> di then lossy else cf) in
           if si + 1 > di then (ni, b, cf, sfn)
           else sfn_loop lfn di di 8 11 (push_bit 2 b) cf sfn)
      else
        case sfn_oem wc cf of (wc, cf) \<Rightarrow>
        if wc \<ge> 0x100 then
          (if i \<ge> ni - 1 then sfn_loop lfn di (si + 1) ni ni b (cf OR (NS_LOSS OR NS_LFN)) sfn
           else sfn_loop lfn di (si + 1) (i + 2) ni b cf (sfn[i := ucast (drop_bit 8 wc), i + 1 := ucast wc]))
        else
          case sfn_char wc b cf of (wc, b, cf) \<Rightarrow>
          sfn_loop lfn di (si + 1) (i + 1) ni b cf (sfn[i := ucast wc]))"
    unfolding wc_def lossy_def by (subst sfn_loop.simps) (simp only: Let_def)
  show ?case
  proof (cases "wc = 0")
    case True
    then show ?thesis using step less.prems by simp
  next
    case wc: False
    then have si: "si < length lfn" "si < m"
      using body(1) less.prems(5) by (auto simp: wc_def at_def le_less split: if_splits)
    then have IH: "length sfn' = 12 \<and> (\<forall>k < 11. sfn_code (unat (sfn' ! k)))"
      if "sfn_loop lfn di s2 i2 n2 b2 c2 f2 = (ni', b', cf', sfn')" "si < s2" "n2 \<le> 11" "length f2 = 12"
        "\<forall>k < 11. sfn_code (unat (f2 ! k))" "s2 \<le> m" for s2 i2 n2 b2 c2 f2
      by (intro less.hyps [OF _ that(1,3-6)]) (use that(2) in simp)
    consider "wc = 0x20 \<or> wc = 0x2E \<and> si + 1 \<noteq> di" | "wc \<noteq> 0x20 \<and> (wc = 0x2E \<longrightarrow> si + 1 = di)" "i \<ge> ni \<or> si + 1 = di"
      | "wc \<noteq> 0x20" "wc \<noteq> 0x2E" "i < ni" "si + 1 \<noteq> di" by fastforce
    then show ?thesis
    proof cases
      case 1
      then show ?thesis using step wc less.prems IH [of "si + 1"] si by auto
    next
      case 2
      then show ?thesis using step wc less.prems IH [of di] body(3) by (auto simp: Let_def split: if_splits)
    next
      case 3
      obtain w c2 where o: "sfn_oem wc cf = (w, c2)" by fastforce
      obtain x b2 c3 where c: "sfn_char w b c2 = (x, b2, c3)" by (metis prod_cases3)
      have code: "lfn_code (unat wc)" using body(2) si by (simp add: wc_def at_def)
      have "unat wc \<noteq> 0x2E" using 3(2) word_unat_eq_iff [of wc "0x2E"] by simp
      moreover have "sfn_code (unat w) \<Longrightarrow> lfn_code (unat w) \<and> unat w \<noteq> 0x2E" by (simp add: sfn_code_def)
      ultimately have w: "unat w = 0 \<or> lfn_code (unat w) \<and> unat w \<noteq> 0x2E \<and> unat w < 0x100"
        using sfn_oem_code [OF code o] code by auto
      then have "\<not> w \<ge> 0x100" by (auto simp: word_le_nat_alt)
      then have "sfn_loop lfn di (si + 1) (i + 1) ni b2 c3 (sfn[i := ucast x]) = (ni', b', cf', sfn')"
        using step wc 3 o c less.prems(1) by simp
      moreover have "\<forall>k < 11. sfn_code (unat (sfn[i := ucast x] ! k))"
        using less.prems(3,4) sfn_char_code [OF w c] by (auto simp: list_update_nth_eq)
      ultimately show ?thesis using IH less.prems(2,3) si by simp
    qed
  qed
qed

lemma lead_spaces_le: "k < length xs \<Longrightarrow> xs ! k \<noteq> 0x20 \<Longrightarrow> lead_spaces xs \<le> k"
proof (induction xs arbitrary: k)
  case (Cons x xs)
  then show ?case by (cases k) auto
qed simp

lemma last_dot_le: "last_dot lfn d \<le> d"
  by (induction lfn d rule: last_dot.induct) auto

text \<open>C29: What \<open>create_name\<close> accepts. It answers \<open>FR_OK\<close> or \<open>FR_INVALID_NAME\<close>. After \<open>FR_OK\<close> the
  working buffer holds a terminated name of 1 to 255 units, every one of them legal in a long name
  and the last one neither a space nor a dot, and the 11 bytes of the short name are all legal in a
  short name, a first byte 0xE5 (the mark of a deleted entry) being stored as 0x05.\<close>

theorem created_name:
  assumes "create_name lfn sfn path = (res, lfn', sfn', path')"
    and "length lfn = FF_MAX_LFN + 1" and "length sfn = 12"
  shows "(res = FR_OK \<or> res = FR_INVALID_NAME) \<and> length lfn' = FF_MAX_LFN + 1 \<and> length sfn' = 12
    \<and> (res = FR_OK \<longrightarrow>
         (\<exists>n. is_name lfn' n \<and> 1 \<le> n \<and> (\<forall>k < n. lfn_code (unat (lfn' ! k)))
            \<and> lfn' ! (n - 1) \<noteq> 0x20 \<and> lfn' ! (n - 1) \<noteq> 0x2E)
         \<and> (sfn' ! 0 = RDDEM \<or> sfn_code (unat (sfn' ! 0)) \<and> sfn' ! 0 \<noteq> DDEM)
         \<and> (\<forall>k. 1 \<le> k \<and> k < 11 \<longrightarrow> sfn_code (unat (sfn' ! k))))"
proof -
  obtain r lfn1 where p: "pick_name lfn 0 path = (r, lfn1)" by fastforce
  note pk = pick_name_ok [OF p assms(2)]
  show ?thesis
  proof (cases r)
    case (Inl e)
    then show ?thesis using p pk assms by (auto simp: create_name_def)
  next
    case (Inr t)
    then obtain wc n q where r: "r = Inr (wc, n, q)" by (metis prod_cases3)
    define d where "d = snip lfn1 n"
    define lfn2 where "lfn2 = lfn1[d := 0]"
    have n: "n \<le> FF_MAX_LFN" "\<forall>k < n. lfn_code (unat (lfn1 ! k))" "length lfn1 = FF_MAX_LFN + 1"
      using pk r by simp_all
    have d: "d \<le> n" by (simp add: d_def snip_le)
    show ?thesis
    proof (cases "d = 0")
      case True
      then show ?thesis using p r n assms
        by (simp add: create_name_def Let_def d_def [symmetric] lfn2_def [symmetric]) (auto simp: lfn2_def)
    next
      case False
      have codes: "\<forall>k < d. lfn_code (unat (lfn2 ! k))" using n(2) d by (simp add: lfn2_def)
      have len: "length lfn2 = FF_MAX_LFN + 1" using n(3) by (simp add: lfn2_def)
      have endz: "lfn2 ! d = 0" using d n by (simp add: lfn2_def)
      have "lfn_code (unat x) \<Longrightarrow> x \<noteq> 0 \<and> x \<noteq> 0xFFFF" for x :: WCHAR by (auto simp: lfn_code_def)
      then have name: "is_name lfn2 d" using codes len endz d n(1) by (auto simp: is_name_def)
      have last: "lfn2 ! (d - 1) \<noteq> 0x20" "lfn2 ! (d - 1) \<noteq> 0x2E"
        using False snip_last [of lfn1 n] by (simp_all add: lfn2_def d_def)
      define si where "si = lead_spaces lfn2"
      define cf where "cf = (if si > 0 \<or> lfn2 ! si = 0x2E then (if wc < 0x20 then NS_LAST else 0) OR (NS_LOSS OR NS_LFN)
        else (if wc < 0x20 then NS_LAST else 0))"
      obtain ni b c s where lp: "sfn_loop lfn2 (last_dot lfn2 d) si 0 8 0 cf (mem_set sfn 0 0x20 11) = (ni, b, c, s)"
        by (metis prod_cases4)
      have blank: "\<forall>k < 11. sfn_code (unat (mem_set sfn 0 0x20 11 ! k))"
        using assms(3) by (simp add: mem_set_def do_count_def nth_mem_fill sfn_code_def lfn_code_def)
      have "d - 1 < length lfn2" using len d n(1) by simp
      then have "si \<le> d - 1" unfolding si_def using last(1) by (rule lead_spaces_le)
      then have "si \<le> d" by simp
      moreover have "at lfn2 d = 0" using endz by (simp add: at_def)
      ultimately have s: "length s = 12" "\<forall>k < 11. sfn_code (unat (s ! k))"
        using sfn_loop_ok [OF lp _ _ blank _ _ codes last_dot_le] assms(3) by simp_all
      have res: "res = FR_OK" "lfn' = lfn2"
        "sfn' = (if s ! 0 = DDEM then s[0 := RDDEM] else s)[NSFLAG := sfn_flags ni b c]"
        using assms(1) p r False lp
        by (simp_all add: create_name_def Let_def d_def [symmetric] lfn2_def [symmetric] si_def [symmetric]
            cf_def [symmetric] split: prod.splits)
      have "length sfn' = 12" "sfn' ! 0 = RDDEM \<or> sfn_code (unat (sfn' ! 0)) \<and> sfn' ! 0 \<noteq> DDEM"
        "\<forall>k. 1 \<le> k \<and> k < 11 \<longrightarrow> sfn_code (unat (sfn' ! k))"
        using s unfolding res(3) by (auto simp: list_update_nth_eq)
      then show ?thesis using res(1,2) len name codes last False by auto
    qed
  qed
qed

lemma create_name_ok:
  "pick_name lfn 0 path = (Inr (wc, n, q), lfn1) \<Longrightarrow> snip lfn1 n \<noteq> 0 \<Longrightarrow>
   \<exists>lfn' sfn' path'. create_name lfn sfn path = (FR_OK, lfn', sfn', path')"
  by (simp add: create_name_def Let_def split: prod.split)

theorem created_name_witness:
  "\<exists>lfn' sfn' path'. create_name (replicate 256 0) (replicate 12 0) [0x61, 0] = (FR_OK, lfn', sfn', path')
     \<and> (\<exists>n. is_name lfn' n \<and> 1 \<le> n) \<and> (\<forall>k. 1 \<le> k \<and> k < 11 \<longrightarrow> sfn_code (unat (sfn' ! k)))"
proof -
  have "pick_name (replicate 256 0) 0 [0x61, 0] = (Inr (0, 1, []), (replicate 256 0)[0 := 0x61])"
    by (simp add: pick_name.simps tchar2uni_def ff_oem2uni_def peek_def illegal_lfn_def Let_def)
  moreover have "snip ((replicate 256 0)[0 := 0x61]) 1 \<noteq> 0" by simp
  ultimately obtain l s p where "create_name (replicate 256 0) (replicate 12 0) [0x61, 0] = (FR_OK, l, s, p)"
    using create_name_ok by blast
  with created_name [OF this] show ?thesis by auto
qed

end
