(* ===== verification/Fat_Entry.thy ===== *)
theory Fat_Entry
  imports Fat_Dir Fat_Name
begin

text \<open>
  \<^verbatim>\<open>addon/fatfs/ff.c\<close>, lines 2326-2740 and 3022-3104: the entries of a directory. Objects are
  read (\<open>dir_read\<close>), found by name (\<open>dir_find\<close>), registered (\<open>dir_register\<close>) and removed
  (\<open>dir_remove\<close>); \<open>get_fileinfo\<close> reports an entry, \<open>follow_path\<close> walks a path. The state of
  a search is the directory object with the order number and checksum of the long name read so
  far.
\<close>

unbundle bit_operations_syntax

section \<open>Read an object\<close>

text \<open>One entry of the loop of \<open>dir_read\<close>: whether the loop is left, the directory object, the
  volume (its LFN buffer), and the state of the long-name sequence.\<close>

definition read_entry ::
    "vol \<Rightarrow> DIR \<Rightarrow> bool \<Rightarrow> BYTE \<Rightarrow> BYTE \<Rightarrow> BYTE \<Rightarrow> bool \<times> DIR \<times> vol \<times> BYTE \<times> BYTE" where
  "read_entry v dp label b ord chk =
     (let e = dir dp;
          a = win v ! (e + DIR_Attr) AND AM_MASK;
          dp = dp\<lparr>dobj := (dobj dp)\<lparr>attr := a\<rparr>\<rparr>
      in
      if b = DDEM \<or> b = 0x2E \<or> (a AND NOT AM_ARC = AM_VOL) \<noteq> label then (False, dp, v, 0xFF, chk)
      else if a = AM_LFN then
        (let first = (b AND LLEF \<noteq> 0);
             chk = (if first then win v ! (e + LDIR_Chksum) else chk);
             b = (if first then b AND NOT LLEF else b);
             ord = (if first then b else ord);
             dp = (if first then dp\<lparr>blk_ofs := dptr dp\<rparr> else dp)
         in
         if b = ord \<and> chk = win v ! (e + LDIR_Chksum) then
           (case pick_lfn (lfnbuf v) (win v) e of (ok, lfn) \<Rightarrow>
              (False, dp, v\<lparr>lfnbuf := lfn\<rparr>, if ok then ord - 1 else 0xFF, chk))
         else (False, dp, v, 0xFF, chk))
      else
        (True, if ord \<noteq> 0 \<or> chk \<noteq> sum_sfn (win v) e then dp\<lparr>blk_ofs := 0xFFFFFFFF\<rparr> else dp,
         v, ord, chk))"

partial_function (option) read_loop ::
    "vol \<Rightarrow> DIR \<Rightarrow> bool \<Rightarrow> FRESULT \<Rightarrow> BYTE \<Rightarrow> BYTE \<Rightarrow> (FRESULT \<times> DIR \<times> vol) option" where
  "read_loop v dp label res ord chk =
     (if dsect dp = 0 then Some (res, dp, v)
      else case move_window v (dsect dp) of (res, v) \<Rightarrow>
        if res \<noteq> FR_OK then Some (res, dp, v)
        else
          let b = win v ! (dir dp + DIR_Name) in
          if b = 0 then Some (FR_NO_FILE, dp, v)
          else case read_entry v dp label b ord chk of (found, dp, v, ord, chk) \<Rightarrow>
            if found then Some (res, dp, v)
            else do {
              (res, dp, v) \<leftarrow> dir_next v dp False;
              if res \<noteq> FR_OK then Some (res, dp, v) else read_loop v dp label res ord chk
            })"

definition dir_read :: "vol \<Rightarrow> DIR \<Rightarrow> bool \<Rightarrow> (FRESULT \<times> DIR \<times> vol) option" where
  "dir_read v dp label =
     do {
       (res, dp, v) \<leftarrow> read_loop v dp label FR_NO_FILE 0xFF 0xFF;
       Some (res, if res \<noteq> FR_OK then dp\<lparr>dsect := 0\<rparr> else dp, v)
     }"

section \<open>Find an object\<close>

text \<open>One entry of the loop of \<open>dir_find\<close>.\<close>

definition find_entry :: "vol \<Rightarrow> DIR \<Rightarrow> BYTE \<Rightarrow> BYTE \<Rightarrow> BYTE \<Rightarrow> bool \<times> DIR \<times> BYTE \<times> BYTE" where
  "find_entry v dp c ord chk =
     (let e = dir dp;
          a = win v ! (e + DIR_Attr) AND AM_MASK;
          dp = dp\<lparr>dobj := (dobj dp)\<lparr>attr := a\<rparr>\<rparr>
      in
      if c = DDEM \<or> a AND AM_VOL \<noteq> 0 \<and> a \<noteq> AM_LFN then
        (False, dp\<lparr>blk_ofs := 0xFFFFFFFF\<rparr>, 0xFF, chk)
      else if a = AM_LFN then
        (if fn dp ! NSFLAG AND NS_NOLFN = 0 then
           (let first = (c AND LLEF \<noteq> 0);
                chk = (if first then win v ! (e + LDIR_Chksum) else chk);
                c = (if first then c AND NOT LLEF else c);
                ord = (if first then c else ord);
                dp = (if first then dp\<lparr>blk_ofs := dptr dp\<rparr> else dp)
            in (False, dp,
                if c = ord \<and> chk = win v ! (e + LDIR_Chksum) \<and> cmp_lfn (lfnbuf v) (win v) e
                then ord - 1 else 0xFF, chk))
         else (False, dp, ord, chk))
      else if ord = 0 \<and> chk = sum_sfn (win v) e then (True, dp, ord, chk)
      else if fn dp ! NSFLAG AND NS_LOSS = 0 \<and> mem_cmp (win v) e (fn dp) 0 11 = 0 then
        (True, dp, ord, chk)
      else (False, dp\<lparr>blk_ofs := 0xFFFFFFFF\<rparr>, 0xFF, chk))"

partial_function (option) find_loop ::
    "vol \<Rightarrow> DIR \<Rightarrow> BYTE \<Rightarrow> BYTE \<Rightarrow> (FRESULT \<times> DIR \<times> vol) option" where
  "find_loop v dp ord chk =
     (case move_window v (dsect dp) of (res, v) \<Rightarrow>
      if res \<noteq> FR_OK then Some (res, dp, v)
      else
        let c = win v ! (dir dp + DIR_Name) in
        if c = 0 then Some (FR_NO_FILE, dp, v)
        else case find_entry v dp c ord chk of (found, dp, ord, chk) \<Rightarrow>
          if found then Some (res, dp, v)
          else do {
            (res, dp, v) \<leftarrow> dir_next v dp False;
            if res = FR_OK then find_loop v dp ord chk else Some (res, dp, v)
          })"

definition dir_find :: "vol \<Rightarrow> DIR \<Rightarrow> (FRESULT \<times> DIR \<times> vol) option" where
  "dir_find v dp =
     do {
       (res, dp, v) \<leftarrow> dir_sdi v dp 0;
       if res \<noteq> FR_OK then Some (res, dp, v)
       else find_loop v (dp\<lparr>blk_ofs := 0xFFFFFFFF\<rparr>) 0xFF 0xFF
     }"

section \<open>Register an object\<close>

text \<open>The search for a numbered name that is not taken: the number at which it ends, the result
  of the last look-up.\<close>

partial_function (option) numname_loop ::
    "vol \<Rightarrow> DIR \<Rightarrow> BYTE list \<Rightarrow> UINT \<Rightarrow> FRESULT \<Rightarrow> (UINT \<times> FRESULT \<times> DIR \<times> vol) option" where
  "numname_loop v dp sn n res =
     (if n < 100 then
        (let dp = dp\<lparr>fn := gen_numname (fn dp) sn (lfnbuf v) n\<rparr> in
         do {
           (res, dp, v) \<leftarrow> dir_find v dp;
           if res \<noteq> FR_OK then Some (n, res, dp, v) else numname_loop v dp sn (n + 1) res
         })
      else Some (n, res, dp, v))"

text \<open>Storing the entries of the long name, the last part first.\<close>

partial_function (option) put_lfns ::
    "vol \<Rightarrow> DIR \<Rightarrow> UINT \<Rightarrow> BYTE \<Rightarrow> (FRESULT \<times> DIR \<times> vol) option" where
  "put_lfns v dp nent chk =
     (case move_window v (dsect dp) of (res, v) \<Rightarrow>
      if res \<noteq> FR_OK then Some (res, dp, v)
      else
        let v = set_win v (put_lfn (lfnbuf v) (win v) (dir dp) (ucast nent) chk) in
        do {
          (res, dp, v) \<leftarrow> dir_next v dp False;
          (let nent = (if res = FR_OK then nent - 1 else nent) in
           if res = FR_OK \<and> nent \<noteq> 0 then put_lfns v dp nent chk else Some (res, dp, v))
        })"

definition put_sfn :: "vol \<Rightarrow> DIR \<Rightarrow> FRESULT \<times> vol" where
  "put_sfn v dp =
     (case move_window v (dsect dp) of (res, v) \<Rightarrow>
      if res = FR_OK then
        (let e = dir dp;
             w = mem_set (win v) e 0 SZDIRE;
             w = mem_cpy w (e + DIR_Name) (fn dp) 0 11;
             w = w[e + DIR_NTres := fn dp ! NSFLAG AND (NS_BODY OR NS_EXT)]
         in (res, set_win v w))
      else (res, v))"

definition lfn_len :: "WCHAR list \<Rightarrow> nat" where
  "lfn_len lfn = length (takeWhile (\<lambda>c. c \<noteq> 0) lfn)"

definition create_entries ::
    "vol \<Rightarrow> DIR \<Rightarrow> UINT \<Rightarrow> (FRESULT \<times> DIR \<times> vol) option" where
  "create_entries v dp nent =
     do {
       (res, dp, v) \<leftarrow> dir_alloc v dp nent;
       (res, dp, v) \<leftarrow>
         (if res = FR_OK \<and> nent - 1 \<noteq> 0 then
            do {
              (res, dp, v) \<leftarrow> dir_sdi v dp (dptr dp - (nent - 1) * SZDIRE);
              if res = FR_OK then put_lfns v dp (nent - 1) (sum_sfn (fn dp) 0) else Some (res, dp, v)
            }
          else Some (res, dp, v));
       (if res = FR_OK then (case put_sfn v dp of (res, v) \<Rightarrow> Some (res, dp, v))
        else Some (res, dp, v))
     }"

definition dir_register :: "vol \<Rightarrow> DIR \<Rightarrow> (FRESULT \<times> DIR \<times> vol) option" where
  "dir_register v dp =
     (if fn dp ! NSFLAG AND (NS_DOT OR NS_NONAME) \<noteq> 0 then Some (FR_INVALID_NAME, dp, v)
      else
        let nlen = of_nat (lfn_len (lfnbuf v));
            sn = mem_cpy (replicate 12 0) 0 (fn dp) 0 12;
            nent = (if sn ! NSFLAG AND NS_LFN \<noteq> 0 then (nlen + 12) div 13 + 1 else 1)
        in
        if sn ! NSFLAG AND NS_LOSS \<noteq> 0 then
          do {
            (n, res, dp, v) \<leftarrow> numname_loop v (dp\<lparr>fn := (fn dp)[NSFLAG := NS_NOLFN]\<rparr>) sn 1 FR_OK;
            if n = 100 then Some (FR_DENIED, dp, v)
            else if res \<noteq> FR_NO_FILE then Some (res, dp, v)
            else create_entries v (dp\<lparr>fn := (fn dp)[NSFLAG := sn ! NSFLAG]\<rparr>) nent
          }
        else create_entries v dp nent)"

section \<open>Remove an object\<close>

partial_function (option) remove_entries ::
    "vol \<Rightarrow> DIR \<Rightarrow> DWORD \<Rightarrow> (FRESULT \<times> DIR \<times> vol) option" where
  "remove_entries v dp lst =
     (case move_window v (dsect dp) of (res, v) \<Rightarrow>
      if res \<noteq> FR_OK then Some (res, dp, v)
      else
        let v = set_win v ((win v)[dir dp + DIR_Name := DDEM]) in
        if dptr dp \<ge> lst then Some (res, dp, v)
        else do {
          (res, dp, v) \<leftarrow> dir_next v dp False;
          if res = FR_OK then remove_entries v dp lst else Some (res, dp, v)
        })"

definition dir_remove :: "vol \<Rightarrow> DIR \<Rightarrow> (FRESULT \<times> DIR \<times> vol) option" where
  "dir_remove v dp =
     (let lst = dptr dp in
      do {
        (res, dp, v) \<leftarrow>
          (if blk_ofs dp = 0xFFFFFFFF then Some (FR_OK, dp, v) else dir_sdi v dp (blk_ofs dp));
        if res = FR_OK then
          do {
            (res, dp, v) \<leftarrow> remove_entries v dp lst;
            Some (if res = FR_NO_FILE then FR_INT_ERR else res, dp, v)
          }
        else Some (res, dp, v)
      })"

section \<open>File information\<close>

text \<open>The long name put out: the length written, a pending high surrogate, the buffer.\<close>

function info_lfn ::
    "WCHAR list \<Rightarrow> nat \<Rightarrow> nat \<Rightarrow> WCHAR \<Rightarrow> BYTE list \<Rightarrow> nat \<times> WCHAR \<times> BYTE list" where
  "info_lfn lfn si di hs fname =
     (let wc = at lfn si in
      if wc = 0 then (di, hs, fname)
      else
        let si = si + 1 in
        if hs = 0 \<and> IsSurrogate wc then info_lfn lfn si di wc fname
        else
          case put_utf (push_bit 16 (ucast hs) OR ucast wc) fname di (of_nat (FF_LFN_BUF - di)) of
            (n, fname) \<Rightarrow>
              if n = 0 then (0, hs, fname) else info_lfn lfn si (di + unat n) 0 fname)"
  by pat_completeness auto
termination
  by (relation "measure (\<lambda>(lfn, si, di, hs, fname). length lfn - si)") (auto simp: at_def split: if_splits)

declare info_lfn.simps [simp del]

text \<open>The short name put out: the loop over the 11 bytes of the entry.\<close>

fun info_sfn :: "BYTE list \<Rightarrow> nat \<Rightarrow> nat \<Rightarrow> nat \<Rightarrow> nat \<Rightarrow> BYTE list \<Rightarrow> nat \<times> BYTE list" where
  "info_sfn w e 0 si di alt = (di, alt)"
| "info_sfn w e (Suc n) si di alt =
     (let wc = w ! (e + si); si = si + 1 in
      if wc = 0x20 then info_sfn w e n si di alt
      else
        let wc = (if wc = RDDEM then DDEM else wc);
            (di, alt) = (if si = 9 \<and> di < FF_SFN_BUF then (di + 1, alt[di := 0x2E]) else (di, alt))
        in info_sfn w e n si (di + 1) (alt[di := wc]))"

text \<open>The short name copied to the long one with its case information: the length.\<close>

function info_copy :: "BYTE list \<Rightarrow> BYTE \<Rightarrow> nat \<Rightarrow> BYTE \<Rightarrow> BYTE list \<Rightarrow> nat \<times> BYTE list" where
  "info_copy alt nt si lcf fname =
     (let wc = at alt si in
      if wc = 0 then (si, fname)
      else
        let lcf = (if wc = 0x2E then NS_EXT else lcf);
            wc = (if IsUpper wc \<and> nt AND lcf \<noteq> 0 then wc + 0x20 else wc)
        in info_copy alt nt (si + 1) lcf (fname[si := wc]))"
  by pat_completeness auto
termination
  by (relation "measure (\<lambda>(alt, nt, si, lcf, fname). length alt - si)")
     (auto simp: at_def Let_def split: if_splits)

declare info_copy.simps [simp del]

definition info_names :: "vol \<Rightarrow> DIR \<Rightarrow> FILINFO \<Rightarrow> FILINFO" where
  "info_names v dp fno =
     (let e = dir dp;
          fname = (fno_fname fno)[0 := 0];
          fname = (if blk_ofs dp \<noteq> 0xFFFFFFFF then
                     (case info_lfn (lfnbuf v) 0 0 0 fname of (di, hs, fname) \<Rightarrow>
                        fname[(if hs \<noteq> 0 then 0 else di) := 0])
                   else fname)
      in case info_sfn (win v) e 11 0 0 (fno_altname fno) of (di, alt) \<Rightarrow>
        let alt = alt[di := 0] in
        if fname ! 0 = 0 then
          (let (n, fname) = (if di = 0 then (1, fname[0 := 0x3F])
                             else info_copy alt (win v ! (e + DIR_NTres)) 0 NS_BODY fname);
               fname = fname[n := 0];
               alt = (if win v ! (e + DIR_NTres) = 0 then alt[0 := 0] else alt)
           in fno\<lparr>fno_altname := alt, fno_fname := fname\<rparr>)
        else fno\<lparr>fno_altname := alt, fno_fname := fname\<rparr>)"

definition get_fileinfo :: "vol \<Rightarrow> DIR \<Rightarrow> FILINFO \<Rightarrow> FILINFO" where
  "get_fileinfo v dp fno =
     (if dsect dp = 0 then fno\<lparr>fno_fname := (fno_fname fno)[0 := 0]\<rparr>
      else
        let fno = info_names v dp fno; e = dir dp in
        fno\<lparr>fno_fattrib := win v ! (e + DIR_Attr),
            fno_fsize := ld_dword (win v) (e + DIR_FileSize),
            fno_ftime := ld_word (win v) (e + DIR_ModTime + 0),
            fno_fdate := ld_word (win v) (e + DIR_ModTime + 2)\<rparr>)"

section \<open>Follow a path\<close>

definition take_name :: "vol \<Rightarrow> DIR \<Rightarrow> BYTE list \<Rightarrow> FRESULT \<times> DIR \<times> vol \<times> BYTE list" where
  "take_name v dp path =
     (case create_name (lfnbuf v) (fn dp) path of (res, lfn, sfn, path) \<Rightarrow>
        (res, dp\<lparr>fn := sfn\<rparr>, v\<lparr>lfnbuf := lfn\<rparr>, path))"

partial_function (option) follow_loop ::
    "vol \<Rightarrow> DIR \<Rightarrow> BYTE list \<Rightarrow> (FRESULT \<times> DIR \<times> vol) option" where
  "follow_loop v dp path =
     (case take_name v dp path of (res, dp, v, path) \<Rightarrow>
      if res \<noteq> FR_OK then Some (res, dp, v)
      else do {
        (res, dp, v) \<leftarrow> dir_find v dp;
        (let ns = fn dp ! NSFLAG in
         if res \<noteq> FR_OK then
           Some (if res = FR_NO_FILE \<and> ns AND NS_LAST = 0 then FR_NO_PATH else res, dp, v)
         else if ns AND NS_LAST \<noteq> 0 then Some (res, dp, v)
         else if attr (dobj dp) AND AM_DIR = 0 then Some (FR_NO_PATH, dp, v)
         else follow_loop v
                (dp\<lparr>dobj := (dobj dp)\<lparr>sclust := ld_clust v (win v) (unat (dptr dp mod SS))\<rparr>\<rparr>) path)
      })"

definition follow_path :: "vol \<Rightarrow> DIR \<Rightarrow> BYTE list \<Rightarrow> (FRESULT \<times> DIR \<times> vol) option" where
  "follow_path v dp path =
     (let path = dropWhile is_sep path;
          dp = dp\<lparr>dobj := (dobj dp)\<lparr>sclust := 0\<rparr>\<rparr>
      in if peek path < 0x20 then
           dir_sdi v (dp\<lparr>fn := (fn dp)[NSFLAG := NS_NONAME]\<rparr>) 0
         else follow_loop v dp path)"

end
