(* ===== verification/Fat_Mount.thy ===== *)
theory Fat_Mount
  imports Fat_Entry
begin

text \<open>
  \<^verbatim>\<open>addon/fatfs/ff.c\<close>, lines 3183-3538, with the locks of \<^verbatim>\<open>addon/fatfs/syscall.cpp\<close>: finding and
  mounting the volume of a path (\<open>check_fs\<close>, \<open>find_volume\<close>, \<open>f_mount\<close>) and checking an object
  (\<open>validate\<close>). The state \<open>sys\<close> is the whole module: the table \<open>FatFs[]\<close>, the filesystem
  objects it points to, the drives, the mount counter \<open>Fsid\<close>, the heap and the clock. The
  analysis of the boot sector works on one volume; the lemmas show what an accepted volume
  satisfies.
\<close>

unbundle bit_operations_syntax

section \<open>The state of the module\<close>

record sys =
  FatFs :: "nat \<Rightarrow> nat option"
  objs :: "nat \<Rightarrow> FATFS"
  drives :: "nat \<Rightarrow> drive"
  Fsid :: WORD
  sys_heap :: "bool list"
  sys_now :: DWORD

text \<open>The volume of object \<open>k\<close>, and storing it back.\<close>

definition vol_of :: "sys \<Rightarrow> nat \<Rightarrow> vol" where
  "vol_of g k =
     FATFS.extend (objs g k) \<lparr>drv = drives g (unat (pdrv (objs g k))), heap = sys_heap g, now = sys_now g\<rparr>"

definition put_vol :: "sys \<Rightarrow> nat \<Rightarrow> vol \<Rightarrow> sys" where
  "put_vol g k v =
     g\<lparr>objs := (objs g)(k := FATFS.truncate v), drives := (drives g)(unat (pdrv v) := drv v),
       sys_heap := heap v\<rparr>"

text \<open>Request and release of the volume lock. The spin lock waits until it is free, so a request
  while it is held does not return.\<close>

definition ff_req_grant :: "bool \<Rightarrow> bool option" where
  "ff_req_grant held = (if held then None else Some True)"

definition ff_rel_grant :: "bool \<Rightarrow> bool" where
  "ff_rel_grant held = False"

definition lock_fs :: "sys \<Rightarrow> nat \<Rightarrow> sys option" where
  "lock_fs g k =
     do {
       held \<leftarrow> ff_req_grant (sobj (objs g k));
       Some (g\<lparr>objs := (objs g)(k := (objs g k)\<lparr>sobj := held\<rparr>)\<rparr>)
     }"

definition unlock_fs :: "sys \<Rightarrow> nat option \<Rightarrow> FRESULT \<Rightarrow> sys" where
  "unlock_fs g fs res =
     (case fs of
        None \<Rightarrow> g
      | Some k \<Rightarrow>
          if res \<noteq> FR_NOT_ENABLED \<and> res \<noteq> FR_INVALID_DRIVE \<and> res \<noteq> FR_TIMEOUT
          then g\<lparr>objs := (objs g)(k := (objs g k)\<lparr>sobj := ff_rel_grant (sobj (objs g k))\<rparr>)\<rparr>
          else g)"

section \<open>The boot sector\<close>

abbreviation (input) BS_JmpBoot :: nat where "BS_JmpBoot \<equiv> 0"
abbreviation (input) BS_FilSysType :: nat where "BS_FilSysType \<equiv> 54"
abbreviation (input) BS_FilSysType32 :: nat where "BS_FilSysType32 \<equiv> 82"
abbreviation (input) BPB_BytsPerSec :: nat where "BPB_BytsPerSec \<equiv> 11"
abbreviation (input) BPB_SecPerClus :: nat where "BPB_SecPerClus \<equiv> 13"
abbreviation (input) BPB_RsvdSecCnt :: nat where "BPB_RsvdSecCnt \<equiv> 14"
abbreviation (input) BPB_NumFATs :: nat where "BPB_NumFATs \<equiv> 16"
abbreviation (input) BPB_RootEntCnt :: nat where "BPB_RootEntCnt \<equiv> 17"
abbreviation (input) BPB_TotSec16 :: nat where "BPB_TotSec16 \<equiv> 19"
abbreviation (input) BPB_FATSz16 :: nat where "BPB_FATSz16 \<equiv> 22"
abbreviation (input) BPB_TotSec32 :: nat where "BPB_TotSec32 \<equiv> 32"
abbreviation (input) BPB_FATSz32 :: nat where "BPB_FATSz32 \<equiv> 36"
abbreviation (input) BPB_FSVer32 :: nat where "BPB_FSVer32 \<equiv> 42"
abbreviation (input) BPB_RootClus32 :: nat where "BPB_RootClus32 \<equiv> 44"
abbreviation (input) BPB_FSInfo32 :: nat where "BPB_FSInfo32 \<equiv> 48"
abbreviation (input) MBR_Table :: nat where "MBR_Table \<equiv> 446"
abbreviation (input) SZ_PTE :: nat where "SZ_PTE \<equiv> 16"
abbreviation (input) PTE_System :: nat where "PTE_System \<equiv> 4"
abbreviation (input) PTE_StLba :: nat where "PTE_StLba \<equiv> 8"

definition check_fs :: "vol \<Rightarrow> DWORD \<Rightarrow> BYTE \<times> vol" where
  "check_fs v sect =
     (case move_window (v\<lparr>wflag := 0, winsect := 0xFFFFFFFF\<rparr>) sect of (res, v) \<Rightarrow>
      if res \<noteq> FR_OK then (4, v)
      else if ld_word (win v) BS_55AA \<noteq> 0xAA55 then (3, v)
      else if (win v ! BS_JmpBoot = 0xE9 \<or> win v ! BS_JmpBoot = 0xEB \<or> win v ! BS_JmpBoot = 0xE8)
              \<and> (mem_cmp (win v) BS_FilSysType [0x46, 0x41, 0x54] 0 3 = 0
                 \<or> mem_cmp (win v) BS_FilSysType32 [0x46, 0x41, 0x54, 0x33, 0x32] 0 5 = 0)
           then (0, v)
      else (2, v))"

text \<open>The loop over the partitions: the start of the last one tried and what it holds.\<close>

fun find_partition :: "vol \<Rightarrow> DWORD list \<Rightarrow> DWORD \<Rightarrow> BYTE \<Rightarrow> DWORD \<times> BYTE \<times> vol" where
  "find_partition v [] bsect fmt = (bsect, fmt, v)"
| "find_partition v (b # br) bsect fmt =
     (case (if b \<noteq> 0 then check_fs v b else (3, v)) of (fmt, v) \<Rightarrow>
        if fmt \<ge> 2 then find_partition v br b fmt else (b, fmt, v))"

definition locate_volume :: "vol \<Rightarrow> DWORD \<times> BYTE \<times> vol" where
  "locate_volume v =
     (case check_fs v 0 of (fmt, v) \<Rightarrow>
      if fmt = 2 then
        (let pt = (\<lambda>i. MBR_Table + i * SZ_PTE);
             br = map (\<lambda>i. if win v ! (pt i + PTE_System) \<noteq> 0 then ld_dword (win v) (pt i + PTE_StLba) else 0)
                    [0, 1, 2, 3]
         in find_partition v br 0 fmt)
      else (0, fmt, v))"

text \<open>The analysis of the BIOS parameter block in the window, up to the FAT sub type. The fields
  are assigned as they are read, also when a later check fails.\<close>

definition fat_kind :: "DWORD \<Rightarrow> BYTE" where
  "fat_kind nclst =
     (let fmt = 0;
          fmt = (if nclst \<le> MAX_FAT32 then FS_FAT32 else fmt);
          fmt = (if nclst \<le> MAX_FAT16 then FS_FAT16 else fmt)
      in if nclst \<le> MAX_FAT12 then FS_FAT12 else fmt)"

definition read_bpb :: "vol \<Rightarrow> (FRESULT + DWORD \<times> DWORD \<times> DWORD \<times> BYTE) \<times> vol" where
  "read_bpb v =
     (if ld_word (win v) BPB_BytsPerSec \<noteq> SS then (Inl FR_NO_FILESYSTEM, v)
      else
      let fasize = ucast (ld_word (win v) BPB_FATSz16);
          fasize = (if fasize = 0 then ld_dword (win v) BPB_FATSz32 else fasize);
          v = v\<lparr>fsize := fasize\<rparr>;
          v = v\<lparr>n_fats := win v ! BPB_NumFATs\<rparr>
      in
      if n_fats v \<noteq> 1 \<and> n_fats v \<noteq> 2 then (Inl FR_NO_FILESYSTEM, v)
      else
      let fasize = fasize * ucast (n_fats v);
          v = v\<lparr>csize := ucast (win v ! BPB_SecPerClus)\<rparr>
      in
      if csize v = 0 \<or> csize v AND (csize v - 1) \<noteq> 0 then (Inl FR_NO_FILESYSTEM, v)
      else
      let v = v\<lparr>n_rootdir := ld_word (win v) BPB_RootEntCnt\<rparr> in
      if n_rootdir v mod (SS div SZDIRE) \<noteq> 0 then (Inl FR_NO_FILESYSTEM, v)
      else
      let tsect = ucast (ld_word (win v) BPB_TotSec16);
          tsect = (if tsect = 0 then ld_dword (win v) BPB_TotSec32 else tsect);
          nrsv = ucast (ld_word (win v) BPB_RsvdSecCnt) :: DWORD
      in
      if nrsv = 0 then (Inl FR_NO_FILESYSTEM, v)
      else
      let sysect = nrsv + fasize + ucast (n_rootdir v div (SS div SZDIRE)) in
      if tsect < sysect then (Inl FR_NO_FILESYSTEM, v)
      else
      let nclst = (tsect - sysect) div ucast (csize v) in
      if nclst = 0 then (Inl FR_NO_FILESYSTEM, v)
      else
      let fmt = fat_kind nclst in
      if fmt = 0 then (Inl FR_NO_FILESYSTEM, v)
      else (Inr (nrsv, fasize, sysect, fmt), v\<lparr>n_fatent := nclst + 2\<rparr>))"

text \<open>Boundaries and limits of the volume that starts at \<open>bsect\<close>.\<close>

definition set_limits ::
    "vol \<Rightarrow> DWORD \<Rightarrow> DWORD \<Rightarrow> DWORD \<Rightarrow> DWORD \<Rightarrow> BYTE \<Rightarrow> FRESULT \<times> vol" where
  "set_limits v bsect nrsv fasize sysect fmt =
     (let v = v\<lparr>volbase := bsect, fatbase := bsect + nrsv, database := bsect + sysect\<rparr> in
      if fmt = FS_FAT32 \<and> (ld_word (win v) BPB_FSVer32 \<noteq> 0 \<or> n_rootdir v \<noteq> 0) then (FR_NO_FILESYSTEM, v)
      else if fmt \<noteq> FS_FAT32 \<and> n_rootdir v = 0 then (FR_NO_FILESYSTEM, v)
      else
        let v = (if fmt = FS_FAT32 then v\<lparr>dirbase := ld_dword (win v) BPB_RootClus32\<rparr>
                 else v\<lparr>dirbase := fatbase v + fasize\<rparr>);
            szbfat = (if fmt = FS_FAT32 then n_fatent v * 4
                      else if fmt = FS_FAT16 then n_fatent v * 2
                      else n_fatent v * 3 div 2 + (n_fatent v AND 1))
        in
        if fsize v < (szbfat + (SS - 1)) div SS then (FR_NO_FILESYSTEM, v) else (FR_OK, v))"

text \<open>The FSInfo sector of a FAT32 volume.\<close>

definition load_fsinfo :: "vol \<Rightarrow> DWORD \<Rightarrow> BYTE \<Rightarrow> vol" where
  "load_fsinfo v bsect fmt =
     (let v = v\<lparr>free_clst := 0xFFFFFFFF, last_clst := 0xFFFFFFFF, fsi_flag := 0x80\<rparr> in
      if fmt = FS_FAT32 \<and> ld_word (win v) BPB_FSInfo32 = 1 then
        (case move_window v (bsect + 1) of (res, v) \<Rightarrow>
           if res = FR_OK then
             (let v = v\<lparr>fsi_flag := 0\<rparr> in
              if ld_word (win v) BS_55AA = 0xAA55 \<and> ld_dword (win v) FSI_LeadSig = 0x41615252
                 \<and> ld_dword (win v) FSI_StrucSig = 0x61417272
              then v\<lparr>free_clst := ld_dword (win v) FSI_Free_Count, last_clst := ld_dword (win v) FSI_Nxt_Free\<rparr>
              else v)
           else v)
      else v)"

text \<open>Mounting: the part of \<open>find_volume\<close> after the drive is bound to the object. \<open>fsid\<close> is the
  next mount ID.\<close>

definition mount_volume :: "vol \<Rightarrow> BYTE \<Rightarrow> WORD \<Rightarrow> FRESULT \<times> vol" where
  "mount_volume v mode fsid =
     (case disk_initialize (pdrv v) (drv v) of (st, d) \<Rightarrow>
      let v = v\<lparr>drv := d\<rparr> in
      if st AND STA_NOINIT \<noteq> 0 then (FR_NOT_READY, v)
      else if mode \<noteq> 0 \<and> st AND STA_PROTECT \<noteq> 0 then (FR_WRITE_PROTECTED, v)
      else
        case locate_volume v of (bsect, fmt, v) \<Rightarrow>
        if fmt = 4 then (FR_DISK_ERR, v)
        else if fmt \<ge> 2 then (FR_NO_FILESYSTEM, v)
        else
          case read_bpb v of
            (Inl e, v) \<Rightarrow> (e, v)
          | (Inr (nrsv, fasize, sysect, fmt), v) \<Rightarrow>
              case set_limits v bsect nrsv fasize sysect fmt of (res, v) \<Rightarrow>
              if res \<noteq> FR_OK then (res, v)
              else (FR_OK, (load_fsinfo v bsect fmt)\<lparr>fs_type := fmt, fs_id := fsid\<rparr>))"

text \<open>\<open>find_volume\<close>: the result, the object found, the rest of the path, and the module.\<close>

definition find_volume ::
    "sys \<Rightarrow> BYTE list option \<Rightarrow> BYTE \<Rightarrow> (FRESULT \<times> nat option \<times> BYTE list option \<times> sys) option" where
  "find_volume g path mode =
     (case get_ldnumber path of (ld, path) \<Rightarrow>
      if ld < 0 then Some (FR_INVALID_DRIVE, None, path, g)
      else
        case FatFs g (nat ld) of
          None \<Rightarrow> Some (FR_NOT_ENABLED, None, path, g)
        | Some k \<Rightarrow>
            do {
              g \<leftarrow> lock_fs g k;
              (let mode = mode AND NOT FA_READ;
                   v = vol_of g k;
                   st = disk_status (pdrv v) (drv v)
               in
               if fs_type v \<noteq> 0 \<and> st AND STA_NOINIT = 0 then
                 Some (if mode \<noteq> 0 \<and> st AND STA_PROTECT \<noteq> 0 then FR_WRITE_PROTECTED else FR_OK,
                       Some k, path, g)
               else
                 let g = g\<lparr>objs := (objs g)(k := (objs g k)\<lparr>fs_type := 0, pdrv := of_int ld\<rparr>)\<rparr>
                 in case mount_volume (vol_of g k) mode (Fsid g + 1) of (res, v) \<Rightarrow>
                   let g = put_vol g k v;
                       g = (if res = FR_OK then g\<lparr>Fsid := Fsid g + 1\<rparr> else g)
                   in Some (res, Some k, path, g))
            })"

section \<open>Objects\<close>

definition validate :: "sys \<Rightarrow> FFOBJID \<Rightarrow> (FRESULT \<times> nat option \<times> sys) option" where
  "validate g ob =
     (case obj_fs ob of
        None \<Rightarrow> Some (FR_INVALID_OBJECT, None, g)
      | Some k \<Rightarrow>
          if fs_type (objs g k) \<noteq> 0 \<and> obj_id ob = fs_id (objs g k) then
            do {
              g \<leftarrow> lock_fs g k;
              (let v = vol_of g k in
               if disk_status (pdrv v) (drv v) AND STA_NOINIT = 0 then Some (FR_OK, Some k, g)
               else Some (FR_INVALID_OBJECT, None, unlock_fs g (Some k) FR_OK))
            }
          else Some (FR_INVALID_OBJECT, None, g))"

section \<open>Mount and unmount\<close>

definition f_mount :: "sys \<Rightarrow> nat option \<Rightarrow> BYTE list option \<Rightarrow> BYTE \<Rightarrow> (FRESULT \<times> sys) option" where
  "f_mount g fs path opt =
     (case get_ldnumber path of (ld, _) \<Rightarrow>
      if ld < 0 then Some (FR_INVALID_DRIVE, g)
      else
        let g = (case FatFs g (nat ld) of
                   None \<Rightarrow> g
                 | Some c \<Rightarrow> g\<lparr>objs := (objs g)(c := (objs g c)\<lparr>fs_type := 0\<rparr>)\<rparr>);
            g = (case fs of
                   None \<Rightarrow> g
                 | Some k \<Rightarrow> g\<lparr>objs := (objs g)(k := (objs g k)\<lparr>fs_type := 0, sobj := False\<rparr>)\<rparr>);
            g = g\<lparr>FatFs := (FatFs g)(nat ld := fs)\<rparr>
        in
        if opt = 0 then Some (FR_OK, g)
        else do {
          (res, fs, _, g) \<leftarrow> find_volume g path 0;
          Some (res, unlock_fs g fs res)
        })"

end
