(* ===== verification/Fat_Time.thy ===== *)
theory Fat_Time
  imports Fat_Types
begin

text \<open>
  The time stamps: \<open>get_fattime\<close> of \<^verbatim>\<open>addon/fatfs/syscall.cpp\<close> with the calendar of
  \<^verbatim>\<open>lib/timer.cpp\<close>. The clock is a number of seconds since 1970; the loops only count down, so
  their quantities are kept as naturals. The lemmas show that the loops end within the
  tables, that the fields are in range, and that the date gives back the day it came from.
\<close>

unbundle bit_operations_syntax

definition IsLeapYear :: "nat \<Rightarrow> bool" where
  "IsLeapYear y = (if y mod 100 = 0 then y mod 400 = 0 else y mod 4 = 0)"

definition nDaysOfMonth :: "nat list" where
  "nDaysOfMonth = [31, 28, 31, 30, 31, 30, 31, 31, 30, 31, 30, 31]"

definition GetDaysOfMonth :: "nat \<Rightarrow> nat \<Rightarrow> nat" where
  "GetDaysOfMonth m y = (if m = 1 \<and> IsLeapYear y then 29 else nDaysOfMonth ! m)"

definition days_of_year :: "nat \<Rightarrow> nat" where
  "days_of_year y = (if IsLeapYear y then 366 else 365)"

text \<open>The two \<open>while (1)\<close> loops.\<close>

function year_loop :: "nat \<Rightarrow> nat \<Rightarrow> nat \<times> nat" where
  "year_loop t y = (if t < days_of_year y then (t, y) else year_loop (t - days_of_year y) (y + 1))"
  by pat_completeness auto
termination
  by (relation "measure fst") (auto simp: days_of_year_def)

declare year_loop.simps [simp del]

partial_function (option) month_loop :: "nat \<Rightarrow> nat \<Rightarrow> nat \<Rightarrow> (nat \<times> nat) option" where
  "month_loop t m y =
     (if t < GetDaysOfMonth m y then Some (t, m) else month_loop (t - GetDaysOfMonth m y) (m + 1) y)"

definition pack_fattime :: "nat \<Rightarrow> nat \<Rightarrow> nat \<Rightarrow> nat \<Rightarrow> nat \<Rightarrow> nat \<Rightarrow> DWORD" where
  "pack_fattime y m d h mi s =
     (let date = push_bit 9 (of_nat (y - 1980)) OR push_bit 5 (of_nat (m + 1)) OR of_nat d;
          time = push_bit 11 (of_nat h) OR push_bit 5 (of_nat mi) OR of_nat (s div 2)
      in push_bit 16 date OR time)"

definition get_fattime :: "DWORD \<Rightarrow> DWORD option" where
  "get_fattime now_s =
     (let t = unat now_s in
      if t = 0 then Some 0
      else
        let s = t mod 60; t = t div 60;
            mi = t mod 60; t = t div 60;
            h = t mod 24; t = t div 24
        in case year_loop t 1970 of (t, y) \<Rightarrow>
           if y < 1980 then Some 0
           else do {
             (t, m) \<leftarrow> month_loop t 0 y;
             Some (pack_fattime y m (t + 1) h mi s)
           })"

section \<open>Lemmas\<close>

text \<open>Days of the years before \<open>y\<close>, from year \<open>b\<close> on, and of the months before \<open>m\<close>.\<close>

definition days_before_year :: "nat \<Rightarrow> nat \<Rightarrow> nat" where
  "days_before_year b y = (\<Sum>i\<in>{b..<y}. days_of_year i)"

definition days_before_month :: "nat \<Rightarrow> nat \<Rightarrow> nat" where
  "days_before_month m y = (\<Sum>i<m. GetDaysOfMonth i y)"

lemma year_loop_days:
  "year_loop t b = (t', y) \<Longrightarrow> b \<le> y \<and> t' < days_of_year y \<and> t = days_before_year b y + t'"
proof (induction t b rule: year_loop.induct)
  case (1 t b)
  show ?case
  proof (cases "t < days_of_year b")
    case True
    with "1.prems" have "t' = t" "y = b" by (simp_all add: year_loop.simps [of t b])
    with True show ?thesis by (simp add: days_before_year_def)
  next
    case False
    with "1.prems" have "year_loop (t - days_of_year b) (b + 1) = (t', y)"
      by (simp add: year_loop.simps [of t b])
    from "1.IH" [OF False this] have IH: "b + 1 \<le> y" "t' < days_of_year y"
      "t - days_of_year b = days_before_year (b + 1) y + t'" by auto
    have "{b..<y} = insert b {b + 1..<y}" using IH(1) by auto
    then have "days_before_year b y = days_of_year b + days_before_year (b + 1) y"
      by (simp add: days_before_year_def)
    with IH False show ?thesis by simp
  qed
qed

lemma days_before_month_12: "days_before_month 12 y = days_of_year y"
  by (simp add: days_before_month_def days_of_year_def GetDaysOfMonth_def nDaysOfMonth_def
      eval_nat_numeral)

lemma month_loop_days:
  "m \<le> 12 \<Longrightarrow> days_before_month m y + t < days_before_month 12 y \<Longrightarrow>
   \<exists>t' m'. month_loop t m y = Some (t', m') \<and> m' < 12 \<and> t' < GetDaysOfMonth m' y \<and>
     days_before_month m y + t = days_before_month m' y + t'"
proof (induction "12 - m" arbitrary: m t)
  case 0
  then show ?case by simp
next
  case (Suc k)
  then have m: "m < 12" by simp
  have next_m: "days_before_month (m + 1) y = days_before_month m y + GetDaysOfMonth m y"
    by (simp add: days_before_month_def)
  show ?case
  proof (cases "t < GetDaysOfMonth m y")
    case True
    with m show ?thesis by (subst month_loop.simps) simp
  next
    case False
    have "\<exists>t' m'. month_loop (t - GetDaysOfMonth m y) (m + 1) y = Some (t', m') \<and> m' < 12 \<and>
      t' < GetDaysOfMonth m' y \<and>
      days_before_month (m + 1) y + (t - GetDaysOfMonth m y) = days_before_month m' y + t'"
      using Suc.hyps(2) Suc.prems False next_m m by (intro Suc.hyps(1)) auto
    with False next_m show ?thesis by (subst month_loop.simps) simp
  qed
qed

text \<open>The whole conversion: it returns, and from 1980 on the fields it packs are in range and
  denote the day of the clock.\<close>

lemma get_fattime_fields:
  assumes "unat t = 60 * 60 * 24 * n + r" and "r < 60 * 60 * 24" and "days_before_year 1970 1980 \<le> n"
  shows "\<exists>y m d. get_fattime t = Some (pack_fattime y m d (r div 3600) (r div 60 mod 60) (r mod 60))
    \<and> 1980 \<le> y \<and> m < 12 \<and> 1 \<le> d \<and> d \<le> GetDaysOfMonth m y
    \<and> n + 1 = days_before_year 1970 y + days_before_month m y + d"
proof -
  let ?u = "unat t"
  have "days_of_year 1970 \<le> days_before_year 1970 1980"
    unfolding days_before_year_def by (rule member_le_sum) auto
  then have "0 < days_before_year 1970 1980" by (simp add: days_of_year_def split: if_splits)
  then have u0: "?u \<noteq> 0" using assms by simp
  have u: "?u = r + 60 * (1440 * n)" using assms(1) by simp
  have d60: "?u div 60 = r div 60 + 60 * (24 * n)" unfolding u by simp
  have d3600: "?u div 60 div 60 = r div 3600 + 24 * n" unfolding d60 by (simp add: div_mult2_eq [symmetric])
  have h: "r div 3600 < 24" using assms(2) by (simp add: less_mult_imp_div_less)
  have parts: "?u mod 60 = r mod 60" "?u div 60 mod 60 = r div 60 mod 60"
    "?u div 60 div 60 mod 24 = r div 3600" "?u div 60 div 60 div 24 = n"
    unfolding d3600 unfolding d60 unfolding u mod_mult_self2 using h by simp_all
  obtain t' y where yl: "year_loop n 1970 = (t', y)" by fastforce
  note yd = year_loop_days [OF yl]
  have y: "1980 \<le> y"
  proof (rule ccontr)
    assume "\<not> 1980 \<le> y"
    then have "{1970..<y + 1} \<subseteq> {1970..<1980}" by auto
    then have "days_before_year 1970 (y + 1) \<le> days_before_year 1970 1980"
      unfolding days_before_year_def by (intro sum_mono2) auto
    moreover have "days_before_year 1970 (y + 1) = days_before_year 1970 y + days_of_year y"
      using yd by (simp add: days_before_year_def)
    ultimately show False using yd assms(3) by simp
  qed
  have "days_before_month 0 y + t' < days_before_month 12 y"
    using yd by (simp add: days_before_month_12) (simp add: days_before_month_def)
  from month_loop_days [OF _ this] obtain t'' m where ml: "month_loop t' 0 y = Some (t'', m)" "m < 12"
    "t'' < GetDaysOfMonth m y" "t' = days_before_month m y + t''"
    by (auto simp: days_before_month_def)
  have "get_fattime t = Some (pack_fattime y m (t'' + 1) (r div 3600) (r div 60 mod 60) (r mod 60))"
    using u0 yl y ml(1) by (simp add: get_fattime_def Let_def parts)
  then show ?thesis
    using y ml yd by (intro exI [of _ y] exI [of _ m] exI [of _ "t'' + 1"]) simp
qed

lemma get_fattime_returns: "\<exists>x. get_fattime t = Some x"
proof -
  obtain t' y where yl: "year_loop (unat t div 60 div 60 div 24) 1970 = (t', y)" by fastforce
  note yd = year_loop_days [OF yl]
  have "days_before_month 0 y + t' < days_before_month 12 y"
    using yd by (simp add: days_before_month_12) (simp add: days_before_month_def)
  from month_loop_days [OF _ this] show ?thesis
    using yl by (auto simp: get_fattime_def Let_def)
qed

section \<open>The fields of a time stamp\<close>

lemma or_plus:
  fixes a b :: DWORD
  assumes "unat b < 2 ^ k"
  shows "push_bit k a OR b = push_bit k a + b"
proof -
  have "take_bit k b = b" using assms by (simp add: word_unat_eq_iff unsigned_take_bit_eq take_bit_nat_eq_self)
  then have "bit b n \<Longrightarrow> n < k" for n by (metis bit_take_bit_iff)
  then show ?thesis by (intro disjunctive_add [symmetric]) (metis bit_push_bit_iff not_less)
qed

lemma unat_field:
  fixes a b :: DWORD
  assumes "unat a * 2 ^ k + unat b < 4294967296" and "unat b < 2 ^ k"
  shows "unat (push_bit k a OR b) = unat a * 2 ^ k + unat b"
proof -
  have "push_bit k a = of_nat (unat a * 2 ^ k)" by (simp add: push_bit_eq_mult)
  moreover have "unat (of_nat (unat a * 2 ^ k) :: DWORD) = unat a * 2 ^ k"
    using assms by (intro unat_of_nat_DWORD) simp
  ultimately have "unat (push_bit k a) = unat a * 2 ^ k" by argo
  then show ?thesis unfolding or_plus [OF assms(2)] using assms(1) by (simp add: unat_add_bound)
qed

lemma unat_pack_fattime:
  assumes "y - 1980 < 128" and "m < 15" and "d < 32" and "h < 32" and "mi < 64" and "s < 64"
  shows "unat (pack_fattime y m d h mi s) =
    (((y - 1980) * 16 + (m + 1)) * 32 + d) * 65536 + ((h * 64 + mi) * 32 + s div 2)"
proof -
  define time :: DWORD where "time = push_bit 11 (of_nat h) OR push_bit 5 (of_nat mi) OR of_nat (s div 2)"
  define date :: DWORD where "date = push_bit 9 (of_nat (y - 1980)) OR push_bit 5 (of_nat (m + 1)) OR of_nat d"
  have t: "unat time = h * 2048 + (mi * 32 + s div 2)"
    using assms by (simp add: time_def or.assoc unat_field unat_of_nat_DWORD)
  have d: "unat date = (y - 1980) * 512 + ((m + 1) * 32 + d)"
    using assms by (simp add: date_def or.assoc unat_field unat_of_nat_DWORD del: of_nat_add of_nat_Suc)
  have "unat (push_bit 16 date OR time) = unat date * 2 ^ 16 + unat time"
    using assms t d unat_field [of date 16 time] by simp
  moreover have "pack_fattime y m d h mi s = push_bit 16 date OR time"
    by (simp only: pack_fattime_def Let_def date_def time_def)
  ultimately show ?thesis by (simp add: t d)
qed

lemma days_before_year_min: "365 * (y - b) \<le> days_before_year b y"
proof -
  have "(\<Sum>i\<in>{b..<y}. 365) \<le> days_before_year b y"
    unfolding days_before_year_def by (rule sum_mono) (simp add: days_of_year_def)
  then show ?thesis by simp
qed

lemma GetDaysOfMonth_max: "m < 12 \<Longrightarrow> GetDaysOfMonth m y \<le> 31"
proof -
  assume "m < 12"
  then have "nDaysOfMonth ! m \<in> set nDaysOfMonth" by (intro nth_mem) (simp add: nDaysOfMonth_def)
  moreover have "\<forall>x \<in> set nDaysOfMonth. x \<le> 31" by (simp add: nDaysOfMonth_def)
  ultimately show ?thesis by (simp add: GetDaysOfMonth_def)
qed

lemma div_mod_step:
  fixes w q k r :: nat
  assumes "w = q * k + r" and "r < k"
  shows "w div k = q" "w mod k = r"
  using assms by simp_all

lemma even_part:
  fixes r a b c e :: nat
  shows "r = a * 60 + b \<Longrightarrow> b = 2 * c + e \<Longrightarrow> a * 60 + 2 * c = r - e"
  by simp

lemma pack_fields:
  fixes a m d h mi s :: nat
  assumes "w = ((a * 16 + m) * 32 + d) * 65536 + ((h * 64 + mi) * 32 + s)"
    and "m < 16" and "d < 32" and "h < 32" and "mi < 64" and "s < 32"
  shows "w div 2 ^ 25 = a" "w div 2 ^ 21 mod 16 = m" "w div 2 ^ 16 mod 32 = d"
    "w div 2 ^ 11 mod 32 = h" "w div 2 ^ 5 mod 64 = mi" "w mod 32 = s"
proof -
  have "w = ((((a * 16 + m) * 32 + d) * 32 + h) * 64 + mi) * 32 + s" using assms(1) by simp
  note s = div_mod_step [OF this assms(6)]
  note mi = div_mod_step [OF s(1) assms(5)]
  note h = div_mod_step [OF mi(1) assms(4)]
  note d = div_mod_step [OF h(1) assms(3)]
  note m = div_mod_step [OF d(1) assms(2)]
  have e: "w div 2 ^ 25 = w div 32 div 64 div 32 div 32 div 16" "w div 2 ^ 21 = w div 32 div 64 div 32 div 32"
    "w div 2 ^ 16 = w div 32 div 64 div 32" "w div 2 ^ 11 = w div 32 div 64" "w div 2 ^ 5 = w div 32"
    by (simp_all flip: div_mult2_eq)
  show "w div 2 ^ 25 = a" "w div 2 ^ 21 mod 16 = m" "w div 2 ^ 16 mod 32 = d"
    "w div 2 ^ 11 mod 32 = h" "w div 2 ^ 5 mod 64 = mi" "w mod 32 = s"
    unfolding e by (rule m d(2) h(2) mi(2) s(2))+
qed

text \<open>C39: The time stamp of a clock that shows \<open>r\<close> seconds of the \<open>n\<close>-th day since 1970, from
  1980 on, holds that time and that day of the Gregorian calendar: read back from its bit
  fields, month and day are in range, the years and months before them have \<open>n\<close> days together
  with the days of the month, and the time is that of the clock, to two seconds.\<close>

theorem time_stamp:
  assumes "unat t = 60 * 60 * 24 * n + r" and "r < 60 * 60 * 24" and "days_before_year 1970 1980 \<le> n"
  shows "\<exists>w. get_fattime t = Some w \<and>
    (let y = 1980 + unat w div 2 ^ 25; m = unat w div 2 ^ 21 mod 16; d = unat w div 2 ^ 16 mod 32;
         h = unat w div 2 ^ 11 mod 32; mi = unat w div 2 ^ 5 mod 64; s = unat w mod 32
     in 1 \<le> m \<and> m \<le> 12 \<and> 1 \<le> d \<and> d \<le> GetDaysOfMonth (m - 1) y
       \<and> n + 1 = days_before_year 1970 y + days_before_month (m - 1) y + d
       \<and> (h * 60 + mi) * 60 + 2 * s = r - r mod 2)"
proof -
  obtain y m d where g: "get_fattime t = Some (pack_fattime y m d (r div 3600) (r div 60 mod 60) (r mod 60))"
    "1980 \<le> y" "m < 12" "1 \<le> d" "d \<le> GetDaysOfMonth m y"
    "n + 1 = days_before_year 1970 y + days_before_month m y + d"
    using get_fattime_fields [OF assms] by blast
  have "n < 49711" using assms(1) unat_lt_pow32 [of t] by simp
  then have y: "y - 1980 < 128" using g(2,4,6) days_before_year_min [of y 1970] by simp
  have d: "d < 32" using g(3,5) GetDaysOfMonth_max [of m y] by simp
  define w where "w = pack_fattime y m d (r div 3600) (r div 60 mod 60) (r mod 60)"
  have w: "unat w = (((y - 1980) * 16 + (m + 1)) * 32 + d) * 65536 + ((r div 3600 * 64 + r div 60 mod 60) * 32 + r mod 60 div 2)"
    unfolding w_def using y g(3) d assms(2) by (intro unat_pack_fattime) auto
  have "m + 1 < 16" "r div 3600 < 32" "r div 60 mod 60 < 64" "r mod 60 div 2 < 32" using g(3) assms(2) by auto
  note f = pack_fields [OF w this(1) d this(2-4)]
  have "r = (r div 3600 * 60 + r div 60 mod 60) * 60 + r mod 60"
    by (simp add: div_mult2_eq [of r 60 60, simplified])
  moreover have "r mod 60 = 2 * (r mod 60 div 2) + r mod 60 mod 2" by simp
  ultimately have "(r div 3600 * 60 + r div 60 mod 60) * 60 + 2 * (r mod 60 div 2) = r - r mod 60 mod 2"
    by (rule even_part)
  then have "1 \<le> m + 1 \<and> m + 1 \<le> 12 \<and> 1 \<le> d \<and> d \<le> GetDaysOfMonth (m + 1 - 1) y
       \<and> n + 1 = days_before_year 1970 y + days_before_month (m + 1 - 1) y + d
       \<and> (r div 3600 * 60 + r div 60 mod 60) * 60 + 2 * (r mod 60 div 2) = r - r mod 2"
    using g(3-6) by (simp add: mod_mod_cancel)
  moreover have "1980 + unat w div 2 ^ 25 = y" unfolding f(1) using g(2) by simp
  moreover have "get_fattime t = Some w" using g(1) w_def by simp
  ultimately show ?thesis unfolding Let_def by (intro exI [of _ w]) (simp only: f)
qed

text \<open>Noon of the first of March 2020.\<close>

theorem time_stamp_witness:
  "\<exists>w. get_fattime 1583064000 = Some w \<and> 1 \<le> unat w div 2 ^ 21 mod 16 \<and>
     (unat w div 2 ^ 11 mod 32 * 60 + unat w div 2 ^ 5 mod 64) * 60 + 2 * (unat w mod 32) = 43200"
proof -
  have "days_before_year 1970 1980 \<le> (\<Sum>i\<in>{1970..<1980::nat}. 366)"
    unfolding days_before_year_def by (rule sum_mono) (simp add: days_of_year_def)
  then have "days_before_year 1970 1980 \<le> 18322" by simp
  moreover have "unat (1583064000 :: DWORD) = 60 * 60 * 24 * 18322 + 43200" "43200 < 60 * 60 * (24 :: nat)" by simp_all
  ultimately obtain w where "get_fattime 1583064000 = Some w"
    "1 \<le> unat w div 2 ^ 21 mod 16"
    "(unat w div 2 ^ 11 mod 32 * 60 + unat w div 2 ^ 5 mod 64) * 60 + 2 * (unat w mod 32) = 43200 - 43200 mod 2"
    using time_stamp [of 1583064000 18322 43200] unfolding Let_def by blast
  then show ?thesis by (intro exI [of _ w]) simp
qed

end
