(* ===== verification/Fat_File.thy ===== *)
theory Fat_File
  imports Fat_Mount Fat_Time
begin

text \<open>
  \<^verbatim>\<open>addon/fatfs/ff.c\<close>, lines 3541-4065, 4254-4406 and 4718-4764: files. Opening and creating
  (\<open>f_open\<close>), reading and writing through the one-sector buffer of the file object (\<open>f_read\<close>,
  \<open>f_write\<close>), flushing (\<open>f_sync\<close>, \<open>f_close\<close>), seeking (\<open>f_lseek\<close>) and truncating
  (\<open>f_truncate\<close>). Each function is its work on the locked volume, in the order of the source,
  inside the frame that finds, locks and unlocks the volume.
\<close>

unbundle bit_operations_syntax

section \<open>Frames\<close>

text \<open>\<open>INIT_NAMBUF\<close>: the LFN working buffer comes from the heap; its content is whatever the
  memory holds.\<close>

definition init_nambuf :: "vol \<Rightarrow> bool \<times> vol" where
  "init_nambuf v = ff_memalloc v"

text \<open>\<open>LEAVE_FF\<close>.\<close>

definition leave_ff :: "sys \<Rightarrow> nat option \<Rightarrow> FRESULT \<Rightarrow> 'a \<Rightarrow> (FRESULT \<times> 'a \<times> sys) option" where
  "leave_ff g fs res x = Some (res, x, unlock_fs g fs res)"

text \<open>Work on a volume that a path has found.\<close>

definition on_volume ::
    "sys \<Rightarrow> nat \<Rightarrow> (vol \<Rightarrow> (FRESULT \<times> 'a \<times> vol) option) \<Rightarrow> (FRESULT \<times> 'a \<times> sys) option" where
  "on_volume g k work = do { (res, x, v) \<leftarrow> work (vol_of g k); Some (res, x, put_vol g k v) }"

text \<open>The write-back of the dirty sector buffer of a file: whether it succeeded.\<close>

definition flush_buf :: "vol \<Rightarrow> FIL \<Rightarrow> bool \<times> FIL \<times> vol" where
  "flush_buf v fp =
     (if flag fp AND FA_DIRTY \<noteq> 0 then
        (case disk_write (pdrv v) (buf fp) (fsect fp) 1 (drv v) of (r, d) \<Rightarrow>
           if r \<noteq> RES_OK then (False, fp, v\<lparr>drv := d\<rparr>)
           else (True, fp\<lparr>flag := flag fp AND NOT FA_DIRTY\<rparr>, v\<lparr>drv := d\<rparr>))
      else (True, fp, v))"

text \<open>Filling the sector buffer from the drive; a failing transfer may have replaced a part.\<close>

definition fill_buf :: "vol \<Rightarrow> FIL \<Rightarrow> DWORD \<Rightarrow> bool \<times> FIL \<times> vol" where
  "fill_buf v fp sect =
     (case disk_read (pdrv v) sect 1 (drv v) of (r, data, d) \<Rightarrow>
        (r = RES_OK, fp\<lparr>buf := put_seg (buf fp) 0 data\<rparr>, v\<lparr>drv := d\<rparr>))"

section \<open>Open or create\<close>

text \<open>Resetting the directory entry of a file that is created or overwritten.\<close>

definition open_reset :: "vol \<Rightarrow> DIR \<Rightarrow> (FRESULT \<times> vol) option" where
  "open_reset v dj =
     do {
     tm \<leftarrow> get_fattime (now v);
     (let e = dir dj;
          cl = ld_clust v (win v) e;
          w = st_dword (win v) (e + DIR_CrtTime) tm;
          w = w[e + DIR_Attr := AM_ARC];
          w = st_clust v w e 0;
          w = st_dword w (e + DIR_FileSize) 0;
          v = set_win v w
      in
      if cl \<noteq> 0 then
        (let dw = winsect v in
         do {
           (res, v) \<leftarrow> remove_chain v cl 0;
           (if res = FR_OK then
              (case move_window v dw of (res, v) \<Rightarrow> Some (res, v\<lparr>last_clst := cl - 1\<rparr>))
            else Some (res, v))
         })
      else Some (FR_OK, v))
     }"

text \<open>The directory phase of \<open>f_open\<close>: the result, the mode and the directory object.\<close>

definition open_entry ::
    "vol \<Rightarrow> DIR \<Rightarrow> BYTE \<Rightarrow> FRESULT \<Rightarrow> (FRESULT \<times> BYTE \<times> DIR \<times> vol) option" where
  "open_entry v dj mode res =
     (if mode AND (FA_CREATE_ALWAYS OR FA_OPEN_ALWAYS OR FA_CREATE_NEW) \<noteq> 0 then
        do {
          (res, mode, dj, v) \<leftarrow>
            (if res \<noteq> FR_OK then
               do {
                 (res, dj, v) \<leftarrow> (if res = FR_NO_FILE then dir_register v dj else Some (res, dj, v));
                 Some (res, mode OR FA_CREATE_ALWAYS, dj, v)
               }
             else
               Some (if attr (dobj dj) AND (AM_RDO OR AM_DIR) \<noteq> 0 then FR_DENIED
                     else if mode AND FA_CREATE_NEW \<noteq> 0 then FR_EXIST else res, mode, dj, v));
          (if res = FR_OK \<and> mode AND FA_CREATE_ALWAYS \<noteq> 0 then
             do { (res, v) \<leftarrow> open_reset v dj; Some (res, mode, dj, v) }
           else Some (res, mode, dj, v))
        }
      else
        Some (if res = FR_OK then
                (if attr (dobj dj) AND AM_DIR \<noteq> 0 then FR_NO_FILE
                 else if mode AND FA_WRITE \<noteq> 0 \<and> attr (dobj dj) AND AM_RDO \<noteq> 0 then FR_DENIED
                 else res)
              else res, mode, dj, v))"

text \<open>Seeking to the end of a file opened for appending: the loop over the cluster chain.\<close>

partial_function (option) append_loop ::
    "vol \<Rightarrow> DWORD \<Rightarrow> FSIZE \<Rightarrow> DWORD \<Rightarrow> (FRESULT \<times> DWORD \<times> FSIZE \<times> vol) option" where
  "append_loop v bcs ofs clst =
     (if ofs > bcs then
        (case get_fat v clst of (clst, v) \<Rightarrow>
           let res = (if clst \<le> 1 then FR_INT_ERR else FR_OK);
               res = (if clst = 0xFFFFFFFF then FR_DISK_ERR else res)
           in if res = FR_OK then append_loop v bcs (ofs - bcs) clst else Some (res, clst, ofs - bcs, v))
      else Some (FR_OK, clst, ofs, v))"

definition open_append :: "vol \<Rightarrow> FIL \<Rightarrow> (FRESULT \<times> FIL \<times> vol) option" where
  "open_append v fp =
     (let fp = fp\<lparr>fptr := objsize (fobj fp)\<rparr> in
      do {
        (res, clst, ofs, v) \<leftarrow>
          append_loop v (ucast (csize v) * SS) (objsize (fobj fp)) (sclust (fobj fp));
        (let fp = fp\<lparr>fclust := clst\<rparr> in
         if res = FR_OK \<and> ofs mod SS \<noteq> 0 then
           (let sc = clst2sect v clst in
            if sc = 0 then Some (FR_INT_ERR, fp, v)
            else
              let fp = fp\<lparr>fsect := sc + ofs div SS\<rparr> in
              case fill_buf v fp (fsect fp) of (ok, fp, v) \<Rightarrow>
                Some (if ok then res else FR_DISK_ERR, fp, v))
         else Some (res, fp, v))
      })"

text \<open>Setting up the file object from the entry in the window.\<close>

definition open_file :: "vol \<Rightarrow> nat \<Rightarrow> FIL \<Rightarrow> DIR \<Rightarrow> BYTE \<Rightarrow> (FRESULT \<times> FIL \<times> vol) option" where
  "open_file v k fp dj mode =
     (let mode = (if mode AND FA_CREATE_ALWAYS \<noteq> 0 then mode OR FA_MODIFIED else mode);
          fp = fp\<lparr>dir_sect := winsect v, dir_ptr := dir dj\<rparr>;
          fp = fp\<lparr>fobj := (fobj fp)\<lparr>sclust := ld_clust v (win v) (dir dj),
                                    objsize := ld_dword (win v) (dir dj + DIR_FileSize),
                                    obj_fs := Some k, obj_id := fs_id v\<rparr>,
                  flag := mode, err := FR_OK, fsect := 0, fptr := 0,
                  buf := mem_set (buf fp) 0 0 SS\<rparr>
      in
      if mode AND FA_SEEKEND \<noteq> 0 \<and> objsize (fobj fp) > 0 then open_append v fp
      else Some (FR_OK, fp, v))"

definition open_work ::
    "nat \<Rightarrow> FIL \<Rightarrow> DIR \<Rightarrow> BYTE list \<Rightarrow> BYTE \<Rightarrow> vol \<Rightarrow> (FRESULT \<times> FIL \<times> vol) option" where
  "open_work k fp dj path mode v =
     do {
       (res, dj, v) \<leftarrow> follow_path v dj path;
       (let res = (if res = FR_OK \<and> fn dj ! NSFLAG AND NS_NONAME \<noteq> 0 then FR_INVALID_NAME else res) in
        do {
          (res, mode, dj, v) \<leftarrow> open_entry v dj mode res;
          if res = FR_OK then open_file v k fp dj mode else Some (res, fp, v)
        })
     }"

text \<open>\<open>f_open\<close>. \<open>dj\<close> is the uninitialised local directory object, and \<open>fp = None\<close> a null
  pointer. When the name buffer cannot be allocated the function
  leaves at once and the file object stays as it was.\<close>

definition f_open ::
    "sys \<Rightarrow> FIL option \<Rightarrow> DIR \<Rightarrow> BYTE list option \<Rightarrow> BYTE
     \<Rightarrow> (FRESULT \<times> FIL option \<times> sys) option" where
  "f_open g fp dj path mode =
     (case fp of
        None \<Rightarrow> Some (FR_INVALID_OBJECT, None, g)
      | Some fp \<Rightarrow>
          let mode = mode AND (FA_READ OR FA_WRITE OR FA_CREATE_ALWAYS OR FA_CREATE_NEW
                               OR FA_OPEN_ALWAYS OR FA_OPEN_APPEND) in
          do {
            (res, fs, path, g) \<leftarrow> find_volume g path mode;
            (case (res, fs) of
               (FR_OK, Some k) \<Rightarrow>
                 (case init_nambuf (vol_of g k) of (ok, v) \<Rightarrow>
                  let g = put_vol g k v in
                  if \<not> ok then leave_ff g fs FR_NOT_ENOUGH_CORE (Some fp)
                  else do {
                    (res, fp, g) \<leftarrow>
                      on_volume g k (open_work k fp dj (the path) mode);
                    leave_ff g fs res
                      (Some (if res \<noteq> FR_OK then fp\<lparr>fobj := (fobj fp)\<lparr>obj_fs := None\<rparr>\<rparr> else fp))
                  })
             | _ \<Rightarrow> leave_ff g fs res (Some (fp\<lparr>fobj := (fobj fp)\<lparr>obj_fs := None\<rparr>\<rparr>)))
          })"

section \<open>Read\<close>

text \<open>Access checks shared by \<open>f_read\<close>, \<open>f_write\<close> and \<open>f_truncate\<close>: \<open>Inl\<close> leaves.\<close>

definition enter_file ::
    "sys \<Rightarrow> FIL \<Rightarrow> BYTE \<Rightarrow> ((FRESULT + nat) \<times> nat option \<times> sys) option" where
  "enter_file g fp acc =
     do {
       (res, fs, g) \<leftarrow> validate g (fobj fp);
       (if res \<noteq> FR_OK then Some (Inl res, fs, g)
        else if err fp \<noteq> FR_OK then Some (Inl (err fp), fs, g)
        else if flag fp AND acc = 0 then Some (Inl FR_DENIED, fs, g)
        else Some (Inr (the fs), fs, g))
     }"

text \<open>Finding the sector of the file pointer at a sector boundary: the cluster step.\<close>

definition read_cluster :: "vol \<Rightarrow> FIL \<Rightarrow> (FRESULT \<times> FIL \<times> vol)" where
  "read_cluster v fp =
     (case (if fptr fp = 0 then (sclust (fobj fp), v) else get_fat v (fclust fp)) of (clst, v) \<Rightarrow>
      if clst < 2 then (FR_INT_ERR, fp, v)
      else if clst = 0xFFFFFFFF then (FR_DISK_ERR, fp, v)
      else (FR_OK, fp\<lparr>fclust := clst\<rparr>, v))"

text \<open>One round of the loop of \<open>f_read\<close>: the number of bytes moved, the user's buffer from its
  current position \<open>pos\<close> on, the file object, the volume; \<open>Inl\<close> is an \<open>ABORT\<close>.\<close>

definition read_partial :: "FIL \<Rightarrow> BYTE list \<Rightarrow> nat \<Rightarrow> UINT \<Rightarrow> UINT \<times> BYTE list" where
  "read_partial fp buff pos btr =
     (let rcnt = SS - fptr fp mod SS;
          rcnt = (if rcnt > btr then btr else rcnt)
      in (rcnt, mem_cpy buff pos (buf fp) (unat (fptr fp mod SS)) (unat rcnt)))"

definition read_direct ::
    "vol \<Rightarrow> FIL \<Rightarrow> BYTE list \<Rightarrow> nat \<Rightarrow> DWORD \<Rightarrow> UINT \<Rightarrow> bool \<times> BYTE list \<times> vol" where
  "read_direct v fp buff pos sect cc =
     (case disk_read (pdrv v) sect cc (drv v) of (r, data, d) \<Rightarrow>
      let buff = put_seg buff pos data; v = v\<lparr>drv := d\<rparr> in
      if r \<noteq> RES_OK then (False, buff, v)
      else
        (True,
         if flag fp AND FA_DIRTY \<noteq> 0 \<and> fsect fp - sect < cc
         then mem_cpy buff (pos + unat ((fsect fp - sect) * SS)) (buf fp) 0 SS else buff,
         v))"

definition read_round ::
    "vol \<Rightarrow> FIL \<Rightarrow> BYTE list \<Rightarrow> nat \<Rightarrow> UINT \<Rightarrow> (FRESULT + UINT) \<times> FIL \<times> BYTE list \<times> vol" where
  "read_round v fp buff pos btr =
     (if fptr fp mod SS = 0 then
        (let csect = (fptr fp div SS) AND (ucast (csize v) - 1) in
         case (if csect = 0 then read_cluster v fp else (FR_OK, fp, v)) of (res, fp, v) \<Rightarrow>
         if res \<noteq> FR_OK then (Inl res, fp, buff, v)
         else
         let sect = clst2sect v (fclust fp) in
         if sect = 0 then (Inl FR_INT_ERR, fp, buff, v)
         else
         let sect = sect + csect; cc = btr div SS in
         if cc > 0 then
           (let cc = (if csect + cc > ucast (csize v) then ucast (csize v) - csect else cc) in
            case read_direct v fp buff pos sect cc of (ok, buff, v) \<Rightarrow>
            if \<not> ok then (Inl FR_DISK_ERR, fp, buff, v) else (Inr (SS * cc), fp, buff, v))
         else if fsect fp \<noteq> sect then
           (case flush_buf v fp of (ok, fp, v) \<Rightarrow>
            if \<not> ok then (Inl FR_DISK_ERR, fp, buff, v)
            else
            case fill_buf v fp sect of (ok, fp, v) \<Rightarrow>
            if \<not> ok then (Inl FR_DISK_ERR, fp, buff, v)
            else
              let fp = fp\<lparr>fsect := sect\<rparr> in
              case read_partial fp buff pos btr of (rcnt, buff) \<Rightarrow> (Inr rcnt, fp, buff, v))
         else
           case read_partial fp buff pos btr of (rcnt, buff) \<Rightarrow> (Inr rcnt, fp, buff, v))
      else
        case read_partial fp buff pos btr of (rcnt, buff) \<Rightarrow> (Inr rcnt, fp, buff, v))"

text \<open>The loop: \<open>br\<close> bytes are read so far.\<close>

partial_function (option) read_loop_f ::
    "vol \<Rightarrow> FIL \<Rightarrow> BYTE list \<Rightarrow> UINT \<Rightarrow> UINT \<Rightarrow> (FRESULT \<times> (FIL \<times> BYTE list \<times> UINT) \<times> vol) option" where
  "read_loop_f v fp buff br btr =
     (if btr = 0 then Some (FR_OK, (fp, buff, br), v)
      else case read_round v fp buff (unat br) btr of
        (Inl res, fp, buff, v) \<Rightarrow> Some (res, (fp\<lparr>err := res\<rparr>, buff, br), v)
      | (Inr rcnt, fp, buff, v) \<Rightarrow>
          read_loop_f v (fp\<lparr>fptr := fptr fp + rcnt\<rparr>) buff (br + rcnt) (btr - rcnt))"

definition read_work ::
    "FIL \<Rightarrow> BYTE list \<Rightarrow> UINT \<Rightarrow> vol \<Rightarrow> (FRESULT \<times> (FIL \<times> BYTE list \<times> UINT) \<times> vol) option" where
  "read_work fp buff btr v =
     (let remain = objsize (fobj fp) - fptr fp;
          btr = (if btr > remain then remain else btr)
      in read_loop_f v fp buff 0 btr)"

definition f_read ::
    "sys \<Rightarrow> FIL \<Rightarrow> BYTE list \<Rightarrow> UINT \<Rightarrow> (FRESULT \<times> (FIL \<times> BYTE list \<times> UINT) \<times> sys) option" where
  "f_read g fp buff btr =
     do {
       (r, fs, g) \<leftarrow> enter_file g fp FA_READ;
       (case r of
          Inl res \<Rightarrow> leave_ff g fs res (fp, buff, 0)
        | Inr k \<Rightarrow> do {
            (res, x, g) \<leftarrow> on_volume g k (read_work fp buff btr);
            leave_ff g fs res x
          })
     }"

section \<open>Write\<close>

text \<open>The cluster step of a write: \<open>Inl\<close> an \<open>ABORT\<close>, \<open>Inr None\<close> the disk is full.\<close>

definition write_cluster :: "vol \<Rightarrow> FIL \<Rightarrow> ((FRESULT + unit option) \<times> FIL \<times> vol) option" where
  "write_cluster v fp =
     do {
       (clst, v) \<leftarrow>
         (if fptr fp = 0 then
            (if sclust (fobj fp) = 0 then create_chain v 0 else Some (sclust (fobj fp), v))
          else create_chain v (fclust fp));
       (if clst = 0 then Some (Inr None, fp, v)
        else if clst = 1 then Some (Inl FR_INT_ERR, fp, v)
        else if clst = 0xFFFFFFFF then Some (Inl FR_DISK_ERR, fp, v)
        else
          let fp = fp\<lparr>fclust := clst\<rparr>;
              fp = (if sclust (fobj fp) = 0 then fp\<lparr>fobj := (fobj fp)\<lparr>sclust := clst\<rparr>\<rparr> else fp)
          in Some (Inr (Some ()), fp, v))
     }"

definition write_partial :: "FIL \<Rightarrow> BYTE list \<Rightarrow> nat \<Rightarrow> UINT \<Rightarrow> UINT \<times> FIL" where
  "write_partial fp buff pos btw =
     (let wcnt = SS - fptr fp mod SS;
          wcnt = (if wcnt > btw then btw else wcnt)
      in (wcnt, fp\<lparr>buf := mem_cpy (buf fp) (unat (fptr fp mod SS)) buff pos (unat wcnt),
                   flag := flag fp OR FA_DIRTY\<rparr>))"

text \<open>Whole sectors written from the user's buffer; the sector buffer follows if it is among
  them.\<close>

definition write_direct ::
    "vol \<Rightarrow> FIL \<Rightarrow> BYTE list \<Rightarrow> nat \<Rightarrow> DWORD \<Rightarrow> UINT \<Rightarrow> bool \<times> FIL \<times> vol" where
  "write_direct v fp buff pos sect cc =
     (case disk_write (pdrv v) (drop pos buff) sect cc (drv v) of (r, d) \<Rightarrow>
      let v = v\<lparr>drv := d\<rparr> in
      if r \<noteq> RES_OK then (False, fp, v)
      else
        (True,
         if fsect fp - sect < cc
         then fp\<lparr>buf := mem_cpy (buf fp) 0 buff (pos + unat ((fsect fp - sect) * SS)) SS,
                 flag := flag fp AND NOT FA_DIRTY\<rparr>
         else fp,
         v))"

text \<open>The sector step of a write at a sector boundary: \<open>Inr\<close> the bytes moved.\<close>

definition write_sector ::
    "vol \<Rightarrow> FIL \<Rightarrow> BYTE list \<Rightarrow> nat \<Rightarrow> UINT \<Rightarrow> UINT \<Rightarrow> (FRESULT + UINT) \<times> FIL \<times> vol" where
  "write_sector v fp buff pos btw csect =
     (case flush_buf v fp of (ok, fp, v) \<Rightarrow>
      if \<not> ok then (Inl FR_DISK_ERR, fp, v)
      else
      let sect = clst2sect v (fclust fp) in
      if sect = 0 then (Inl FR_INT_ERR, fp, v)
      else
      let sect = sect + csect; cc = btw div SS in
      if cc > 0 then
        (let cc = (if csect + cc > ucast (csize v) then ucast (csize v) - csect else cc) in
         case write_direct v fp buff pos sect cc of (ok, fp, v) \<Rightarrow>
         if \<not> ok then (Inl FR_DISK_ERR, fp, v) else (Inr (SS * cc), fp, v))
      else
        case (if fsect fp \<noteq> sect \<and> fptr fp < objsize (fobj fp) then fill_buf v fp sect
              else (True, fp, v)) of (ok, fp, v) \<Rightarrow>
        if \<not> ok then (Inl FR_DISK_ERR, fp, v)
        else
          case write_partial (fp\<lparr>fsect := sect\<rparr>) buff pos btw of (wcnt, fp) \<Rightarrow> (Inr wcnt, fp, v))"

text \<open>One round of the loop of \<open>f_write\<close>: \<open>Inr None\<close> leaves the loop, \<open>Inr (Some n)\<close> has moved
  \<open>n\<close> bytes.\<close>

definition write_round ::
    "vol \<Rightarrow> FIL \<Rightarrow> BYTE list \<Rightarrow> nat \<Rightarrow> UINT \<Rightarrow> ((FRESULT + UINT option) \<times> FIL \<times> vol) option" where
  "write_round v fp buff pos btw =
     (if fptr fp mod SS = 0 then
        (let csect = (fptr fp div SS) AND (ucast (csize v) - 1) in
         do {
           (r, fp, v) \<leftarrow> (if csect = 0 then write_cluster v fp else Some (Inr (Some ()), fp, v));
           (case r of
              Inl res \<Rightarrow> Some (Inl res, fp, v)
            | Inr None \<Rightarrow> Some (Inr None, fp, v)
            | Inr (Some _) \<Rightarrow>
                (case write_sector v fp buff pos btw csect of
                   (Inl res, fp, v) \<Rightarrow> Some (Inl res, fp, v)
                 | (Inr n, fp, v) \<Rightarrow> Some (Inr (Some n), fp, v)))
         })
      else
        case write_partial fp buff pos btw of (wcnt, fp) \<Rightarrow> Some (Inr (Some wcnt), fp, v))"

definition advance :: "FIL \<Rightarrow> UINT \<Rightarrow> FIL" where
  "advance fp wcnt =
     (let fp = fp\<lparr>fptr := fptr fp + wcnt\<rparr> in
      fp\<lparr>fobj := (fobj fp)\<lparr>objsize := if fptr fp > objsize (fobj fp) then fptr fp else objsize (fobj fp)\<rparr>\<rparr>)"

partial_function (option) write_loop ::
    "vol \<Rightarrow> FIL \<Rightarrow> BYTE list \<Rightarrow> UINT \<Rightarrow> UINT \<Rightarrow> (FRESULT \<times> (FIL \<times> UINT) \<times> vol) option" where
  "write_loop v fp buff bw btw =
     (if btw = 0 then Some (FR_OK, (fp\<lparr>flag := flag fp OR FA_MODIFIED\<rparr>, bw), v)
      else do {
        (r, fp, v) \<leftarrow> write_round v fp buff (unat bw) btw;
        (case r of
           Inl res \<Rightarrow> Some (res, (fp\<lparr>err := res\<rparr>, bw), v)
         | Inr None \<Rightarrow> Some (FR_OK, (fp\<lparr>flag := flag fp OR FA_MODIFIED\<rparr>, bw), v)
         | Inr (Some wcnt) \<Rightarrow> write_loop v (advance fp wcnt) buff (bw + wcnt) (btw - wcnt))
      })"

definition write_work ::
    "FIL \<Rightarrow> BYTE list \<Rightarrow> UINT \<Rightarrow> vol \<Rightarrow> (FRESULT \<times> (FIL \<times> UINT) \<times> vol) option" where
  "write_work fp buff btw v =
     (let btw = (if fptr fp + btw < fptr fp then 0xFFFFFFFF - fptr fp else btw)
      in write_loop v fp buff 0 btw)"

definition f_write ::
    "sys \<Rightarrow> FIL \<Rightarrow> BYTE list \<Rightarrow> UINT \<Rightarrow> (FRESULT \<times> (FIL \<times> UINT) \<times> sys) option" where
  "f_write g fp buff btw =
     do {
       (r, fs, g) \<leftarrow> enter_file g fp FA_WRITE;
       (case r of
          Inl res \<Rightarrow> leave_ff g fs res (fp, 0)
        | Inr k \<Rightarrow> do {
            (res, x, g) \<leftarrow> on_volume g k (write_work fp buff btw);
            leave_ff g fs res x
          })
     }"

section \<open>Synchronise and close\<close>

text \<open>The directory entry of the file brought up to date in the window.\<close>

definition sync_entry :: "vol \<Rightarrow> FIL \<Rightarrow> DWORD \<Rightarrow> BYTE list" where
  "sync_entry v fp tm =
     (let e = dir_ptr fp;
          w = (win v)[e + DIR_Attr := win v ! (e + DIR_Attr) OR AM_ARC];
          w = st_clust v w e (sclust (fobj fp));
          w = st_dword w (e + DIR_FileSize) (objsize (fobj fp));
          w = st_dword w (e + DIR_ModTime) tm
      in st_word w (e + DIR_LstAccDate) 0)"

definition sync_work :: "FIL \<Rightarrow> vol \<Rightarrow> (FRESULT \<times> FIL \<times> vol) option" where
  "sync_work fp v =
     (if flag fp AND FA_MODIFIED \<noteq> 0 then
        (case flush_buf v fp of (ok, fp, v) \<Rightarrow>
         if \<not> ok then Some (FR_DISK_ERR, fp, v)
         else do {
           tm \<leftarrow> get_fattime (now v);
           (case move_window v (dir_sect fp) of (res, v) \<Rightarrow>
            if res = FR_OK then
              (case sync_fs (set_win v (sync_entry v fp tm)) of (res, v) \<Rightarrow>
                 Some (res, fp\<lparr>flag := flag fp AND NOT FA_MODIFIED\<rparr>, v))
            else Some (res, fp, v))
         })
      else Some (FR_OK, fp, v))"

definition f_sync :: "sys \<Rightarrow> FIL \<Rightarrow> (FRESULT \<times> FIL \<times> sys) option" where
  "f_sync g fp =
     do {
       (res, fs, g) \<leftarrow> validate g (fobj fp);
       (case (res, fs) of
          (FR_OK, Some k) \<Rightarrow> do {
            (res, fp, g) \<leftarrow> on_volume g k (sync_work fp);
            leave_ff g fs res fp
          }
        | _ \<Rightarrow> leave_ff g fs res fp)
     }"

definition f_close :: "sys \<Rightarrow> FIL \<Rightarrow> (FRESULT \<times> FIL \<times> sys) option" where
  "f_close g fp =
     do {
       (res, fp, g) \<leftarrow> f_sync g fp;
       (if res = FR_OK then
          do {
            (res, fs, g) \<leftarrow> validate g (fobj fp);
            (if res = FR_OK then
               Some (res, fp\<lparr>fobj := (fobj fp)\<lparr>obj_fs := None\<rparr>\<rparr>, unlock_fs g fs FR_OK)
             else Some (res, fp, g))
          }
        else Some (res, fp, g))
     }"

section \<open>Seek\<close>

text \<open>Following the chain of a seek: \<open>ofs\<close> is left within the cluster reached. \<open>Inl\<close> is an
  \<open>ABORT\<close>; at a full disk the offset is cut and the cluster is 0.\<close>

partial_function (option) seek_loop ::
    "vol \<Rightarrow> FIL \<Rightarrow> DWORD \<Rightarrow> FSIZE \<Rightarrow> DWORD \<Rightarrow> ((FRESULT + FSIZE \<times> DWORD) \<times> FIL \<times> vol) option" where
  "seek_loop v fp bcs ofs clst =
     (if ofs > bcs then
        (let ofs = ofs - bcs; fp = fp\<lparr>fptr := fptr fp + bcs\<rparr>; w = (flag fp AND FA_WRITE \<noteq> 0) in
         do {
           (clst, v) \<leftarrow> (if w then create_chain v clst else Some (get_fat v clst));
           (if w \<and> clst = 0 then Some (Inr (0, clst), fp, v)
            else if clst = 0xFFFFFFFF then Some (Inl FR_DISK_ERR, fp, v)
            else if clst \<le> 1 \<or> clst \<ge> n_fatent v then Some (Inl FR_INT_ERR, fp, v)
            else seek_loop v (fp\<lparr>fclust := clst\<rparr>) bcs ofs clst)
         })
      else Some (Inr (ofs, clst), fp, v))"

text \<open>The cluster from which the chain is followed, with the offset left.\<close>

definition seek_start ::
    "vol \<Rightarrow> FIL \<Rightarrow> FSIZE \<Rightarrow> FSIZE \<Rightarrow> ((FRESULT + FSIZE \<times> DWORD) \<times> FIL \<times> vol) option" where
  "seek_start v fp ifptr ofs =
     (let bcs = ucast (csize v) * SS in
      if ifptr > 0 \<and> (ofs - 1) div bcs \<ge> (ifptr - 1) div bcs then
        (let fp = fp\<lparr>fptr := (ifptr - 1) AND NOT (bcs - 1)\<rparr>
         in Some (Inr (ofs - fptr fp, fclust fp), fp, v))
      else do {
        (clst, v) \<leftarrow> (if sclust (fobj fp) = 0 then create_chain v 0 else Some (sclust (fobj fp), v));
        (if sclust (fobj fp) = 0 \<and> clst = 1 then Some (Inl FR_INT_ERR, fp, v)
         else if sclust (fobj fp) = 0 \<and> clst = 0xFFFFFFFF then Some (Inl FR_DISK_ERR, fp, v)
         else
           let fp = (if sclust (fobj fp) = 0 then fp\<lparr>fobj := (fobj fp)\<lparr>sclust := clst\<rparr>\<rparr> else fp)
           in Some (Inr (ofs, clst), fp\<lparr>fclust := clst\<rparr>, v))
      })"

text \<open>The move of the file pointer: the sector that belongs in the buffer, 0 if none.\<close>

definition seek_move ::
    "vol \<Rightarrow> FIL \<Rightarrow> FSIZE \<Rightarrow> FSIZE \<Rightarrow> ((FRESULT + DWORD) \<times> FIL \<times> vol) option" where
  "seek_move v fp ifptr ofs =
     (if ofs > 0 then
        do {
          (r, fp, v) \<leftarrow> seek_start v fp ifptr ofs;
          (case r of
             Inl e \<Rightarrow> Some (Inl e, fp, v)
           | Inr (ofs, clst) \<Rightarrow>
               if clst \<noteq> 0 then
                 do {
                   (r, fp, v) \<leftarrow> seek_loop v fp (ucast (csize v) * SS) ofs clst;
                   (case r of
                      Inl e \<Rightarrow> Some (Inl e, fp, v)
                    | Inr (ofs, clst) \<Rightarrow>
                        let fp = fp\<lparr>fptr := fptr fp + ofs\<rparr> in
                        if ofs mod SS \<noteq> 0 then
                          (let nsect = clst2sect v clst in
                           if nsect = 0 then Some (Inl FR_INT_ERR, fp, v)
                           else Some (Inr (nsect + ofs div SS), fp, v))
                        else Some (Inr 0, fp, v))
                 }
               else Some (Inr 0, fp, v))
        }
      else Some (Inr 0, fp, v))"

definition seek_work :: "FIL \<Rightarrow> FSIZE \<Rightarrow> vol \<Rightarrow> (FRESULT \<times> FIL \<times> vol) option" where
  "seek_work fp ofs v =
     (let ofs = (if ofs > objsize (fobj fp) \<and> flag fp AND FA_WRITE = 0 then objsize (fobj fp) else ofs);
          ifptr = fptr fp
      in do {
        (r, fp, v) \<leftarrow> seek_move v (fp\<lparr>fptr := 0\<rparr>) ifptr ofs;
        (case r of
           Inl e \<Rightarrow> Some (e, fp\<lparr>err := e\<rparr>, v)
         | Inr nsect \<Rightarrow>
             let fp = (if fptr fp > objsize (fobj fp)
                       then fp\<lparr>fobj := (fobj fp)\<lparr>objsize := fptr fp\<rparr>, flag := flag fp OR FA_MODIFIED\<rparr>
                       else fp)
             in
             if fptr fp mod SS \<noteq> 0 \<and> nsect \<noteq> fsect fp then
               (case flush_buf v fp of (ok, fp, v) \<Rightarrow>
                if \<not> ok then Some (FR_DISK_ERR, fp\<lparr>err := FR_DISK_ERR\<rparr>, v)
                else
                  case fill_buf v fp nsect of (ok, fp, v) \<Rightarrow>
                  if \<not> ok then Some (FR_DISK_ERR, fp\<lparr>err := FR_DISK_ERR\<rparr>, v)
                  else Some (FR_OK, fp\<lparr>fsect := nsect\<rparr>, v))
             else Some (FR_OK, fp, v))
      })"

definition f_lseek :: "sys \<Rightarrow> FIL \<Rightarrow> FSIZE \<Rightarrow> (FRESULT \<times> FIL \<times> sys) option" where
  "f_lseek g fp ofs =
     do {
       (res, fs, g) \<leftarrow> validate g (fobj fp);
       (let res = (if res = FR_OK then err fp else res) in
        case (res, fs) of
          (FR_OK, Some k) \<Rightarrow> do {
            (res, fp, g) \<leftarrow> on_volume g k (seek_work fp ofs);
            leave_ff g fs res fp
          }
        | _ \<Rightarrow> leave_ff g fs res fp)
     }"

section \<open>Truncate\<close>

definition truncate_chain :: "vol \<Rightarrow> FIL \<Rightarrow> (FRESULT \<times> FIL \<times> vol) option" where
  "truncate_chain v fp =
     (if fptr fp = 0 then
        do {
          (res, v) \<leftarrow> remove_chain v (sclust (fobj fp)) 0;
          Some (res, fp\<lparr>fobj := (fobj fp)\<lparr>sclust := 0\<rparr>\<rparr>, v)
        }
      else
        (case get_fat v (fclust fp) of (ncl, v) \<Rightarrow>
         let res = (if ncl = 0xFFFFFFFF then FR_DISK_ERR else FR_OK);
             res = (if ncl = 1 then FR_INT_ERR else res)
         in
         if res = FR_OK \<and> ncl < n_fatent v then
           do { (res, v) \<leftarrow> remove_chain v ncl (fclust fp); Some (res, fp, v) }
         else Some (res, fp, v)))"

definition truncate_work :: "FIL \<Rightarrow> vol \<Rightarrow> (FRESULT \<times> FIL \<times> vol) option" where
  "truncate_work fp v =
     (if fptr fp < objsize (fobj fp) then
        do {
          (res, fp, v) \<leftarrow> truncate_chain v fp;
          (let fp = fp\<lparr>fobj := (fobj fp)\<lparr>objsize := fptr fp\<rparr>, flag := flag fp OR FA_MODIFIED\<rparr> in
           case (if res = FR_OK then flush_buf v fp else (True, fp, v)) of (ok, fp, v) \<Rightarrow>
           let res = (if ok then res else FR_DISK_ERR) in
           Some (res, if res \<noteq> FR_OK then fp\<lparr>err := res\<rparr> else fp, v))
        }
      else Some (FR_OK, fp, v))"

definition f_truncate :: "sys \<Rightarrow> FIL \<Rightarrow> (FRESULT \<times> FIL \<times> sys) option" where
  "f_truncate g fp =
     do {
       (r, fs, g) \<leftarrow> enter_file g fp FA_WRITE;
       (case r of
          Inl res \<Rightarrow> leave_ff g fs res fp
        | Inr k \<Rightarrow> do {
            (res, fp, g) \<leftarrow> on_volume g k (truncate_work fp);
            leave_ff g fs res fp
          })
     }"

end
