(* ===== verification/Fat_Api.thy ===== *)
theory Fat_Api
  imports Fat_File
begin

text \<open>
  \<^verbatim>\<open>addon/fatfs/ff.c\<close>, lines 4411-4714 and 4768-5144: directories and objects by name. Listing
  (\<open>f_opendir\<close>, \<open>f_readdir\<close>, \<open>f_closedir\<close>, \<open>f_findfirst\<close>, \<open>f_findnext\<close>), status and free space
  (\<open>f_stat\<close>, \<open>f_getfree\<close>), and the changes of the directory tree (\<open>f_unlink\<close>, \<open>f_mkdir\<close>,
  \<open>f_rename\<close>, \<open>f_chmod\<close>, \<open>f_utime\<close>). A local directory object that the source leaves
  uninitialised is an argument.
\<close>

unbundle bit_operations_syntax

section \<open>Frame\<close>

text \<open>The frame of the functions that take a path: find and lock the volume, allocate the name
  buffer, work, unlock. \<open>x\<close> is what is returned when the work is not reached.\<close>

definition with_path ::
    "sys \<Rightarrow> BYTE list option \<Rightarrow> BYTE \<Rightarrow> 'a \<Rightarrow> (BYTE list \<Rightarrow> vol \<Rightarrow> (FRESULT \<times> 'a \<times> vol) option)
     \<Rightarrow> (FRESULT \<times> 'a \<times> sys) option" where
  "with_path g path mode x work =
     do {
       (res, fs, path, g) \<leftarrow> find_volume g path mode;
       (case (res, fs) of
          (FR_OK, Some k) \<Rightarrow>
            (case init_nambuf (vol_of g k) of (ok, v) \<Rightarrow>
             let g = put_vol g k v in
             if \<not> ok then leave_ff g fs FR_NOT_ENOUGH_CORE x
             else do {
               (res, x, g) \<leftarrow> on_volume g k (work (the path));
               leave_ff g fs res x
             })
        | _ \<Rightarrow> leave_ff g fs res x)
     }"

section \<open>Directories\<close>

definition opendir_work :: "nat \<Rightarrow> DIR \<Rightarrow> BYTE list \<Rightarrow> vol \<Rightarrow> (FRESULT \<times> DIR \<times> vol) option" where
  "opendir_work k dp path v =
     do {
       (res, dp, v) \<leftarrow> follow_path v (dp\<lparr>dobj := (dobj dp)\<lparr>obj_fs := Some k\<rparr>\<rparr>) path;
       (res, dp, v) \<leftarrow>
         (if res = FR_OK then
            (let sub = (fn dp ! NSFLAG AND NS_NONAME = 0);
                 ok = (\<not> sub \<or> attr (dobj dp) AND AM_DIR \<noteq> 0);
                 dp = (if sub \<and> ok
                       then dp\<lparr>dobj := (dobj dp)\<lparr>sclust := ld_clust v (win v) (dir dp)\<rparr>\<rparr> else dp)
             in
             if ok then dir_sdi v (dp\<lparr>dobj := (dobj dp)\<lparr>obj_id := fs_id v\<rparr>\<rparr>) 0
             else Some (FR_NO_PATH, dp, v))
          else Some (res, dp, v));
       Some (if res = FR_NO_FILE then FR_NO_PATH else res, dp, v)
     }"

definition f_opendir ::
    "sys \<Rightarrow> DIR option \<Rightarrow> BYTE list option \<Rightarrow> (FRESULT \<times> DIR option \<times> sys) option" where
  "f_opendir g dp path =
     (case dp of
        None \<Rightarrow> Some (FR_INVALID_OBJECT, None, g)
      | Some dp \<Rightarrow>
          do {
            (res, fs, path, g) \<leftarrow> find_volume g path 0;
            (case (res, fs) of
               (FR_OK, Some k) \<Rightarrow>
                 (case init_nambuf (vol_of g k) of (ok, v) \<Rightarrow>
                  let g = put_vol g k v in
                  if \<not> ok then
                    leave_ff g fs FR_NOT_ENOUGH_CORE (Some (dp\<lparr>dobj := (dobj dp)\<lparr>obj_fs := fs\<rparr>\<rparr>))
                  else do {
                    (res, dp, g) \<leftarrow> on_volume g k (opendir_work k dp (the path));
                    leave_ff g fs res
                      (Some (if res \<noteq> FR_OK then dp\<lparr>dobj := (dobj dp)\<lparr>obj_fs := None\<rparr>\<rparr> else dp))
                  })
             | _ \<Rightarrow> leave_ff g fs res (Some (dp\<lparr>dobj := (dobj dp)\<lparr>obj_fs := None\<rparr>\<rparr>)))
          })"

definition f_closedir :: "sys \<Rightarrow> DIR \<Rightarrow> (FRESULT \<times> DIR \<times> sys) option" where
  "f_closedir g dp =
     do {
       (res, fs, g) \<leftarrow> validate g (dobj dp);
       (if res = FR_OK then
          Some (res, dp\<lparr>dobj := (dobj dp)\<lparr>obj_fs := None\<rparr>\<rparr>, unlock_fs g fs FR_OK)
        else Some (res, dp, g))
     }"

definition readdir_work ::
    "DIR \<Rightarrow> FILINFO \<Rightarrow> vol \<Rightarrow> (FRESULT \<times> (DIR \<times> FILINFO option) \<times> vol) option" where
  "readdir_work dp fno v =
     do {
       (res, dp, v) \<leftarrow> dir_read v dp False;
       (let res = (if res = FR_NO_FILE then FR_OK else res) in
        if res = FR_OK then
          (let fno = get_fileinfo v dp fno in
           do {
             (res, dp, v) \<leftarrow> dir_next v dp False;
             Some (if res = FR_NO_FILE then FR_OK else res, (dp, Some fno), v)
           })
        else Some (res, (dp, Some fno), v))
     }"

definition f_readdir ::
    "sys \<Rightarrow> DIR \<Rightarrow> FILINFO option \<Rightarrow> (FRESULT \<times> (DIR \<times> FILINFO option) \<times> sys) option" where
  "f_readdir g dp fno =
     do {
       (res, fs, g) \<leftarrow> validate g (dobj dp);
       (case (res, fs) of
          (FR_OK, Some k) \<Rightarrow>
            (case fno of
               None \<Rightarrow>
                 do {
                   (res, x, g) \<leftarrow> on_volume g k (\<lambda>v.
                     do { (res, dp, v) \<leftarrow> dir_sdi v dp 0; Some (res, (dp, None), v) });
                   leave_ff g fs res x
                 }
             | Some fn0 \<Rightarrow>
                 (case init_nambuf (vol_of g k) of (ok, v) \<Rightarrow>
                  let g = put_vol g k v in
                  if \<not> ok then leave_ff g fs FR_NOT_ENOUGH_CORE (dp, fno)
                  else do {
                    (res, x, g) \<leftarrow> on_volume g k (readdir_work dp fn0);
                    leave_ff g fs res x
                  }))
        | _ \<Rightarrow> leave_ff g fs res (dp, fno))
     }"

partial_function (option) f_findnext ::
    "sys \<Rightarrow> DIR \<Rightarrow> FILINFO option \<Rightarrow> (FRESULT \<times> (DIR \<times> FILINFO option) \<times> sys) option" where
  "f_findnext g dp fno =
     do {
       (res, (dp, fno), g) \<leftarrow> f_readdir g dp fno;
       (case fno of
          None \<Rightarrow> Some (res, (dp, fno), g)
        | Some fi \<Rightarrow>
            if res \<noteq> FR_OK \<or> fno_fname fi ! 0 = 0 then Some (res, (dp, fno), g)
            else do {
              m \<leftarrow> pattern_matching (pat dp) (fno_fname fi) 0 False;
              if m then Some (res, (dp, fno), g)
              else do {
                m \<leftarrow> pattern_matching (pat dp) (fno_altname fi) 0 False;
                if m then Some (res, (dp, fno), g) else f_findnext g dp fno
              }
            })
     }"

definition f_findfirst ::
    "sys \<Rightarrow> DIR \<Rightarrow> FILINFO option \<Rightarrow> BYTE list option \<Rightarrow> BYTE list
     \<Rightarrow> (FRESULT \<times> (DIR \<times> FILINFO option) \<times> sys) option" where
  "f_findfirst g dp fno path pattern =
     do {
       (res, dp', g) \<leftarrow> f_opendir g (Some (dp\<lparr>pat := pattern\<rparr>)) path;
       (if res = FR_OK then f_findnext g (the dp') fno else Some (res, (the dp', fno), g))
     }"

section \<open>Status and free space\<close>

definition stat_work ::
    "DIR \<Rightarrow> FILINFO option \<Rightarrow> BYTE list \<Rightarrow> vol \<Rightarrow> (FRESULT \<times> FILINFO option \<times> vol) option" where
  "stat_work dj fno path v =
     do {
       (res, dj, v) \<leftarrow> follow_path v dj path;
       (if res = FR_OK then
          (if fn dj ! NSFLAG AND NS_NONAME \<noteq> 0 then Some (FR_INVALID_NAME, fno, v)
           else Some (res, map_option (get_fileinfo v dj) fno, v))
        else Some (res, fno, v))
     }"

definition f_stat ::
    "sys \<Rightarrow> DIR \<Rightarrow> BYTE list option \<Rightarrow> FILINFO option \<Rightarrow> (FRESULT \<times> FILINFO option \<times> sys) option" where
  "f_stat g dj path fno = with_path g path 0 fno (stat_work dj fno)"

text \<open>The scan of a FAT12 table, entry by entry, and of a FAT16 or FAT32 table, sector by sector.
  Both return the result and the count so far.\<close>

partial_function (option) free_scan12 :: "vol \<Rightarrow> DWORD \<Rightarrow> DWORD \<Rightarrow> (FRESULT \<times> DWORD \<times> vol) option" where
  "free_scan12 v clst nfree =
     (case get_fat v clst of (st, v) \<Rightarrow>
      if st = 0xFFFFFFFF then Some (FR_DISK_ERR, nfree, v)
      else if st = 1 then Some (FR_INT_ERR, nfree, v)
      else
        let nfree = (if st = 0 then nfree + 1 else nfree); clst = clst + 1 in
        if clst < n_fatent v then free_scan12 v clst nfree else Some (FR_OK, nfree, v))"

partial_function (option) free_scan ::
    "vol \<Rightarrow> DWORD \<Rightarrow> DWORD \<Rightarrow> UINT \<Rightarrow> DWORD \<Rightarrow> (FRESULT \<times> DWORD \<times> vol) option" where
  "free_scan v clst sect i nfree =
     (case (if i = 0 then move_window v sect else (FR_OK, v)) of (res, v) \<Rightarrow>
      if res \<noteq> FR_OK then Some (res, nfree, v)
      else
        let sect = (if i = 0 then sect + 1 else sect);
            free = (if fs_type v = FS_FAT16 then ld_word (win v) (unat i) = 0
                    else ld_dword (win v) (unat i) AND 0x0FFFFFFF = 0);
            nfree = (if free then nfree + 1 else nfree);
            i = (i + (if fs_type v = FS_FAT16 then 2 else 4)) mod SS;
            clst = clst - 1
        in if clst \<noteq> 0 then free_scan v clst sect i nfree else Some (FR_OK, nfree, v))"

text \<open>The count is stored as the free count whether the scan ended or was cut short by an
  error.\<close>

definition getfree_work :: "vol \<Rightarrow> (FRESULT \<times> DWORD \<times> vol) option" where
  "getfree_work v =
     (if free_clst v \<le> n_fatent v - 2 then Some (FR_OK, free_clst v, v)
      else do {
        (res, nfree, v) \<leftarrow>
          (if fs_type v = FS_FAT12 then free_scan12 v 2 0
           else free_scan v (n_fatent v) (fatbase v) 0 0);
        Some (res, nfree, v\<lparr>free_clst := nfree, fsi_flag := fsi_flag v OR 1\<rparr>)
      })"

definition f_getfree ::
    "sys \<Rightarrow> BYTE list option \<Rightarrow> (FRESULT \<times> (DWORD \<times> nat) option \<times> sys) option" where
  "f_getfree g path =
     do {
       (res, fs, path, g) \<leftarrow> find_volume g path 0;
       (case (res, fs) of
          (FR_OK, Some k) \<Rightarrow>
            do {
              (res, nclst, g) \<leftarrow> on_volume g k getfree_work;
              leave_ff g fs res (Some (nclst, k))
            }
        | _ \<Rightarrow> leave_ff g fs res None)
     }"

section \<open>Remove an object\<close>

text \<open>The test whether the object may be removed: its start cluster, and for a sub-directory
  that it is empty.\<close>

definition unlink_check :: "vol \<Rightarrow> DIR \<Rightarrow> DIR \<Rightarrow> (FRESULT \<times> DWORD \<times> vol) option" where
  "unlink_check v dj sdj =
     (if fn dj ! NSFLAG AND NS_NONAME \<noteq> 0 then Some (FR_INVALID_NAME, 0, v)
      else if attr (dobj dj) AND AM_RDO \<noteq> 0 then Some (FR_DENIED, 0, v)
      else
        let dclst = ld_clust v (win v) (dir dj) in
        if attr (dobj dj) AND AM_DIR \<noteq> 0 then
          do {
            (res, sdj, v) \<leftarrow> dir_sdi v (sdj\<lparr>dobj := (dobj sdj)\<lparr>sclust := dclst\<rparr>\<rparr>) 0;
            (if res = FR_OK then
               do {
                 (res, sdj, v) \<leftarrow> dir_read v sdj False;
                 Some (if res = FR_OK then FR_DENIED else if res = FR_NO_FILE then FR_OK else res,
                       dclst, v)
               }
             else Some (res, dclst, v))
          }
        else Some (FR_OK, dclst, v))"

definition unlink_work :: "DIR \<Rightarrow> DIR \<Rightarrow> BYTE list \<Rightarrow> vol \<Rightarrow> (FRESULT \<times> unit \<times> vol) option" where
  "unlink_work dj sdj path v =
     do {
       (res, dj, v) \<leftarrow> follow_path v dj path;
       (if res \<noteq> FR_OK then Some (res, (), v)
        else do {
          (res, dclst, v) \<leftarrow> unlink_check v dj sdj;
          (if res \<noteq> FR_OK then Some (res, (), v)
           else do {
             (res, dj, v) \<leftarrow> dir_remove v dj;
             (res, v) \<leftarrow> (if res = FR_OK \<and> dclst \<noteq> 0 then remove_chain v dclst 0 else Some (res, v));
             (if res = FR_OK then (case sync_fs v of (res, v) \<Rightarrow> Some (res, (), v))
              else Some (res, (), v))
           })
        })
     }"

definition f_unlink :: "sys \<Rightarrow> DIR \<Rightarrow> DIR \<Rightarrow> BYTE list option \<Rightarrow> (FRESULT \<times> unit \<times> sys) option" where
  "f_unlink g dj sdj path = with_path g path FA_WRITE () (unlink_work dj sdj)"

section \<open>Create a directory\<close>

text \<open>The dot entries of the new table, whose cleared first sector is in the window.\<close>

definition dot_entries :: "vol \<Rightarrow> DWORD \<Rightarrow> DWORD \<Rightarrow> DWORD \<Rightarrow> BYTE list" where
  "dot_entries v dcl pcl tm =
     (let w = mem_set (win v) DIR_Name 0x20 11;
          w = w[DIR_Name := 0x2E];
          w = w[DIR_Attr := AM_DIR];
          w = st_dword w DIR_ModTime tm;
          w = st_clust v w 0 dcl;
          w = mem_cpy w SZDIRE w 0 SZDIRE;
          w = w[SZDIRE + 1 := 0x2E]
      in st_clust v w SZDIRE pcl)"

definition mkdir_entry :: "vol \<Rightarrow> DIR \<Rightarrow> DWORD \<Rightarrow> DWORD \<Rightarrow> BYTE list" where
  "mkdir_entry v dj dcl tm =
     (let w = st_dword (win v) (dir dj + DIR_ModTime) tm;
          w = st_clust v w (dir dj) dcl
      in w[dir dj + DIR_Attr := AM_DIR])"

definition mkdir_work :: "DIR \<Rightarrow> BYTE list \<Rightarrow> vol \<Rightarrow> (FRESULT \<times> unit \<times> vol) option" where
  "mkdir_work dj path v =
     do {
       (res, dj, v) \<leftarrow> follow_path v dj path;
       (let res = (if res = FR_OK then FR_EXIST else res) in
        if res \<noteq> FR_NO_FILE then Some (res, (), v)
        else do {
          (dcl, v) \<leftarrow> create_chain v 0;
          tm \<leftarrow> get_fattime (now v);
          (let res = (if dcl = 0 then FR_DENIED else if dcl = 1 then FR_INT_ERR
                      else if dcl = 0xFFFFFFFF then FR_DISK_ERR else FR_OK) in
           do {
             (res, dj, v) \<leftarrow>
               (if res = FR_OK then
                  do {
                    (res, v) \<leftarrow> dir_clear v dcl;
                    (if res = FR_OK then
                       dir_register (set_win v (dot_entries v dcl (sclust (dobj dj)) tm)) dj
                     else Some (res, dj, v))
                  }
                else Some (res, dj, v));
             (if res = FR_OK then
                (case sync_fs (set_win v (mkdir_entry v dj dcl tm)) of (res, v) \<Rightarrow> Some (res, (), v))
              else do { (_, v) \<leftarrow> remove_chain v dcl 0; Some (res, (), v) })
           })
        })
     }"

definition f_mkdir :: "sys \<Rightarrow> DIR \<Rightarrow> BYTE list option \<Rightarrow> (FRESULT \<times> unit \<times> sys) option" where
  "f_mkdir g dj path = with_path g path FA_WRITE () (mkdir_work dj)"

section \<open>Rename\<close>

text \<open>The new entry gets everything of the old one but the name.\<close>

definition rename_entry :: "vol \<Rightarrow> nat \<Rightarrow> BYTE list \<Rightarrow> BYTE list" where
  "rename_entry v e old =
     (let w = mem_cpy (win v) (e + 13) old 13 (SZDIRE - 13);
          w = w[e + DIR_Attr := old ! DIR_Attr]
      in if w ! (e + DIR_Attr) AND AM_DIR = 0 then w[e + DIR_Attr := w ! (e + DIR_Attr) OR AM_ARC] else w)"

text \<open>The \<open>..\<close> entry of a directory that has moved to another parent.\<close>

definition rename_dotdot :: "vol \<Rightarrow> nat \<Rightarrow> DWORD \<Rightarrow> FRESULT \<times> vol" where
  "rename_dotdot v e pcl =
     (let dw = clst2sect v (ld_clust v (win v) e) in
      if dw = 0 then (FR_INT_ERR, v)
      else
        case move_window v dw of (res, v) \<Rightarrow>
        if res = FR_OK \<and> win v ! (SZDIRE + 1) = 0x2E then (res, set_win v (st_clust v (win v) SZDIRE pcl))
        else (res, v))"

definition rename_new :: "vol \<Rightarrow> DIR \<Rightarrow> DIR \<Rightarrow> BYTE list \<Rightarrow> (FRESULT \<times> vol) option" where
  "rename_new v djo djn old =
     do {
       (res, djn, v) \<leftarrow> dir_register v djn;
       (if res = FR_OK then
          (let e = dir djn; v = set_win v (rename_entry v e old) in
           if win v ! (e + DIR_Attr) AND AM_DIR \<noteq> 0 \<and> sclust (dobj djo) \<noteq> sclust (dobj djn)
           then Some (rename_dotdot v e (sclust (dobj djn)))
           else Some (res, v))
        else Some (res, v))
     }"

definition rename_work :: "DIR \<Rightarrow> BYTE list \<Rightarrow> BYTE list \<Rightarrow> vol \<Rightarrow> (FRESULT \<times> unit \<times> vol) option" where
  "rename_work djo path_new path_old v =
     do {
       (res, djo, v) \<leftarrow> follow_path v djo path_old;
       (let res = (if res = FR_OK \<and> fn djo ! NSFLAG AND (NS_DOT OR NS_NONAME) \<noteq> 0
                   then FR_INVALID_NAME else res) in
        if res \<noteq> FR_OK then Some (res, (), v)
        else
          let old = mem_cpy (replicate SZDIRE 0) 0 (win v) (dir djo) SZDIRE in
          do {
            (res, djn, v) \<leftarrow> follow_path v djo path_new;
            (let res = (if res = FR_OK then
                          (if sclust (dobj djn) = sclust (dobj djo) \<and> dptr djn = dptr djo
                           then FR_NO_FILE else FR_EXIST)
                        else res) in
             do {
               (res, v) \<leftarrow> (if res = FR_NO_FILE then rename_new v djo djn old else Some (res, v));
               (if res = FR_OK then
                  do {
                    (res, djo, v) \<leftarrow> dir_remove v djo;
                    (if res = FR_OK then (case sync_fs v of (res, v) \<Rightarrow> Some (res, (), v))
                     else Some (res, (), v))
                  }
                else Some (res, (), v))
             })
          })
     }"

text \<open>The drive prefix of the new name is stripped and ignored; the new name is not null.\<close>

definition f_rename ::
    "sys \<Rightarrow> DIR \<Rightarrow> BYTE list option \<Rightarrow> BYTE list \<Rightarrow> (FRESULT \<times> unit \<times> sys) option" where
  "f_rename g djo path_old path_new =
     with_path g path_old FA_WRITE () (rename_work djo (the (snd (get_ldnumber (Some path_new)))))"

section \<open>Attributes and time stamps\<close>

text \<open>The entry found by a path is changed in the window and flushed.\<close>

definition change_entry ::
    "DIR \<Rightarrow> (vol \<Rightarrow> nat \<Rightarrow> BYTE list) \<Rightarrow> BYTE list \<Rightarrow> vol \<Rightarrow> (FRESULT \<times> unit \<times> vol) option" where
  "change_entry dj edit path v =
     do {
       (res, dj, v) \<leftarrow> follow_path v dj path;
       (let res = (if res = FR_OK \<and> fn dj ! NSFLAG AND (NS_DOT OR NS_NONAME) \<noteq> 0
                   then FR_INVALID_NAME else res) in
        if res = FR_OK then
          (case sync_fs (set_win v (edit v (dir dj))) of (res, v) \<Rightarrow> Some (res, (), v))
        else Some (res, (), v))
     }"

definition chmod_entry :: "BYTE \<Rightarrow> BYTE \<Rightarrow> vol \<Rightarrow> nat \<Rightarrow> BYTE list" where
  "chmod_entry a m v e =
     (let m = m AND (AM_RDO OR AM_HID OR AM_SYS OR AM_ARC) in
      (win v)[e + DIR_Attr := (a AND m) OR (win v ! (e + DIR_Attr) AND NOT m)])"

definition f_chmod ::
    "sys \<Rightarrow> DIR \<Rightarrow> BYTE list option \<Rightarrow> BYTE \<Rightarrow> BYTE \<Rightarrow> (FRESULT \<times> unit \<times> sys) option" where
  "f_chmod g dj path a m = with_path g path FA_WRITE () (change_entry dj (chmod_entry a m))"

definition utime_entry :: "FILINFO \<Rightarrow> vol \<Rightarrow> nat \<Rightarrow> BYTE list" where
  "utime_entry fno v e =
     st_dword (win v) (e + DIR_ModTime) (push_bit 16 (ucast (fno_fdate fno)) OR ucast (fno_ftime fno))"

definition f_utime ::
    "sys \<Rightarrow> DIR \<Rightarrow> BYTE list option \<Rightarrow> FILINFO \<Rightarrow> (FRESULT \<times> unit \<times> sys) option" where
  "f_utime g dj path fno = with_path g path FA_WRITE () (change_entry dj (utime_entry fno))"

end
