(* ===== verification/Fat_Frame.thy ===== *)
theory Fat_Frame
  imports Fat_Api
begin

text \<open>
  What the operations of the module leave alone, from the disk window up to the work of each API
  function: the mount parameters of the volume with its lock and the clock, the size of the LFN
  buffer, and the size of the window and of every sector (\<open>keep\<close>); for an open file also the size of
  its sector buffer (\<open>fkeep\<close>). With it goes which results an operation can have: none of those that
  would leave the volume locked (\<open>releasing\<close>). One lemma for each operation, in the order of the
  code, about every state and every course of the faults.
\<close>

unbundle bit_operations_syntax

section \<open>What every operation keeps\<close>

text \<open>\<open>keep v v'\<close>: the mount parameters (with the lock and the clock) are the same, the LFN buffer
  has its size, and the window and the sectors of the drive still have 512 bytes.\<close>

definition keep :: "vol \<Rightarrow> vol \<Rightarrow> bool" where
  "keep v v' \<longleftrightarrow> geo v' = geo v \<and> length (lfnbuf v') = length (lfnbuf v) \<and> (wf_vol v \<longrightarrow> wf_vol v')"

text \<open>The results with which the lock of the volume is released.\<close>

definition releasing :: "FRESULT \<Rightarrow> bool" where
  "releasing r \<longleftrightarrow> r \<noteq> FR_NOT_ENABLED \<and> r \<noteq> FR_INVALID_DRIVE \<and> r \<noteq> FR_TIMEOUT"

lemma releasing_simps [simp]:
  "releasing FR_OK" "releasing FR_DISK_ERR" "releasing FR_INT_ERR" "releasing FR_NOT_READY"
  "releasing FR_NO_FILE" "releasing FR_NO_PATH" "releasing FR_INVALID_NAME" "releasing FR_DENIED"
  "releasing FR_EXIST" "releasing FR_INVALID_OBJECT" "releasing FR_WRITE_PROTECTED"
  "releasing FR_NO_FILESYSTEM" "releasing FR_NOT_ENOUGH_CORE"
  by (simp_all add: releasing_def)

lemma keep_refl [simp, intro]: "keep v v"
  by (simp add: keep_def)

lemma keep_trans: "keep u v \<Longrightarrow> keep v w \<Longrightarrow> keep u w"
  by (simp add: keep_def)

lemma keep_fields:
  "keep v (v\<lparr>free_clst := a\<rparr>)" "keep v (v\<lparr>last_clst := b\<rparr>)" "keep v (v\<lparr>fsi_flag := c\<rparr>)"
  "keep v (v\<lparr>heap := h\<rparr>)" "keep v (v\<lparr>winsect := s\<rparr>)" "keep v (v\<lparr>wflag := x\<rparr>)"
  "length w = length (win v) \<Longrightarrow> keep v (v\<lparr>win := w\<rparr>)"
  "length l = length (lfnbuf v) \<Longrightarrow> keep v (v\<lparr>lfnbuf := l\<rparr>)"
  by (auto simp: keep_def geo_def wf_vol_def)

lemma keep_drive:
  "attached d = attached (drv v) \<Longrightarrow>
   ((\<forall>s. length (sectors (drv v) s) = SS) \<Longrightarrow> length (win v) = SS \<Longrightarrow> (\<forall>s. length (sectors d s) = SS)) \<Longrightarrow>
   keep v (v\<lparr>drv := d\<rparr>)"
  by (auto simp: keep_def geo_def wf_vol_def)

lemma keep_set_win: "length w = length (win v) \<Longrightarrow> keep v (set_win v w)"
  by (auto simp: keep_def geo_def wf_vol_def set_win_def)

text \<open>The same as rewrite rules.\<close>

lemma keep_updates [frame_simps]:
  "geo (v\<lparr>free_clst := a\<rparr>) = geo v" "geo (v\<lparr>last_clst := a\<rparr>) = geo v" "geo (v\<lparr>fsi_flag := b\<rparr>) = geo v"
  "geo (v\<lparr>heap := h\<rparr>) = geo v" "geo (v\<lparr>winsect := a\<rparr>) = geo v" "geo (v\<lparr>wflag := b\<rparr>) = geo v"
  "geo (v\<lparr>win := w\<rparr>) = geo v" "geo (v\<lparr>lfnbuf := l\<rparr>) = geo v" "geo (set_win v w) = geo v"
  "wf_vol (v\<lparr>free_clst := a\<rparr>) = wf_vol v" "wf_vol (v\<lparr>last_clst := a\<rparr>) = wf_vol v"
  "wf_vol (v\<lparr>fsi_flag := b\<rparr>) = wf_vol v" "wf_vol (v\<lparr>heap := h\<rparr>) = wf_vol v"
  "wf_vol (v\<lparr>winsect := a\<rparr>) = wf_vol v" "wf_vol (v\<lparr>wflag := b\<rparr>) = wf_vol v"
  "wf_vol (v\<lparr>lfnbuf := l\<rparr>) = wf_vol v"
  "length w = length (win v) \<Longrightarrow> wf_vol (v\<lparr>win := w\<rparr>) = wf_vol v"
  "length w = length (win v) \<Longrightarrow> wf_vol (set_win v w) = wf_vol v"
  "lfnbuf (set_win v w) = lfnbuf v"
  by (auto simp: geo_def wf_vol_def set_win_def)

text \<open>Transfers.\<close>

lemma disk_write_lengths:
  assumes "disk_write p b s n d = (r, d')" and "SS * unat n \<le> length b" and "\<And>i. length (sectors d i) = SS"
  shows "length (sectors d' i) = SS"
proof -
  have n: "unat (n * SS) div SS \<le> unat n"
    by (simp add: unat_word_ariths)
  have st: "length (store_sectors (sectors d) s' m b i) = SS" if "m \<le> unat n" for s' m
  proof (cases "s' \<le> i \<and> i < s' + m")
    case True
    then have "i - s' + 1 \<le> unat n" using that by linarith
    then have "SS * (i - s' + 1) \<le> length b" using assms(2) by (meson mult_le_mono2 le_trans)
    then show ?thesis using True by (simp add: store_sectors_def)
  next
    case False
    then show ?thesis using assms(3) by (auto simp: store_sectors_def)
  qed
  have "min k (unat (n * SS) div SS) \<le> unat n" for k using n by linarith
  then show ?thesis using assms(1,3) n st
    by (auto simp: disk_write_def dev_write_def next_fault_def Let_def split: if_splits option.splits list.splits prod.splits)
qed

lemma keep_disk_write:
  assumes "disk_write p b s n (drv v) = (r, d)" and "wf_vol v \<Longrightarrow> SS * unat n \<le> length b"
  shows "keep v (v\<lparr>drv := d\<rparr>)"
  using disk_write_attached [OF assms(1)] disk_write_lengths [OF assms(1)] assms(2)
  by (intro keep_drive) (auto simp: wf_vol_def)

lemma keep_disk_read:
  "disk_read p s n (drv v) = (r, x, d) \<Longrightarrow> keep v (v\<lparr>drv := d\<rparr>)"
  using disk_read_attached [of p s n "drv v" r x d] disk_read_sectors [of p s n "drv v" r x d]
  by (intro keep_drive) auto

section \<open>The window and the table\<close>

lemma sync_window_keep: "sync_window v = (res, v') \<Longrightarrow> keep v v' \<and> releasing res"
proof -
  assume sw: "sync_window v = (res, v')"
  obtain r d where w1: "disk_write (pdrv v) (win v) (winsect v) 1 (drv v) = (r, d)" by fastforce
  obtain r2 d2 where w2: "disk_write (pdrv v) (win v) (winsect v + fsize v) 1 d = (r2, d2)" by fastforce
  have k1: "keep v (v\<lparr>drv := d\<rparr>)" by (rule keep_disk_write [OF w1]) (simp add: wf_vol_def)
  have "keep (v\<lparr>drv := d\<rparr>) (v\<lparr>drv := d, drv := d2\<rparr>)"
    by (rule keep_disk_write [of _ _ _ _ "v\<lparr>drv := d\<rparr>"]) (use w2 in \<open>auto simp: wf_vol_def\<close>)
  then have k2: "keep v (v\<lparr>drv := d2\<rparr>)" using keep_trans [OF k1] by simp
  have "keep v (v\<lparr>drv := d, wflag := 0\<rparr>)" "keep v (v\<lparr>wflag := 0, drv := d2\<rparr>)"
    using k1 k2 by (auto simp: keep_def geo_def wf_vol_def)
  then show ?thesis using sw w1 w2 k1
    by (auto simp: sync_window_def Let_def split: if_splits)
qed

lemma move_window_keep: "move_window v s = (res, v') \<Longrightarrow> keep v v' \<and> releasing res"
proof -
  assume mw: "move_window v s = (res, v')"
  obtain r1 v1 where s1: "sync_window v = (r1, v1)" by fastforce
  note k1 = sync_window_keep [OF s1]
  obtain r x d where rd: "disk_read (pdrv v1) s 1 (drv v1) = (r, x, d)" by (metis prod_cases3)
  have k2: "keep v (v1\<lparr>drv := d\<rparr>)" using keep_trans [OF conjunct1 [OF k1] keep_disk_read [OF rd]] .
  have "keep v (v1\<lparr>drv := d, win := x @ drop (length x) (win v1), winsect := q\<rparr>)" for q
  proof -
    have "wf_vol v \<Longrightarrow> length x \<le> SS"
      using k1 length_disk_read_one [OF rd] by (simp add: keep_def wf_vol_def)
    then show ?thesis using k2 by (auto simp: keep_def geo_def wf_vol_def)
  qed
  then show ?thesis using mw s1 k1 rd by (auto simp: move_window_def Let_def split: if_splits)
qed

lemma sync_fs_keep: "sync_fs v = (res, v') \<Longrightarrow> keep v v' \<and> releasing res"
proof -
  assume sf: "sync_fs v = (res, v')"
  obtain r1 v1 where s1: "sync_window v = (r1, v1)" by fastforce
  note k1 = sync_window_keep [OF s1]
  have k: "keep v (v1\<lparr>win := w, winsect := q, drv := snd (disk_write (pdrv v1) w q 1 (drv v1)), fsi_flag := f\<rparr>)"
    if "length w = length (win v1)" for w q f
  proof -
    have "keep v (v1\<lparr>win := w, winsect := q\<rparr>)"
      using keep_trans [OF conjunct1 [OF k1] keep_trans [OF keep_fields(7) [OF that] keep_fields(5)]] .
    moreover have "keep (v1\<lparr>win := w, winsect := q\<rparr>)
        (v1\<lparr>win := w, winsect := q, drv := snd (disk_write (pdrv v1) w q 1 (drv v1))\<rparr>)"
      using keep_disk_write [of _ w q 1 "v1\<lparr>win := w, winsect := q\<rparr>"] that
      by (cases "disk_write (pdrv v1) w q 1 (drv v1)") (auto simp: wf_vol_def)
    ultimately show ?thesis using keep_trans keep_fields(3) by blast
  qed
  show ?thesis using sf s1 k1 k
    by (auto simp: sync_fs_def disk_ioctl_def Let_def split: if_splits)
qed

text \<open>From here on the proofs follow the code: \<open>keep\<close> chains along the calls, as equations and an
  implication.\<close>

lemmas window_keep = sync_window_keep move_window_keep sync_fs_keep

lemma get_fat_keep: "get_fat v c = (r, v') \<Longrightarrow> keep v v'"
  by (auto simp: get_fat_def Let_def keep_def split: if_splits prod.splits dest!: window_keep)

lemma put_fat_keep: "put_fat v c x = (res, v') \<Longrightarrow> keep v v' \<and> releasing res"
  by (auto simp: put_fat_def Let_def keep_def frame_simps split: if_splits prod.splits dest!: window_keep)

lemma note_freed_keep [frame_simps]:
  "geo (note_freed v) = geo v" "wf_vol (note_freed v) = wf_vol v" "lfnbuf (note_freed v) = lfnbuf v"
  by (simp_all add: note_freed_def frame_simps)

lemmas table_keep = get_fat_keep put_fat_keep

lemma bindE:
  assumes "Option.bind m f = Some y"
  obtains x where "m = Some x" and "f x = Some y"
  using assms by (cases m) auto

section \<open>Cluster chains\<close>

lemma remove_loop_keep: "remove_loop v c = Some y \<Longrightarrow> keep v (snd y) \<and> releasing (fst y)"
proof (induction rule: remove_loop.raw_induct [rotated, consumes 1, case_names step])
  case (step f v c y)
  from step(2) show ?case
    by (cases y) (auto simp: Let_def keep_def frame_simps split: if_splits prod.splits dest!: table_keep step(1))
qed

lemma remove_chain_keep: "remove_chain v c p = Some (res, v') \<Longrightarrow> keep v v' \<and> releasing res"
  by (auto simp: remove_chain_def Let_def keep_def split: if_splits prod.splits
      dest!: table_keep remove_loop_keep)

lemma find_free_keep: "find_free v scl ncl = Some y \<Longrightarrow> keep v (snd y)"
proof (induction rule: find_free.raw_induct [rotated, consumes 1, case_names step])
  case (step f v scl ncl y)
  from step(2) show ?case
    by (cases y) (auto simp: Let_def keep_def split: if_splits prod.splits dest!: table_keep step(1))
qed

lemma create_start_keep: "create_start v c = (r, v') \<Longrightarrow> keep v v'"
  by (auto simp: create_start_def Let_def keep_def split: if_splits prod.splits dest!: table_keep)

lemma create_find_keep: "create_find v c scl = Some (r, v') \<Longrightarrow> keep v v'"
  by (auto simp: create_find_def Let_def keep_def split: if_splits prod.splits
      dest!: table_keep find_free_keep)

lemma create_link_keep: "create_link v c n = (r, v') \<Longrightarrow> keep v v'"
  by (auto simp: create_link_def Let_def keep_def frame_simps split: if_splits prod.splits dest!: table_keep)

lemma create_chain_keep: "create_chain v c = Some (r, v') \<Longrightarrow> keep v v'"
  by (auto simp: create_chain_def keep_def split: if_splits prod.splits sum.splits elim!: bindE
      dest!: create_start_keep create_find_keep create_link_keep)

lemmas chain_keep = table_keep remove_chain_keep create_chain_keep

section \<open>Directory tables\<close>

lemma ff_memalloc_keep: "ff_memalloc v = (ok, v') \<Longrightarrow> keep v v'"
  by (auto simp: ff_memalloc_def keep_def frame_simps split: list.splits)

lemma clear_alloc_keep: "clear_alloc v szb = (n, v') \<Longrightarrow> keep v v' \<and> n \<le> szb"
proof (induction v szb rule: clear_alloc.induct)
  case (1 v szb)
  have half: "szb div 2 \<le> szb" by (simp add: word_le_nat_alt unat_div)
  obtain ok v1 where m: "ff_memalloc v = (ok, v1)" by fastforce
  show ?case
  proof (cases "szb > SS \<and> \<not> ok")
    case True
    then have "clear_alloc v1 (szb div 2) = (n, v')"
      using 1(2) m by (subst (asm) clear_alloc.simps) simp
    then show ?thesis using 1(1) [OF _ m [symmetric]] True ff_memalloc_keep [OF m] half keep_trans by fastforce
  next
    case False
    then show ?thesis using 1(2) m ff_memalloc_keep [OF m] by (subst (asm) clear_alloc.simps) (auto split: if_splits)
  qed
qed

lemma clear_loop_geo: "clear_loop v b sect szb n = Some y \<Longrightarrow> geo (snd y) = geo v \<and> lfnbuf (snd y) = lfnbuf v"
proof (induction rule: clear_loop.raw_induct [rotated, consumes 1, case_names step])
  case (step f v b sect szb n y)
  have drv: "disk_write p b s k (drv v) = (r, d) \<Longrightarrow> geo (v\<lparr>drv := d\<rparr>) = geo v" for p s k r d
    using disk_write_attached [of p b s k "drv v" r d] by (simp add: geo_def)
  from step(2) show ?case
    by (cases y) (auto simp: Let_def drv split: if_splits prod.splits dest!: step(1))
qed

lemma clear_loop_wf:
  "clear_loop v b sect szb n = Some y \<Longrightarrow> SS * unat szb \<le> length b \<Longrightarrow> wf_vol v \<Longrightarrow> wf_vol (snd y)"
proof (induction rule: clear_loop.raw_induct [rotated, consumes 1, case_names step])
  case (step f v b sect szb n y)
  have drv: "disk_write p b s szb (drv v) = (r, d) \<Longrightarrow> wf_vol (v\<lparr>drv := d\<rparr>)" for p s r d
    using keep_disk_write [of p b s szb v r d] step(3,4) by (simp add: keep_def)
  from step(2,4) show ?case
    by (cases y) (auto simp: Let_def intro: drv split: if_splits prod.splits dest!: step(1) [OF _ step(3)])
qed

lemma dir_clear_keep: "dir_clear v c = Some (res, v') \<Longrightarrow> keep v v' \<and> releasing res"
proof -
  assume dc: "dir_clear v c = Some (res, v')"
  obtain r1 v1 where s1: "sync_window v = (r1, v1)" by fastforce
  note k1 = sync_window_keep [OF s1]
  show ?thesis
  proof (cases "r1 = FR_OK")
    case False
    then show ?thesis using dc s1 k1 by (auto simp: dir_clear_def split: if_splits)
  next
    case True
    define v2 where "v2 = v1\<lparr>winsect := clst2sect v1 c, win := mem_set (win v1) 0 0 SS\<rparr>"
    have cs: "csize v2 = csize v1" by (simp add: v2_def)
    have k2: "keep v v2" using k1 by (auto simp: v2_def keep_def geo_def wf_vol_def)
    obtain szb v3 where al: "clear_alloc v2 (if ucast (csize v2) * SS \<ge> MAX_MALLOC then MAX_MALLOC
        else ucast (csize v2) * SS) = (szb, v3)" by fastforce
    have k3: "keep v v3" using keep_trans [OF k2] clear_alloc_keep [OF al] by blast
    define ib where "ib = (if szb > SS then mem_set (replicate (unat szb) 0) 0 0 szb else win v3)"
    define m where "m = (if szb > SS then szb div SS else 1)"
    obtain n where lp: "clear_loop v3 ib (clst2sect v1 c) m 0 = Some (n, v')" and res: "releasing res"
      using dc s1 True al unfolding dir_clear_def v2_def [symmetric] ib_def m_def
      by (auto simp: Let_def v2_def [symmetric] cs split: if_splits elim!: bindE)
    have "wf_vol v3 \<Longrightarrow> SS * unat m \<le> length ib"
      by (auto simp: m_def ib_def wf_vol_def unat_div)
    then show ?thesis using clear_loop_wf [OF lp] clear_loop_geo [OF lp] k3 res by (auto simp: keep_def)
  qed
qed

lemma sdi_loop_keep:
  "sdi_loop v csz ofs c = Some y \<Longrightarrow> keep v (snd y) \<and> (\<forall>e. fst y = Inl e \<longrightarrow> releasing e)"
proof (induction rule: sdi_loop.raw_induct [rotated, consumes 1, case_names step])
  case (step f v csz ofs c y)
  from step(2) show ?case
    by (cases y) (auto simp: Let_def keep_def split: if_splits prod.splits dest!: table_keep step(1))
qed

lemma dir_sdi_keep: "dir_sdi v dp ofs = Some (res, dp', v') \<Longrightarrow> keep v v' \<and> releasing res"
  by (auto simp: dir_sdi_def Let_def keep_def split: if_splits prod.splits sum.splits elim!: bindE
      dest!: sdi_loop_keep)

lemma next_cluster_keep:
  "next_cluster v dp s = Some (r, v') \<Longrightarrow> keep v v' \<and> (\<forall>e dp'. r = Inl (e, dp') \<longrightarrow> releasing e)"
  by (auto simp: next_cluster_def Let_def keep_def split: if_splits prod.splits elim!: bindE
      dest!: chain_keep dir_clear_keep)

lemma dir_next_keep: "dir_next v dp s = Some (res, dp', v') \<Longrightarrow> keep v v' \<and> releasing res"
  by (auto simp: dir_next_def Let_def keep_def split: if_splits prod.splits sum.splits elim!: bindE
      dest!: next_cluster_keep)

lemma dir_alloc_loop_keep:
  "dir_alloc_loop v dp nent n = Some y \<Longrightarrow> keep v (snd (snd y)) \<and> releasing (fst y)"
proof (induction rule: dir_alloc_loop.raw_induct [rotated, consumes 1, case_names step])
  case (step f v dp nent n y)
  from step(2) show ?case
    by (cases y) (auto simp: Let_def keep_def split: if_splits prod.splits elim!: bindE
        dest!: window_keep dir_next_keep step(1))
qed

lemma dir_alloc_keep: "dir_alloc v dp n = Some (res, dp', v') \<Longrightarrow> keep v v' \<and> releasing res"
  by (auto simp: dir_alloc_def keep_def split: if_splits prod.splits elim!: bindE
      dest!: dir_sdi_keep dir_alloc_loop_keep)

lemmas dir_keep = dir_clear_keep dir_sdi_keep dir_next_keep dir_alloc_keep

section \<open>Entries, paths\<close>

lemma length_pick_lfn_loop: "pick_lfn_loop ss l p d i wc = (r, l') \<Longrightarrow> length l' = length l"
  by (induction ss l p d i wc rule: pick_lfn_loop.induct) (auto simp: Let_def split: if_splits)

lemma length_pick_lfn: "pick_lfn l p d = (ok, l') \<Longrightarrow> length l' = length l"
  by (auto simp: pick_lfn_def Let_def split: if_splits prod.splits option.splits dest!: length_pick_lfn_loop)

lemma length_pick_name: "pick_name l di p = (r, l') \<Longrightarrow> length l' = length l"
proof (induction l di p rule: pick_name.induct)
  case (1 l di p)
  obtain uc q where t: "tchar2uni p = (uc, q)" by fastforce
  define x where "x = (if uc \<ge> 0x10000 then (l[di := ucast (drop_bit 16 uc)], di + 1) else (l, di))"
  obtain l1 d1 where x: "x = (l1, d1)" by fastforce
  have len: "length l1 = length l" using x by (auto simp: x_def split: if_splits)
  note IH = 1(1) [OF t [symmetric] _ x_def x [symmetric] refl]
  show ?case using 1(2) t x len IH
    by (subst (asm) pick_name.simps) (auto simp: Let_def x_def [symmetric] split: if_splits)
qed

lemma pick_name_error: "pick_name l di p = (Inl e, l') \<Longrightarrow> e = FR_INVALID_NAME"
proof (induction l di p rule: pick_name.induct)
  case (1 l di p)
  obtain uc q where t: "tchar2uni p = (uc, q)" by fastforce
  define x where "x = (if uc \<ge> 0x10000 then (l[di := ucast (drop_bit 16 uc)], di + 1) else (l, di))"
  obtain l1 d1 where x: "x = (l1, d1)" by fastforce
  note IH = 1(1) [OF t [symmetric] _ x_def x [symmetric] refl]
  show ?case using 1(2) t x IH
    by (subst (asm) pick_name.simps) (auto simp: Let_def x_def [symmetric] split: if_splits)
qed

lemma length_create_name: "create_name l s p = (r, l', s', p') \<Longrightarrow> length l' = length l"
  by (auto simp: create_name_def Let_def split: if_splits prod.splits sum.splits dest!: length_pick_name)

lemma length_put_lfn_loop: "put_lfn_loop ss l p d i wc = (p', r) \<Longrightarrow> length p' = length p"
  by (induction ss l p d i wc arbitrary: p' r rule: put_lfn_loop.induct) (auto simp: Let_def split: if_splits prod.splits)

lemma length_put_lfn [simp]: "length (put_lfn l p d k c) = length p"
  by (auto simp: put_lfn_def Let_def split: prod.splits dest!: length_put_lfn_loop)

lemma length_st_clust [simp]: "length (st_clust v p d c) = length p"
  by (simp add: st_clust_def Let_def)

lemma read_entry_keep: "read_entry v dp l b ord chk = (f, dp', v', r) \<Longrightarrow> keep v v'"
  by (auto simp: read_entry_def Let_def keep_def frame_simps split: if_splits prod.splits dest!: length_pick_lfn)

lemma read_loop_keep:
  "read_loop v dp l res ord chk = Some y \<Longrightarrow> releasing res \<Longrightarrow> keep v (snd (snd y)) \<and> releasing (fst y)"
proof (induction rule: read_loop.raw_induct [rotated, consumes 1, case_names step])
  case (step f v dp l res ord chk y)
  from step(2,3) show ?case
    by (cases y) (auto simp: Let_def keep_def split: if_splits prod.splits elim!: bindE
        dest!: window_keep dir_keep read_entry_keep step(1))
qed

lemma dir_read_keep: "dir_read v dp l = Some (res, dp', v') \<Longrightarrow> keep v v' \<and> releasing res"
  by (auto simp: dir_read_def split: if_splits prod.splits elim!: bindE dest!: read_loop_keep)

lemma find_loop_keep: "find_loop v dp ord chk = Some y \<Longrightarrow> keep v (snd (snd y)) \<and> releasing (fst y)"
proof (induction rule: find_loop.raw_induct [rotated, consumes 1, case_names step])
  case (step f v dp ord chk y)
  from step(2) show ?case
    by (cases y) (auto simp: Let_def keep_def split: if_splits prod.splits elim!: bindE
        dest!: window_keep dir_keep step(1))
qed

lemma dir_find_keep: "dir_find v dp = Some (res, dp', v') \<Longrightarrow> keep v v' \<and> releasing res"
  by (auto simp: dir_find_def keep_def split: if_splits prod.splits elim!: bindE dest!: dir_keep find_loop_keep)

lemma numname_loop_keep:
  "numname_loop v dp sn n res = Some y \<Longrightarrow> releasing res \<Longrightarrow>
   keep v (snd (snd (snd y))) \<and> releasing (fst (snd y))"
proof (induction rule: numname_loop.raw_induct [rotated, consumes 1, case_names step])
  case (step f v dp sn n res y)
  from step(2,3) show ?case
    by (cases y) (auto simp: Let_def keep_def split: if_splits prod.splits elim!: bindE
        dest!: dir_find_keep step(1))
qed

lemma put_lfns_keep: "put_lfns v dp n chk = Some y \<Longrightarrow> keep v (snd (snd y)) \<and> releasing (fst y)"
proof (induction rule: put_lfns.raw_induct [rotated, consumes 1, case_names step])
  case (step f v dp n chk y)
  from step(2) show ?case
    by (cases y) (auto simp: Let_def keep_def frame_simps split: if_splits prod.splits elim!: bindE
        dest!: window_keep dir_keep step(1))
qed

lemma put_sfn_keep: "put_sfn v dp = (res, v') \<Longrightarrow> keep v v' \<and> releasing res"
  by (auto simp: put_sfn_def Let_def keep_def frame_simps split: if_splits prod.splits dest!: window_keep)

lemma create_entries_keep: "create_entries v dp n = Some (res, dp', v') \<Longrightarrow> keep v v' \<and> releasing res"
  by (auto simp: create_entries_def keep_def split: if_splits prod.splits elim!: bindE
      dest!: dir_keep put_lfns_keep put_sfn_keep)

lemma dir_register_keep: "dir_register v dp = Some (res, dp', v') \<Longrightarrow> keep v v' \<and> releasing res"
  by (auto simp: dir_register_def Let_def keep_def split: if_splits prod.splits elim!: bindE
      dest!: numname_loop_keep create_entries_keep)

lemma remove_entries_keep: "remove_entries v dp l = Some y \<Longrightarrow> keep v (snd (snd y)) \<and> releasing (fst y)"
proof (induction rule: remove_entries.raw_induct [rotated, consumes 1, case_names step])
  case (step f v dp l y)
  from step(2) show ?case
    by (cases y) (auto simp: Let_def keep_def frame_simps split: if_splits prod.splits elim!: bindE
        dest!: window_keep dir_keep step(1))
qed

lemma dir_remove_keep: "dir_remove v dp = Some (res, dp', v') \<Longrightarrow> keep v v' \<and> releasing res"
  by (auto simp: dir_remove_def Let_def keep_def split: if_splits prod.splits elim!: bindE
      dest!: dir_keep remove_entries_keep)

lemma take_name_keep: "take_name v dp p = (res, dp', v', p') \<Longrightarrow> keep v v' \<and> releasing res"
proof -
  assume t: "take_name v dp p = (res, dp', v', p')"
  obtain r l s q where c: "create_name (lfnbuf v) (fn dp) p = (r, l, s, q)" by (metis prod_cases4)
  have "r = FR_OK \<or> r = FR_INVALID_NAME" using c pick_name_error
    by (auto simp: create_name_def Let_def split: if_splits prod.splits sum.splits)
  then show ?thesis using t c length_create_name [OF c] by (auto simp: take_name_def keep_def frame_simps)
qed

lemma follow_loop_keep: "follow_loop v dp p = Some y \<Longrightarrow> keep v (snd (snd y)) \<and> releasing (fst y)"
proof (induction rule: follow_loop.raw_induct [rotated, consumes 1, case_names step])
  case (step f v dp p y)
  from step(2) show ?case
    by (cases y) (auto simp: Let_def keep_def split: if_splits prod.splits elim!: bindE
        dest!: take_name_keep dir_find_keep step(1))
qed

lemma follow_path_keep: "follow_path v dp p = Some (res, dp', v') \<Longrightarrow> keep v v' \<and> releasing res"
  by (auto simp: follow_path_def Let_def split: if_splits dest!: dir_keep follow_loop_keep)

lemmas entry_keep = dir_read_keep dir_find_keep dir_register_keep dir_remove_keep follow_path_keep

section \<open>Files\<close>

text \<open>A file object in good order: a sector buffer of 512 bytes, and an error that lets the lock be
  released. \<open>fkeep\<close> is \<open>keep\<close> for the operations on an open file.\<close>

definition wf_file :: "FIL \<Rightarrow> bool" where
  "wf_file fp \<longleftrightarrow> length (buf fp) = SS \<and> releasing (err fp)"

definition fkeep :: "vol \<Rightarrow> FIL \<Rightarrow> vol \<Rightarrow> FIL \<Rightarrow> bool" where
  "fkeep v fp v' fp' \<longleftrightarrow>
     (wf_vol v \<and> wf_file fp \<longrightarrow>
        geo v' = geo v \<and> length (lfnbuf v') = length (lfnbuf v) \<and> wf_vol v' \<and> wf_file fp')"

lemma fkeepI:
  "(wf_vol v \<Longrightarrow> wf_file fp \<Longrightarrow>
     geo v' = geo v \<and> length (lfnbuf v') = length (lfnbuf v) \<and> wf_vol v' \<and> wf_file fp') \<Longrightarrow> fkeep v fp v' fp'"
  by (simp add: fkeep_def)

lemmas fkeep_defs = fkeep_def keep_def wf_file_def

lemma flush_buf_keep: "flush_buf v fp = (ok, fp', v') \<Longrightarrow> fkeep v fp v' fp'"
proof -
  assume f: "flush_buf v fp = (ok, fp', v')"
  obtain r d where w: "disk_write (pdrv v) (buf fp) (fsect fp) 1 (drv v) = (r, d)" by fastforce
  have "geo (v\<lparr>drv := d\<rparr>) = geo v" using disk_write_attached [OF w] by (simp add: geo_def)
  moreover have "wf_file fp \<Longrightarrow> wf_vol v \<Longrightarrow> wf_vol (v\<lparr>drv := d\<rparr>)"
    using keep_disk_write [OF w] by (simp add: wf_file_def keep_def)
  ultimately show ?thesis using f w by (auto simp: flush_buf_def fkeep_def wf_file_def split: if_splits)
qed

lemma fill_buf_keep: "fill_buf v fp s = (ok, fp', v') \<Longrightarrow> fkeep v fp v' fp'"
proof -
  assume f: "fill_buf v fp s = (ok, fp', v')"
  obtain r x d where rd: "disk_read (pdrv v) s 1 (drv v) = (r, x, d)" by (metis prod_cases3)
  have "wf_vol v \<Longrightarrow> length x \<le> SS" using length_disk_read_one [OF rd] by (simp add: wf_vol_def)
  then show ?thesis using f rd keep_disk_read [OF rd]
    by (auto simp: fill_buf_def fkeep_defs)
qed

lemmas buf_keep = flush_buf_keep fill_buf_keep

lemma append_loop_keep: "append_loop v b ofs c = Some y \<Longrightarrow> keep v (snd (snd (snd y))) \<and> releasing (fst y)"
proof (induction rule: append_loop.raw_induct [rotated, consumes 1, case_names step])
  case (step f v b ofs c y)
  from step(2) show ?case
    by (cases y) (auto simp: Let_def keep_def split: if_splits prod.splits dest!: table_keep step(1))
qed

lemma open_append_keep: "open_append v fp = Some (res, fp', v') \<Longrightarrow> fkeep v fp v' fp' \<and> releasing res"
  by (rule conjI, rule fkeepI) (auto simp: open_append_def Let_def fkeep_defs split: if_splits prod.splits
      elim!: bindE dest!: append_loop_keep buf_keep)

lemma open_reset_keep: "open_reset v dj = Some (res, v') \<Longrightarrow> keep v v' \<and> releasing res"
  by (auto simp: open_reset_def Let_def keep_def frame_simps split: if_splits prod.splits elim!: bindE
      dest!: chain_keep window_keep)

lemma open_entry_keep:
  "open_entry v dj m r = Some (res, m', dj', v') \<Longrightarrow> releasing r \<Longrightarrow> keep v v' \<and> releasing res"
  by (auto simp: open_entry_def Let_def keep_def split: if_splits prod.splits elim!: bindE
      dest!: entry_keep open_reset_keep)

lemma open_file_keep: "open_file v k fp dj m = Some (res, fp', v') \<Longrightarrow> fkeep v fp v' fp' \<and> releasing res"
  by (rule conjI, rule fkeepI)
    (auto simp: open_file_def Let_def fkeep_defs split: if_splits prod.splits dest!: open_append_keep)

lemma open_work_keep: "open_work k fp dj p m v = Some (res, fp', v') \<Longrightarrow> fkeep v fp v' fp' \<and> releasing res"
  by (rule conjI, rule fkeepI) (auto simp: open_work_def Let_def fkeep_defs split: if_splits prod.splits elim!: bindE
      dest!: entry_keep open_entry_keep open_file_keep)

lemma read_cluster_keep: "read_cluster v fp = (res, fp', v') \<Longrightarrow> fkeep v fp v' fp' \<and> releasing res"
  by (rule conjI, rule fkeepI)
    (auto simp: read_cluster_def Let_def fkeep_defs split: if_splits prod.splits dest!: table_keep)

lemma read_direct_keep: "read_direct v fp b pos s cc = (ok, b', v') \<Longrightarrow> keep v v'"
  by (auto simp: read_direct_def Let_def split: if_splits prod.splits dest: keep_disk_read)

lemma read_round_keep:
  "read_round v fp b pos btr = (r, fp', b', v') \<Longrightarrow> fkeep v fp v' fp' \<and> (\<forall>e. r = Inl e \<longrightarrow> releasing e)"
  by (rule conjI, rule fkeepI) (auto simp: read_round_def Let_def fkeep_defs split: if_splits prod.splits
      dest!: read_cluster_keep read_direct_keep buf_keep)

lemma read_loop_f_keep:
  "read_loop_f v fp b br btr = Some y \<Longrightarrow> fkeep v fp (snd (snd y)) (fst (fst (snd y))) \<and> releasing (fst y)"
proof (induction rule: read_loop_f.raw_induct [rotated, consumes 1, case_names step])
  case (step f v fp b br btr y)
  from step(2) show ?case
    by (cases y, intro conjI fkeepI) (auto simp: fkeep_defs split: if_splits prod.splits sum.splits
        dest!: read_round_keep step(1))
qed

lemma read_work_keep:
  "read_work fp b btr v = Some (res, (fp', x), v') \<Longrightarrow> fkeep v fp v' fp' \<and> releasing res"
  by (auto simp: read_work_def Let_def dest: read_loop_f_keep)

text \<open>Writing takes whole sectors from the user's buffer, which must hold what is asked for.\<close>

lemma write_cluster_keep:
  "write_cluster v fp = Some (r, fp', v') \<Longrightarrow> fkeep v fp v' fp' \<and> (\<forall>e. r = Inl e \<longrightarrow> releasing e)"
  by (rule conjI, rule fkeepI) (auto simp: write_cluster_def Let_def fkeep_defs split: if_splits prod.splits
      elim!: bindE dest!: chain_keep)

lemma write_partial_keep: "write_partial fp b pos btw = (n, fp') \<Longrightarrow> fkeep v fp v fp' \<and> n \<le> btw"
  by (auto simp: write_partial_def Let_def fkeep_defs not_less split: if_splits)

lemma write_direct_keep:
  assumes "write_direct v fp b pos s cc = (ok, fp', v')" and "pos + SS * unat cc \<le> length b"
  shows "fkeep v fp v' fp'"
proof -
  obtain r d where w: "disk_write (pdrv v) (drop pos b) s cc (drv v) = (r, d)" by fastforce
  have "keep v (v\<lparr>drv := d\<rparr>)" by (rule keep_disk_write [OF w]) (use assms(2) in simp)
  then show ?thesis using assms(1) w
    by (intro fkeepI) (auto simp: write_direct_def Let_def fkeep_defs split: if_splits)
qed

lemma cluster_part:
  fixes cs :: WORD and x :: FSIZE and btw :: UINT
  assumes "cs \<noteq> 0"
  defines "c \<equiv> x AND (ucast cs - 1)" and "cc \<equiv> btw div SS"
  shows "(if c + cc > ucast cs then ucast cs - c else cc) \<le> cc"
proof -
  have cs: "0 < unat cs" "unat cs < 65536" using assms(1) unsigned_less [of cs] by (simp_all add: unat_gt_0)
  have "(1 :: DWORD) \<le> ucast cs" using cs by (simp add: word_le_nat_alt)
  then have "unat (ucast cs - 1 :: DWORD) = unat cs - 1" by (simp add: unat_sub)
  moreover have "c \<le> ucast cs - 1" unfolding c_def by (rule word_and_le1)
  ultimately have c: "unat c < unat cs" using cs by (simp add: word_le_nat_alt)
  have "unat cc = unat btw div 512" by (simp add: cc_def unat_div)
  then have cc: "unat cc < 8388608" using unat_lt_pow32 [of btw] by linarith
  have "unat c + unat cc < 4294967296" using c cc cs(2) by linarith
  then have "unat (c + cc) = unat c + unat cc" by (intro unat_add_bound) simp
  moreover have "unat (ucast cs - c) = unat cs - unat c" using c by (simp add: unat_sub word_le_nat_alt)
  ultimately show ?thesis using c by (auto simp: word_le_nat_alt word_less_nat_alt)
qed

lemma write_sector_keep:
  assumes "write_sector v fp b pos btw (x AND (ucast (csize v) - 1)) = (r, fp', v')"
    and "pos + unat btw \<le> length b" and "csize v \<noteq> 0"
  shows "fkeep v fp v' fp' \<and> (\<forall>e. r = Inl e \<longrightarrow> releasing e) \<and> (\<forall>n. r = Inr n \<longrightarrow> n \<le> btw)"
proof -
  have mult: "SS * n \<le> btw" "pos + SS * unat n \<le> length b" if "n \<le> btw div SS" for n
  proof -
    have "unat n \<le> unat btw div 512" using that by (simp add: word_le_nat_alt unat_div)
    then have le: "512 * unat n \<le> unat btw" by linarith
    then have "512 * unat n < 4294967296" using unat_lt_pow32 [of btw] by linarith
    then have "unat (SS * n) = 512 * unat n" by (subst unat_mult_bound) simp_all
    then show "SS * n \<le> btw" "pos + SS * unat n \<le> length b" using le assms(2) by (simp_all add: word_le_nat_alt)
  qed
  obtain ok fp1 v1 where f: "flush_buf v fp = (ok, fp1, v1)" by (metis prod_cases3)
  have cs: "csize v1 = csize v" using f by (auto simp: flush_buf_def split: if_splits prod.splits)
  define cc where "cc = (if (x AND (ucast (csize v) - 1)) + btw div SS > ucast (csize v)
    then ucast (csize v) - (x AND (ucast (csize v) - 1)) else btw div SS)"
  have cc: "cc \<le> btw div SS" unfolding cc_def by (rule cluster_part [OF assms(3)])
  have k: "write_direct v1 fp1 b pos s cc = (ok2, fp2, v2) \<Longrightarrow> fkeep v1 fp1 v2 fp2" for s ok2 fp2 v2
    by (rule write_direct_keep) (use mult(2) [OF cc] in auto)
  note eq = assms(1) [unfolded write_sector_def Let_def f prod.case cs cc_def [symmetric]]
  show ?thesis
    by (intro conjI, rule fkeepI; use eq f mult(1) [OF cc] in \<open>auto simp: fkeep_defs split: if_splits prod.splits
      dest!: buf_keep k write_partial_keep\<close>)
qed

lemma write_round_keep:
  assumes "write_round v fp b pos btw = Some (r, fp', v')"
    and "pos + unat btw \<le> length b" and "csize v \<noteq> 0" and "wf_vol v" and "wf_file fp"
  shows "geo v' = geo v \<and> length (lfnbuf v') = length (lfnbuf v) \<and> wf_vol v' \<and> wf_file fp'
    \<and> (\<forall>e. r = Inl e \<longrightarrow> releasing e) \<and> (\<forall>n. r = Inr (Some n) \<longrightarrow> n \<le> btw)"
proof (cases "fptr fp mod SS = 0")
  case False
  then show ?thesis using assms by (auto simp: write_round_def fkeep_def split: prod.splits dest!: write_partial_keep)
next
  case True
  define x where "x = fptr fp div SS"
  define c where "c = x AND (ucast (csize v) - 1)"
  obtain r1 fp1 v1 where s1: "(if c = 0 then write_cluster v fp else Some (Inr (Some ()), fp, v)) = Some (r1, fp1, v1)"
    and rest: "(case r1 of Inl res \<Rightarrow> Some (Inl res, fp1, v1) | Inr None \<Rightarrow> Some (Inr None, fp1, v1)
      | Inr (Some _) \<Rightarrow> (case write_sector v1 fp1 b pos btw c of
          (Inl res, fp, v) \<Rightarrow> Some (Inl res, fp, v) | (Inr n, fp, v) \<Rightarrow> Some (Inr (Some n), fp, v)))
      = Some (r, fp', v')"
    using assms(1) True unfolding write_round_def Let_def x_def [symmetric] c_def [symmetric]
    by (auto elim!: bindE)
  have k1: "geo v1 = geo v" "length (lfnbuf v1) = length (lfnbuf v)" "wf_vol v1" "wf_file fp1"
    "\<forall>e. r1 = Inl e \<longrightarrow> releasing e"
    using s1 assms(4,5) by (auto simp: fkeep_def split: if_splits dest!: write_cluster_keep)
  have cs: "csize v1 = csize v" using k1(1) by (rule geo_fields)
  obtain r2 fp2 v2 where w: "write_sector v1 fp1 b pos btw c = (r2, fp2, v2)" by (metis prod_cases3)
  have "fkeep v1 fp1 v2 fp2 \<and> (\<forall>e. r2 = Inl e \<longrightarrow> releasing e) \<and> (\<forall>n. r2 = Inr n \<longrightarrow> n \<le> btw)"
    by (rule write_sector_keep [of v1 fp1 b pos btw x]) (use w cs assms(2,3) in \<open>simp_all add: c_def\<close>)
  then show ?thesis using rest w k1 by (auto simp: fkeep_def split: sum.splits option.splits)
qed

lemma advance_keep: "wf_file (advance fp n) = wf_file fp"
  by (simp add: advance_def wf_file_def Let_def)

lemma write_loop_keep:
  "write_loop v fp b bw btw = Some y \<Longrightarrow> unat bw + unat btw \<le> length b \<Longrightarrow> csize v \<noteq> 0 \<Longrightarrow>
   wf_vol v \<Longrightarrow> wf_file fp \<Longrightarrow> unat bw + unat btw < 2 ^ 32 \<Longrightarrow>
   geo (snd (snd y)) = geo v \<and> length (lfnbuf (snd (snd y))) = length (lfnbuf v) \<and> wf_vol (snd (snd y))
   \<and> wf_file (fst (fst (snd y))) \<and> releasing (fst y)"
proof (induction rule: write_loop.raw_induct [rotated, consumes 1, case_names step])
  case (step f v fp b bw btw y)
  show ?case
  proof (cases "btw = 0")
    case True
    then show ?thesis using step(2,6) step.prems by (auto simp: wf_file_def)
  next
    case False
    then obtain r fp1 v1 where w: "write_round v fp b (unat bw) btw = Some (r, fp1, v1)"
      and rest: "(case r of Inl res \<Rightarrow> Some (res, (fp1\<lparr>err := res\<rparr>, bw), v1)
         | Inr None \<Rightarrow> Some (FR_OK, (fp1\<lparr>flag := flag fp1 OR FA_MODIFIED\<rparr>, bw), v1)
         | Inr (Some wcnt) \<Rightarrow> f v1 (advance fp1 wcnt) b (bw + wcnt) (btw - wcnt)) = Some y"
      using step(2) by (auto elim!: bindE)
    note k = write_round_keep [OF w step.prems(1-4)]
    show ?thesis
    proof (cases "\<exists>n. r = Inr (Some n)")
      case False
      then show ?thesis using rest k by (auto simp: wf_file_def split: sum.splits option.splits)
    next
      case True
      then obtain n where r: "r = Inr (Some n)" by blast
      then have n: "n \<le> btw" using k by blast
      then have "unat (btw - n) = unat btw - unat n" "unat n \<le> unat btw" by (simp_all add: unat_sub word_le_nat_alt)
      moreover have "unat (bw + n) = unat bw + unat n"
        using calculation(2) step.prems(5) by (intro unat_add_bound) simp
      moreover have "csize v1 = csize v" using k by (intro geo_fields) blast
      ultimately show ?thesis using step(1) [of v1 "advance fp1 n" b "bw + n" "btw - n" y] rest r k step.prems
        by (simp add: advance_keep)
    qed
  qed
qed

lemma write_work_keep:
  assumes "write_work fp b btw v = Some (res, (fp', bw), v')"
    and "unat btw \<le> length b" and "csize v \<noteq> 0" and "wf_vol v" and "wf_file fp"
  shows "geo v' = geo v \<and> length (lfnbuf v') = length (lfnbuf v) \<and> wf_vol v' \<and> wf_file fp' \<and> releasing res"
proof -
  let ?n = "if fptr fp + btw < fptr fp then 0xFFFFFFFF - fptr fp else btw"
  have "?n \<le> btw"
  proof (cases "fptr fp + btw < fptr fp")
    case True
    have m: "(0xFFFFFFFF :: UINT) = - 1" by simp
    have "fptr fp \<le> 0xFFFFFFFF" unfolding m by (rule word_order.extremum)
    from unat_sub [OF this] have s: "unat (0xFFFFFFFF - fptr fp) = 4294967295 - unat (fptr fp)" by simp
    have "\<not> unat (fptr fp) + unat btw < 4294967296"
      using True by (auto simp: word_less_nat_alt unat_add_bound)
    then show ?thesis unfolding if_P [OF True] word_le_nat_alt s by linarith
  qed simp
  then have "unat ?n \<le> unat btw" by (simp only: word_le_nat_alt)
  then show ?thesis using write_loop_keep [of v fp b 0 ?n "(res, (fp', bw), v')"] assms
    unsigned_less [of ?n] by (simp add: write_work_def Let_def)
qed

section \<open>Synchronising, seeking, truncating\<close>

lemma length_sync_entry [simp]: "length (sync_entry v fp tm) = length (win v)"
  by (simp add: sync_entry_def Let_def)

lemma sync_work_keep: "sync_work fp v = Some (res, fp', v') \<Longrightarrow> fkeep v fp v' fp' \<and> releasing res"
  by (rule conjI, rule fkeepI) (auto simp: sync_work_def Let_def fkeep_defs frame_simps split: if_splits prod.splits
      elim!: bindE dest!: buf_keep window_keep)

lemma seek_loop_keep:
  "seek_loop v fp b ofs c = Some y \<Longrightarrow>
   fkeep v fp (snd (snd y)) (fst (snd y)) \<and> (\<forall>e. fst y = Inl e \<longrightarrow> releasing e)"
proof (induction rule: seek_loop.raw_induct [rotated, consumes 1, case_names step])
  case (step f v fp b ofs c y)
  from step(2) show ?case
    by (cases y, intro conjI fkeepI) (auto simp: Let_def fkeep_defs split: if_splits prod.splits
        elim!: bindE dest!: chain_keep step(1))
qed

lemma seek_start_keep:
  "seek_start v fp i ofs = Some (r, fp', v') \<Longrightarrow> fkeep v fp v' fp' \<and> (\<forall>e. r = Inl e \<longrightarrow> releasing e)"
  by (rule conjI, rule fkeepI) (auto simp: seek_start_def Let_def fkeep_defs split: if_splits prod.splits
      elim!: bindE dest!: chain_keep)

lemma seek_move_keep:
  "seek_move v fp i ofs = Some (r, fp', v') \<Longrightarrow> fkeep v fp v' fp' \<and> (\<forall>e. r = Inl e \<longrightarrow> releasing e)"
  by (rule conjI, rule fkeepI) (auto simp: seek_move_def Let_def fkeep_defs split: if_splits prod.splits sum.splits
      elim!: bindE dest!: seek_start_keep seek_loop_keep)

lemma seek_work_keep: "seek_work fp ofs v = Some (res, fp', v') \<Longrightarrow> fkeep v fp v' fp' \<and> releasing res"
  by (rule conjI, rule fkeepI) (auto simp: seek_work_def Let_def fkeep_defs split: if_splits prod.splits sum.splits
      elim!: bindE dest!: seek_move_keep buf_keep)

lemma truncate_chain_keep: "truncate_chain v fp = Some (res, fp', v') \<Longrightarrow> fkeep v fp v' fp' \<and> releasing res"
  by (rule conjI, rule fkeepI) (auto simp: truncate_chain_def Let_def fkeep_defs split: if_splits prod.splits
      elim!: bindE dest!: chain_keep)

lemma truncate_work_keep: "truncate_work fp v = Some (res, fp', v') \<Longrightarrow> fkeep v fp v' fp' \<and> releasing res"
  by (rule conjI, rule fkeepI) (auto simp: truncate_work_def Let_def fkeep_defs split: if_splits prod.splits
      elim!: bindE dest!: truncate_chain_keep buf_keep)

section \<open>Directories and objects by name\<close>

lemma opendir_work_keep: "opendir_work k dp p v = Some (res, dp', v') \<Longrightarrow> keep v v' \<and> releasing res"
  by (auto simp: opendir_work_def Let_def keep_def split: if_splits prod.splits elim!: bindE
      dest!: entry_keep dir_keep)

lemma readdir_work_keep: "readdir_work dp fno v = Some (res, x, v') \<Longrightarrow> keep v v' \<and> releasing res"
  by (auto simp: readdir_work_def Let_def keep_def split: if_splits prod.splits elim!: bindE
      dest!: entry_keep dir_keep)

lemma stat_work_keep: "stat_work dj fno p v = Some (res, x, v') \<Longrightarrow> keep v v' \<and> releasing res"
  by (auto simp: stat_work_def Let_def keep_def split: if_splits prod.splits elim!: bindE dest!: entry_keep)

lemma free_scan12_keep: "free_scan12 v c n = Some y \<Longrightarrow> keep v (snd (snd y)) \<and> releasing (fst y)"
proof (induction rule: free_scan12.raw_induct [rotated, consumes 1, case_names step])
  case (step f v c n y)
  from step(2) show ?case
    by (cases y) (auto simp: Let_def keep_def split: if_splits prod.splits dest!: table_keep step(1))
qed

lemma free_scan_keep: "free_scan v c s i n = Some y \<Longrightarrow> keep v (snd (snd y)) \<and> releasing (fst y)"
proof (induction rule: free_scan.raw_induct [rotated, consumes 1, case_names step])
  case (step f v c s i n y)
  obtain r v1 where m: "(if i = 0 then move_window v s else (FR_OK, v)) = (r, v1)" by fastforce
  then have "keep v v1 \<and> releasing r" by (auto split: if_splits dest: window_keep)
  with step(2) show ?case unfolding m
    by (cases y) (auto simp: Let_def keep_def split: if_splits dest!: step(1))
qed

lemma getfree_work_keep: "getfree_work v = Some (res, n, v') \<Longrightarrow> keep v v' \<and> releasing res"
  by (auto simp: getfree_work_def keep_def frame_simps split: if_splits prod.splits elim!: bindE
      dest!: free_scan12_keep free_scan_keep)

lemma unlink_check_keep: "unlink_check v dj sdj = Some (res, c, v') \<Longrightarrow> keep v v' \<and> releasing res"
  by (auto simp: unlink_check_def Let_def keep_def split: if_splits prod.splits elim!: bindE
      dest!: entry_keep dir_keep)

lemma unlink_work_keep: "unlink_work dj sdj p v = Some (res, x, v') \<Longrightarrow> keep v v' \<and> releasing res"
  by (auto simp: unlink_work_def Let_def keep_def split: if_splits prod.splits elim!: bindE
      dest!: entry_keep unlink_check_keep chain_keep window_keep)

lemma length_entries [simp]:
  "length (dot_entries v a b t) = length (win v)" "length (mkdir_entry v dj a t) = length (win v)"
  "length (rename_entry v e old) = length (win v)" "length (chmod_entry atr msk v e) = length (win v)"
  "length (utime_entry fno v e) = length (win v)"
  by (simp_all add: dot_entries_def mkdir_entry_def rename_entry_def chmod_entry_def utime_entry_def Let_def)

lemma mkdir_work_keep: "mkdir_work dj p v = Some (res, x, v') \<Longrightarrow> keep v v' \<and> releasing res"
  by (auto simp: mkdir_work_def Let_def keep_def frame_simps split: if_splits prod.splits elim!: bindE
      dest!: entry_keep dir_keep chain_keep window_keep)

lemma rename_dotdot_keep: "rename_dotdot v e c = (res, v') \<Longrightarrow> keep v v' \<and> releasing res"
  by (auto simp: rename_dotdot_def Let_def keep_def frame_simps split: if_splits prod.splits dest!: window_keep)

lemma rename_new_keep: "rename_new v a b old = Some (res, v') \<Longrightarrow> keep v v' \<and> releasing res"
  by (auto simp: rename_new_def Let_def keep_def frame_simps split: if_splits prod.splits elim!: bindE
      dest!: entry_keep rename_dotdot_keep)

lemma rename_work_keep: "rename_work dj p q v = Some (res, x, v') \<Longrightarrow> keep v v' \<and> releasing res"
  by (auto simp: rename_work_def Let_def keep_def split: if_splits prod.splits elim!: bindE
      dest!: entry_keep rename_new_keep window_keep)

lemma change_entry_keep:
  "change_entry dj ed p v = Some (res, x, v') \<Longrightarrow> (\<And>v e. length (ed v e) = length (win v)) \<Longrightarrow>
   keep v v' \<and> releasing res"
  by (auto simp: change_entry_def Let_def keep_def frame_simps split: if_splits prod.splits elim!: bindE
      dest!: entry_keep window_keep)

end
