(* ===== verification/Fat_World.thy ===== *)
theory Fat_World
  imports Fat_Frame
begin

text \<open>
  The module as its callers see it: the system state with every volume unlocked, and the API calls
  as the steps of a state machine. The first part shows for each API function of \<^verbatim>\<open>addon/fatfs/ff.c\<close>
  that it locks at most one volume, unlocks it on every path and keeps the sizes of all buffers; the
  second part composes the calls to any sequence on any files and directories.
\<close>

unbundle bit_operations_syntax


section \<open>The state between and during calls\<close>

text \<open>\<open>sys_ok l g\<close>: the only volume locked is \<open>l\<close>, every array of a filesystem object and every
  sector of a drive has its size, and a mounted volume has a cluster size.\<close>

definition sys_ok :: "nat option \<Rightarrow> sys \<Rightarrow> bool" where
  "sys_ok l g \<longleftrightarrow>
     (\<forall>k. sobj (objs g k) \<longleftrightarrow> l = Some k)
     \<and> (\<forall>k. length (win (objs g k)) = SS \<and> length (lfnbuf (objs g k)) = FF_MAX_LFN + 1)
     \<and> (\<forall>d s. length (sectors (drives g d) s) = SS)
     \<and> (\<forall>k. fs_type (objs g k) \<noteq> 0 \<longrightarrow> csize (objs g k) \<noteq> 0)"

lemma vol_of_simps [simp]:
  "sobj (vol_of g k) = sobj (objs g k)" "win (vol_of g k) = win (objs g k)"
  "lfnbuf (vol_of g k) = lfnbuf (objs g k)" "fs_type (vol_of g k) = fs_type (objs g k)"
  "csize (vol_of g k) = csize (objs g k)" "pdrv (vol_of g k) = pdrv (objs g k)"
  "fs_id (vol_of g k) = fs_id (objs g k)" "drv (vol_of g k) = drives g (unat (pdrv (objs g k)))"
  by (simp_all add: vol_of_def FATFS.defs)

lemma put_vol_simps [simp]:
  "objs (put_vol g k v) = (objs g)(k := FATFS.truncate v)"
  "drives (put_vol g k v) = (drives g)(unat (pdrv v) := drv v)"
  "FatFs (put_vol g k v) = FatFs g" "Fsid (put_vol g k v) = Fsid g"
  by (simp_all add: put_vol_def)

lemma truncate_simps [simp]:
  "sobj (FATFS.truncate v) = sobj v" "win (FATFS.truncate v) = win v" "lfnbuf (FATFS.truncate v) = lfnbuf v"
  "fs_type (FATFS.truncate v) = fs_type v" "csize (FATFS.truncate v) = csize v"
  "fs_id (FATFS.truncate v) = fs_id v" "pdrv (FATFS.truncate v) = pdrv v"
  by (simp_all add: FATFS.defs)

lemma sys_ok_wf: "sys_ok l g \<Longrightarrow> wf_vol (vol_of g k)"
  by (simp add: sys_ok_def wf_vol_def)

lemma put_vol_ok:
  assumes "sys_ok (Some k) g" and "keep (vol_of g k) v"
  shows "sys_ok (Some k) (put_vol g k v)"
proof -
  have "wf_vol v" "geo v = geo (vol_of g k)" "length (lfnbuf v) = FF_MAX_LFN + 1"
    using assms sys_ok_wf [OF assms(1)] by (auto simp: keep_def sys_ok_def)
  then show ?thesis using assms(1) geo_fields [of v "vol_of g k"] by (auto simp: sys_ok_def wf_vol_def)
qed

lemma lock_fs_ok: "lock_fs g k = Some g' \<Longrightarrow> sys_ok None g \<Longrightarrow> sys_ok (Some k) g'"
  by (auto simp: lock_fs_def ff_req_grant_def sys_ok_def split: if_splits)

lemma unlock_fs_ok:
  "sys_ok fs g \<Longrightarrow> fs = None \<or> releasing res \<Longrightarrow> sys_ok None (unlock_fs g fs res)"
  by (auto simp: unlock_fs_def ff_rel_grant_def sys_ok_def releasing_def split: option.split)

lemma leave_ff_ok:
  "leave_ff g fs r x = Some (res, y, g') \<Longrightarrow> sys_ok fs g \<Longrightarrow> fs = None \<or> releasing r \<Longrightarrow> sys_ok None g'"
  by (auto simp: leave_ff_def intro: unlock_fs_ok)

lemma on_volume_ok:
  assumes "on_volume g k work = Some (res, x, g')" and "sys_ok (Some k) g"
    and "\<And>r x v. work (vol_of g k) = Some (r, x, v) \<Longrightarrow> keep (vol_of g k) v \<and> releasing r"
  shows "sys_ok (Some k) g' \<and> releasing res"
  using assms by (auto simp: on_volume_def elim!: bindE split: prod.splits intro: put_vol_ok)

lemma nambuf_ok: "init_nambuf (vol_of g k) = (ok, v) \<Longrightarrow> sys_ok (Some k) g \<Longrightarrow> sys_ok (Some k) (put_vol g k v)"
  unfolding init_nambuf_def by (blast intro: put_vol_ok ff_memalloc_keep)

section \<open>Mounting\<close>

lemma check_fs_keep: "check_fs v s = (r, v') \<Longrightarrow> keep v v'"
  by (auto simp: check_fs_def keep_def frame_simps split: if_splits prod.splits dest!: window_keep)

lemma find_partition_keep: "find_partition v br b f = (bs, r', v') \<Longrightarrow> keep v v'"
proof (induction br arbitrary: v b f)
  case (Cons b' br)
  obtain r v1 where c: "(if b' \<noteq> 0 then check_fs v b' else (3, v)) = (r, v1)" by fastforce
  have "keep v v1" using c check_fs_keep by (auto split: if_splits)
  then show ?case using Cons.IH [of v1 b' r] Cons.prems c keep_trans
    by (simp only: find_partition.simps c prod.case split: if_splits) auto
qed auto

lemma locate_volume_keep: "locate_volume v = (bs, r, v') \<Longrightarrow> keep v v'"
proof -
  assume l: "locate_volume v = (bs, r, v')"
  obtain f v1 where c: "check_fs v 0 = (f, v1)" by fastforce
  show ?thesis
  proof (cases "f = 2")
    case True
    then have "\<exists>br. find_partition v1 br 0 f = (bs, r, v')" 
      using l unfolding locate_volume_def Let_def c prod.case if_P [OF True] by blast
    then show ?thesis using find_partition_keep check_fs_keep [OF c] keep_trans by blast
  next
    case False
    then show ?thesis using l c check_fs_keep [OF c] by (simp add: locate_volume_def)
  qed
qed

lemma load_fsinfo_keep: "keep v (load_fsinfo v b f)"
  by (auto simp: load_fsinfo_def Let_def keep_def frame_simps split: if_splits prod.splits dest!: window_keep)

text \<open>The fields a failing mount leaves, and those of a mounted volume.\<close>

lemma read_bpb_keep:
  "read_bpb v = (r, v') \<Longrightarrow> sobj v' = sobj v \<and> lfnbuf v' = lfnbuf v \<and> win v' = win v \<and> drv v' = drv v
    \<and> pdrv v' = pdrv v \<and> fs_type v' = fs_type v \<and> (\<forall>x. r = Inr x \<longrightarrow> csize v' \<noteq> 0 \<and> snd (snd (snd x)) \<noteq> 0)
    \<and> (\<forall>e. r = Inl e \<longrightarrow> e = FR_NO_FILESYSTEM)"
  unfolding read_bpb_def Let_def by (simp split: if_splits) auto

lemma set_limits_keep:
  "set_limits v b n f s m = (r, v') \<Longrightarrow> sobj v' = sobj v \<and> lfnbuf v' = lfnbuf v \<and> win v' = win v \<and> drv v' = drv v
    \<and> pdrv v' = pdrv v \<and> fs_type v' = fs_type v \<and> csize v' = csize v \<and> (r = FR_OK \<or> r = FR_NO_FILESYSTEM)"
  unfolding set_limits_def Let_def by (simp split: if_splits) auto

lemma mount_volume_ok:
  assumes m: "mount_volume v mode mid = (res, v')" and wf: "wf_vol v" and ty: "fs_type v = 0"
  shows "sobj v' = sobj v \<and> length (lfnbuf v') = length (lfnbuf v) \<and> wf_vol v' \<and> pdrv v' = pdrv v
    \<and> (fs_type v' \<noteq> 0 \<longrightarrow> csize v' \<noteq> 0) \<and> releasing res \<and> (res = FR_OK \<longrightarrow> fs_type v' \<noteq> 0)"
proof -
  obtain st d where i: "disk_initialize (pdrv v) (drv v) = (st, d)" by fastforce
  define v1 where "v1 = v\<lparr>drv := d\<rparr>"
  have v1: "sobj v1 = sobj v" "lfnbuf v1 = lfnbuf v" "wf_vol v1" "pdrv v1 = pdrv v" "fs_type v1 = 0"
    using i wf ty by (auto simp: v1_def disk_initialize_def wf_vol_def Let_def split: if_splits)
  show ?thesis
  proof (cases "st AND STA_NOINIT \<noteq> 0 \<or> mode \<noteq> 0 \<and> st AND STA_PROTECT \<noteq> 0")
    case True
    then show ?thesis using m v1 unfolding mount_volume_def i prod.case Let_def v1_def [symmetric]
      by (auto split: if_splits)
  next
    case False
    obtain bs f v2 where l: "locate_volume v1 = (bs, f, v2)" by (metis prod_cases3)
    have g2: "geo v2 = geo v1" "length (lfnbuf v2) = length (lfnbuf v)" "wf_vol v2"
      using locate_volume_keep [OF l] v1 by (auto simp: keep_def)
    have v2: "sobj v2 = sobj v" "length (lfnbuf v2) = length (lfnbuf v)" "wf_vol v2" "pdrv v2 = pdrv v" "fs_type v2 = 0"
      using g2 v1 geo_fields [OF g2(1)] by simp_all
    note m2 = m [unfolded mount_volume_def i prod.case Let_def v1_def [symmetric] l]
    show ?thesis
    proof (cases "f \<ge> 2")
      case True
      then show ?thesis using m2 False v2 by (auto split: if_splits)
    next
      case f: False
      then have f4: "f \<noteq> 4" by auto
      obtain r v3 where b: "read_bpb v2 = (r, v3)" by fastforce
      note k3 = read_bpb_keep [OF b]
      have v3: "sobj v3 = sobj v" "length (lfnbuf v3) = length (lfnbuf v)" "wf_vol v3" "pdrv v3 = pdrv v" "fs_type v3 = 0"
        using k3 v2 by (auto simp: wf_vol_def)
      show ?thesis
      proof (cases r)
        case (Inl e)
        then show ?thesis using m2 False f f4 b v3 k3 by auto
      next
        case (Inr x)
        obtain nr fa sy fm where x: "x = (nr, fa, sy, fm)" by (metis prod_cases4)
        have fm: "fm \<noteq> 0" "csize v3 \<noteq> 0" using k3 Inr x by auto
        obtain r4 v4 where s: "set_limits v3 bs nr fa sy fm = (r4, v4)" by fastforce
        note k4 = set_limits_keep [OF s]
        have v4: "sobj v4 = sobj v" "length (lfnbuf v4) = length (lfnbuf v)" "wf_vol v4" "pdrv v4 = pdrv v"
          "fs_type v4 = 0" "csize v4 \<noteq> 0" "r4 = FR_OK \<or> r4 = FR_NO_FILESYSTEM"
          using k4 v3 fm by (auto simp: wf_vol_def)
        define v5 where "v5 = load_fsinfo v4 bs fm"
        have g5: "geo v5 = geo v4" "length (lfnbuf v5) = length (lfnbuf v)" "wf_vol v5"
          using load_fsinfo_keep [of v4 bs fm] v4 by (auto simp: keep_def v5_def)
        have res: "(res, v') = (if r4 \<noteq> FR_OK then (r4, v4) else (FR_OK, v5\<lparr>fs_type := fm, fs_id := mid\<rparr>))"
          using m2 False f f4 b Inr x s by (auto simp: v5_def)
        then show ?thesis using v4 g5 geo_fields [OF g5(1)] fm by (auto simp: wf_vol_def split: if_splits)
      qed
    qed
  qed
qed

lemma find_volume_ok:
  assumes "find_volume g path mode = Some (res, fs, path', g')" and "sys_ok None g"
  shows "sys_ok fs g' \<and> (fs = None \<or> releasing res) \<and> (fs = None \<longrightarrow> res \<noteq> FR_OK)"
proof -
  obtain ld p where n: "get_ldnumber path = (ld, p)" by fastforce
  show ?thesis
  proof (cases "ld < 0 \<or> FatFs g (nat ld) = None")
    case True
    then show ?thesis using assms n by (auto simp: find_volume_def split: if_splits)
  next
    case False
    then obtain k where k: "FatFs g (nat ld) = Some k" by auto
    obtain g1 where l: "lock_fs g k = Some g1"
      using assms(1) n False k by (auto simp: find_volume_def elim!: bindE)
    have ok1: "sys_ok (Some k) g1" using lock_fs_ok [OF l assms(2)] .
    define g2 where "g2 = g1\<lparr>objs := (objs g1)(k := (objs g1 k)\<lparr>fs_type := 0, pdrv := of_int ld\<rparr>)\<rparr>"
    have ok2: "sys_ok (Some k) g2" using ok1 by (auto simp: sys_ok_def g2_def)
    define md where "md = mode AND NOT FA_READ"
    obtain r v where m: "mount_volume (vol_of g2 k) md (Fsid g2 + 1) = (r, v)" by fastforce
    have mv: "sobj v" "length (lfnbuf v) = FF_MAX_LFN + 1" "wf_vol v" "fs_type v \<noteq> 0 \<longrightarrow> csize v \<noteq> 0" "releasing r"
    proof -
      have "sobj (objs g2 k)" "length (lfnbuf (objs g2 k)) = FF_MAX_LFN + 1" using ok2 by (simp_all add: sys_ok_def)
      moreover have "fs_type (vol_of g2 k) = 0" by (simp add: g2_def)
      ultimately show "sobj v" "length (lfnbuf v) = FF_MAX_LFN + 1" "wf_vol v" "fs_type v \<noteq> 0 \<longrightarrow> csize v \<noteq> 0" "releasing r"
        using mount_volume_ok [OF m sys_ok_wf [OF ok2]] by simp_all
    qed
    have ok3: "sys_ok (Some k) (put_vol g2 k v)"
      using ok2 mv by (auto simp: sys_ok_def wf_vol_def)
    have ok4: "sys_ok (Some k) (put_vol g2 k v\<lparr>Fsid := i\<rparr>)" for i using ok3 by (simp add: sys_ok_def)
    have ld: "\<not> ld < 0" using False by simp
    note fv = assms(1) [unfolded find_volume_def n prod.case if_not_P [OF ld] k option.case l bind.bind_lunit
        Let_def g2_def [symmetric] md_def [symmetric] m]
    show ?thesis using fv ok1 ok3 ok4 mv(5) by (auto split: if_splits)
  qed
qed

lemma validate_ok:
  assumes "validate g ob = Some (res, fs, g')" and "sys_ok None g"
  shows "sys_ok fs g' \<and> (res = FR_OK \<longleftrightarrow> fs \<noteq> None) \<and> releasing res
    \<and> (\<forall>k. fs = Some k \<longrightarrow> fs_type (objs g' k) \<noteq> 0)"
proof (cases "obj_fs ob")
  case None
  then show ?thesis using assms by (simp add: validate_def)
next
  case (Some a)
  note v = assms(1) [unfolded validate_def Some option.case]
  show ?thesis using v assms(2)
    by (auto simp: Let_def lock_fs_def ff_req_grant_def sys_ok_def unlock_fs_def ff_rel_grant_def
        split: if_splits elim!: bindE)
qed

section \<open>Every call unlocks what it has locked\<close>

lemma on_volume_file:
  assumes "on_volume g k work = Some (res, x, g')" and "sys_ok (Some k) g"
    and "\<And>r x v. work (vol_of g k) = Some (r, x, v) \<Longrightarrow> keep (vol_of g k) v \<and> releasing r \<and> Q x"
  shows "sys_ok (Some k) g' \<and> releasing res \<and> Q x"
  using assms by (auto simp: on_volume_def elim!: bindE split: prod.splits intro: put_vol_ok)

lemma fkeepD:
  "fkeep v fp v' fp' \<Longrightarrow> wf_vol v \<Longrightarrow> wf_file fp \<Longrightarrow> keep v v' \<and> wf_file fp'"
  by (simp add: fkeep_def keep_def)

lemma not_ok: "r \<noteq> FR_OK \<Longrightarrow> (case r of FR_OK \<Rightarrow> X | _ \<Rightarrow> B) = B"
  by (cases r) simp_all

text \<open>The contract between \<open>with_path\<close> and the work it frames: whatever path and volume the work is
  given, it keeps the volume's parameters and sizes and its result releases the lock.\<close>

locale path_work =
  fixes work :: "BYTE list \<Rightarrow> vol \<Rightarrow> (FRESULT \<times> 'a \<times> vol) option"
  assumes keeps: "work p v = Some (r, z, v') \<Longrightarrow> keep v v' \<and> releasing r"
begin

lemma with_path_ok:
  assumes "with_path g path mode x work = Some (res, y, g')" and "sys_ok None g"
  shows "sys_ok None g'"
proof -
  obtain r fs p g1 where f: "find_volume g path mode = Some (r, fs, p, g1)"
    using assms(1) by (auto simp: with_path_def elim!: bindE)
  note f1 = find_volume_ok [OF f assms(2)]
  show ?thesis
  proof (cases "r = FR_OK")
    case False
    have "leave_ff g1 fs r x = Some (res, y, g')"
      using assms(1) unfolding with_path_def f bind.bind_lunit prod.case not_ok [OF False] .
    from leave_ff_ok [OF this] f1 show ?thesis by blast
  next
    case True
    then obtain k where k: "fs = Some k" using f1 by blast
    obtain ok v where n: "init_nambuf (vol_of g1 k) = (ok, v)" by fastforce
    note g2 = nambuf_ok [OF n]
    show ?thesis
    proof (cases ok)
      case False
      then have "leave_ff (put_vol g1 k v) fs FR_NOT_ENOUGH_CORE x = Some (res, y, g')"
        using assms(1) f True k n by (simp add: with_path_def Let_def)
      from leave_ff_ok [OF this] f1 g2 k show ?thesis by simp
    next
      case ok: True
      then obtain r2 z g3 where w: "on_volume (put_vol g1 k v) k (work (the p)) = Some (r2, z, g3)"
        and l: "leave_ff g3 fs r2 z = Some (res, y, g')"
        using assms(1) f True k n by (auto simp: with_path_def Let_def elim!: bindE)
      have "sys_ok (Some k) g3 \<and> releasing r2" using on_volume_ok [OF w] g2 f1 k keeps by blast
      then show ?thesis using leave_ff_ok [OF l] k by blast
    qed
  qed
qed

end

interpretation stat_work: path_work "stat_work dj fno" for dj fno
  by unfold_locales (rule stat_work_keep)

interpretation unlink_work: path_work "unlink_work dj sdj" for dj sdj
  by unfold_locales (rule unlink_work_keep)

interpretation mkdir_work: path_work "mkdir_work dj" for dj
  by unfold_locales (rule mkdir_work_keep)

interpretation rename_work: path_work "rename_work djo path_new" for djo path_new
  by unfold_locales (rule rename_work_keep)

interpretation chmod_work: path_work "change_entry dj (chmod_entry a m)" for dj a m
  by unfold_locales (erule change_entry_keep, simp)

interpretation utime_work: path_work "change_entry dj (utime_entry fno)" for dj fno
  by unfold_locales (erule change_entry_keep, simp)

lemma f_mount_ok:
  assumes "f_mount g fs path opt = Some (res, g')" and "sys_ok None g"
  shows "sys_ok None g'"
proof -
  obtain ld p where n: "get_ldnumber path = (ld, p)" by fastforce
  define g1 where "g1 = (case FatFs g (nat ld) of None \<Rightarrow> g
    | Some c \<Rightarrow> g\<lparr>objs := (objs g)(c := (objs g c)\<lparr>fs_type := 0\<rparr>)\<rparr>)"
  define g2 where "g2 = (case fs of None \<Rightarrow> g1
    | Some k \<Rightarrow> g1\<lparr>objs := (objs g1)(k := (objs g1 k)\<lparr>fs_type := 0, sobj := False\<rparr>)\<rparr>)"
  define g3 where "g3 = g2\<lparr>FatFs := (FatFs g2)(nat ld := fs)\<rparr>"
  have "sys_ok None g1" using assms(2) by (auto simp: g1_def sys_ok_def split: option.split)
  then have "sys_ok None g2" by (auto simp: g2_def sys_ok_def split: option.split)
  then have g3: "sys_ok None g3" by (simp add: g3_def sys_ok_def)
  show ?thesis
  proof (cases "ld < 0 \<or> opt = 0")
    case True
    then show ?thesis using assms n g3
      by (auto simp: f_mount_def Let_def g1_def [symmetric] g2_def [symmetric] g3_def [symmetric] split: if_splits)
  next
    case False
    then obtain r f q g4 where fv: "find_volume g3 path 0 = Some (r, f, q, g4)" and g': "g' = unlock_fs g4 f r"
      using assms(1) n
      by (auto simp: f_mount_def Let_def g1_def [symmetric] g2_def [symmetric] g3_def [symmetric] elim!: bindE)
    show ?thesis using find_volume_ok [OF fv g3] unlock_fs_ok g' by blast
  qed
qed

lemma enter_file_ok:
  assumes "enter_file g fp acc = Some (r, fs, g')" and "sys_ok None g" and "wf_file fp"
  shows "sys_ok fs g' \<and> (case r of Inl e \<Rightarrow> releasing e | Inr k \<Rightarrow> fs = Some k \<and> fs_type (objs g' k) \<noteq> 0)"
  using assms
  by (auto simp: enter_file_def wf_file_def split: if_splits elim!: bindE dest!: validate_ok)

lemma f_open_ok:
  assumes "f_open g (Some fp) dj path mode = Some (res, fp', g')" and "sys_ok None g" and "wf_file fp"
  shows "sys_ok None g' \<and> (\<exists>f. fp' = Some f \<and> wf_file f)"
proof -
  define md where "md = mode AND (FA_READ OR FA_WRITE OR FA_CREATE_ALWAYS OR FA_CREATE_NEW
    OR FA_OPEN_ALWAYS OR FA_OPEN_APPEND)"
  note d = assms(1) [unfolded f_open_def option.case Let_def md_def [symmetric]]
  obtain r fs p g1 where f: "find_volume g path md = Some (r, fs, p, g1)"
    using d by (auto elim!: bindE)
  note f1 = find_volume_ok [OF f assms(2)]
  have null: "wf_file (fp\<lparr>fobj := ob\<rparr>)" for ob using assms(3) by (simp add: wf_file_def)
  show ?thesis
  proof (cases "r = FR_OK")
    case False
    have "leave_ff g1 fs r (Some (fp\<lparr>fobj := (fobj fp)\<lparr>obj_fs := None\<rparr>\<rparr>)) = Some (res, fp', g')"
      using d unfolding f by (simp add: not_ok [OF False])
    then show ?thesis using f1 null leave_ff_ok by (auto simp: leave_ff_def intro: unlock_fs_ok)
  next
    case True
    then obtain k where k: "fs = Some k" using f1 by blast
    obtain ok v where n: "init_nambuf (vol_of g1 k) = (ok, v)" by fastforce
    have g2: "sys_ok (Some k) (put_vol g1 k v)" using nambuf_ok [OF n] f1 k by blast
    show ?thesis
    proof (cases ok)
      case False
      then have "leave_ff (put_vol g1 k v) fs FR_NOT_ENOUGH_CORE (Some fp) = Some (res, fp', g')"
        using d f True k n by simp
      then show ?thesis using g2 k assms(3) by (auto simp: leave_ff_def intro: unlock_fs_ok)
    next
      case ok: True
      then obtain r2 fp2 g3 where w: "on_volume (put_vol g1 k v) k (open_work k fp dj (the p) md) = Some (r2, fp2, g3)"
        and l: "leave_ff g3 fs r2 (Some (if r2 \<noteq> FR_OK then fp2\<lparr>fobj := (fobj fp2)\<lparr>obj_fs := None\<rparr>\<rparr> else fp2))
          = Some (res, fp', g')"
        using d f True k n by (auto elim!: bindE)
      have "sys_ok (Some k) g3 \<and> releasing r2 \<and> wf_file fp2"
        by (rule on_volume_file [OF w g2]) (use open_work_keep fkeepD sys_ok_wf [OF g2] assms(3) in blast)
      then show ?thesis using l k by (auto simp: leave_ff_def wf_file_def intro: unlock_fs_ok)
    qed
  qed
qed

text \<open>The functions on an open file: enter, work, leave.\<close>

lemma file_work_ok:
  assumes "on_volume g k work = Some (res, x, g2)" and l: "leave_ff g2 (Some k) res x = Some (res', y, g')"
    and "sys_ok (Some k) g" and "\<And>r x v. work (vol_of g k) = Some (r, x, v) \<Longrightarrow> keep (vol_of g k) v \<and> releasing r \<and> Q x"
  shows "sys_ok None g' \<and> Q y"
proof -
  have o: "sys_ok (Some k) g2 \<and> releasing res \<and> Q x"
    by (rule on_volume_file [OF assms(1,3)]) (rule assms(4))
  moreover have "y = x" using l by (simp add: leave_ff_def)
  ultimately show ?thesis using leave_ff_ok [OF l] by simp
qed

lemma fkeep_at:
  "fkeep v fp v' fp' \<and> releasing r \<Longrightarrow> wf_vol v \<Longrightarrow> wf_file fp \<Longrightarrow> keep v v' \<and> releasing r \<and> wf_file fp'"
  by (auto dest: fkeepD)

lemma f_read_ok:
  assumes "f_read g fp b n = Some (res, (fp', b', br), g')" and "sys_ok None g" and "wf_file fp"
  shows "sys_ok None g' \<and> wf_file fp'"
proof -
  obtain r fs g1 where e: "enter_file g fp FA_READ = Some (r, fs, g1)"
    using assms(1) by (auto simp: f_read_def elim!: bindE)
  note e1 = enter_file_ok [OF e assms(2,3)]
  show ?thesis
  proof (cases r)
    case (Inl x)
    then show ?thesis using assms(1,3) e e1 by (auto simp: f_read_def leave_ff_def intro: unlock_fs_ok)
  next
    case (Inr k)
    then obtain r2 x g2 where w: "on_volume g1 k (read_work fp b n) = Some (r2, x, g2)"
      and l: "leave_ff g2 (Some k) r2 x = Some (res, (fp', b', br), g')"
      using assms(1) e e1 by (auto simp: f_read_def elim!: bindE)
    have g1: "sys_ok (Some k) g1" using e1 Inr by auto
    have "sys_ok None g' \<and> wf_file (fst (fp', b', br))"
    proof (rule file_work_ok [OF w l g1, where Q = "\<lambda>x. wf_file (fst x)"])
      fix r x v
      assume "read_work fp b n (vol_of g1 k) = Some (r, x, v)"
      then show "keep (vol_of g1 k) v \<and> releasing r \<and> wf_file (fst x)"
        using fkeep_at [of "vol_of g1 k" fp v "fst x" r] read_work_keep [of fp b n "vol_of g1 k" r "fst x" "snd x" v]
          sys_ok_wf [OF g1] assms(3) by simp
    qed
    then show ?thesis by simp
  qed
qed

lemma f_write_ok:
  assumes "f_write g fp b n = Some (res, (fp', bw), g')" and "sys_ok None g" and "wf_file fp"
    and "unat n \<le> length b"
  shows "sys_ok None g' \<and> wf_file fp'"
proof -
  obtain r fs g1 where e: "enter_file g fp FA_WRITE = Some (r, fs, g1)"
    using assms(1) by (auto simp: f_write_def elim!: bindE)
  note e1 = enter_file_ok [OF e assms(2,3)]
  show ?thesis
  proof (cases r)
    case (Inl x)
    then show ?thesis using assms(1,3) e e1 by (auto simp: f_write_def leave_ff_def intro: unlock_fs_ok)
  next
    case (Inr k)
    then obtain r2 x g2 where w: "on_volume g1 k (write_work fp b n) = Some (r2, x, g2)"
      and l: "leave_ff g2 (Some k) r2 x = Some (res, (fp', bw), g')"
      using assms(1) e e1 by (auto simp: f_write_def elim!: bindE)
    have g1: "sys_ok (Some k) g1" "csize (vol_of g1 k) \<noteq> 0" using e1 Inr by (auto simp: sys_ok_def)
    have "sys_ok None g' \<and> wf_file (fst (fp', bw))"
    proof (rule file_work_ok [OF w l g1(1), where Q = "\<lambda>x. wf_file (fst x)"])
      fix r x v
      assume "write_work fp b n (vol_of g1 k) = Some (r, x, v)"
      then show "keep (vol_of g1 k) v \<and> releasing r \<and> wf_file (fst x)"
        using write_work_keep [of fp b n "vol_of g1 k" r "fst x" "snd x" v] assms(3,4) g1(2) sys_ok_wf [OF g1(1)]
        by (simp add: keep_def)
    qed
    then show ?thesis by auto
  qed
qed

text \<open>The functions that validate the object themselves.\<close>

lemma f_sync_ok:
  assumes "f_sync g fp = Some (res, fp', g')" and "sys_ok None g" and "wf_file fp"
  shows "sys_ok None g' \<and> wf_file fp'"
proof -
  obtain r fs g1 where e: "validate g (fobj fp) = Some (r, fs, g1)"
    using assms(1) by (auto simp: f_sync_def elim!: bindE)
  note e1 = validate_ok [OF e assms(2)]
  show ?thesis
  proof (cases "r = FR_OK")
    case False
    have "leave_ff g1 fs r fp = Some (res, fp', g')"
      using assms(1) unfolding f_sync_def e bind.bind_lunit prod.case not_ok [OF False] .
    then show ?thesis using e1 assms(3) by (auto simp: leave_ff_def intro: unlock_fs_ok)
  next
    case True
    then obtain k where k: "fs = Some k" using e1 by blast
    then obtain r2 x g2 where w: "on_volume g1 k (sync_work fp) = Some (r2, x, g2)"
      and l: "leave_ff g2 (Some k) r2 x = Some (res, fp', g')"
      using assms(1) e True by (auto simp: f_sync_def elim!: bindE)
    have g1: "sys_ok (Some k) g1" using e1 k by simp
    show ?thesis
      by (rule file_work_ok [OF w l g1, where Q = wf_file])
        (rule fkeep_at [OF sync_work_keep sys_ok_wf [OF g1] assms(3)])
  qed
qed

lemma f_close_ok:
  assumes "f_close g fp = Some (res, fp', g')" and "sys_ok None g" and "wf_file fp"
  shows "sys_ok None g' \<and> wf_file fp'"
proof -
  obtain r f g1 where s: "f_sync g fp = Some (r, f, g1)" using assms(1) by (auto simp: f_close_def elim!: bindE)
  note s1 = f_sync_ok [OF s assms(2,3)]
  show ?thesis
  proof (cases "r = FR_OK")
    case False
    then show ?thesis using assms(1) s s1 by (simp add: f_close_def)
  next
    case True
    then obtain r2 fs g2 where v: "validate g1 (fobj f) = Some (r2, fs, g2)"
      using assms(1) s by (auto simp: f_close_def elim!: bindE)
    note v1 = validate_ok [OF v conjunct1 [OF s1]]
    have "fp' = (if r2 = FR_OK then f\<lparr>fobj := (fobj f)\<lparr>obj_fs := None\<rparr>\<rparr> else f)"
      "g' = (if r2 = FR_OK then unlock_fs g2 fs FR_OK else g2)"
      using assms(1) s v True by (auto simp: f_close_def split: if_splits)
    then show ?thesis using v1 s1 unlock_fs_ok [of fs g2 FR_OK] by (auto simp: wf_file_def)
  qed
qed

lemma f_lseek_ok:
  assumes "f_lseek g fp ofs = Some (res, fp', g')" and "sys_ok None g" and "wf_file fp"
  shows "sys_ok None g' \<and> wf_file fp'"
proof -
  obtain r fs g1 where e: "validate g (fobj fp) = Some (r, fs, g1)"
    using assms(1) by (auto simp: f_lseek_def elim!: bindE)
  note e1 = validate_ok [OF e assms(2)]
  define r' where "r' = (if r = FR_OK then err fp else r)"
  have rel: "releasing r'" using e1 assms(3) by (simp add: r'_def wf_file_def)
  note d = assms(1) [unfolded f_lseek_def e bind.bind_lunit prod.case Let_def r'_def [symmetric]]
  show ?thesis
  proof (cases "r' = FR_OK")
    case False
    have "leave_ff g1 fs r' fp = Some (res, fp', g')" using d unfolding not_ok [OF False] .
    then show ?thesis using e1 assms(3) rel by (auto simp: leave_ff_def intro: unlock_fs_ok)
  next
    case True
    then obtain k where k: "fs = Some k" using e1 by (auto simp: r'_def split: if_splits)
    then obtain r2 x g2 where w: "on_volume g1 k (seek_work fp ofs) = Some (r2, x, g2)"
      and l: "leave_ff g2 (Some k) r2 x = Some (res, fp', g')"
      using d True by (auto elim!: bindE)
    have g1: "sys_ok (Some k) g1" using e1 k by simp
    show ?thesis
      by (rule file_work_ok [OF w l g1, where Q = wf_file])
        (rule fkeep_at [OF seek_work_keep sys_ok_wf [OF g1] assms(3)])
  qed
qed

lemma f_truncate_ok:
  assumes "f_truncate g fp = Some (res, fp', g')" and "sys_ok None g" and "wf_file fp"
  shows "sys_ok None g' \<and> wf_file fp'"
proof -
  obtain r fs g1 where e: "enter_file g fp FA_WRITE = Some (r, fs, g1)"
    using assms(1) by (auto simp: f_truncate_def elim!: bindE)
  note e1 = enter_file_ok [OF e assms(2,3)]
  show ?thesis
  proof (cases r)
    case (Inl x)
    then show ?thesis using assms(1,3) e e1 by (auto simp: f_truncate_def leave_ff_def intro: unlock_fs_ok)
  next
    case (Inr k)
    then obtain r2 x g2 where w: "on_volume g1 k (truncate_work fp) = Some (r2, x, g2)"
      and l: "leave_ff g2 (Some k) r2 x = Some (res, fp', g')"
      using assms(1) e e1 by (auto simp: f_truncate_def elim!: bindE)
    have g1: "sys_ok (Some k) g1" using e1 Inr by auto
    show ?thesis
      by (rule file_work_ok [OF w l g1, where Q = wf_file])
        (rule fkeep_at [OF truncate_work_keep sys_ok_wf [OF g1] assms(3)])
  qed
qed

text \<open>Directories.\<close>

lemma f_opendir_ok:
  assumes "f_opendir g dp path = Some (res, dp', g')" and "sys_ok None g"
  shows "sys_ok None g' \<and> (dp \<noteq> None \<longrightarrow> dp' \<noteq> None)"
proof (cases dp)
  case None
  then show ?thesis using assms by (simp add: f_opendir_def)
next
  case (Some d)
  note o = assms(1) [unfolded f_opendir_def Some option.case]
  obtain r fs p g1 where f: "find_volume g path 0 = Some (r, fs, p, g1)" using o by (auto elim!: bindE)
  note f1 = find_volume_ok [OF f assms(2)]
  show ?thesis
  proof (cases "r = FR_OK")
    case False
    have "leave_ff g1 fs r (Some (d\<lparr>dobj := (dobj d)\<lparr>obj_fs := None\<rparr>\<rparr>)) = Some (res, dp', g')"
      using o unfolding f by (simp add: not_ok [OF False])
    then show ?thesis using f1 by (auto simp: leave_ff_def intro: unlock_fs_ok)
  next
    case True
    then obtain k where k: "fs = Some k" using f1 by blast
    obtain ok v where n: "init_nambuf (vol_of g1 k) = (ok, v)" by fastforce
    have g2: "sys_ok (Some k) (put_vol g1 k v)" using nambuf_ok [OF n] f1 k by blast
    show ?thesis
    proof (cases ok)
      case False
      then show ?thesis using o f True k n g2 by (auto simp: leave_ff_def intro: unlock_fs_ok)
    next
      case ok: True
      then obtain r2 d2 g3 where w: "on_volume (put_vol g1 k v) k (opendir_work k d (the p)) = Some (r2, d2, g3)"
        and l: "leave_ff g3 fs r2 (Some (if r2 \<noteq> FR_OK then d2\<lparr>dobj := (dobj d2)\<lparr>obj_fs := None\<rparr>\<rparr> else d2))
          = Some (res, dp', g')"
        using o f True k n by (auto elim!: bindE)
      have "sys_ok (Some k) g3 \<and> releasing r2" by (rule on_volume_ok [OF w g2]) (rule opendir_work_keep)
      then show ?thesis using l k by (auto simp: leave_ff_def intro: unlock_fs_ok)
    qed
  qed
qed

lemma f_closedir_ok:
  assumes "f_closedir g dp = Some (res, dp', g')" and "sys_ok None g"
  shows "sys_ok None g'"
proof -
  obtain r fs g1 where v: "validate g (dobj dp) = Some (r, fs, g1)"
    using assms(1) by (auto simp: f_closedir_def elim!: bindE)
  have "g' = (if r = FR_OK then unlock_fs g1 fs FR_OK else g1)"
    using assms(1) v by (auto simp: f_closedir_def split: if_splits)
  then show ?thesis using validate_ok [OF v assms(2)] unlock_fs_ok [of fs g1 FR_OK] by auto
qed

lemma f_readdir_ok:
  assumes "f_readdir g dp fno = Some (res, x, g')" and "sys_ok None g"
  shows "sys_ok None g'"
proof -
  obtain r fs g1 where e: "validate g (dobj dp) = Some (r, fs, g1)"
    using assms(1) by (auto simp: f_readdir_def elim!: bindE)
  note e1 = validate_ok [OF e assms(2)]
  show ?thesis
  proof (cases "r = FR_OK")
    case False
    have "leave_ff g1 fs r (dp, fno) = Some (res, x, g')"
      using assms(1) unfolding f_readdir_def e bind.bind_lunit prod.case not_ok [OF False] .
    from leave_ff_ok [OF this] show ?thesis using e1 by blast
  next
    case True
    then obtain k where k: "fs = Some k" using e1 by blast
    have g1: "sys_ok (Some k) g1" using e1 k by simp
    show ?thesis
    proof (cases fno)
      case None
      then obtain r2 y g2 where w: "on_volume g1 k (\<lambda>v. do { (res, dp, v) \<leftarrow> dir_sdi v dp 0; Some (res, (dp, None), v) })
          = Some (r2, y, g2)" and l: "leave_ff g2 fs r2 y = Some (res, x, g')"
        using assms(1) e True k by (auto simp: f_readdir_def elim!: bindE)
      have "sys_ok (Some k) g2 \<and> releasing r2"
        by (rule on_volume_ok [OF w g1]) (auto elim!: bindE dest!: dir_sdi_keep)
      then show ?thesis using leave_ff_ok [OF l] k by blast
    next
      case (Some f)
      obtain ok v where n: "init_nambuf (vol_of g1 k) = (ok, v)" by fastforce
      have g2: "sys_ok (Some k) (put_vol g1 k v)" using nambuf_ok [OF n] g1 by blast
      show ?thesis
      proof (cases ok)
        case False
        then have "leave_ff (put_vol g1 k v) fs FR_NOT_ENOUGH_CORE (dp, fno) = Some (res, x, g')"
          using assms(1) e True k n Some by (simp add: f_readdir_def)
        from leave_ff_ok [OF this] show ?thesis using g2 k by simp
      next
        case ok: True
        then obtain r2 y g3 where w: "on_volume (put_vol g1 k v) k (readdir_work dp f) = Some (r2, y, g3)"
          and l: "leave_ff g3 fs r2 y = Some (res, x, g')"
          using assms(1) e True k n Some by (auto simp: f_readdir_def elim!: bindE)
        have "sys_ok (Some k) g3 \<and> releasing r2" by (rule on_volume_ok [OF w g2]) (rule readdir_work_keep)
        then show ?thesis using leave_ff_ok [OF l] k by blast
      qed
    qed
  qed
qed

lemma f_findnext_ok: "f_findnext g dp fno = Some y \<Longrightarrow> sys_ok None g \<Longrightarrow> sys_ok None (snd (snd y))"
proof (induction rule: f_findnext.raw_induct [rotated, consumes 1, case_names step])
  case (step f g dp fno y)
  obtain r d2 f2 g1 where r: "f_readdir g dp fno = Some (r, (d2, f2), g1)"
    using step(2) by (auto elim!: bindE)
  have g1: "sys_ok None g1" using f_readdir_ok [OF r step(3)] .
  have "f g1 d2 f2 = Some y \<or> snd (snd y) = g1"
    using step(2) r by (cases y) (auto split: option.splits if_splits elim!: bindE)
  then show ?case using step(1) g1 by blast
qed

lemma f_findfirst_ok:
  assumes "f_findfirst g dp fno path pattern = Some (res, x, g')" and "sys_ok None g"
  shows "sys_ok None g'"
proof -
  obtain r d g1 where o: "f_opendir g (Some (dp\<lparr>pat := pattern\<rparr>)) path = Some (r, d, g1)"
    using assms(1) by (auto simp: f_findfirst_def elim!: bindE)
  have g1: "sys_ok None g1" using f_opendir_ok [OF o assms(2)] by blast
  show ?thesis
  proof (cases "r = FR_OK")
    case True
    then have "f_findnext g1 (the d) fno = Some (res, x, g')" using assms(1) o by (simp add: f_findfirst_def)
    from f_findnext_ok [OF this g1] show ?thesis by simp
  qed (use assms(1) o g1 in \<open>simp add: f_findfirst_def\<close>)
qed

text \<open>Objects by name.\<close>

lemma f_stat_ok: "f_stat g dj path fno = Some (res, fno', g') \<Longrightarrow> sys_ok None g \<Longrightarrow> sys_ok None g'"
  unfolding f_stat_def by (rule stat_work.with_path_ok)

lemma f_unlink_ok: "f_unlink g dj sdj path = Some (res, u, g') \<Longrightarrow> sys_ok None g \<Longrightarrow> sys_ok None g'"
  unfolding f_unlink_def by (rule unlink_work.with_path_ok)

lemma f_mkdir_ok: "f_mkdir g dj path = Some (res, u, g') \<Longrightarrow> sys_ok None g \<Longrightarrow> sys_ok None g'"
  unfolding f_mkdir_def by (rule mkdir_work.with_path_ok)

lemma f_rename_ok: "f_rename g dj path new = Some (res, u, g') \<Longrightarrow> sys_ok None g \<Longrightarrow> sys_ok None g'"
  unfolding f_rename_def by (rule rename_work.with_path_ok)

lemma f_chmod_ok: "f_chmod g dj path a m = Some (res, u, g') \<Longrightarrow> sys_ok None g \<Longrightarrow> sys_ok None g'"
  unfolding f_chmod_def by (rule chmod_work.with_path_ok)

lemma f_utime_ok: "f_utime g dj path fi = Some (res, u, g') \<Longrightarrow> sys_ok None g \<Longrightarrow> sys_ok None g'"
  unfolding f_utime_def by (rule utime_work.with_path_ok)

lemma f_getfree_ok:
  assumes "f_getfree g path = Some (res, x, g')" and "sys_ok None g"
  shows "sys_ok None g'"
proof -
  obtain r fs p g1 where f: "find_volume g path 0 = Some (r, fs, p, g1)"
    using assms(1) by (auto simp: f_getfree_def elim!: bindE)
  note f1 = find_volume_ok [OF f assms(2)]
  show ?thesis
  proof (cases "r = FR_OK")
    case False
    have "leave_ff g1 fs r (None :: (DWORD \<times> nat) option) = Some (res, x, g')"
      using assms(1) unfolding f_getfree_def f bind.bind_lunit prod.case not_ok [OF False] .
    from leave_ff_ok [OF this] show ?thesis using f1 by blast
  next
    case True
    then obtain k where k: "fs = Some k" using f1 by blast
    then obtain r2 n g2 where w: "on_volume g1 k getfree_work = Some (r2, n, g2)"
      and l: "leave_ff g2 fs r2 (Some (n, k)) = Some (res, x, g')"
      using assms(1) f True by (auto simp: f_getfree_def elim!: bindE)
    have g1: "sys_ok (Some k) g1" using f1 k by blast
    have "sys_ok (Some k) g2 \<and> releasing r2" by (rule on_volume_ok [OF w g1]) (rule getfree_work_keep)
    then show ?thesis using leave_ff_ok [OF l] k by blast
  qed
qed

section \<open>The API as a state machine\<close>

text \<open>The callers' view: the module, the file objects and the directory objects, by number.\<close>

record world =
  wsys :: sys
  wfile :: "nat \<Rightarrow> FIL"
  wdir :: "nat \<Rightarrow> DIR"

definition put_file :: "world \<Rightarrow> sys \<Rightarrow> nat \<Rightarrow> FIL \<Rightarrow> world" where
  "put_file w g i fp = w\<lparr>wsys := g, wfile := (wfile w)(i := fp)\<rparr>"

definition put_dir :: "world \<Rightarrow> sys \<Rightarrow> nat \<Rightarrow> DIR \<Rightarrow> world" where
  "put_dir w g i dp = w\<lparr>wsys := g, wdir := (wdir w)(i := dp)\<rparr>"

text \<open>One step is one call that returns, with any arguments and any result. Between the calls the
  environment moves: the clock, the heap, the coming faults and the presence of the drives change.
  The buffer handed to \<open>f_write\<close> holds at least the bytes it is asked to write.\<close>

inductive api_step :: "world \<Rightarrow> world \<Rightarrow> bool" where
  environment: "(\<And>d. sectors (ds d) = sectors (drives (wsys w) d)) \<Longrightarrow>
     api_step w (w\<lparr>wsys := (wsys w)\<lparr>drives := ds, sys_heap := hs, sys_now := t\<rparr>\<rparr>)"
| mount: "f_mount (wsys w) fs path opt = Some (res, g) \<Longrightarrow> api_step w (w\<lparr>wsys := g\<rparr>)"
| open_file: "f_open (wsys w) (Some (wfile w i)) dj path mode = Some (res, Some fp, g) \<Longrightarrow>
     api_step w (put_file w g i fp)"
| read_file: "f_read (wsys w) (wfile w i) buff n = Some (res, (fp, buff', br), g) \<Longrightarrow>
     api_step w (put_file w g i fp)"
| write_file: "f_write (wsys w) (wfile w i) buff n = Some (res, (fp, bw), g) \<Longrightarrow> unat n \<le> length buff \<Longrightarrow>
     api_step w (put_file w g i fp)"
| sync_file: "f_sync (wsys w) (wfile w i) = Some (res, fp, g) \<Longrightarrow> api_step w (put_file w g i fp)"
| close_file: "f_close (wsys w) (wfile w i) = Some (res, fp, g) \<Longrightarrow> api_step w (put_file w g i fp)"
| seek_file: "f_lseek (wsys w) (wfile w i) ofs = Some (res, fp, g) \<Longrightarrow> api_step w (put_file w g i fp)"
| truncate_file: "f_truncate (wsys w) (wfile w i) = Some (res, fp, g) \<Longrightarrow> api_step w (put_file w g i fp)"
| open_dir: "f_opendir (wsys w) (Some (wdir w i)) path = Some (res, Some dp, g) \<Longrightarrow> api_step w (put_dir w g i dp)"
| close_dir: "f_closedir (wsys w) (wdir w i) = Some (res, dp, g) \<Longrightarrow> api_step w (put_dir w g i dp)"
| read_dir: "f_readdir (wsys w) (wdir w i) fno = Some (res, (dp, fno'), g) \<Longrightarrow> api_step w (put_dir w g i dp)"
| find_next: "f_findnext (wsys w) (wdir w i) fno = Some (res, (dp, fno'), g) \<Longrightarrow> api_step w (put_dir w g i dp)"
| find_first: "f_findfirst (wsys w) (wdir w i) fno path pattern = Some (res, (dp, fno'), g) \<Longrightarrow>
     api_step w (put_dir w g i dp)"
| stat_object: "f_stat (wsys w) dj path fno = Some (res, fno', g) \<Longrightarrow> api_step w (w\<lparr>wsys := g\<rparr>)"
| get_free: "f_getfree (wsys w) path = Some (res, x, g) \<Longrightarrow> api_step w (w\<lparr>wsys := g\<rparr>)"
| unlink_object: "f_unlink (wsys w) dj sdj path = Some (res, u, g) \<Longrightarrow> api_step w (w\<lparr>wsys := g\<rparr>)"
| make_dir: "f_mkdir (wsys w) dj path = Some (res, u, g) \<Longrightarrow> api_step w (w\<lparr>wsys := g\<rparr>)"
| rename_object: "f_rename (wsys w) dj path new = Some (res, u, g) \<Longrightarrow> api_step w (w\<lparr>wsys := g\<rparr>)"
| change_mode: "f_chmod (wsys w) dj path a m = Some (res, u, g) \<Longrightarrow> api_step w (w\<lparr>wsys := g\<rparr>)"
| change_time: "f_utime (wsys w) dj path fi = Some (res, u, g) \<Longrightarrow> api_step w (w\<lparr>wsys := g\<rparr>)"

definition world_ok :: "world \<Rightarrow> bool" where
  "world_ok w \<longleftrightarrow> sys_ok None (wsys w) \<and> (\<forall>i. wf_file (wfile w i))"

lemma world_ok_puts [simp]:
  "world_ok w \<Longrightarrow> world_ok (put_file w g i fp) \<longleftrightarrow> sys_ok None g \<and> wf_file fp"
  "world_ok w \<Longrightarrow> world_ok (put_dir w g i dp) \<longleftrightarrow> sys_ok None g"
  "world_ok w \<Longrightarrow> world_ok (w\<lparr>wsys := g\<rparr>) \<longleftrightarrow> sys_ok None g"
  by (auto simp: world_ok_def put_file_def put_dir_def)

lemma world_okD: "world_ok w \<Longrightarrow> sys_ok None (wsys w)" "world_ok w \<Longrightarrow> wf_file (wfile w i)"
  by (simp_all add: world_ok_def)

lemma sys_ok_environment:
  "sys_ok l g \<Longrightarrow> (\<And>d. sectors (ds d) = sectors (drives g d)) \<Longrightarrow>
   sys_ok l (g\<lparr>drives := ds, sys_heap := hs, sys_now := t\<rparr>)"
  by (simp add: sys_ok_def)

text \<open>No call leaves the state in which nothing is locked.\<close>

lemma api_step_ok: "api_step w w' \<Longrightarrow> world_ok w \<Longrightarrow> world_ok w'"
proof (induction rule: api_step.induct)
  case (environment ds w hs t)
  then show ?case using sys_ok_environment world_okD by simp
next
  case (open_file w i dj path mode res fp g)
  from f_open_ok [OF open_file(1) world_okD(1) world_okD(2)] show ?case using open_file(2) by simp
next
  case (find_next w i fno res dp fno' g)
  from f_findnext_ok [OF find_next(1) world_okD(1)] show ?case using find_next(2) by simp
qed (simp_all only: world_ok_puts,
    (erule f_mount_ok f_read_ok f_write_ok f_sync_ok f_close_ok f_lseek_ok f_truncate_ok f_opendir_ok [THEN conjunct1]
      f_closedir_ok f_readdir_ok f_findfirst_ok f_stat_ok f_unlink_ok f_mkdir_ok f_rename_ok f_chmod_ok f_utime_ok
      f_getfree_ok; (erule world_okD | assumption))+)

section \<open>Properties\<close>

text \<open>C9: Starting from a state in which no volume is locked, every sequence of API calls with any
  arguments, on any drives and through any disk faults, heap failures and changes of the drives
  between the calls, ends with every volume unlocked, so that the next request for any volume lock is
  granted; the disk window, the LFN buffer, every sector and the buffer of every file object keep
  their sizes, a mounted volume has a cluster size, and no file remembers an error that would stop a
  later call from unlocking.\<close>

theorem calls_release_locks:
  assumes "world_ok w" and "api_step\<^sup>*\<^sup>* w w'"
  shows "(\<forall>k. \<not> sobj (objs (wsys w') k) \<and> lock_fs (wsys w') k \<noteq> None)
    \<and> (\<forall>k. length (win (objs (wsys w') k)) = SS \<and> length (lfnbuf (objs (wsys w') k)) = FF_MAX_LFN + 1)
    \<and> (\<forall>d s. length (sectors (drives (wsys w') d) s) = SS)
    \<and> (\<forall>k. fs_type (objs (wsys w') k) \<noteq> 0 \<longrightarrow> csize (objs (wsys w') k) \<noteq> 0)
    \<and> (\<forall>i. length (buf (wfile w' i)) = SS \<and> releasing (err (wfile w' i)))"
proof -
  from assms(2,1) have "world_ok w'" by (induction rule: rtranclp_induct) (auto intro: api_step_ok)
  then show ?thesis by (auto simp: world_ok_def sys_ok_def wf_file_def lock_fs_def ff_req_grant_def)
qed

text \<open>A system at start: zeroed objects, drives that are not yet attached.\<close>

definition start_world :: world where
  "start_world =
     \<lparr>wsys = \<lparr>FatFs = (\<lambda>_. None), objs = (\<lambda>_. FATFS.truncate (sample 0 [])),
              drives = (\<lambda>_. (sample_drive [])\<lparr>attached := False\<rparr>), Fsid = 0, sys_heap = [], sys_now = 0\<rparr>,
      wfile = (\<lambda>_. \<lparr>fobj = \<lparr>obj_fs = None, obj_id = 0, attr = 0, stat = 0, sclust = 0, objsize = 0\<rparr>,
                    flag = 0, err = FR_OK, fptr = 0, fclust = 0, fsect = 0, dir_sect = 0, dir_ptr = 0,
                    buf = replicate SS 0\<rparr>),
      wdir = (\<lambda>_. \<lparr>dobj = \<lparr>obj_fs = None, obj_id = 0, attr = 0, stat = 0, sclust = 0, objsize = 0\<rparr>,
                   dptr = 0, dclust = 0, dsect = 0, dir = 0, fn = replicate 12 0, blk_ofs = 0, pat = []\<rparr>)\<rparr>"

lemma start_world_ok: "world_ok start_world"
  by (simp add: world_ok_def sys_ok_def start_world_def wf_file_def length_sample_sector FATFS.defs sample_def)

text \<open>Registering object 0 for the default drive and reading a file that is not open.\<close>

theorem calls_release_locks_witness:
  "let w = start_world; g = (wsys w)\<lparr>objs := (objs (wsys w))(0 := objs (wsys w) 0),
                                     FatFs := (FatFs (wsys w))(0 := Some 0)\<rparr>
   in f_mount (wsys w) (Some 0) (Some [0]) 0 = Some (FR_OK, g)
    \<and> f_read g (wfile w 3) [] 5 = Some (FR_INVALID_OBJECT, (wfile w 3, [], 0), g)
    \<and> (\<forall>k. \<not> sobj (objs g k) \<and> lock_fs g k \<noteq> None)"
proof -
  let ?w = start_world
  let ?g = "(wsys ?w)\<lparr>objs := (objs (wsys ?w))(0 := objs (wsys ?w) 0), FatFs := (FatFs (wsys ?w))(0 := Some 0)\<rparr>"
  have "get_ldnumber (Some [0]) = (0, Some [0])" by code_simp
  then have m: "f_mount (wsys ?w) (Some 0) (Some [0]) 0 = Some (FR_OK, ?g)"
    by (simp add: f_mount_def start_world_def FATFS.defs sample_def Let_def)
  have r: "f_read ?g (wfile ?w 3) [] 5 = Some (FR_INVALID_OBJECT, (wfile ?w 3, [], 0), ?g)"
    by (simp add: f_read_def enter_file_def validate_def start_world_def leave_ff_def unlock_fs_def)
  have "api_step ?w (?w\<lparr>wsys := ?g\<rparr>)" by (rule api_step.mount [OF m])
  moreover have "api_step (?w\<lparr>wsys := ?g\<rparr>) (put_file (?w\<lparr>wsys := ?g\<rparr>) ?g 3 (wfile ?w 3))"
    using r by (intro api_step.read_file [of _ 3 "[]" 5 FR_INVALID_OBJECT _ "[]" 0]) simp
  ultimately have s: "api_step\<^sup>*\<^sup>* ?w (put_file (?w\<lparr>wsys := ?g\<rparr>) ?g 3 (wfile ?w 3))" by (rule converse_rtranclp_into_rtranclp [OF _ r_into_rtranclp])
  show ?thesis using m r calls_release_locks [OF start_world_ok s] by (simp add: Let_def put_file_def)
qed

end
