(* ===== verification/Fat_Data.thy ===== *)
theory Fat_Data
  imports Fat_Frame
begin

text \<open>
  The content of an open file of \<^verbatim>\<open>addon/fatfs/ff.c\<close>: the sectors of the data area that the cluster
  chain of a file names, the bytes they hold together with the sector buffer of the file object,
  and what the steps below \<open>f_read\<close> and \<open>f_write\<close> leave of them. The theories on reading and
  writing compare the code with a file that is just a sequence of bytes.
\<close>

unbundle bit_operations_syntax

section \<open>Where the data of a file is\<close>

text \<open>The data area of a volume lies behind the tables and does not wrap around the 32-bit sector
  numbers; a cluster has a power of two sectors.\<close>

definition data_geom :: "vol \<Rightarrow> bool" where
  "data_geom v \<longleftrightarrow>
     fat_geom v \<and> (\<exists>j \<le> 7. unat (csize v) = 2 ^ j)
     \<and> unat (fatbase v) + unat (n_fats v) * unat (fsize v) \<le> unat (database v) \<and> n_fats v \<noteq> 0
     \<and> unat (database v) + unat (csize v) * (unat (n_fatent v) - 2) < 0xFFFFFFFF"

text \<open>The sectors of a file whose clusters are \<open>cs\<close>.\<close>

definition file_sector :: "vol \<Rightarrow> DWORD list \<Rightarrow> nat \<Rightarrow> nat" where
  "file_sector v cs i =
     unat (database v) + unat (csize v) * (unat (cs ! (i div unat (csize v))) - 2) + i mod unat (csize v)"

definition file_sectors :: "vol \<Rightarrow> DWORD list \<Rightarrow> nat set" where
  "file_sectors v cs = file_sector v cs ` {..<unat (csize v) * length cs}"

abbreviation (input) clusters_ok :: "vol \<Rightarrow> DWORD list \<Rightarrow> bool" where
  "clusters_ok v cs \<equiv> \<forall>c \<in> set cs. 2 \<le> c \<and> c < n_fatent v"

lemma data_geom_geo: "geo v' = geo v \<Longrightarrow> data_geom v' = data_geom v"
  by (simp add: data_geom_def fat_geom_geo [of v' v] geo_fields [of v' v])

lemma file_sector_geo: "geo v' = geo v \<Longrightarrow> file_sector v' cs = file_sector v cs"
  by (rule ext) (simp add: file_sector_def geo_fields [of v' v])

lemma file_sectors_geo: "geo v' = geo v \<Longrightarrow> file_sectors v' cs = file_sectors v cs"
  by (simp add: file_sectors_def file_sector_geo [of v' v] geo_fields [of v' v])

lemma data_geomD:
  assumes "data_geom v"
  shows "fat_geom v" "0 < unat (csize v)" "unat (csize v) \<le> 128"
proof -
  obtain j where "j \<le> 7" "unat (csize v) = 2 ^ j" using assms by (auto simp: data_geom_def)
  moreover have "(2 :: nat) ^ j \<le> 2 ^ 7" using \<open>j \<le> 7\<close> by (intro power_increasing) simp_all
  ultimately show "0 < unat (csize v)" "unat (csize v) \<le> 128" by simp_all
  show "fat_geom v" using assms by (simp add: data_geom_def)
qed

lemma cluster_bound:
  fixes c :: DWORD
  assumes "2 \<le> c" and "c < n"
  shows "2 \<le> unat c" "unat c < unat n"
  using assms by (simp_all add: word_le_nat_alt word_less_nat_alt)

lemma data_geom_pos:
  assumes g: "data_geom v"
  shows "0 < unat (database v)"
proof -
  have "0 < unat (fsize v)"
  proof (rule ccontr)
    assume "\<not> 0 < unat (fsize v)"
    then have "fat_bytes v = 0" using g by (simp add: data_geom_def fat_geom_def)
    then show False using fat_geom_min [OF data_geomD(1) [OF g]]
      by (auto simp: fat_bytes_def bytes12_def split: if_splits)
  qed
  moreover have "0 < unat (n_fats v)" using g by (simp add: data_geom_def unat_gt_0)
  ultimately have "0 < unat (n_fats v) * unat (fsize v)" by simp
  then show ?thesis using g unfolding data_geom_def by linarith
qed

text \<open>The sector numbers of a cluster, as \<open>clst2sect\<close> computes them.\<close>

lemma clst2sect_data:
  assumes g: "data_geom v" and c: "2 \<le> c" "c < n_fatent v" and k: "k < unat (csize v)"
  shows "unat (clst2sect v c + of_nat k) = unat (database v) + unat (csize v) * (unat c - 2) + k"
    and "unat (database v) + unat (csize v) * (unat c - 2) + k < 0xFFFFFFFF"
    and "clst2sect v c \<noteq> 0"
proof -
  note cb = cluster_bound [OF c]
  have s2: "unat (c - 2) = unat c - 2" using c(1) by (simp add: unat_sub)
  have s3: "unat (n_fatent v - 2) = unat (n_fatent v) - 2" using cb by (simp add: unat_sub word_le_nat_alt)
  have "c - 2 < n_fatent v - 2" using s2 s3 cb by (simp add: word_less_nat_alt)
  then have e: "clst2sect v c = database v + ucast (csize v) * (c - 2)" by (simp add: clst2sect_def Let_def not_le [symmetric])
  have "Suc (unat c - 2) \<le> unat (n_fatent v) - 2" using cb by simp
  then have "unat (csize v) * Suc (unat c - 2) \<le> unat (csize v) * (unat (n_fatent v) - 2)"
    by (rule mult_le_mono2)
  then have b: "unat (database v) + unat (csize v) * (unat c - 2) + unat (csize v) < 0xFFFFFFFF"
    using g by (simp add: data_geom_def)
  then show lt: "unat (database v) + unat (csize v) * (unat c - 2) + k < 0xFFFFFFFF" using k by linarith
  have m: "unat (ucast (csize v) * (c - 2) :: DWORD) = unat (csize v) * (unat c - 2)"
    using b s2 by (subst unat_mult_bound) simp_all
  have d: "unat (clst2sect v c) = unat (database v) + unat (csize v) * (unat c - 2)"
    unfolding e using b m by (subst unat_add_bound) simp_all
  have "unat (of_nat k :: DWORD) = k" using k by (intro unat_of_nat_DWORD) (use data_geomD(3) [OF g] in simp)
  then show "unat (clst2sect v c + of_nat k) = unat (database v) + unat (csize v) * (unat c - 2) + k"
    using d lt by (subst unat_add_bound) simp_all
  show "clst2sect v c \<noteq> 0" using d data_geom_pos [OF g] by auto
qed

lemma file_sector_split:
  assumes "k < unat (csize v)"
  shows "file_sector v cs (unat (csize v) * q + k) = unat (database v) + unat (csize v) * (unat (cs ! q) - 2) + k"
  using assms by (simp add: file_sector_def)

text \<open>Two sectors of a file are the same only if they have the same index.\<close>

lemma file_sector_inj:
  assumes cs: "distinct cs" "clusters_ok v cs" and pos: "0 < unat (csize v)"
    and i: "i < unat (csize v) * length cs" and j: "j < unat (csize v) * length cs"
    and eq: "file_sector v cs i = file_sector v cs j"
  shows "i = j"
proof -
  let ?n = "unat (csize v)"
  have ij: "i div ?n < length cs" "j div ?n < length cs" using i j by (simp_all add: less_mult_imp_div_less mult.commute)
  have two: "2 \<le> unat (cs ! q)" if "q < length cs" for q
    using cs(2) that nth_mem cluster_bound(1) by blast
  have e: "?n * (unat (cs ! (i div ?n)) - 2) + i mod ?n = ?n * (unat (cs ! (j div ?n)) - 2) + j mod ?n"
    using eq by (simp add: file_sector_def)
  have "(?n * (unat (cs ! (i div ?n)) - 2) + i mod ?n) div ?n = unat (cs ! (i div ?n)) - 2" for i
    using pos by simp
  then have "unat (cs ! (i div ?n)) - 2 = unat (cs ! (j div ?n)) - 2" using e by metis
  then have "unat (cs ! (i div ?n)) = unat (cs ! (j div ?n))" using two [OF ij(1)] two [OF ij(2)] by linarith
  then have "i div ?n = j div ?n" using cs(1) ij by (simp add: nth_eq_iff_index_eq flip: word_unat_eq_iff)
  moreover have "(?n * (unat (cs ! (i div ?n)) - 2) + i mod ?n) mod ?n = i mod ?n" for i
    using pos by simp
  then have "i mod ?n = j mod ?n" using e by metis
  ultimately show ?thesis by (metis div_mod_decomp)
qed

text \<open>The sectors of a file are visible and outside of the table.\<close>

lemma file_sectors_data:
  assumes g: "data_geom v" and cs: "clusters_ok v cs" and s: "s \<in> file_sectors v cs"
  shows "pub v s" "\<not> in_fat v s" "s < 0xFFFFFFFF"
proof -
  obtain i where i: "i < unat (csize v) * length cs" "s = file_sector v cs i" using s by (auto simp: file_sectors_def)
  let ?c = "cs ! (i div unat (csize v))"
  have "i div unat (csize v) < length cs" using i(1) by (simp add: less_mult_imp_div_less mult.commute)
  then have c: "2 \<le> ?c" "?c < n_fatent v" using cs by simp_all
  have k: "i mod unat (csize v) < unat (csize v)" using data_geomD(2) [OF g] by simp
  show lt: "s < 0xFFFFFFFF" using clst2sect_data(2) [OF g c k] i(2) by (simp add: file_sector_def)
  have "unat (database v) \<le> s" using i(2) by (simp add: file_sector_def)
  then have db: "unat (fatbase v) + unat (n_fats v) * unat (fsize v) \<le> s" "1 \<le> unat (n_fats v)"
    using g by (simp_all add: data_geom_def Suc_le_eq unat_gt_0)
  then have "1 * unat (fsize v) \<le> unat (n_fats v) * unat (fsize v)" by (intro mult_le_mono1)
  then have "\<not> s < unat (fatbase v) + unat (fsize v)" using db(1) by linarith
  then show "\<not> in_fat v s" by (simp add: in_fat_def)
  have "\<not> in_mirror v s"
  proof
    assume "in_mirror v s"
    then obtain k where k: "n_fats v = 2" "k < fsize v" "s = unat (fatbase v + k + fsize v)"
      by (auto simp: in_mirror_def)
    have "unat (fatbase v) + 2 * unat (fsize v) \<le> 0xFFFFFFFF" using g by (simp add: data_geom_def fat_geom_def)
    moreover have "unat k < unat (fsize v)" using k(2) by (simp add: word_less_nat_alt)
    ultimately have "s = unat (fatbase v) + unat k + unat (fsize v)" unfolding k(3) by (simp add: unat_add_bound)
    then show False using db(1) k(1) \<open>unat k < unat (fsize v)\<close> by simp
  qed
  then show "pub v s" using lt by (simp add: pub_def bad_sector_def)
qed

section \<open>The volume under a file\<close>

text \<open>A healthy drive, and no sector of the file in the window.\<close>

definition data_ok :: "vol \<Rightarrow> DWORD list \<Rightarrow> bool" where
  "data_ok v cs \<longleftrightarrow>
     vok v \<and> healthy v \<and> data_geom v \<and> clusters_ok v cs \<and> distinct cs
     \<and> unat (winsect v) \<notin> file_sectors v cs"

text \<open>A step of the volume that leaves the table and the sectors of the file alone.\<close>

definition same_data :: "DWORD list \<Rightarrow> vol \<Rightarrow> vol \<Rightarrow> bool" where
  "same_data cs v v' \<longleftrightarrow>
     data_ok v' cs \<and> geo v' = geo v
     \<and> (\<forall>d < unat (n_fatent v). fat_entry v' d = fat_entry v d)
     \<and> (\<forall>s \<in> file_sectors v cs. sectors (drv v') s = sectors (drv v) s)"

lemma same_data_refl: "data_ok v cs \<Longrightarrow> same_data cs v v"
  by (simp add: same_data_def)

lemma data_okD:
  assumes "data_ok v cs"
  shows "vok v" "healthy v" "data_geom v" "fat_geom v" "clusters_ok v cs" "distinct cs"
    "unat (winsect v) \<notin> file_sectors v cs" "0 < unat (csize v)" "unat (csize v) \<le> 128" "wf_vol v"
  using assms data_geomD by (simp_all add: data_ok_def vok_def)

text \<open>Reading an entry leaves the window where it was or on a sector of the table.\<close>

lemma in_fat_offset: "unat o1 < unat (fsize v) \<Longrightarrow> fat_geom v \<Longrightarrow> in_fat v (unat (fatbase v + o1))"
  by (subst unat_add_bound) (simp_all add: in_fat_def fat_geom_def)

lemma entry_offset:
  assumes "fat_geom v" and "i < fat_bytes v" and "unat s = i div SS"
  shows "in_fat v (unat (fatbase v + s))"
  using assms by (intro in_fat_offset) (simp_all add: fat_geom_def less_mult_imp_div_less mult.commute)

lemma move_window_at: "move_window v t = (r, v') \<Longrightarrow> vok v \<Longrightarrow> healthy v \<Longrightarrow> winsect v' = t"
  using move_window_ok(6) [of v t r v'] move_window_healthyE [of v t r v'] by blast

text \<open>The sectors that hold the entry of a cluster.\<close>

lemma entry_sectors:
  assumes ge: "fat_geom v" and c: "2 \<le> c" "c < n_fatent v"
  shows "fs_type v = 1 \<Longrightarrow> in_fat v (unat (fatbase v + (c + c div 2 + 1) div SS))"
    "fs_type v = 2 \<Longrightarrow> in_fat v (unat (fatbase v + c div (SS div 2)))"
    "fs_type v = 3 \<Longrightarrow> in_fat v (unat (fatbase v + c div (SS div 4)))"
proof -
  have cn: "unat c < unat (n_fatent v)" using c(2) by (simp add: word_less_nat_alt)
  show "in_fat v (unat (fatbase v + (c + c div 2 + 1) div SS))" if "fs_type v = 1"
  proof -
    have n: "n_fatent v \<le> 0xFF7" using ge that by (simp add: fat_geom_def)
    note p = pos12 [OF c(2) n]
    show ?thesis by (rule entry_offset [OF ge, of "unat c + unat c div 2 + 1"])
        (use p that in \<open>simp_all add: fat_bytes_def unat_div\<close>)
  qed
  show "in_fat v (unat (fatbase v + c div (SS div 2)))" if "fs_type v = 2"
  proof -
    have "unat c * 2 < 2 ^ 32" using ge that cn by (simp add: fat_geom_def word_le_nat_alt)
    then show ?thesis using pos_scaled(2) [of c 2] cn that
      by (intro entry_offset [OF ge, of "2 * unat c"]) (simp_all add: fat_bytes_def)
  qed
  show "in_fat v (unat (fatbase v + c div (SS div 4)))" if "fs_type v = 3"
  proof -
    have "unat c * 4 < 2 ^ 32" using ge that cn by (simp add: fat_geom_def word_le_nat_alt)
    then show ?thesis using pos_scaled(2) [of c 4] cn that
      by (intro entry_offset [OF ge, of "4 * unat c"]) (simp_all add: fat_bytes_def)
  qed
qed

lemma fat_window_in:
  assumes ok: "vok v" "healthy v" and ge: "fat_geom v" and c: "2 \<le> c" "c < n_fatent v"
  shows "get_fat v c = (r, v') \<Longrightarrow> in_fat v (unat (winsect v'))"
    and "put_fat v c x = (res, v') \<Longrightarrow> in_fat v (unat (winsect v'))"
proof -
  note es = entry_sectors [OF ge c]
  have rg: "\<not> c < 2" "\<not> n_fatent v \<le> c" using c by (simp_all add: not_less not_le)
  have "(get_fat v c = (r, v') \<longrightarrow> in_fat v (unat (winsect v'))) \<and> (put_fat v c x = (res, v') \<longrightarrow> in_fat v (unat (winsect v')))"
    using ge
  proof (cases rule: fat_types)
    case FAT12
    obtain r1 v1 where m1: "move_window v (fatbase v + (c + c div 2) div SS) = (r1, v1)" by fastforce
    note h1 = move_window_healthyE [OF ok(2,1) m1]
    have fb: "fatbase v1 = fatbase v" using geo_fields(10) [OF move_window_ok(5) [OF m1 ok(1)]] .
    obtain r2 v2 where m2: "move_window v1 (fatbase v1 + (c + c div 2 + 1) div SS) = (r2, v2)" by fastforce
    have w2: "winsect v2 = fatbase v + (c + c div 2 + 1) div SS" using move_window_at [OF m2 h1(3,2)] fb by simp
    define w where "w = (win v1)[unat ((c + c div 2) mod SS) := if c AND 1 \<noteq> 0
      then (win v1 ! unat ((c + c div 2) mod SS) AND 0x0F) OR push_bit 4 (ucast x) else ucast x]"
    have "length w = SS" using h1(3) by (simp add: w_def vok_def wf_vol_def)
    then have s1: "vok (set_win v1 w)" "healthy (set_win v1 w)"
      using set_win_ok(1) h1 by (simp_all add: healthy_def set_win_def)
    obtain r3 v3 where m3: "move_window (set_win v1 w) (fatbase (set_win v1 w) + (c + c div 2 + 1) div SS) = (r3, v3)"
      by fastforce
    have w3: "winsect v3 = fatbase v + (c + c div 2 + 1) div SS" using move_window_at [OF m3 s1] fb by simp
    have "get_fat v c = (r, v') \<longrightarrow> winsect v' = winsect v2"
      using rg FAT12 m1 m2 h1 by (auto simp: get_fat_def Let_def split: if_splits)
    moreover have "put_fat v c x = (res, v') \<longrightarrow> winsect v' = winsect v3"
      using c FAT12 m1 m3 h1 by (auto simp: put_fat_def Let_def w_def split: if_splits)
    ultimately show ?thesis using es(1) FAT12 w2 w3 by simp
  next
    case FAT16
    obtain r1 v1 where m1: "move_window v (fatbase v + c div (SS div 2)) = (r1, v1)" by fastforce
    have "get_fat v c = (r, v') \<longrightarrow> winsect v' = winsect v1" "put_fat v c x = (res, v') \<longrightarrow> winsect v' = winsect v1"
      using rg c FAT16 m1 by (auto simp: get_fat_def put_fat_def Let_def split: if_splits)
    then show ?thesis using es(2) FAT16 move_window_at [OF m1 ok] by simp
  next
    case FAT32
    obtain r1 v1 where m1: "move_window v (fatbase v + c div (SS div 4)) = (r1, v1)" by fastforce
    have "get_fat v c = (r, v') \<longrightarrow> winsect v' = winsect v1" "put_fat v c x = (res, v') \<longrightarrow> winsect v' = winsect v1"
      using rg c FAT32 m1 by (auto simp: get_fat_def put_fat_def Let_def split: if_splits)
    then show ?thesis using es(3) FAT32 move_window_at [OF m1 ok] by simp
  qed
  then show "get_fat v c = (r, v') \<Longrightarrow> in_fat v (unat (winsect v'))"
    "put_fat v c x = (res, v') \<Longrightarrow> in_fat v (unat (winsect v'))" by blast+
qed

text \<open>\<open>near_fat v v'\<close>: the window has stayed, or is now on the table.\<close>

definition near_fat :: "vol \<Rightarrow> vol \<Rightarrow> bool" where
  "near_fat v v' \<longleftrightarrow> winsect v' = winsect v \<or> in_fat v (unat (winsect v'))"

lemma near_fat_refl [simp]: "near_fat v v"
  by (simp add: near_fat_def)

lemma near_fat_trans: "near_fat u v \<Longrightarrow> near_fat v w \<Longrightarrow> geo v = geo u \<Longrightarrow> near_fat u w"
  by (auto simp: near_fat_def in_fat_geo [of v u])

lemma get_fat_window:
  assumes "get_fat v c = (r, v')" and "vok v" "healthy v" "fat_geom v"
  shows "near_fat v v'"
proof (cases "c < 2 \<or> n_fatent v \<le> c")
  case True
  then show ?thesis using assms(1) get_fat_range [OF True] by simp
next
  case False
  then show ?thesis using fat_window_in(1) [OF assms(2-4) _ _ assms(1)] by (simp add: near_fat_def not_less not_le)
qed

text \<open>A sector of the file is not in the window, so the drive holds it.\<close>

lemma data_sector:
  assumes "data_ok v cs" and "s \<in> file_sectors v cs"
  shows "sectors (drv v) s = vsec v s" "pub v s" "length (sectors (drv v) s) = SS"
  using assms file_sectors_data [OF data_okD(3,5) [OF assms(1)]] data_okD(7,10) [OF assms(1)]
  by (auto simp: vsec_def wf_vol_def)

lemma view_same_data:
  assumes d: "data_ok v cs" and v': "vok v'" "healthy v'" "view_eq v v'"
    and w: "near_fat v v'"
  shows "same_data cs v v'"
proof -
  have geo: "geo v' = geo v" using v'(3) by (simp add: view_eq_def)
  have win: "unat (winsect v') \<notin> file_sectors v cs"
    using w data_okD(7) [OF d] file_sectors_data(2) [OF data_okD(3,5) [OF d]] by (auto simp: near_fat_def)
  have d': "data_ok v' cs"
    using d v' win data_geom_geo [OF geo] file_sectors_geo [OF geo] geo_fields(7) [OF geo] by (simp add: data_ok_def)
  have "sectors (drv v') s = sectors (drv v) s" if "s \<in> file_sectors v cs" for s
    using data_sector [OF d that] data_sector(1) [OF d', of s] v'(3) that file_sectors_geo [OF geo]
    by (simp add: view_eq_def)
  then show ?thesis
    using d' geo fat_entry_view [OF v'(3) data_okD(4) [OF d]] by (simp add: same_data_def)
qed

lemma get_fat_data:
  assumes g: "get_fat v c = (r, v')" and d: "data_ok v cs"
  shows "same_data cs v v'"
  by (rule view_same_data [OF d])
    (use quietD [OF get_fat_quiet [OF g]] get_fat_healthy [OF _ _ g] get_fat_window [OF g] data_okD [OF d] in auto)

text \<open>Replacing sectors of the file on the drive.\<close>

lemma store_data:
  assumes d: "data_ok v cs" and f: "\<And>t. t \<notin> file_sectors v cs \<Longrightarrow> f t = sectors (drv v) t"
    and len: "\<And>t. length (f t) = SS"
  defines "v' \<equiv> v\<lparr>drv := (drv v)\<lparr>sectors := f\<rparr>\<rparr>"
  shows "data_ok v' cs" "geo v' = geo v" "e < unat (n_fatent v) \<Longrightarrow> fat_entry v' e = fat_entry v e"
proof -
  show geo: "geo v' = geo v" by (simp add: v'_def geo_def)
  have vs: "vsec v' t = vsec v t" if "t \<notin> file_sectors v cs" for t using f [OF that] by (simp add: vsec_def v'_def)
  have "vok v'" using data_okD(1,7) [OF d] f len by (auto simp: vok_def wf_vol_def coherent_def v'_def)
  moreover have "healthy v'" using data_okD(2) [OF d] by (simp add: healthy_def v'_def)
  ultimately show "data_ok v' cs"
    using d data_geom_geo [OF geo] file_sectors_geo [OF geo] by (simp add: data_ok_def v'_def)
  have "fat_image v' i = fat_image v i" if "i < fat_bytes v" for i
  proof -
    have "i div SS < unat (fsize v)" using data_okD(4) [OF d] that
      by (simp add: fat_geom_def less_mult_imp_div_less mult.commute)
    then have "in_fat v (unat (fatbase v) + i div SS)" by (simp add: in_fat_def)
    then have "unat (fatbase v) + i div SS \<notin> file_sectors v cs"
      using file_sectors_data(2) [OF data_okD(3,5) [OF d]] by blast
    from vs [OF this] show ?thesis by (simp add: fat_image_def v'_def)
  qed
  then show "e < unat (n_fatent v) \<Longrightarrow> fat_entry v' e = fat_entry v e"
    by (rule fat_entry_cong [OF geo _ data_okD(4) [OF d]])
qed

section \<open>The content of a file\<close>

text \<open>The sector buffer of the file object covers one sector of the file.\<close>

definition fsec :: "vol \<Rightarrow> FIL \<Rightarrow> nat \<Rightarrow> BYTE list" where
  "fsec v fp s = (if s = unat (fsect fp) then buf fp else sectors (drv v) s)"

definition file_byte :: "vol \<Rightarrow> FIL \<Rightarrow> DWORD list \<Rightarrow> nat \<Rightarrow> BYTE" where
  "file_byte v fp cs i = fsec v fp (file_sector v cs (i div SS)) ! (i mod SS)"

abbreviation (input) dirty :: "FIL \<Rightarrow> bool" where
  "dirty fp \<equiv> flag fp AND FA_DIRTY \<noteq> 0"

text \<open>The open file and the volume agree: \<open>cs\<close> are its clusters, the buffer of a clean file
  holds what the drive does, and the buffer belongs to a sector of the file or, with sector number
  0, to none.\<close>

definition file_inv :: "vol \<Rightarrow> FIL \<Rightarrow> DWORD list \<Rightarrow> bool" where
  "file_inv v fp cs \<longleftrightarrow>
     data_ok v cs \<and> length (buf fp) = SS
     \<and> (if cs = [] then sclust (fobj fp) = 0
        else chain (fat_entry v) (n_fatent v) (sclust (fobj fp)) cs)
     \<and> unat (objsize (fobj fp)) \<le> SS * (unat (csize v) * length cs)
     \<and> (unat (fsect fp) \<in> file_sectors v cs \<longrightarrow> \<not> dirty fp \<longrightarrow> buf fp = sectors (drv v) (unat (fsect fp)))
     \<and> (dirty fp \<or> fsect fp \<noteq> 0 \<longrightarrow> unat (fsect fp) \<in> file_sectors v cs)"

text \<open>The position is within the file, the current cluster holds the byte before it, and within a
  sector the buffer holds that sector.\<close>

definition file_at :: "vol \<Rightarrow> FIL \<Rightarrow> DWORD list \<Rightarrow> bool" where
  "file_at v fp cs \<longleftrightarrow>
     fptr fp \<le> objsize (fobj fp)
     \<and> (fptr fp \<noteq> 0 \<longrightarrow> fclust fp = cs ! ((unat (fptr fp) - 1) div SS div unat (csize v)))
     \<and> (unat (fptr fp) mod SS \<noteq> 0 \<longrightarrow> unat (fsect fp) = file_sector v cs (unat (fptr fp) div SS))"

text \<open>A step of file and volume that changes no byte of the file.\<close>

definition same_file :: "DWORD list \<Rightarrow> vol \<Rightarrow> FIL \<Rightarrow> vol \<Rightarrow> FIL \<Rightarrow> bool" where
  "same_file cs v fp v' fp' \<longleftrightarrow>
     file_inv v' fp' cs \<and> geo v' = geo v \<and> fobj fp' = fobj fp \<and> err fp' = err fp
     \<and> flag fp' AND (FA_READ OR FA_WRITE) = flag fp AND (FA_READ OR FA_WRITE)
     \<and> (\<forall>s \<in> file_sectors v cs. fsec v' fp' s = fsec v fp s)"

lemma same_file_refl: "file_inv v fp cs \<Longrightarrow> same_file cs v fp v fp"
  by (simp add: same_file_def)

lemma same_file_trans: "same_file cs u f v g \<Longrightarrow> same_file cs v g w h \<Longrightarrow> same_file cs u f w h"
  by (auto simp: same_file_def file_sectors_geo [of v u])

lemma file_sector_in: "i < unat (csize v) * length cs \<Longrightarrow> file_sector v cs i \<in> file_sectors v cs"
  by (simp add: file_sectors_def)

lemma same_file_byte:
  assumes "same_file cs v fp v' fp'" and "i < SS * (unat (csize v) * length cs)"
  shows "file_byte v' fp' cs i = file_byte v fp cs i"
proof -
  have "i div SS < unat (csize v) * length cs" using assms(2) by (simp add: less_mult_imp_div_less mult.commute)
  from file_sector_in [OF this] show ?thesis
    using assms(1) by (simp add: same_file_def file_byte_def file_sector_geo [of v' v])
qed

lemma file_invD:
  assumes "file_inv v fp cs"
  shows "data_ok v cs" "length (buf fp) = SS" "unat (objsize (fobj fp)) \<le> SS * (unat (csize v) * length cs)"
  using assms by (simp_all add: file_inv_def)

lemma same_data_file:
  assumes "same_data cs v v'" and "file_inv v fp cs"
  shows "same_file cs v fp v' fp"
proof -
  note d = file_invD [OF assms(2)] and dd = data_okD [OF file_invD(1) [OF assms(2)]]
  have geo: "geo v' = geo v" using assms(1) by (simp add: same_data_def)
  have ent: "fat_entry v' e = fat_entry v e" if "e < unat (n_fatent v)" for e
    using assms(1) that by (simp add: same_data_def)
  have "chain (fat_entry v') (n_fatent v) (sclust (fobj fp)) cs"
    if "chain (fat_entry v) (n_fatent v) (sclust (fobj fp)) cs"
    using that by (rule chain_cong) (use dd(5) ent in \<open>auto simp: word_less_nat_alt\<close>)
  moreover have "sectors (drv v') s = sectors (drv v) s" if "s \<in> file_sectors v cs" for s
    using assms(1) that by (simp add: same_data_def)
  ultimately show ?thesis
    using assms geo file_sectors_geo [OF geo] geo_fields(6,7) [OF geo]
    by (auto simp: same_file_def file_inv_def same_data_def fsec_def)
qed

text \<open>Flushing the buffer of the file, and filling it from another sector of the file.\<close>

lemma flush_buf_file:
  assumes i: "file_inv v fp cs" and f: "flush_buf v fp = (ok, fp', v')"
  shows "ok" "same_file cs v fp v' fp'" "\<not> dirty fp'" "fptr fp' = fptr fp" "fclust fp' = fclust fp"
    "fsect fp' = fsect fp" "buf fp' = buf fp" "bad_entry v' = bad_entry v"
proof -
  note d = file_invD [OF i] and dd = data_okD [OF file_invD(1) [OF i]]
  have "ok \<and> same_file cs v fp v' fp' \<and> \<not> dirty fp' \<and> fptr fp' = fptr fp \<and> fclust fp' = fclust fp
    \<and> fsect fp' = fsect fp \<and> buf fp' = buf fp \<and> bad_entry v' = bad_entry v"
  proof (cases "dirty fp")
    case False
    then show ?thesis using f i by (auto simp: flush_buf_def same_file_def)
  next
    case True
    define g where "g = (sectors (drv v))(unat (fsect fp) := buf fp)"
    have s: "unat (fsect fp) \<in> file_sectors v cs" using i True by (simp add: file_inv_def)
    have "disk_write (pdrv v) (buf fp) (fsect fp) 1 (drv v) = (RES_OK, (drv v)\<lparr>sectors := g\<rparr>)"
      using disk_write_healthy d(2) dd(2) by (simp add: healthy_def g_def)
    then have e: "ok" "fp' = fp\<lparr>flag := flag fp AND NOT FA_DIRTY\<rparr>" "v' = v\<lparr>drv := (drv v)\<lparr>sectors := g\<rparr>\<rparr>"
      using f True by (auto simp: flush_buf_def)
    have "\<And>t. t \<notin> file_sectors v cs \<Longrightarrow> g t = sectors (drv v) t" "\<And>t. length (g t) = SS"
      using s d(2) dd(10) by (auto simp: wf_vol_def g_def)
    note st = store_data [OF d(1) this, folded e(3)]
    have nd: "\<not> dirty fp'" by (simp add: e(2) and.assoc)
    have "chain (fat_entry v') (n_fatent v) (sclust (fobj fp)) cs"
      if "chain (fat_entry v) (n_fatent v) (sclust (fobj fp)) cs"
      using that by (rule chain_cong) (use dd(5) st(3) in \<open>auto simp: word_less_nat_alt\<close>)
    moreover have "file_sectors v' cs = file_sectors v cs" "csize v' = csize v" "n_fatent v' = n_fatent v"
      using file_sectors_geo [OF st(2)] geo_fields(6,7) [OF st(2)] by simp_all
    moreover have "sectors (drv v') (unat (fsect fp)) = buf fp" by (simp add: e(3) g_def)
    ultimately have "file_inv v' fp' cs" using i s st(1) nd by (auto simp: file_inv_def e(2))
    moreover have "flag fp' AND (FA_READ OR FA_WRITE) = flag fp AND (FA_READ OR FA_WRITE)"
      by (simp add: e(2) and.assoc)
    moreover have "bad_entry v' = bad_entry v" using st(3) geo_fields(7) [OF st(2)] by (auto simp: bad_entry_def)
    ultimately show ?thesis using e nd st(2) by (auto simp: same_file_def fsec_def g_def)
  qed
  then show "ok" "same_file cs v fp v' fp'" "\<not> dirty fp'" "fptr fp' = fptr fp" "fclust fp' = fclust fp"
    "fsect fp' = fsect fp" "buf fp' = buf fp" "bad_entry v' = bad_entry v" by simp_all
qed

lemma fill_buf_file:
  assumes i: "file_inv v fp cs" and nd: "\<not> dirty fp" and s: "unat s \<in> file_sectors v cs"
    and f: "fill_buf v fp s = (ok, fp', v')"
  shows "ok" "v' = v" "fp' = fp\<lparr>buf := sectors (drv v) (unat s)\<rparr>" "same_file cs v fp v' (fp'\<lparr>fsect := s\<rparr>)"
proof -
  note d = file_invD [OF i] and dd = data_okD [OF file_invD(1) [OF i]]
  have l: "length (sectors (drv v) (unat s)) = SS" using dd(10) by (simp add: wf_vol_def)
  have "disk_read (pdrv v) s 1 (drv v) = (RES_OK, sectors (drv v) (unat s), drv v)"
    using disk_read_healthy dd(2) by (simp add: healthy_def)
  then have e: "ok" "v' = v" "fp' = fp\<lparr>buf := sectors (drv v) (unat s)\<rparr>"
    using f d(2) l by (auto simp: fill_buf_def put_seg_def)
  show "ok" "v' = v" "fp' = fp\<lparr>buf := sectors (drv v) (unat s)\<rparr>" by fact+
  have "fsec v (fp\<lparr>buf := sectors (drv v) (unat s), fsect := s\<rparr>) t = fsec v fp t" if "t \<in> file_sectors v cs" for t
    using i nd that by (auto simp: fsec_def file_inv_def)
  then show "same_file cs v fp v' (fp'\<lparr>fsect := s\<rparr>)" using i nd s l e
    by (auto simp: same_file_def file_inv_def)
qed

end
