(* ===== verification/Fat_Valid.thy ===== *)
theory Fat_Valid
  imports Fat_World Fat_Data
begin

text \<open>
  What \<open>find_volume\<close> of \<^verbatim>\<open>addon/fatfs/ff.c\<close> (lines 3214-3446) establishes: from any boot sector, a volume that is
  mounted satisfies the invariants the other theories assume, up to the wrap-around of sector
  numbers that the code does not check.
\<close>

unbundle bit_operations_syntax

section \<open>What a mount checks\<close>

lemma power_of_two:
  fixes n :: nat
  assumes "n \<noteq> 0" and "n AND (n - 1) = 0"
  shows "\<exists>k. n = 2 ^ k"
proof -
  obtain k where k: "2 ^ k \<le> n" "n < 2 ^ (k + 1)" using ex_power_ivl1 [of 2 n] assms(1) by auto
  show ?thesis
  proof (cases "n = 2 ^ k")
    case False
    then have "2 ^ k \<le> n - 1" "n - 1 < 2 ^ (k + 1)" using k by auto
    then have "n div 2 ^ k = 1" "(n - 1) div 2 ^ k = 1" using k by (auto intro!: div_nat_eqI)
    then have "bit n k" "bit (n - 1) k" by (simp_all add: bit_iff_odd)
    then have "bit (n AND (n - 1)) k" by (simp add: bit_and_iff)
    then show ?thesis using assms(2) by simp
  qed blast
qed

lemma cluster_size:
  fixes c :: WORD
  assumes "c = ucast (b :: BYTE)" and "c \<noteq> 0" and "c AND (c - 1) = 0"
  shows "\<exists>j \<le> 7. unat c = 2 ^ j"
proof -
  have "unat c = unat b" using assms(1) by simp
  then have lt: "unat c < 256" using unsigned_less [of b] by simp
  have "unat c AND (unat c - 1) = unat (c AND (c - 1))"
    using assms(2) by (simp add: unsigned_and_eq unat_minus_one)
  then have "unat c AND (unat c - 1) = 0" using assms(3) by simp
  moreover have "unat c \<noteq> 0" using assms(2) by (simp add: unsigned_eq_0_iff)
  ultimately obtain k where k: "unat c = 2 ^ k" using power_of_two by blast
  have "k \<le> 7"
  proof (rule ccontr)
    assume "\<not> k \<le> 7"
    then have "(2 :: nat) ^ 8 \<le> 2 ^ k" by (intro power_increasing) simp_all
    then show False using k lt by simp
  qed
  then show ?thesis using k by blast
qed

lemma check_fs_vok:
  assumes "check_fs v s = (r, v')" and "wf_vol v"
  shows "vok v'"
proof -
  obtain q v1 where m: "move_window (v\<lparr>wflag := 0, winsect := 0xFFFFFFFF\<rparr>) s = (q, v1)" by fastforce
  have "vok (v\<lparr>wflag := 0, winsect := 0xFFFFFFFF\<rparr>)" using assms(2) by (simp add: vok_def wf_vol_def coherent_def)
  from move_window_ok(1) [OF m this] show ?thesis using assms(1) m by (auto simp: check_fs_def split: if_splits)
qed

lemma find_partition_vok: "find_partition v br b f = (bs, r, v') \<Longrightarrow> vok v \<Longrightarrow> vok v'"
proof (induction br arbitrary: v b f)
  case (Cons b' br)
  obtain r1 v1 where c: "(if b' \<noteq> 0 then check_fs v b' else (3, v)) = (r1, v1)" by fastforce
  have "vok v1" using c check_fs_vok Cons.prems(2) by (auto simp: vok_def split: if_splits)
  then show ?case using Cons.IH [of v1 b' r1] Cons.prems(1) c
    by (simp only: find_partition.simps c prod.case split: if_splits) auto
qed auto

lemma locate_volume_vok:
  assumes l: "locate_volume v = (bs, r, v')" and wf: "wf_vol v"
  shows "vok v'"
proof -
  obtain f v1 where c: "check_fs v 0 = (f, v1)" by fastforce
  note v1 = check_fs_vok [OF c wf]
  show ?thesis
  proof (cases "f = 2")
    case True
    then have "\<exists>br. find_partition v1 br 0 f = (bs, r, v')"
      using l unfolding locate_volume_def Let_def c prod.case if_P [OF True] by blast
    then show ?thesis using find_partition_vok v1 by blast
  next
    case False
    then show ?thesis using l c v1 by (simp add: locate_volume_def)
  qed
qed

lemma read_bpb_checked:
  assumes "read_bpb v = (Inr (nrsv, fasize, sysect, fmt), v')"
  shows "win v' = win v" "drv v' = drv v" "wflag v' = wflag v" "winsect v' = winsect v"
    "n_fats v' = 1 \<or> n_fats v' = 2" "\<exists>j \<le> 7. unat (csize v') = 2 ^ j"
    "\<exists>n. n_fatent v' = n + 2 \<and> n \<noteq> 0 \<and> fmt = fat_kind n \<and> fmt \<noteq> 0"
proof -
  let ?c = "ucast (win v ! BPB_SecPerClus) :: WORD"
  have c: "\<not> (?c = 0 \<or> ?c AND (?c - 1) \<noteq> 0)" and cv: "csize v' = ?c"
    using assms by (auto simp: read_bpb_def Let_def split: if_splits)
  show "\<exists>j \<le> 7. unat (csize v') = 2 ^ j" using cluster_size [of ?c "win v ! BPB_SecPerClus"] c cv by simp
  show "win v' = win v" "drv v' = drv v" "wflag v' = wflag v" "winsect v' = winsect v"
    "n_fats v' = 1 \<or> n_fats v' = 2"
    "\<exists>n. n_fatent v' = n + 2 \<and> n \<noteq> 0 \<and> fmt = fat_kind n \<and> fmt \<noteq> 0"
    using assms by (auto simp: read_bpb_def Let_def split: if_splits)
qed

text \<open>The type follows from the number of clusters, and the table holds an entry for each.\<close>

lemma fat_kind_cases:
  assumes "fat_kind n = f" and "f \<noteq> 0"
  shows "f = FS_FAT12 \<and> n \<le> 0xFF5 \<or> f = FS_FAT16 \<and> n \<le> 0xFFF5 \<or> f = FS_FAT32 \<and> n \<le> 0x0FFFFFF5"
  using assms by (auto simp: fat_kind_def Let_def split: if_splits)

definition table_bytes :: "BYTE \<Rightarrow> DWORD \<Rightarrow> DWORD" where
  "table_bytes f n =
     (if f = FS_FAT32 then n * 4 else if f = FS_FAT16 then n * 2 else n * 3 div 2 + (n AND 1))"

lemma unat_table_bytes:
  assumes "f = FS_FAT12 \<and> unat n \<le> 0xFF7 \<or> f = FS_FAT16 \<and> unat n \<le> 0xFFF7 \<or> f = FS_FAT32 \<and> unat n \<le> 0x0FFFFFF7"
  shows "unat (table_bytes f n) =
    (if f = FS_FAT12 then bytes12 (unat n) else if f = FS_FAT16 then 2 * unat n else 4 * unat n)"
proof -
  have "unat (n * 4) = unat n * 4" "unat (n * 2) = unat n * 2" if "unat n \<le> 0x0FFFFFF7"
    using that by (subst unat_mult_bound; simp)+
  moreover have "unat (n * 3 div 2 + (n AND 1)) = bytes12 (unat n)" if "unat n \<le> 0xFF7"
  proof -
    have a: "n AND 1 = n mod 2" by (simp flip: take_bit_eq_mask [of 1, simplified] add: and_one_eq)
    have m: "unat (n * 3) = unat n * 3" using that by (subst unat_mult_bound) simp_all
    have "unat n * 3 div 2 \<le> unat n * 3" by simp
    then have "unat (n * 3 div 2 + n mod 2) = unat n * 3 div 2 + unat n mod 2"
      using m that by (subst unat_add_bound) (simp_all add: unat_div unat_mod)
    then show ?thesis by (simp add: a bytes12_def)
  qed
  ultimately show ?thesis using assms by (auto simp: table_bytes_def)
qed

lemma table_fits:
  assumes "\<not> s < (t + (SS - 1)) div SS" and "unat t \<le> 2 ^ 31"
  shows "unat t \<le> SS * unat (s :: DWORD)"
proof -
  have "unat (t + (SS - 1)) = unat t + 511" using assms(2) by (subst unat_add_bound) simp_all
  then have "(unat t + 511) div 512 \<le> unat s"
    using assms(1) by (simp add: word_less_nat_alt unat_div not_less)
  then show ?thesis by linarith
qed

lemma set_limits_checked:
  assumes "set_limits v b nrsv fasize sysect fmt = (FR_OK, v')"
  shows "win v' = win v" "drv v' = drv v" "wflag v' = wflag v" "winsect v' = winsect v" "n_fats v' = n_fats v"
    "csize v' = csize v" "n_fatent v' = n_fatent v" "fsize v' = fsize v" "volbase v' = b" "fatbase v' = b + nrsv"
    "database v' = b + sysect"
    "\<not> fsize v < (table_bytes fmt (n_fatent v) + (SS - 1)) div SS" "fmt = FS_FAT32 \<longleftrightarrow> n_rootdir v' = 0"
  using assms by (auto simp: set_limits_def table_bytes_def Let_def split: if_splits)

lemma mount_volume_parts:
  assumes "mount_volume v mode mid = (FR_OK, v')"
  obtains d b f v1 nrsv fasize sysect fmt v2 v3 where
    "locate_volume (v\<lparr>drv := d\<rparr>) = (b, f, v1)" "sectors d = sectors (drv v)" "f < 2" "read_bpb v1 = (Inr (nrsv, fasize, sysect, fmt), v2)"
    "set_limits v2 b nrsv fasize sysect fmt = (FR_OK, v3)"
    "v' = (load_fsinfo v3 b fmt)\<lparr>fs_type := fmt, fs_id := mid\<rparr>"
proof -
  obtain st d where i: "disk_initialize (pdrv v) (drv v) = (st, d)" by fastforce
  have sd: "sectors d = sectors (drv v)" using i by (auto simp: disk_initialize_def Let_def split: if_splits)
  note m = assms [unfolded mount_volume_def i prod.case Let_def]
  obtain b f v1 where l: "locate_volume (v\<lparr>drv := d\<rparr>) = (b, f, v1)" by (metis prod_cases3)
  have f: "f < 2" and m2: "(case read_bpb v1 of (Inl e, v) \<Rightarrow> (e, v)
          | (Inr (nrsv, fasize, sysect, fmt), v) \<Rightarrow>
              case set_limits v b nrsv fasize sysect fmt of (res, v) \<Rightarrow>
              if res \<noteq> FR_OK then (res, v) else (FR_OK, (load_fsinfo v b fmt)\<lparr>fs_type := fmt, fs_id := mid\<rparr>)) = (FR_OK, v')"
    using m l by (auto split: if_splits simp: not_le)
  obtain r v2 where rb: "read_bpb v1 = (r, v2)" by fastforce
  show ?thesis
  proof (cases r)
    case (Inl e)
    then show ?thesis using m2 rb read_bpb_keep [OF rb] by auto
  next
    case (Inr x)
    obtain nrsv fasize sysect fmt where x: "x = (nrsv, fasize, sysect, fmt)" by (metis prod_cases4)
    obtain r3 v3 where s: "set_limits v2 b nrsv fasize sysect fmt = (r3, v3)" by fastforce
    have "r3 = FR_OK" "v' = (load_fsinfo v3 b fmt)\<lparr>fs_type := fmt, fs_id := mid\<rparr>"
      using m2 rb Inr x s by (auto split: if_splits)
    then show ?thesis using that l sd f rb Inr x s by auto
  qed
qed

lemma vok_alloc: "vok (v\<lparr>free_clst := a, last_clst := b, fsi_flag := c\<rparr>) = vok v" "vok (v\<lparr>fsi_flag := c\<rparr>) = vok v"
  "vok (v\<lparr>free_clst := a, last_clst := b\<rparr>) = vok v" "vok (v\<lparr>fs_type := t, fs_id := i\<rparr>) = vok v"
  by (simp_all add: vok_def wf_vol_def coherent_def)

lemma load_fsinfo_vok: "vok v \<Longrightarrow> vok (load_fsinfo v b f)"
proof -
  assume ok: "vok v"
  let ?u = "v\<lparr>free_clst := 0xFFFFFFFF, last_clst := 0xFFFFFFFF, fsi_flag := 0x80\<rparr>"
  obtain r v1 where m: "move_window ?u (b + 1) = (r, v1)" by fastforce
  have u: "vok ?u" using ok by (simp add: vok_alloc)
  have "vok v1" by (rule move_window_ok(1) [OF m u])
  then show ?thesis using u m by (simp add: load_fsinfo_def Let_def vok_alloc)
qed

text \<open>C15: What a successful mount guarantees. Whatever bytes the boot sector holds, a volume that is mounted
  has a coherent window, one or two tables, clusters of a power of two of at most 128 sectors, a
  type that fits its number of clusters, and tables large enough to hold an entry for every
  cluster. If besides the areas of the volume do not wrap around the 32-bit sector numbers, which
  the mount does not check, the volume satisfies the geometry every other property rests on.\<close>

theorem mounted_volume:
  assumes "mount_volume v mode mid = (FR_OK, v')" and "wf_vol v"
  shows "vok v' \<and> fs_id v' = mid \<and> (n_fats v' = 1 \<or> n_fats v' = 2) \<and> (\<exists>j \<le> 7. unat (csize v') = 2 ^ j)
    \<and> (fs_type v' = FS_FAT12 \<and> n_fatent v' \<le> 0xFF7 \<or> fs_type v' = FS_FAT16 \<and> n_fatent v' \<le> 0xFFF7
       \<or> fs_type v' = FS_FAT32 \<and> n_fatent v' \<le> 0x0FFFFFF7)
    \<and> 3 \<le> n_fatent v' \<and> fat_bytes v' \<le> SS * unat (fsize v') \<and> (fs_type v' = FS_FAT32 \<longleftrightarrow> n_rootdir v' = 0)
    \<and> (unat (fatbase v') + 2 * unat (fsize v') \<le> 0xFFFFFFFF
       \<and> unat (fatbase v') + unat (n_fats v') * unat (fsize v') \<le> unat (database v')
       \<and> unat (database v') + unat (csize v') * (unat (n_fatent v') - 2) < 0xFFFFFFFF \<longrightarrow> fat_geom v' \<and> data_geom v')"
proof -
  obtain d b f v1 nrsv fasize sysect fmt v2 v3 where
    l: "locate_volume (v\<lparr>drv := d\<rparr>) = (b, f, v1)" and d: "sectors d = sectors (drv v)" and "f < 2" and
    rb: "read_bpb v1 = (Inr (nrsv, fasize, sysect, fmt), v2)" and
    sl: "set_limits v2 b nrsv fasize sysect fmt = (FR_OK, v3)" and
    v': "v' = (load_fsinfo v3 b fmt)\<lparr>fs_type := fmt, fs_id := mid\<rparr>"
    by (rule mount_volume_parts [OF assms(1)])
  note r = read_bpb_checked [OF rb] and s = set_limits_checked [OF sl]
  have "wf_vol (v\<lparr>drv := d\<rparr>)" using assms(2) d by (simp add: wf_vol_def)
  from locate_volume_vok [OF l this] have "vok v1" .
  then have "vok v3" using r(1-4) s(1-4) by (simp add: vok_def wf_vol_def coherent_def)
  then have ok: "vok v'" using load_fsinfo_vok by (simp add: v' vok_alloc)
  have "geo (load_fsinfo v3 b fmt) = geo v3" using load_fsinfo_keep [of v3 b fmt] \<open>vok v3\<close> by (simp add: keep_def vok_def)
  note gf = geo_fields [OF this]
  have f': "n_fats v' = n_fats v2" "csize v' = csize v2" "n_fatent v' = n_fatent v2" "fsize v' = fsize v2" "n_rootdir v' = n_rootdir v3"
    "fs_type v' = fmt" "fs_id v' = mid"
    using s gf by (simp_all add: v')
  obtain n where n: "n_fatent v2 = n + 2" "n \<noteq> 0" "fmt = fat_kind n" "fmt \<noteq> 0" using r(7) by blast
  note k = fat_kind_cases [OF n(3) [symmetric] n(4)]
  then have "unat n \<le> 0x0FFFFFF5" by (auto simp: word_le_nat_alt)
  then have un: "unat (n + 2) = unat n + 2" by (subst unat_add_bound) simp_all
  have n0: "unat n \<noteq> 0" using n(2) by (simp add: unsigned_eq_0_iff)
  have ty: "fmt = FS_FAT12 \<and> unat (n + 2) \<le> 0xFF7 \<or> fmt = FS_FAT16 \<and> unat (n + 2) \<le> 0xFFF7 \<or> fmt = FS_FAT32 \<and> unat (n + 2) \<le> 0x0FFFFFF7"
    using k un by (auto simp: word_le_nat_alt)
  have tb: "unat (table_bytes fmt (n + 2)) = fat_bytes v'"
    using unat_table_bytes [OF ty] f' n(1) ty by (auto simp: fat_bytes_def)
  have "bytes12 (unat (n + 2)) \<le> 3 * unat (n + 2)" by (simp add: bytes12_def)
  then have "unat (table_bytes fmt (n + 2)) \<le> 2 ^ 31" using unat_table_bytes [OF ty] ty by auto
  from table_fits [OF s(12) [unfolded n(1)] this] have fit: "fat_bytes v' \<le> SS * unat (fsize v')" using tb f' by simp
  have lim: "fs_type v' = FS_FAT12 \<and> n_fatent v' \<le> 0xFF7 \<or> fs_type v' = FS_FAT16 \<and> n_fatent v' \<le> 0xFFF7
       \<or> fs_type v' = FS_FAT32 \<and> n_fatent v' \<le> 0x0FFFFFF7" "3 \<le> n_fatent v'"
    using ty f' n(1) un n0 by (auto simp: word_le_nat_alt)
  have fats: "n_fats v' = 1 \<or> n_fats v' = 2" using r(5) f' by simp
  have cs: "\<exists>j \<le> 7. unat (csize v') = 2 ^ j" using r(6) f' by simp
  have geom: "fat_geom v' \<and> data_geom v'" if "unat (fatbase v') + 2 * unat (fsize v') \<le> 0xFFFFFFFF"
       "unat (fatbase v') + unat (n_fats v') * unat (fsize v') \<le> unat (database v')"
       "unat (database v') + unat (csize v') * (unat (n_fatent v') - 2) < 0xFFFFFFFF"
  proof -
    have fg: "fat_geom v'" using lim fit that(1) by (simp add: fat_geom_def)
    moreover have "n_fats v' \<noteq> 0" using fats by auto
    ultimately show ?thesis using cs that(2,3) by (simp add: data_geom_def)
  qed
  have root: "fs_type v' = FS_FAT32 \<longleftrightarrow> n_rootdir v' = 0" using s(13) f' by simp
  show ?thesis using ok f'(7) fats cs lim fit root geom by blast
qed

text \<open>A FAT12 volume of 7 sectors: the boot sector, two tables, the root directory, three clusters.\<close>

definition boot_sector :: "BYTE list" where
  "boot_sector = (replicate 512 0)[0 := 0xEB, 12 := 2, 13 := 1, 14 := 1, 16 := 2, 17 := 16, 19 := 7, 22 := 1,
     54 := 0x46, 55 := 0x41, 56 := 0x54, 510 := 0x55, 511 := 0xAA]"

definition boot_vol :: vol where
  "boot_vol = (sample 0 [])\<lparr>drv := (sample_drive [])\<lparr>sectors := (\<lambda>s. if s = 0 then boot_sector else replicate SS 0)\<rparr>\<rparr>"

lemma length_boot_sector [simp]: "length boot_sector = 512"
  by (simp add: boot_sector_def)

lemma boot_mounts: "\<exists>v'. mount_volume boot_vol 0 1 = (FR_OK, v') \<and> n_fatent v' = 5 \<and> fatbase v' = 1 \<and> database v' = 4 \<and> fsize v' = 1 \<and> csize v' = 1"
proof -
  let ?d = "(sample_drive [])\<lparr>sectors := (\<lambda>s. if s = 0 then boot_sector else replicate SS 0)\<rparr>"
  let ?u = "boot_vol\<lparr>wflag := 0, winsect := 0xFFFFFFFF\<rparr>"
  let ?w = "boot_vol\<lparr>wflag := 0, win := boot_sector, winsect := 0\<rparr>"
  have i: "disk_initialize (pdrv boot_vol) (drv boot_vol) = (0, drv boot_vol)"
    by (simp add: disk_initialize_def boot_vol_def)
  have "disk_read 0 0 1 ?d = (RES_OK, boot_sector, ?d)" by (subst disk_read_healthy) simp_all
  then have mw: "move_window ?u 0 = (FR_OK, ?w)"
    by (simp add: move_window_def sync_window_def boot_vol_def)
  have nth: "boot_sector ! 0 = 0xEB" "ld_word boot_sector BS_55AA = 0xAA55" "ld_word boot_sector BPB_BytsPerSec = 512"
    "ld_word boot_sector BPB_FATSz16 = 1" "boot_sector ! BPB_NumFATs = 2" "boot_sector ! BPB_SecPerClus = 1"
    "ld_word boot_sector BPB_RootEntCnt = 16" "ld_word boot_sector BPB_TotSec16 = 7" "ld_word boot_sector BPB_RsvdSecCnt = 1"
    by (simp_all add: boot_sector_def ld_word_def)
  have "boot_sector ! 54 = 0x46" "boot_sector ! 55 = 0x41" "boot_sector ! 56 = 0x54" by (simp_all add: boot_sector_def)
  then have "\<forall>k < 3. boot_sector ! (54 + k) = [0x46, 0x41, 0x54] ! k"
    by (auto simp: numeral_3_eq_3 less_Suc_eq)
  then have "mem_cmp boot_sector BS_FilSysType [0x46, 0x41, 0x54] 0 3 = 0" by (subst mem_cmp_zero) simp_all
  then have cf: "check_fs boot_vol 0 = (0, ?w)"
    using mw nth by (simp add: check_fs_def)
  have lv: "locate_volume boot_vol = (0, 0, ?w)" by (simp add: locate_volume_def cf)
  have rb: "read_bpb ?w = (Inr (1, 2, 4, 1), ?w\<lparr>fsize := 1, n_fats := 2, csize := 1, n_rootdir := 16, n_fatent := 5\<rparr>)"
    using nth by (simp add: read_bpb_def Let_def fat_kind_def)
  show ?thesis by (simp add: mount_volume_def i lv rb set_limits_def load_fsinfo_def Let_def)
qed

theorem mounted_volume_witness:
  "\<exists>v'. mount_volume boot_vol 0 1 = (FR_OK, v') \<and> vok v' \<and> fs_id v' = 1 \<and> n_fatent v' = 5 \<and> fat_geom v' \<and> data_geom v'"
proof -
  have "wf_vol boot_vol" by (simp add: wf_vol_def boot_vol_def)
  moreover obtain v' where "mount_volume boot_vol 0 1 = (FR_OK, v')" "n_fatent v' = 5" "fatbase v' = 1" "database v' = 4"
    "fsize v' = 1" "csize v' = 1" using boot_mounts by blast
  moreover from this have "n_fats v' = 1 \<or> n_fats v' = 2" using mounted_volume [of boot_vol 0 1 v'] calculation(1) by blast
  ultimately show ?thesis using mounted_volume [of boot_vol 0 1 v'] by auto
qed

end
