(* ===== verification/Fat_Read.thy ===== *)
theory Fat_Read
  imports Fat_Data
begin

text \<open>
  Reading an open file: \<open>f_read\<close> of \<^verbatim>\<open>addon/fatfs/ff.c\<close> returns the bytes of the file, from the single
  sector up to the API call. The second half is the frame of a call on an open file, which writing
  and seeking share, and a sample file.
\<close>

unbundle bit_operations_syntax


section \<open>Reading\<close>

lemma chain_nth:
  "chain E n c cs \<Longrightarrow> cs ! 0 = c \<and> (\<forall>k. Suc k < length cs \<longrightarrow> E (unat (cs ! k)) = cs ! Suc k)"
proof (induction cs arbitrary: c)
  case (Cons x cs)
  show ?case
  proof (cases cs)
    case Nil
    with Cons.prems show ?thesis by simp
  next
    case (Cons y ds)
    have "chain E n (E (unat c)) cs" "x = c" using Cons.prems Cons by (auto split: if_splits)
    then have "cs ! 0 = E (unat c)" "\<forall>k. Suc k < length cs \<longrightarrow> E (unat (cs ! k)) = cs ! Suc k"
      using Cons.IH by blast+
    then show ?thesis using \<open>x = c\<close> by (auto simp: nth_Cons split: nat.splits)
  qed
qed simp

lemma csect_nat:
  assumes "data_geom v"
  shows "unat ((x div SS) AND (ucast (csize v) - 1) :: DWORD) = unat x div SS mod unat (csize v)"
proof -
  obtain j where j: "j \<le> 7" "unat (csize v) = 2 ^ j" using assms by (auto simp: data_geom_def)
  have "(2 :: nat) ^ j \<le> 2 ^ 7" using j(1) by (intro power_increasing) simp_all
  then have "unat (of_nat (2 ^ j) :: DWORD) = 2 ^ j" by (intro unat_of_nat_DWORD) simp
  then have p: "unat (2 ^ j :: DWORD) = 2 ^ j" by simp
  then have "unat (ucast (csize v) :: DWORD) = unat (2 ^ j :: DWORD)" using j(2) by simp
  then have "ucast (csize v) = (2 ^ j :: DWORD)" by (simp only: word_unat_eq_iff)
  then have "(x div SS) AND (ucast (csize v) - 1) = take_bit j (x div SS)"
    by (simp add: take_bit_eq_mask mask_eq_exp_minus_1)
  then show ?thesis using j(2) p by (simp add: take_bit_eq_mod unat_mod unat_div)
qed

lemma read_cluster_file:
  assumes i: "file_inv v fp cs" and p: "file_at v fp cs" and lt: "fptr fp < objsize (fobj fp)"
    and m: "unat (fptr fp) mod SS = 0"
  defines "q \<equiv> unat (fptr fp) div SS"
  shows "\<exists>v1. (if (fptr fp div SS) AND (ucast (csize v) - 1) = 0 then read_cluster v fp else (FR_OK, fp, v))
      = (FR_OK, fp\<lparr>fclust := cs ! (q div unat (csize v))\<rparr>, v1) \<and> same_data cs v v1"
    and "q div unat (csize v) < length cs" "q < unat (csize v) * length cs"
proof -
  let ?n = "unat (csize v)" and ?cl = "sclust (fobj fp)"
  note d = file_invD [OF i] and dd = data_okD [OF file_invD(1) [OF i]]
  have f: "unat (fptr fp) = SS * q" using m by (simp add: q_def) (metis mult_div_mod_eq add.right_neutral)
  have l: "unat (fptr fp) < SS * (?n * length cs)" using d(3) lt by (simp add: word_less_nat_alt)
  then have "SS * q < SS * (?n * length cs)" using f by simp
  then show q: "q < ?n * length cs" by simp
  then show k: "q div ?n < length cs" by (simp add: less_mult_imp_div_less mult.commute)
  then have ne: "cs \<noteq> []" by auto
  then have ch: "chain (fat_entry v) (n_fatent v) ?cl cs" using i by (simp add: file_inv_def)
  have c0: "((fptr fp div SS) AND (ucast (csize v) - 1) = 0) \<longleftrightarrow> q mod ?n = 0"
    by (simp only: q_def flip: csect_nat [OF dd(3)]) (simp add: unsigned_eq_0_iff)
  have prev: "fptr fp \<noteq> 0 \<Longrightarrow> fclust fp = cs ! ((q - 1) div ?n) \<and> 0 < q"
  proof -
    assume nz: "fptr fp \<noteq> 0"
    then have q0: "0 < q" using f by (simp add: unat_gt_0 flip: unat_gt_0)
    then obtain r where "q = Suc r" by (cases q) auto
    then have "(SS * q - 1) div SS = q - 1" by simp
    then show ?thesis using p nz q0 f by (simp add: file_at_def)
  qed
  show "\<exists>v1. (if (fptr fp div SS) AND (ucast (csize v) - 1) = 0 then read_cluster v fp else (FR_OK, fp, v))
      = (FR_OK, fp\<lparr>fclust := cs ! (q div ?n)\<rparr>, v1) \<and> same_data cs v v1"
  proof (cases "q mod ?n = 0")
    case False
    then have "0 < q" by (cases q) auto
    then have "fclust fp = cs ! ((q - 1) div ?n)" using prev f by fastforce
    moreover obtain r where r: "q = Suc r" using \<open>0 < q\<close> by (cases q) auto
    then have "(q - 1) div ?n = q div ?n" using False by (simp add: div_Suc)
    ultimately show ?thesis using False c0 same_data_refl [OF d(1)] by simp
  next
    case True
    have rng: "2 \<le> cs ! (q div ?n)" "cs ! (q div ?n) < n_fatent v" using dd(5) k by simp_all
    then have ok: "\<not> cs ! (q div ?n) < 2" "cs ! (q div ?n) \<noteq> 0xFFFFFFFF"
      using fat_geom_max [OF dd(4)] by (auto simp: word_less_nat_alt word_le_nat_alt)
    show ?thesis
    proof (cases "fptr fp = 0")
      case True
      then have "cs ! (q div ?n) = ?cl" using chain_nth [OF ch] by (simp add: q_def)
      then show ?thesis using True c0 \<open>q mod ?n = 0\<close> same_data_refl [OF d(1)] ok
        by (auto simp: read_cluster_def q_def)
    next
      case nz: False
      obtain k' where k': "q = ?n * Suc k'"
      proof -
        have "q = ?n * (q div ?n)" using True by (metis mult_div_mod_eq add.right_neutral)
        moreover have "q div ?n \<noteq> 0" using calculation prev [OF nz] by (metis mult_0_right less_irrefl)
        ultimately show ?thesis using that by (metis not0_implies_Suc)
      qed
      have qd: "q div ?n = Suc k'" using k' dd(8) by simp
      have "(q - 1) div ?n = k'" using k' dd(8) by (cases ?n) (auto simp: div_nat_eqI)
      then have fc: "fclust fp = cs ! k'" using prev [OF nz] by simp
      obtain r v1 where g: "get_fat v (fclust fp) = (r, v1)" by fastforce
      have "Suc k' < length cs" using k qd by simp
      then have "fat_entry v (unat (fclust fp)) = cs ! Suc k'" using chain_nth [OF ch] fc by simp
      moreover have "2 \<le> fclust fp" "fclust fp < n_fatent v" using dd(5) \<open>Suc k' < length cs\<close> fc by simp_all
      ultimately have "r = cs ! (q div ?n)"
        using get_fat_value [OF g dd(1,4)] get_fat_healthy(2) [OF dd(2,1) g] qd by simp
      then show ?thesis using nz c0 \<open>q mod ?n = 0\<close> g get_fat_data [OF g d(1)] ok
        by (auto simp: read_cluster_def)
    qed
  qed
qed

definition file_seg :: "vol \<Rightarrow> FIL \<Rightarrow> DWORD list \<Rightarrow> nat \<Rightarrow> nat \<Rightarrow> BYTE list" where
  "file_seg v fp cs i n = map (\<lambda>j. file_byte v fp cs (i + j)) [0..<n]"

lemma length_file_seg [simp]: "length (file_seg v fp cs i n) = n"
  by (simp add: file_seg_def)

lemma nth_file_seg [simp]: "j < n \<Longrightarrow> file_seg v fp cs i n ! j = file_byte v fp cs (i + j)"
  by (simp add: file_seg_def)

lemma file_seg_0 [simp]: "file_seg v fp cs i 0 = []"
  by (simp add: file_seg_def)

lemma file_seg_append: "file_seg v fp cs i m @ file_seg v fp cs (i + m) n = file_seg v fp cs i (m + n)"
  by (rule nth_equalityI) (auto simp: nth_append)

lemma div_sector: "(k :: nat) div SS = a \<longleftrightarrow> SS * a \<le> k \<and> k < SS * a + SS"
  using dividend_less_times_div [of SS k] times_div_less_eq_dividend [of SS k] div_nat_eqI [of SS a k] by auto

lemma mem_cpy_seg:
  "d + n \<le> length dst \<Longrightarrow> s + n \<le> length src \<Longrightarrow> mem_cpy dst d src s n = put_seg dst d (seg src s n)"
  by (rule nth_equalityI) (auto simp: nth_mem_cpy nth_put_seg nth_seg)

lemma put_seg_append: "pos + length xs + length ys \<le> length b \<Longrightarrow>
  put_seg (put_seg b pos xs) (pos + length xs) ys = put_seg b pos (xs @ ys)"
  by (rule nth_equalityI) (auto simp: nth_put_seg nth_append)

lemma put_seg_Nil [simp]: "put_seg b pos [] = b"
  by (simp add: put_seg_def)

text \<open>Within a sector: from the buffer.\<close>

lemma sector_rest:
  fixes p n :: DWORD
  defines "r \<equiv> SS - p mod SS"
  assumes "0 < n"
  defines "m \<equiv> (if r > n then n else r)"
  shows "0 < m" "m \<le> n" "unat m \<le> SS - unat p mod SS" "unat (p mod SS) = unat p mod SS"
proof -
  have p: "unat (p mod SS) = unat p mod SS" by (simp add: unat_mod)
  then have "p mod SS < SS" by (simp add: word_less_nat_alt)
  then have r: "unat r = SS - unat p mod SS" unfolding r_def using p by (subst unat_sub) (simp_all add: word_le_nat_alt)
  then have "0 < unat r" by simp
  then have "0 < r" by (simp add: word_less_nat_alt)
  then show "0 < m" "m \<le> n" using assms(2) by (auto simp: m_def not_less)
  show "unat m \<le> SS - unat p mod SS" using r by (auto simp: m_def word_less_nat_alt)
  show "unat (p mod SS) = unat p mod SS" by (rule p)
qed

lemma read_partial_file:
  assumes r: "read_partial fp b pos btr = (n, b')" and len: "length (buf fp) = SS"
    and s: "unat (fsect fp) = file_sector v cs (unat (fptr fp) div SS)"
    and btr: "0 < btr" and b: "pos + unat btr \<le> length b"
  shows "0 < n" "n \<le> btr" "unat n \<le> SS - unat (fptr fp) mod SS"
    "b' = put_seg b pos (file_seg v fp cs (unat (fptr fp)) (unat n))"
proof -
  let ?m = "unat (fptr fp) mod SS"
  note sr = sector_rest [OF btr, of "fptr fp"]
  have n: "n = (if SS - fptr fp mod SS > btr then btr else SS - fptr fp mod SS)"
    and b': "b' = mem_cpy b pos (buf fp) ?m (unat n)"
    using r by (auto simp: read_partial_def Let_def sr(4))
  show n0: "0 < n" "n \<le> btr" "unat n \<le> SS - ?m" using sr(1-3) by (simp_all only: n)
  have "unat n \<le> unat btr" using n0(2) by (simp add: word_le_nat_alt)
  moreover have "?m + unat n \<le> SS" using n0(3) by (simp add: le_diff_conv2 mod_less_divisor less_imp_le add.commute)
  moreover have "seg (buf fp) ?m (unat n) = file_seg v fp cs (unat (fptr fp)) (unat n)"
  proof (rule nth_equalityI)
    fix j
    assume j: "j < length (seg (buf fp) ?m (unat n))"
    then have jn: "j < unat n" by (simp add: seg_def)
    have "?m + j < SS" using jn calculation(2) by linarith
    then have "(unat (fptr fp) + j) div SS = unat (fptr fp) div SS" "(unat (fptr fp) + j) mod SS = ?m + j"
      by (metis add.right_neutral div_less div_mult_self4 mult_div_mod_eq zero_neq_numeral add.assoc,
          metis mod_less mod_add_left_eq)
    then show "seg (buf fp) ?m (unat n) ! j = file_seg v fp cs (unat (fptr fp)) (unat n) ! j"
      using jn s calculation(2) len by (simp add: file_byte_def fsec_def nth_seg)
  qed (use calculation len in simp)
  ultimately show "b' = put_seg b pos (file_seg v fp cs (unat (fptr fp)) (unat n))"
    using b b' len mem_cpy_seg [of pos "unat n" b ?m "buf fp"] by simp
qed

text \<open>Whole sectors: from the drive, the dirty buffer laid over them.\<close>

lemma nth_concat_sectors:
  assumes "\<And>t. length (f t) = SS" and "a < n" and "r < SS"
  shows "concat (map f [s..<s + n]) ! (SS * a + r) = f (s + a) ! r"
  using assms(2)
proof (induction n)
  case (Suc n)
  have l: "length (concat (map f [s..<s + n])) = SS * n" by (induction n) (simp_all add: assms(1))
  show ?case
  proof (cases "a < n")
    case True
    then have "SS * Suc a \<le> SS * n" by (intro mult_le_mono2) simp
    then have "SS * a + r < SS * n" using assms(3) by simp
    then show ?thesis using Suc.IH True l by (simp add: nth_append)
  next
    case False
    then have "a = n" using Suc.prems by simp
    then show ?thesis using l by (simp add: nth_append)
  qed
qed simp

lemma length_concat_sectors:
  "(\<And>t. length (f t) = SS) \<Longrightarrow> length (concat (map f [s..<s + n])) = SS * n"
  by (induction n) simp_all

lemma disk_read_many:
  assumes "healthy v" and "unat cc * SS < 2 ^ 32"
  shows "disk_read (pdrv v) s cc (drv v) =
    (RES_OK, concat (map (sectors (drv v)) [unat s..<unat s + unat cc]), drv v)"
proof -
  have "unat (cc * SS) = unat cc * SS" using assms(2) by (subst unat_mult_bound) simp_all
  then show ?thesis using assms(1) by (simp add: healthy_def disk_read_def dev_read_def next_fault_def Let_def not_le)
qed

text \<open>Consecutive sectors of a file within a cluster are consecutive on the drive.\<close>

lemma file_run:
  assumes pos: "0 < unat (csize v)" and q: "q mod unat (csize v) + n \<le> unat (csize v)" "q < unat (csize v) * length cs"
    and a: "a < n"
  shows "file_sector v cs (q + a) = file_sector v cs q + a" "q + a < unat (csize v) * length cs"
proof -
  let ?n = "unat (csize v)"
  have m: "q mod ?n + a < ?n" using a q(1) by linarith
  have qa: "q + a = ?n * (q div ?n) + (q mod ?n + a)" by (simp add: mult_div_mod_eq flip: add.assoc)
  show "file_sector v cs (q + a) = file_sector v cs q + a"
    unfolding qa file_sector_split [OF m] using pos by (simp add: file_sector_def)
  have "q div ?n < length cs" using q(2) by (simp add: less_mult_imp_div_less mult.commute)
  then have "?n * Suc (q div ?n) \<le> ?n * length cs" by (intro mult_le_mono2) simp
  moreover have "q + a < ?n * (q div ?n) + ?n" using m mult_div_mod_eq [of ?n q] by linarith
  ultimately show "q + a < ?n * length cs" by simp
qed

lemma read_direct_file:
  assumes i: "file_inv v fp cs" and r: "read_direct v fp b pos sect cc = (ok, b', v')"
    and q: "q mod unat (csize v) + unat cc \<le> unat (csize v)" "q < unat (csize v) * length cs"
    and s: "unat sect = file_sector v cs q" and b: "pos + SS * unat cc \<le> length b"
  shows "ok" "v' = v" "b' = put_seg b pos (file_seg v fp cs (SS * q) (SS * unat cc))"
proof -
  note d = file_invD [OF i] and dd = data_okD [OF file_invD(1) [OF i]]
  let ?n = "unat (csize v)" and ?S = "concat (map (sectors (drv v)) [unat sect..<unat sect + unat cc])"
  have len: "length (sectors (drv v) t) = SS" for t using dd(10) by (simp add: wf_vol_def)
  have lS: "length ?S = SS * unat cc" by (rule length_concat_sectors) (rule len)
  have "unat cc * SS < 2 ^ 32" using q(1) dd(9) by simp
  note dr = disk_read_many [OF dd(2) this, of sect]
  note fs = file_run [OF dd(8) q, folded s]
  let ?o = "dirty fp \<and> fsect fp - sect < cc"
  have e: "ok" "v' = v" "b' = (if ?o then mem_cpy (put_seg b pos ?S) (pos + unat ((fsect fp - sect) * SS)) (buf fp) 0 SS
    else put_seg b pos ?S)"
    using r by (simp_all add: read_direct_def dr Let_def)
  show "ok" "v' = v" by fact+
  have fsec: "fsec v fp t = (if dirty fp \<and> t = unat (fsect fp) then buf fp else sectors (drv v) t)"
    if "t \<in> file_sectors v cs" for t
    using i that by (auto simp: fsec_def file_inv_def)
  have byte: "file_seg v fp cs (SS * q) (SS * unat cc) ! k =
      (if dirty fp \<and> unat sect + k div SS = unat (fsect fp) then buf fp ! (k mod SS)
       else sectors (drv v) (unat sect + k div SS) ! (k mod SS))" if "k < SS * unat cc" for k
  proof -
    have a: "k div SS < unat cc" using that by (simp add: less_mult_imp_div_less mult.commute)
    have "(SS * q + k) div SS = q + k div SS" "(SS * q + k) mod SS = k mod SS" by simp_all
    then show ?thesis
      using that fs(1) [OF a] fsec [OF file_sector_in [OF fs(2) [OF a]]] by (simp add: file_byte_def)
  qed
  have Snth: "?S ! k = sectors (drv v) (unat sect + k div SS) ! (k mod SS)" if "k < SS * unat cc" for k
  proof -
    have a: "k div SS < unat cc" using that by (simp add: less_mult_imp_div_less mult.commute)
    show ?thesis using nth_concat_sectors [of "sectors (drv v)", OF len a, of "k mod SS" "unat sect"] by simp
  qed
  have bl: "length (put_seg b pos ?S) = length b" using b lS by simp
  show "b' = put_seg b pos (file_seg v fp cs (SS * q) (SS * unat cc))"
  proof (cases ?o)
    case False
    have "?S = file_seg v fp cs (SS * q) (SS * unat cc)"
    proof (rule nth_equalityI)
      fix k
      assume "k < length ?S"
      then have k: "k < SS * unat cc" using lS by simp
      then have a: "k div SS < unat cc" by (simp add: less_mult_imp_div_less mult.commute)
      have nc: "\<not> (dirty fp \<and> unat sect + k div SS = unat (fsect fp))"
      proof
        assume c: "dirty fp \<and> unat sect + k div SS = unat (fsect fp)"
        then have le: "unat (fsect fp) = unat sect + k div SS" by simp
        then have "sect \<le> fsect fp" by (simp add: word_le_nat_alt)
        from unat_sub [OF this] have "unat (fsect fp - sect) = k div SS" using le by linarith
        then show False using False c a by (simp add: word_less_nat_alt)
      qed
      show "?S ! k = file_seg v fp cs (SS * q) (SS * unat cc) ! k"
        by (simp only: byte [OF k] Snth [OF k] if_not_P [OF nc])
    qed (use lS in simp)
    then show ?thesis using e(3) False by simp
  next
    case True
    let ?a = "unat (fsect fp - sect)"
    have a: "?a < unat cc" using True by (simp add: word_less_nat_alt)
    have "unat sect + ?a < 2 ^ 32"
      using file_sectors_data(3) [OF dd(3,5) file_sector_in [OF fs(2) [OF a]]] fs(1) [OF a] by simp
    then have "unat (sect + (fsect fp - sect)) = unat sect + ?a" by (intro unat_add_bound) simp
    then have fa: "unat (fsect fp) = unat sect + ?a" by simp
    have ua: "unat ((fsect fp - sect) * SS) = SS * ?a" using a q(1) dd(9) by (subst unat_mult_bound) simp_all
    have "SS * Suc ?a \<le> SS * unat cc" using a by (intro mult_le_mono2) simp
    then have ab: "pos + SS * ?a + SS \<le> length b" "SS * ?a + SS \<le> SS * unat cc" using b by simp_all
    have "b' = put_seg (put_seg b pos ?S) (pos + SS * ?a) (buf fp)"
      using e(3) True ua ab bl d(2) mem_cpy_seg [of "pos + SS * ?a" SS "put_seg b pos ?S" 0 "buf fp"]
      by (simp add: seg_def)
    also have "\<dots> = put_seg b pos (file_seg v fp cs (SS * q) (SS * unat cc))"
    proof (rule nth_equalityI)
      fix j
      assume "j < length (put_seg (put_seg b pos ?S) (pos + SS * ?a) (buf fp))"
      have md: "k - SS * ?a = k mod SS" if "k div SS = ?a" for k using that by (metis minus_mult_div_eq_mod)
      show "put_seg (put_seg b pos ?S) (pos + SS * ?a) (buf fp) ! j =
        put_seg b pos (file_seg v fp cs (SS * q) (SS * unat cc)) ! j"
      proof (cases "pos \<le> j \<and> j < pos + SS * unat cc")
        case False
        then show ?thesis using ab b bl lS d(2) by (auto simp: nth_put_seg)
      next
        case in_s: True
        define k where "k = j - pos"
        have k: "k < SS * unat cc" "j = pos + k" using in_s by (auto simp: k_def)
        show ?thesis
          using k ab b bl lS d(2) div_sector [of k ?a] md [of k] byte [OF k(1)] Snth [OF k(1)] True fa
          by (auto simp: nth_put_seg)
      qed
    qed (use ab b bl lS d(2) in simp)
    finally show ?thesis .
  qed
qed

lemma file_inv_pos [simp]:
  "file_inv v (fp\<lparr>fptr := x\<rparr>) cs = file_inv v fp cs" "file_inv v (fp\<lparr>fclust := c\<rparr>) cs = file_inv v fp cs"
  by (simp_all add: file_inv_def)

lemma fsec_pos [simp]:
  "fsec v (fp\<lparr>fptr := x\<rparr>) = fsec v fp" "fsec v (fp\<lparr>fclust := c\<rparr>) = fsec v fp"
  by (simp_all add: fsec_def fun_eq_iff)

lemma same_file_pos [simp]:
  "same_file cs v fp v' (fp'\<lparr>fptr := x\<rparr>) = same_file cs v fp v' fp'"
  "same_file cs v fp v' (fp'\<lparr>fclust := c\<rparr>) = same_file cs v fp v' fp'"
  "same_file cs v (fp\<lparr>fptr := x\<rparr>) v' fp' = same_file cs v fp v' fp'"
  "same_file cs v (fp\<lparr>fclust := c\<rparr>) v' fp' = same_file cs v fp v' fp'"
  by (simp_all add: same_file_def)

lemma file_byte_pos [simp]:
  "file_byte v (fp\<lparr>fptr := x\<rparr>) cs = file_byte v fp cs" "file_byte v (fp\<lparr>fclust := c\<rparr>) cs = file_byte v fp cs"
  by (simp_all add: file_byte_def fun_eq_iff)

lemma file_seg_pos [simp]:
  "file_seg v (fp\<lparr>fptr := x\<rparr>) cs = file_seg v fp cs" "file_seg v (fp\<lparr>fclust := c\<rparr>) cs = file_seg v fp cs"
  by (simp_all add: file_seg_def fun_eq_iff)

lemma same_file_seg:
  "same_file cs v fp v' fp' \<Longrightarrow> i + n \<le> SS * (unat (csize v) * length cs) \<Longrightarrow>
   file_seg v' fp' cs i n = file_seg v fp cs i n"
  by (rule nth_equalityI) (simp_all add: same_file_byte)

text \<open>Moving the position within a sector.\<close>

lemma sector_move:
  assumes "f mod SS + n \<le> SS" and "0 < n"
  shows "(f + n - 1) div SS = f div (SS :: nat)" "(f + n) mod SS \<noteq> 0 \<Longrightarrow> (f + n) div SS = f div SS"
proof -
  have f: "SS * (f div SS) + f mod SS = f" by (rule mult_div_mod_eq)
  show "(f + n - 1) div SS = f div SS" using assms f by (subst div_sector) linarith
  have "f + n \<noteq> SS * (f div SS) + SS" if "(f + n) mod SS \<noteq> 0" using that by (metis mod_mult_self1_is_0 mult_Suc_right add.commute)
  then show "(f + n) div SS = f div SS" if "(f + n) mod SS \<noteq> 0" using that assms f by (subst div_sector) linarith
qed

lemma file_at_move:
  assumes geo: "geo v' = geo v" and ob: "fobj fp' = fobj fp" and n: "0 < n" "unat (fptr fp) + unat n \<le> unat (objsize (fobj fp))"
    and m: "unat (fptr fp) mod SS + unat n \<le> SS"
    and c: "fclust fp' = cs ! (unat (fptr fp) div SS div unat (csize v))"
    and s: "unat (fsect fp') = file_sector v cs (unat (fptr fp) div SS)"
  shows "file_at v' (fp'\<lparr>fptr := fptr fp + n\<rparr>) cs"
proof -
  have "unat (fptr fp) + unat n < 2 ^ 32" by (rule le_less_trans [OF n(2)]) simp
  then have p: "unat (fptr fp + n) = unat (fptr fp) + unat n" by (intro unat_add_bound) simp
  have n0: "0 < unat n" using n(1) by (simp add: unat_gt_0)
  show ?thesis using n(2) sector_move [OF m n0] c s geo_fields(6) [OF geo]
    by (simp add: file_at_def p ob word_le_nat_alt file_sector_geo [OF geo])
qed

text \<open>The number of whole sectors that are transferred at once: not beyond the end of the cluster.\<close>

lemma clip_count:
  fixes n csect :: UINT and m :: WORD
  assumes c: "unat csect < unat m" "unat m \<le> 128" and pos: "0 < n div SS"
  defines "c2 \<equiv> (if csect + n div SS > ucast m then ucast m - csect else n div SS)"
  shows "0 < unat c2" "unat csect + unat c2 \<le> unat m" "SS * unat c2 \<le> unat n" "unat (SS * c2) = SS * unat c2"
proof -
  have um: "unat (ucast m :: DWORD) = unat m" by simp
  have ccn: "unat (n div SS) = unat n div SS" by (simp add: unat_div)
  have "unat n div SS < 8388608" using unat_lt_pow32 [of n] by (simp add: div_less_iff_less_mult)
  then have sum: "unat (csect + n div SS) = unat csect + unat n div SS"
    using c ccn by (subst unat_add_bound) simp_all
  have "csect \<le> ucast m" using c um by (simp add: word_le_nat_alt)
  from unat_sub [OF this] have sub: "unat (ucast m - csect) = unat m - unat csect" using um by simp
  have c2n: "unat c2 = (if unat csect + unat n div SS > unat m then unat m - unat csect else unat n div SS)"
    using sum sub um ccn by (simp add: c2_def word_less_nat_alt)
  have "0 < unat n div SS" using pos ccn by (simp add: word_less_nat_alt)
  then show "0 < unat c2" "unat csect + unat c2 \<le> unat m" using c2n c by (auto split: if_splits)
  have "unat c2 \<le> unat n div SS" using c2n by (auto split: if_splits)
  then have "SS * unat c2 \<le> SS * (unat n div SS)" by (intro mult_le_mono2)
  then show le: "SS * unat c2 \<le> unat n" using times_div_less_eq_dividend [of SS "unat n"] by linarith
  have "SS * unat c2 < 2 ^ 32" by (rule le_less_trans [OF le]) simp
  then show "unat (SS * c2) = SS * unat c2" by (subst unat_mult_bound) simp_all
qed

lemma read_round_file:
  assumes i: "file_inv v fp cs" and p: "file_at v fp cs" and btr: "0 < btr"
    and fin: "unat (fptr fp) + unat btr \<le> unat (objsize (fobj fp))" and b: "pos + unat btr \<le> length b"
    and r: "read_round v fp b pos btr = (res, fp', b', v')"
  shows "\<exists>n. res = Inr n \<and> 0 < n \<and> n \<le> btr \<and> same_file cs v fp v' fp' \<and> fptr fp' = fptr fp
    \<and> b' = put_seg b pos (file_seg v fp cs (unat (fptr fp)) (unat n))
    \<and> file_at v' (fp'\<lparr>fptr := fptr fp + n\<rparr>) cs"
proof -
  let ?f = "unat (fptr fp)" and ?n = "unat (csize v)"
  note d = file_invD [OF i] and dd = data_okD [OF file_invD(1) [OF i]]
  have btr0: "0 < unat btr" using btr by (simp add: unat_gt_0)
  then have lt: "fptr fp < objsize (fobj fp)" using fin by (simp add: word_less_nat_alt)
  have "unat (fptr fp mod SS) = ?f mod SS" by (subst unat_mod) simp
  then have mod0: "fptr fp mod SS = 0 \<longleftrightarrow> ?f mod SS = 0" by (metis unsigned_eq_0_iff)
  \<comment> \<open>the end of every branch that reads from the buffer\<close>
  have partial: "\<exists>n. Inr m = (Inr n :: FRESULT + UINT) \<and> 0 < n \<and> n \<le> btr \<and> same_file cs v fp w gp \<and> fptr gp = fptr fp
      \<and> c' = put_seg b pos (file_seg v fp cs ?f (unat n)) \<and> file_at w (gp\<lparr>fptr := fptr fp + n\<rparr>) cs"
    if pt: "read_partial gp b pos btr = (m, c')" and sf: "same_file cs v fp w gp" and fp: "fptr gp = fptr fp"
      and s: "unat (fsect gp) = file_sector v cs (?f div SS)" and c: "fclust gp = cs ! (?f div SS div ?n)" for m c' gp w
  proof -
    have geo: "geo w = geo v" and ob: "fobj gp = fobj fp" and iw: "file_inv w gp cs" using sf by (simp_all add: same_file_def)
    have s': "unat (fsect gp) = file_sector w cs (unat (fptr gp) div SS)" using s fp file_sector_geo [OF geo] by simp
    note rp = read_partial_file [OF pt file_invD(2) [OF iw] s' btr b, unfolded fp]
    have le: "unat m \<le> unat btr" using rp(2) by (simp add: word_le_nat_alt)
    have "?f + unat m \<le> SS * (?n * length cs)" using le fin d(3) by linarith
    from same_file_seg [OF sf this] have "c' = put_seg b pos (file_seg v fp cs ?f (unat m))" using rp(4) by simp
    moreover have "?f mod SS + unat m \<le> SS" using rp(3) by (simp add: le_diff_conv2 less_imp_le add.commute)
    then have "file_at w (gp\<lparr>fptr := fptr fp + m\<rparr>) cs"
      using file_at_move [OF geo ob rp(1), of cs] le fin c s by simp
    ultimately show ?thesis using rp(1,2) sf fp by blast
  qed
  show ?thesis
  proof (cases "?f mod SS = 0")
    case False
    then have nz: "fptr fp \<noteq> 0" by auto
    have "(?f - 1) div SS = ?f div SS" using False by (cases ?f) (auto simp: div_Suc)
    then have c: "fclust fp = cs ! (?f div SS div ?n)" using p nz by (simp add: file_at_def)
    have s: "unat (fsect fp) = file_sector v cs (?f div SS)" using p False by (simp add: file_at_def)
    obtain m c' where pt: "read_partial fp b pos btr = (m, c')" by fastforce
    have "res = Inr m" "fp' = fp" "b' = c'" "v' = v" using r False mod0 pt by (simp_all add: read_round_def)
    then show ?thesis using partial [OF pt same_file_refl [OF i] refl s c] by simp
  next
    case True
    define q where "q = ?f div SS"
    have f: "?f = SS * q" using True by (simp add: q_def) (metis mult_div_mod_eq add.right_neutral)
    define cl where "cl = cs ! (q div ?n)"
    define fp1 where "fp1 = fp\<lparr>fclust := cl\<rparr>"
    obtain v1 where rc: "(if (fptr fp div SS) AND (ucast (csize v) - 1) = 0 then read_cluster v fp else (FR_OK, fp, v))
        = (FR_OK, fp1, v1)" and sd: "same_data cs v v1" and k: "q div ?n < length cs" "q < ?n * length cs"
      using read_cluster_file [OF i p lt True] unfolding q_def cl_def fp1_def by blast
    define csect where "csect = (fptr fp div SS) AND (ucast (csize v) - 1)"
    have cs0: "unat csect = q mod ?n" using csect_nat [OF dd(3)] by (simp add: csect_def q_def)
    have geo1: "geo v1 = geo v" using sd by (simp add: same_data_def)
    have sf1: "same_file cs v fp v1 fp1" using same_data_file [OF sd i] by (simp add: fp1_def)
    have i1: "file_inv v1 fp1 cs" using sf1 by (simp add: same_file_def)
    have rng: "2 \<le> cl" "cl < n_fatent v1" using dd(5) k geo_fields(7) [OF geo1] by (simp_all add: cl_def)
    have km: "q mod ?n < unat (csize v1)" using dd(8) geo_fields(6) [OF geo1] by simp
    have g1: "data_geom v1" using data_okD(3) file_invD(1) [OF i1] by blast
    define sect where "sect = clst2sect v1 cl + csect"
    note c2 = clst2sect_data [OF g1 rng km]
    have "csect = of_nat (q mod ?n)" unfolding cs0 [symmetric] by simp
    then have sect: "unat sect = file_sector v cs q"
      using c2(1) geo_fields(6,12) [OF geo1] by (simp add: sect_def file_sector_def cl_def)
    have sin: "unat sect \<in> file_sectors v cs" using file_sector_in [OF k(2)] sect by simp
    define cc where "cc = btr div SS"
    have fc: "fclust fp1 = cl" by (simp add: fp1_def)
    have step: "(res, fp', b', v') = (if cc > 0 then
           (let cc = (if csect + cc > ucast (csize v1) then ucast (csize v1) - csect else cc) in
            case read_direct v1 fp1 b pos sect cc of (ok, buff, v) \<Rightarrow>
            if \<not> ok then (Inl FR_DISK_ERR, fp1, buff, v) else (Inr (SS * cc), fp1, buff, v))
         else if fsect fp1 \<noteq> sect then
           (case flush_buf v1 fp1 of (ok, fp, v) \<Rightarrow>
            if \<not> ok then (Inl FR_DISK_ERR, fp, b, v)
            else
            case fill_buf v fp sect of (ok, fp, v) \<Rightarrow>
            if \<not> ok then (Inl FR_DISK_ERR, fp, b, v)
            else
              let fp = fp\<lparr>fsect := sect\<rparr> in
              case read_partial fp b pos btr of (rcnt, buff) \<Rightarrow> (Inr rcnt, fp, buff, v))
         else
           case read_partial fp1 b pos btr of (rcnt, buff) \<Rightarrow> (Inr rcnt, fp1, buff, v1))"
      using r True mod0 rc c2(3)
      by (simp add: read_round_def Let_def fc flip: csect_def sect_def cc_def)
    show ?thesis
    proof (cases "cc > 0")
      case many: True
      define c2 where "c2 = (if csect + cc > ucast (csize v1) then ucast (csize v1) - csect else cc)"
      have "unat csect < unat (csize v1)" "unat (csize v1) \<le> 128" "0 < btr div SS"
        using cs0 km dd(9) geo_fields(6) [OF geo1] many by (simp_all add: cc_def)
      note cp = clip_count [OF this, folded cc_def, folded c2_def]
      have c2p: "0 < unat c2" "unat csect + unat c2 \<le> ?n" "SS * unat c2 \<le> unat btr" "unat (SS * c2) = SS * unat c2"
        using cp geo_fields(6) [OF geo1] by simp_all
      note cb = c2p(3) and um = c2p(4)
      obtain ok c' v2 where rd: "read_direct v1 fp1 b pos sect c2 = (ok, c', v2)" by (metis prod_cases3)
      have "q mod unat (csize v1) + unat c2 \<le> unat (csize v1)" "q < unat (csize v1) * length cs"
        "unat sect = file_sector v1 cs q" "pos + SS * unat c2 \<le> length b"
        using c2p(2) cs0 k(2) sect cb b geo_fields(6) [OF geo1] file_sector_geo [OF geo1] by simp_all
      note rd' = read_direct_file [OF i1 rd this]
      have e: "res = Inr (SS * c2)" "fp' = fp1" "b' = c'" "v' = v1"
        using step [unfolded if_P [OF many] Let_def, folded c2_def, unfolded rd prod.case] rd'(1,2) by simp_all
      have "?f + SS * unat c2 \<le> SS * (?n * length cs)" using cb fin d(3) by linarith
      from same_file_seg [OF sf1 this] have b': "b' = put_seg b pos (file_seg v fp cs ?f (unat (SS * c2)))"
        using e(3) rd'(3) um f by simp
      have pos': "unat (fptr fp + SS * c2) = SS * (q + unat c2)"
      proof -
        have "unat (fptr fp) + unat (SS * c2) < 2 ^ 32"
          by (rule le_less_trans [of _ "unat (objsize (fobj fp))"]) (use cb fin um in simp_all)
        from unat_add_bound [of "fptr fp" "SS * c2"] this show ?thesis using f um by simp
      qed
      obtain r where r: "unat c2 = Suc r" using c2p(1) by (cases "unat c2") auto
      have "(SS * (q + unat c2) - 1) div SS = q + r" using r by simp
      moreover have "(q + r) div ?n = q div ?n"
      proof -
        have "q mod ?n + r < ?n" using c2p(2) cs0 r by simp
        then have "?n * (q div ?n) \<le> q + r" "q + r < ?n * (q div ?n) + ?n"
          using mult_div_mod_eq [of ?n q] by linarith+
        then show ?thesis by (intro div_nat_eqI) simp_all
      qed
      ultimately have "file_at v' (fp'\<lparr>fptr := fptr fp + SS * c2\<rparr>) cs"
        using pos' cb fin um f geo_fields(6) [OF geo1] sf1
        by (simp add: file_at_def e same_file_def fc cl_def word_le_nat_alt)
      moreover have "0 < SS * c2" "SS * c2 \<le> btr" using um c2p(1) cb by (simp_all add: word_less_nat_alt word_le_nat_alt)
      moreover have "fptr fp' = fptr fp" by (simp add: e fp1_def)
      ultimately show ?thesis using e b' sf1 by (intro exI [of _ "SS * c2"]) simp
    next
      case few: False
      show ?thesis
      proof (cases "fsect fp1 = sect")
        case True
        obtain m c' where pt: "read_partial fp1 b pos btr = (m, c')" by fastforce
        have "res = Inr m" "fp' = fp1" "b' = c'" "v' = v1" using step few True pt by simp_all
        moreover have "fptr fp1 = fptr fp" "unat (fsect fp1) = file_sector v cs (?f div SS)"
          "fclust fp1 = cs ! (?f div SS div ?n)"
          using True sect fc by (simp_all add: fp1_def q_def cl_def)
        ultimately show ?thesis using partial [OF pt sf1] by simp
      next
        case False
        obtain ok2 fp2 v2 where fl: "flush_buf v1 fp1 = (ok2, fp2, v2)" by (metis prod_cases3)
        note fl' = flush_buf_file [OF i1 fl]
        have i2: "file_inv v2 fp2 cs" and geo2: "geo v2 = geo v1" using fl'(2) by (simp_all add: same_file_def)
        obtain ok3 fp3 v3 where fi: "fill_buf v2 fp2 sect = (ok3, fp3, v3)" by (metis prod_cases3)
        have "unat sect \<in> file_sectors v2 cs" using sin file_sectors_geo [OF geo2] file_sectors_geo [OF geo1] by simp
        note fi' = fill_buf_file [OF i2 fl'(3) this fi]
        define fp4 where "fp4 = fp3\<lparr>fsect := sect\<rparr>"
        have sf4: "same_file cs v fp v3 fp4"
          using same_file_trans [OF same_file_trans [OF sf1 fl'(2)] fi'(4)] by (simp add: fp4_def)
        obtain m c' where pt: "read_partial fp4 b pos btr = (m, c')" by fastforce
        have "res = Inr m" "fp' = fp4" "b' = c'" "v' = v3"
          using step few False fl fl'(1) fi fi'(1) pt by (simp_all add: fp4_def)
        moreover have "fptr fp4 = fptr fp" "unat (fsect fp4) = file_sector v cs (?f div SS)"
          "fclust fp4 = cs ! (?f div SS div ?n)"
          using sect fc fl' fi'(3) by (simp_all add: fp4_def fp1_def q_def cl_def)
        ultimately show ?thesis using partial [OF pt sf4] by simp
      qed
    qed
  qed
qed

lemma unat_add_le:
  fixes a b c :: DWORD
  assumes "unat a + unat b \<le> unat c"
  shows "unat (a + b) = unat a + unat b"
  by (rule unat_add_bound) (use le_less_trans [OF assms unat_lt_pow32] in simp)

lemma read_loop_file:
  assumes "file_inv v fp cs" and "file_at v fp cs"
    and "unat (fptr fp) + unat btr \<le> unat (objsize (fobj fp))" and "unat br + unat btr \<le> length b"
    and "unat br + unat btr < 2 ^ 32"
  shows "\<exists>fp' v'. read_loop_f v fp b br btr =
      Some (FR_OK, (fp', put_seg b (unat br) (file_seg v fp cs (unat (fptr fp)) (unat btr)), br + btr), v')
    \<and> same_file cs v fp v' fp' \<and> file_at v' fp' cs \<and> fptr fp' = fptr fp + btr"
  using assms
proof (induction "unat btr" arbitrary: v fp b br btr rule: less_induct)
  case less
  show ?case
  proof (cases "btr = 0")
    case True
    then show ?thesis using less.prems same_file_refl by (simp add: read_loop_f.simps)
  next
    case False
    then have pos: "0 < btr" by (simp add: word_neq_0_conv)
    obtain r fp1 b1 v1 where rr: "read_round v fp b (unat br) btr = (r, fp1, b1, v1)" by (metis prod_cases4)
    obtain n where n: "r = Inr n" "0 < n" "n \<le> btr" "same_file cs v fp v1 fp1" "fptr fp1 = fptr fp"
      "b1 = put_seg b (unat br) (file_seg v fp cs (unat (fptr fp)) (unat n))"
      "file_at v1 (fp1\<lparr>fptr := fptr fp + n\<rparr>) cs"
      using read_round_file [OF less.prems(1,2) pos less.prems(3,4) rr] by blast
    let ?g = "fp1\<lparr>fptr := fptr fp + n\<rparr>"
    have nn: "0 < unat n" "unat n \<le> unat btr" using n(2,3) by (simp_all add: unat_gt_0 word_le_nat_alt)
    have rest: "unat (btr - n) = unat btr - unat n" using n(3) by (rule unat_sub)
    have ps: "unat (fptr fp + n) = unat (fptr fp) + unat n"
      by (rule unat_add_le [of _ _ "objsize (fobj fp)"]) (use nn(2) less.prems(3) in linarith)
    have bs: "unat (br + n) = unat br + unat n"
      by (rule unat_add_bound) (use nn(2) less.prems(5) in simp)
    have ob: "fobj fp1 = fobj fp" and inv: "file_inv v1 ?g cs" using n(4) by (simp_all add: same_file_def)
    have bl: "length b1 = length b" using n(6) nn(2) less.prems(4) by simp
    have "unat (btr - n) < unat btr" "unat (fptr ?g) + unat (btr - n) \<le> unat (objsize (fobj ?g))"
      "unat (br + n) + unat (btr - n) \<le> length b1" "unat (br + n) + unat (btr - n) < 2 ^ 32"
      using nn rest ps bs ob bl less.prems(3-5) by simp_all
    from less.hyps [OF this(1) inv n(7) this(2-4)] obtain fp2 v2 where
      l: "read_loop_f v1 ?g b1 (br + n) (btr - n) = Some (FR_OK, (fp2, put_seg b1 (unat (br + n))
          (file_seg v1 ?g cs (unat (fptr ?g)) (unat (btr - n))), br + n + (btr - n)), v2)"
      and s: "same_file cs v1 ?g v2 fp2" "file_at v2 fp2 cs" "fptr fp2 = fptr ?g + (btr - n)" by blast
    have step: "read_loop_f v fp b br btr = read_loop_f v1 ?g b1 (br + n) (btr - n)"
      using False rr n(1,5) by (simp add: read_loop_f.simps [of v fp])
    have "unat (fptr fp) + unat n + (unat btr - unat n) \<le> SS * (unat (csize v) * length cs)"
      using nn(2) less.prems(3) file_invD(3) [OF less.prems(1)] by linarith
    from same_file_seg [OF n(4) this]
    have "put_seg b1 (unat (br + n)) (file_seg v1 ?g cs (unat (fptr ?g)) (unat (btr - n)))
      = put_seg b (unat br) (file_seg v fp cs (unat (fptr fp)) (unat btr))"
      using n(6) bs ps rest nn(2) less.prems(4) file_seg_append [of v fp cs "unat (fptr fp)" "unat n" "unat btr - unat n"]
        put_seg_append [of "unat br" "file_seg v fp cs (unat (fptr fp)) (unat n)" _ b]
      by (simp add: put_seg_append [of "unat br" "file_seg v fp cs (unat (fptr fp)) (unat n)", simplified])
    then show ?thesis using step l s same_file_trans [OF n(4), of v2 fp2] by simp
  qed
qed

lemma read_work_file:
  fixes btr :: UINT
  assumes i: "file_inv v fp cs" and p: "file_at v fp cs"
  defines "n \<equiv> min (unat btr) (unat (objsize (fobj fp)) - unat (fptr fp))"
  assumes b: "n \<le> length b"
  shows "\<exists>fp' v'. read_work fp b btr v =
      Some (FR_OK, (fp', put_seg b 0 (file_seg v fp cs (unat (fptr fp)) n), of_nat n), v')
    \<and> same_file cs v fp v' fp' \<and> file_at v' fp' cs \<and> unat (fptr fp') = unat (fptr fp) + n"
proof -
  define m where "m = (if btr > objsize (fobj fp) - fptr fp then objsize (fobj fp) - fptr fp else btr)"
  have le: "fptr fp \<le> objsize (fobj fp)" using p by (simp add: file_at_def)
  have sub: "unat (objsize (fobj fp) - fptr fp) = unat (objsize (fobj fp)) - unat (fptr fp)" by (rule unat_sub [OF le])
  have m: "unat m = n" by (simp add: m_def n_def word_less_nat_alt sub min_def)
  have w: "read_work fp b btr v = read_loop_f v fp b 0 m" by (simp add: read_work_def Let_def m_def)
  have fin: "unat (fptr fp) + unat m \<le> unat (objsize (fobj fp))" using le by (simp add: m n_def word_le_nat_alt)
  have "m = of_nat n" unfolding m [symmetric] by simp
  then show ?thesis unfolding w
    using read_loop_file [OF i p fin, of 0 b] b m unat_add_le [OF fin] unat_lt_pow32 [of m] by fastforce
qed

section \<open>Through the API\<close>

text \<open>Between the calls of the API the volume of the file is unlocked and mounted.\<close>

definition open_on :: "sys \<Rightarrow> FIL \<Rightarrow> BYTE \<Rightarrow> nat \<Rightarrow> bool" where
  "open_on g fp acc k \<longleftrightarrow>
     obj_fs (fobj fp) = Some k \<and> fs_type (objs g k) \<noteq> 0 \<and> obj_id (fobj fp) = fs_id (objs g k)
     \<and> \<not> sobj (objs g k) \<and> err fp = FR_OK \<and> flag fp AND acc \<noteq> 0"

lemma lock_irrelevant [simp]:
  "vok (v\<lparr>sobj := l\<rparr>) = vok v" "healthy (v\<lparr>sobj := l\<rparr>) = healthy v" "data_geom (v\<lparr>sobj := l\<rparr>) = data_geom v"
  "file_sectors (v\<lparr>sobj := l\<rparr>) = file_sectors v" "file_sector (v\<lparr>sobj := l\<rparr>) = file_sector v"
  "fat_entry (v\<lparr>sobj := l\<rparr>) = fat_entry v" "file_byte (v\<lparr>sobj := l\<rparr>) = file_byte v"
  "file_seg (v\<lparr>sobj := l\<rparr>) = file_seg v" "fsec (v\<lparr>sobj := l\<rparr>) = fsec v"
proof -
  show "vok (v\<lparr>sobj := l\<rparr>) = vok v" "healthy (v\<lparr>sobj := l\<rparr>) = healthy v" "data_geom (v\<lparr>sobj := l\<rparr>) = data_geom v"
    by (simp_all add: vok_def wf_vol_def coherent_def healthy_def data_geom_def fat_geom_def fat_bytes_def)
  show fs: "file_sector (v\<lparr>sobj := l\<rparr>) = file_sector v" by (simp add: file_sector_def fun_eq_iff)
  then show "file_sectors (v\<lparr>sobj := l\<rparr>) = file_sectors v" by (simp add: file_sectors_def fun_eq_iff)
  have im: "fat_image (v\<lparr>sobj := l\<rparr>) = fat_image v" by (simp add: fat_image_def vsec_def fun_eq_iff)
  show "fat_entry (v\<lparr>sobj := l\<rparr>) = fat_entry v" by (rule ext) (simp add: fat_entry_def im)
  show sec: "fsec (v\<lparr>sobj := l\<rparr>) = fsec v" by (simp add: fsec_def fun_eq_iff)
  show byte: "file_byte (v\<lparr>sobj := l\<rparr>) = file_byte v" by (intro ext) (simp add: file_byte_def fs sec)
  show "file_seg (v\<lparr>sobj := l\<rparr>) = file_seg v" by (intro ext) (simp add: file_seg_def byte)
qed

lemma lock_irrelevant_file [simp]:
  "file_inv (v\<lparr>sobj := l\<rparr>) = file_inv v" "file_at (v\<lparr>sobj := l\<rparr>) = file_at v"
  by (simp_all add: file_inv_def file_at_def data_ok_def fun_eq_iff)

lemma vol_of_put_vol: "now v = sys_now g \<Longrightarrow> vol_of (put_vol g k v) k = v"
  by (simp add: vol_of_def put_vol_def FATFS.defs)

lemma vol_of_lock: "vol_of (g\<lparr>objs := (objs g)(k := (objs g k)\<lparr>sobj := l\<rparr>)\<rparr>) k = (vol_of g k)\<lparr>sobj := l\<rparr>"
  by (simp add: vol_of_def FATFS.defs)

lemma enter_file_open:
  assumes "open_on g fp acc k" and "healthy (vol_of g k)"
  obtains g1 where "enter_file g fp acc = Some (Inr k, Some k, g1)" "vol_of g1 k = (vol_of g k)\<lparr>sobj := True\<rparr>"
    "sys_now g1 = sys_now g" "\<And>j. fs_type (objs g1 j) = fs_type (objs g j)"
  using assms vol_of_lock [of g k True]
  by (simp add: open_on_def enter_file_def validate_def lock_fs_def ff_req_grant_def disk_status_def healthy_def vol_of_def FATFS.defs)

text \<open>The work on the volume, and the return to the caller.\<close>

lemma api_work:
  assumes w: "work ((vol_of g k)\<lparr>sobj := True\<rparr>) = Some (FR_OK, x, v')" and n: "now v' = now (vol_of g k)"
    and g1: "vol_of g1 k = (vol_of g k)\<lparr>sobj := True\<rparr>" "sys_now g1 = sys_now g"
  obtains g' where "do { (res, x, g) \<leftarrow> on_volume g1 k work; leave_ff g (Some k) res x } = Some (FR_OK, x, g')"
    "vol_of g' k = v'\<lparr>sobj := False\<rparr>"
proof -
  have "sys_now g = now (vol_of g k)" by (simp add: vol_of_def FATFS.defs)
  then have "vol_of (put_vol g1 k v') k = v'" using n g1(2) by (intro vol_of_put_vol) simp
  then have "vol_of (unlock_fs (put_vol g1 k v') (Some k) FR_OK) k = v'\<lparr>sobj := False\<rparr>"
    using vol_of_lock [of "put_vol g1 k v'" k False] by (simp add: unlock_fs_def ff_rel_grant_def)
  then show ?thesis using w g1(1) that by (simp add: on_volume_def leave_ff_def)
qed

lemma same_file_open:
  assumes "same_file cs v fp v' fp'" and "flag fp AND acc \<noteq> 0" and "acc = FA_READ \<or> acc = FA_WRITE"
  shows "fobj fp' = fobj fp" "err fp' = err fp" "flag fp' AND acc \<noteq> 0"
proof -
  have "flag fp' AND (FA_READ OR FA_WRITE) = flag fp AND (FA_READ OR FA_WRITE)"
    using assms(1) by (simp add: same_file_def)
  from arg_cong [where f = "\<lambda>x. x AND acc", OF this]
  have "flag fp' AND (FA_READ OR FA_WRITE) AND acc = flag fp AND (FA_READ OR FA_WRITE) AND acc"
    by (simp only: and.assoc)
  moreover have "(FA_READ OR FA_WRITE) AND acc = acc" using assms(3) by auto
  ultimately show "flag fp' AND acc \<noteq> 0" using assms(2) by simp
qed (use assms(1) in \<open>simp_all add: same_file_def\<close>)

lemma open_on_unlocked:
  assumes "open_on g fp acc k" and "vol_of g' k = v'\<lparr>sobj := False\<rparr>" and "geo v' = geo ((vol_of g k)\<lparr>sobj := True\<rparr>)"
    and "fobj fp' = fobj fp" and "err fp' = err fp" and "flag fp' AND acc \<noteq> 0"
  shows "open_on g' fp' acc k"
proof -
  have "fs_type (vol_of g' k) = fs_type (objs g' k)" "fs_id (vol_of g' k) = fs_id (objs g' k)"
    "sobj (vol_of g' k) = sobj (objs g' k)" by (simp_all add: vol_of_def FATFS.defs)
  moreover have "fs_type (vol_of g k) = fs_type (objs g k)" "fs_id (vol_of g k) = fs_id (objs g k)"
    by (simp_all add: vol_of_def FATFS.defs)
  ultimately show ?thesis using assms geo_fields(1,4) [OF assms(3)] by (simp add: open_on_def)
qed

text \<open>\<open>f_read\<close> on an open file.\<close>

lemma f_read_file:
  fixes btr :: UINT
  assumes "open_on g fp FA_READ k" and "file_inv (vol_of g k) fp cs" and "file_at (vol_of g k) fp cs"
    and "n = min (unat btr) (unat (objsize (fobj fp)) - unat (fptr fp))" and "n \<le> length b"
  shows "\<exists>fp' g'. f_read g fp b btr =
      Some (FR_OK, (fp', put_seg b 0 (map (\<lambda>j. file_byte (vol_of g k) fp cs (unat (fptr fp) + j)) [0..<n]), of_nat n), g')
    \<and> unat (fptr fp') = unat (fptr fp) + n \<and> objsize (fobj fp') = objsize (fobj fp)
    \<and> (\<forall>i < unat (objsize (fobj fp)). file_byte (vol_of g' k) fp' cs i = file_byte (vol_of g k) fp cs i)
    \<and> open_on g' fp' FA_READ k \<and> file_inv (vol_of g' k) fp' cs \<and> file_at (vol_of g' k) fp' cs"
proof -
  let ?v = "(vol_of g k)\<lparr>sobj := True\<rparr>"
  have i: "file_inv ?v fp cs" and p: "file_at ?v fp cs" using assms(2,3) by simp_all
  obtain fp' v' where w: "read_work fp b btr ?v = Some (FR_OK, (fp', put_seg b 0 (file_seg ?v fp cs (unat (fptr fp)) n), of_nat n), v')"
    and s: "same_file cs ?v fp v' fp'" "file_at v' fp' cs" "unat (fptr fp') = unat (fptr fp) + n"
    using read_work_file [OF i p, of btr b] assms(4,5) by blast
  have geo: "geo v' = geo ?v" using s(1) by (simp add: same_file_def)
  then have "now v' = now (vol_of g k)" using geo_fields(14) [OF geo] by simp
  from enter_file_open [OF assms(1) data_okD(2) [OF file_invD(1) [OF assms(2)]]] obtain g1 where
    e: "enter_file g fp FA_READ = Some (Inr k, Some k, g1)" "vol_of g1 k = ?v" "sys_now g1 = sys_now g" by blast
  from api_work [where work = "read_work fp b btr", OF w \<open>now v' = _\<close> e(2,3)] obtain g' where
    r: "do { (res, x, g) \<leftarrow> on_volume g1 k (read_work fp b btr); leave_ff g (Some k) res x }
      = Some (FR_OK, (fp', put_seg b 0 (file_seg ?v fp cs (unat (fptr fp)) n), of_nat n), g')"
    and g': "vol_of g' k = v'\<lparr>sobj := False\<rparr>" by blast
  have "f_read g fp b btr = Some (FR_OK, (fp', put_seg b 0 (file_seg (vol_of g k) fp cs (unat (fptr fp)) n), of_nat n), g')"
    using e(1) r by (simp add: f_read_def)
  moreover have "file_byte (vol_of g' k) fp' cs i = file_byte (vol_of g k) fp cs i" if "i < unat (objsize (fobj fp))" for i
    using same_file_byte [OF s(1), of i] that file_invD(3) [OF assms(2)] g' by simp
  moreover have "open_on g' fp' FA_READ k"
    by (rule open_on_unlocked [OF assms(1) g' geo]) (use same_file_open [OF s(1), of FA_READ] assms(1) in \<open>simp_all add: open_on_def\<close>)
  ultimately show ?thesis
    using s g' by (simp add: same_file_def file_seg_def)
qed

text \<open>C4: Reading an open file returns exactly its bytes. On a healthy drive \<open>f_read\<close> succeeds and
  delivers the bytes of the file from the current position on, as many as asked for or as there
  are up to the end of the file, however they are spread over clusters and sectors and whether they
  are read directly, through the sector buffer of the file or from a dirty buffer that the drive does not hold yet; the rest of
  the caller's memory is untouched; the position moves on by that number; no byte of the file changes; the volume is unlocked and the file is
  ready for the next call.\<close>

theorem file_read:
  fixes btr :: UINT
  assumes "open_on g fp FA_READ k" and "file_inv (vol_of g k) fp cs" and "file_at (vol_of g k) fp cs"
    and "n = min (unat btr) (unat (objsize (fobj fp)) - unat (fptr fp))" and "n \<le> length b"
  shows "\<exists>fp' g'. f_read g fp b btr =
      Some (FR_OK, (fp', put_seg b 0 (map (\<lambda>j. file_byte (vol_of g k) fp cs (unat (fptr fp) + j)) [0..<n]), of_nat n), g')
    \<and> unat (fptr fp') = unat (fptr fp) + n \<and> objsize (fobj fp') = objsize (fobj fp)
    \<and> (\<forall>i < unat (objsize (fobj fp)). file_byte (vol_of g' k) fp' cs i = file_byte (vol_of g k) fp cs i)
    \<and> open_on g' fp' FA_READ k \<and> file_inv (vol_of g' k) fp' cs \<and> file_at (vol_of g' k) fp' cs"
  using assms by (rule f_read_file)

text \<open>A file of 514 bytes in the clusters 2 and 3 of the sample volume, opened for reading and
  writing, at its last byte in the first cluster.\<close>

definition sample_sys :: "vol \<Rightarrow> sys" where
  "sample_sys v =
     \<lparr>FatFs = (\<lambda>n. if n = 0 then Some 0 else None), objs = (\<lambda>_. FATFS.truncate v), drives = (\<lambda>_. drv v),
      Fsid = fs_id v, sys_heap = heap v, sys_now = now v\<rparr>"

definition sample_vol :: vol where
  "sample_vol = sample 2 [(1, table16), (4, replicate 511 0 @ [9]), (5, [7, 8])]"

definition sample_file :: FIL where
  "sample_file =
     \<lparr>fobj = \<lparr>obj_fs = Some 0, obj_id = 1, attr = AM_ARC, stat = 0, sclust = 2, objsize = 514\<rparr>,
      flag = FA_READ OR FA_WRITE, err = FR_OK, fptr = 511, fclust = 2, fsect = 4, dir_sect = 3, dir_ptr = 0,
      buf = replicate 511 0 @ [9]\<rparr>"

lemma vol_of_sample_sys: "vol_of (sample_sys v) k = v"
  by (simp add: vol_of_def sample_sys_def FATFS.defs)

lemma fields_sample_sys: "objs (sample_sys v) k = FATFS.truncate v"
  by (simp add: sample_sys_def)

lemma file_sectors_sample: "file_sectors sample_vol [2, 3] = {4, 5}"
proof -
  have "{..<Suc (Suc 0)} = {0, 1}" by auto
  then show ?thesis by (simp add: file_sectors_def sample_vol_def file_sector_def)
qed

lemma sample_file_ok:
  "file_inv sample_vol sample_file [2, 3]" "file_at sample_vol sample_file [2, 3]"
  "open_on (sample_sys sample_vol) sample_file FA_READ 0" "open_on (sample_sys sample_vol) sample_file FA_WRITE 0"
proof -
  have ge: "fat_geom sample_vol" unfolding sample_vol_def by (rule fat_geom_sample) simp
  have "data_geom sample_vol" using ge by (auto simp: data_geom_def sample_vol_def intro: exI [of _ 0])
  then have "data_ok sample_vol [2, 3]"
    using file_sectors_sample by (auto simp: data_ok_def sample_vol_def)
  moreover have "chain (fat_entry sample_vol) 5 2 [2, 3]"
    unfolding sample_vol_def One_nat_def by (rule sample_chains(2))
  moreover have "sectors (drv sample_vol) 4 = replicate 511 0 @ [9]"
    by (simp add: sample_vol_def sample_drive_def)
  ultimately show "file_inv sample_vol sample_file [2, 3]"
    using file_sectors_sample by (simp add: file_inv_def sample_file_def sample_vol_def del: chain.simps)
  show "file_at sample_vol sample_file [2, 3]"
    by (simp add: file_at_def sample_file_def sample_vol_def file_sector_def)
  show "open_on (sample_sys sample_vol) sample_file FA_READ 0" "open_on (sample_sys sample_vol) sample_file FA_WRITE 0"
    by (simp_all add: open_on_def sample_file_def fields_sample_sys sample_vol_def sample_def FATFS.defs)
qed

lemma sample_bytes:
  "file_byte sample_vol sample_file [2, 3] 511 = 9" "file_byte sample_vol sample_file [2, 3] 512 = 7"
  "file_byte sample_vol sample_file [2, 3] 513 = 8"
  by (simp_all add: file_byte_def fsec_def file_sector_def sample_vol_def sample_file_def nth_append sample_drive_def)

theorem file_read_witness:
  "\<exists>fp' g'. f_read (sample_sys sample_vol) sample_file [0, 0, 0, 0] 100 = Some (FR_OK, (fp', [9, 7, 8, 0], 3), g')
    \<and> unat (fptr fp') = 514 \<and> file_byte (vol_of g' 0) fp' [2, 3] 512 = 7"
proof -
  have "[0..<3 :: nat] = [0, 1, 2]" by (simp add: upt_rec)
  moreover have "objsize (fobj sample_file) = 514" "fptr sample_file = 511" by (simp_all add: sample_file_def)
  ultimately show ?thesis
    using file_read [of "sample_sys sample_vol" sample_file 0 "[2, 3]" 3 100 "[0, 0, 0, 0]"]
      sample_file_ok sample_bytes by (auto simp: vol_of_sample_sys put_seg_def)
qed

end
