(* ===== verification/Fat_Write.thy ===== *)
theory Fat_Write
  imports Fat_Read
begin

text \<open>
  Writing an open file: \<open>f_write\<close> of \<^verbatim>\<open>addon/fatfs/ff.c\<close> stores the caller's bytes in the file,
  stretching its cluster chain where it has to. The first part is the allocation of a cluster for
  an open file, the second the bytes, from the single sector up to the API call.
\<close>

unbundle bit_operations_syntax

section \<open>Stretching the chain of a file\<close>

lemma find_free_near:
  "find_free v scl ncl = Some y \<Longrightarrow> vok v \<Longrightarrow> healthy v \<Longrightarrow> fat_geom v \<Longrightarrow> near_fat v (snd y)"
proof (induction rule: find_free.raw_induct [rotated, consumes 1, case_names step])
  case (step f v scl ncl y)
  define k where "k = (if ncl + 1 \<ge> n_fatent v then 2 else ncl + 1)"
  obtain cs v1 where g: "get_fat v k = (cs, v1)" by fastforce
  have n1: "near_fat v v1" by (rule get_fat_window [OF g step(3-5)])
  note gd = get_fat_entryD [OF g step(3,5)] and h1 = get_fat_healthy(1) [OF step(4,3) g]
  have "y = (Inl 0, v) \<or> snd y = v1 \<or> f v1 scl k = Some y"
    using step(2) g unfolding Let_def k_def [symmetric] by (auto split: if_splits)
  moreover have "near_fat v (snd y)" if "f v1 scl k = Some y"
    by (rule near_fat_trans [OF n1 step(1) [OF that gd(1) h1 gd(2)] quietD(1) [OF get_fat_quiet [OF g]]])
  ultimately show ?case using n1 by auto
qed

lemma create_find_near:
  assumes f: "create_find v c scl = Some (r, v')" and ok: "vok v" "healthy v" "fat_geom v"
  shows "near_fat v v'"
proof (cases "scl = c")
  case False
  then show ?thesis using f find_free_near [OF _ ok, of scl scl "(r, v')"] by (simp add: create_find_def)
next
  case True
  define k where "k = (if scl + 1 \<ge> n_fatent v then 2 else scl + 1)"
  obtain cs v1 where g: "get_fat v k = (cs, v1)" by fastforce
  have n1: "near_fat v v1" by (rule get_fat_window [OF g ok])
  note gd = get_fat_entryD [OF g ok(1,3)] and h1 = get_fat_healthy(1) [OF ok(2,1) g]
  have "v' = v1 \<or> (\<exists>s. find_free v1 s s = Some (r, v'))"
    using f True g unfolding create_find_def Let_def k_def [symmetric] by (auto split: if_splits)
  then show ?thesis
    using n1 find_free_near [OF _ gd(1) h1 gd(2)] near_fat_trans [OF n1 _ quietD(1) [OF get_fat_quiet [OF g]]] by force
qed

lemma create_link_near:
  assumes l: "create_link v c k = (r, v')" and ok: "vok v" "healthy v" "fat_geom v"
    and k: "2 \<le> k" "k < n_fatent v" and c: "c \<noteq> 0 \<Longrightarrow> 2 \<le> c \<and> c < n_fatent v"
  shows "in_fat v (unat (winsect v'))"
proof -
  obtain r1 v1 where p1: "put_fat v k 0xFFFFFFFF = (r1, v1)" by fastforce
  have geo: "geo v1 = geo v" and ok1: "vok v1" "fat_geom v1" "n_fatent v1 = n_fatent v"
    using fat_onlyD [OF put_fat_only [OF p1 ok(1,3)]] ok(3) by simp_all
  note h1 = put_fat_healthy [OF ok(2,1,3) k p1]
  have i1: "in_fat v (unat (winsect v1))" by (rule fat_window_in(2) [OF ok k p1])
  show ?thesis
  proof (cases "c = 0")
    case True
    then show ?thesis using l p1 h1 i1 by (auto simp: create_link_def Let_def split: if_splits)
  next
    case False
    obtain r2 v2 where p2: "put_fat v1 c k = (r2, v2)" by fastforce
    have "in_fat v (unat (winsect v2))"
      using fat_window_in(2) [OF ok1(1) h1(2) ok1(2) _ _ p2] c False ok1(3) in_fat_geo [OF geo] by simp
    moreover have "winsect v' = winsect v2"
      using l p1 p2 h1 False by (auto simp: create_link_def Let_def split: if_splits)
    ultimately show ?thesis by simp
  qed
qed

text \<open>\<open>create_chain\<close> on a healthy drive whose table holds no reserved value: it follows a link,
  finds the disk full, or links a free cluster, and leaves the window on the table.\<close>

lemma create_chain_step:
  assumes ok: "vok v" "healthy v" "fat_geom v" and nb: "\<not> bad_entry v"
    and c: "c = 0 \<or> 2 \<le> c \<and> c < n_fatent v \<and> 2 \<le> fat_entry v (unat c)"
  shows "\<exists>r v'. create_chain v c = Some (r, v') \<and> healthy v' \<and> near_fat v v' \<and>
    (if c \<noteq> 0 \<and> fat_entry v (unat c) < n_fatent v then r = fat_entry v (unat c) \<and> quiet v v'
     else r = 0 \<and> quiet v v' \<and> (free_clst v = 0 \<or> (\<forall>d. 2 \<le> d \<longrightarrow> d < unat (n_fatent v) \<longrightarrow> fat_entry v d \<noteq> 0))
       \<or> 2 \<le> r \<and> r < n_fatent v \<and> fat_only v v' \<and> in_fat v (unat (winsect v')) \<and> fat_entry v (unat r) = 0
         \<and> fat_entry v' (unat r) = fat_cut v \<and> (c \<noteq> 0 \<longrightarrow> fat_entry v' (unat c) = r)
         \<and> (\<forall>d < unat (n_fatent v). d \<noteq> unat r \<longrightarrow> d \<noteq> unat c \<longrightarrow> fat_entry v' d = fat_entry v d))"
proof -
  obtain s v1 where st: "create_start v c = (s, v1)" by fastforce
  note so = create_start_ok [OF st ok(1,3)] and q = create_start_ok(1) [OF st ok(1,3)]
  have h1: "healthy v1" using so(2) ok(2) by simp
  have ok1: "vok v1" "fat_geom v1" "n_fatent v1 = n_fatent v" "free_clst v1 = free_clst v" "fat_cut v1 = fat_cut v"
    using quietD(3) [OF q ok(1)] quiet_fat_geom [OF q] ok(3) quiet_fields [OF q] fat_cut_geo [OF quietD(1) [OF q]]
    by simp_all
  have ent1: "d < unat (n_fatent v) \<Longrightarrow> fat_entry v1 d = fat_entry v d" for d
    by (rule quiet_fat_entry [OF q ok(1,3)])
  then have nb1: "\<not> bad_entry v1" using nb ok1(3) by (auto simp: bad_entry_def)
  have sn: "near_fat v v1 \<and> (c \<noteq> 0 \<longrightarrow> s = (if fat_entry v (unat c) < n_fatent v then Inl (fat_entry v (unat c)) else Inr c))"
  proof (cases "c = 0")
    case True
    then show ?thesis using st by (auto simp: create_start_def Let_def)
  next
    case False
    obtain cs v2 where g: "get_fat v c = (cs, v2)" by fastforce
    have "2 \<le> c" "c < n_fatent v" using c False by simp_all
    from get_fat_healthyD [OF g ok(2,1,3) this] have cs: "cs = fat_entry v (unat c)" by simp
    have "cs \<noteq> 0xFFFFFFFF" by (rule get_fat_healthy(2) [OF ok(2,1) g])
    moreover have "\<not> cs < 2" using c False cs by (simp add: not_less)
    ultimately show ?thesis using st False g cs get_fat_window [OF g ok] ok1(3)
      by (auto simp: create_start_def split: if_splits)
  qed
  show ?thesis
  proof (cases s)
    case (Inl e)
    then have "c \<noteq> 0" using so(3) by blast
    then have "fat_entry v (unat c) < n_fatent v" "e = fat_entry v (unat c)" using sn Inl by (auto split: if_splits)
    then show ?thesis using st Inl h1 sn q \<open>c \<noteq> 0\<close> by (simp add: create_chain_def)
  next
    case (Inr scl)
    then have go: "\<not> (c \<noteq> 0 \<and> fat_entry v (unat c) < n_fatent v)" using sn by (auto split: if_splits)
    note sk = so(4) [OF Inr]
    have s1: "1 \<le> unat scl" "unat scl < unat (n_fatent v1)" using sk ok1(3) by simp_all
    show ?thesis
    proof (cases "free_clst v = 0")
      case True
      then show ?thesis unfolding if_not_P [OF go] using st Inr h1 sn q ok1(4) by (simp add: create_chain_def)
    next
      case False
      from create_find_ok [OF ok1(1,2) s1, of c] obtain r v2 where
        f: "create_find v1 c scl = Some (r, v2)" "quiet v1 v2" "healthy v2"
        "\<forall>k. r = Inr k \<longrightarrow> 2 \<le> k \<and> k < n_fatent v1 \<and> fat_entry v1 (unat k) = 0"
        "\<forall>e. r = Inl e \<longrightarrow> e = 0"
        "r = Inl 0 \<longrightarrow> (\<forall>d. 2 \<le> d \<longrightarrow> d < unat (n_fatent v1) \<longrightarrow> fat_entry v1 d \<noteq> 0)"
        using h1 nb1 by blast
      have q2: "quiet v v2" by (rule quiet_trans [OF q f(2)])
      have near2: "near_fat v v2"
        by (rule near_fat_trans [OF conjunct1 [OF sn] create_find_near [OF f(1) ok1(1) h1 ok1(2)] quietD(1) [OF q]])
      have step: "create_chain v c = (case r of Inl cs \<Rightarrow> Some (cs, v2) | Inr ncl \<Rightarrow> Some (create_link v2 c ncl))"
        using st Inr f(1) False ok1(4) by (simp add: create_chain_def)
      show ?thesis
      proof (cases r)
        case (Inl e)
        then have "e = 0" using f(5) by blast
        then have "\<forall>d. 2 \<le> d \<longrightarrow> d < unat (n_fatent v) \<longrightarrow> fat_entry v d \<noteq> 0" using f(6) Inl ok1(3) ent1 by auto
        then show ?thesis unfolding if_not_P [OF go] using step Inl f(3) q2 near2 \<open>e = 0\<close> by simp
      next
        case (Inr k)
        have k: "2 \<le> k" "k < n_fatent v" "fat_entry v (unat k) = 0"
          using f(4) Inr ok1(3) ent1 [of "unat k"] by (auto simp: word_less_nat_alt)
        have ok2: "vok v2" "fat_geom v2" "n_fatent v2 = n_fatent v" "fat_cut v2 = fat_cut v"
          using quietD(3) [OF q2 ok(1)] quiet_fat_geom [OF q2] ok(3) quiet_fields [OF q2] fat_cut_geo [OF quietD(1) [OF q2]]
          by simp_all
        have cn: "c \<noteq> 0 \<Longrightarrow> 2 \<le> c \<and> c < n_fatent v2" "c = 0 \<or> 2 \<le> c \<and> c < n_fatent v2" using c ok2(3) by auto
        have kc: "k \<noteq> c" using k c by (auto simp: word_le_nat_alt)
        have k2: "k < n_fatent v2" using k(2) ok2(3) by simp
        obtain r' v3 where l: "create_link v2 c k = (r', v3)" by fastforce
        note lo = create_link_ok [OF l ok2(1,2) k(1) k2 kc]
        have r': "r' = k" "healthy v3" using lo(4) [OF f(3) cn(2)] by simp_all
        have "k \<noteq> 1" "k \<noteq> 0xFFFFFFFF" using k fat_geom_max [OF ok(3)] by (auto simp: word_le_nat_alt word_less_nat_alt)
        then have e3: "fat_entry v3 (unat k) = fat_cut v" "c \<noteq> 0 \<longrightarrow> fat_entry v3 (unat c) = k"
          using lo(3) r'(1) ok2(4) by auto
        have win: "in_fat v (unat (winsect v3))"
          using create_link_near [OF l ok2(1) f(3) ok2(2) k(1) k2 cn(1)] in_fat_geo [OF quietD(1) [OF q2]] by simp
        have "fat_entry v3 d = fat_entry v d" if "d < unat (n_fatent v)" "d \<noteq> unat k" "d \<noteq> unat c" for d
          using lo(2) that quiet_fat_entry [OF q2 ok(1,3) that(1)] ok2(3) by simp
        then show ?thesis unfolding if_not_P [OF go] using step Inr l r' k e3 win
            fat_only_trans [OF quiet_fat_only [OF q2 ok(1)] lo(1)] by (simp add: near_fat_def)
      qed
    qed
  qed
qed

lemma chain_append:
  assumes "chain E n c cs" and "r \<notin> set cs" and "2 \<le> r" "r < n" and "n \<le> E' (unat r)"
    and "E' (unat (last cs)) = r" and "\<And>x. x \<in> set cs \<Longrightarrow> x \<noteq> last cs \<Longrightarrow> E' (unat x) = E (unat x)"
  shows "chain E' n c (cs @ [r])"
  using assms
proof (induction cs arbitrary: c)
  case (Cons x cs)
  show ?case
  proof (cases "cs = []")
    case True
    then show ?thesis using Cons.prems by auto
  next
    case False
    have ch: "chain E n (E (unat c)) cs" "x = c" using Cons.prems(1) False by (auto split: if_splits)
    have "distinct (x # cs)" by (rule chain_distinct [OF Cons.prems(1)])
    then have "x \<noteq> last cs" using False by (metis distinct.simps(2) last_in_set)
    then have "E' (unat x) = E (unat x)" using Cons.prems(7) [of x] False by simp
    moreover have "chain E' n (E (unat c)) (cs @ [r])"
      by (rule Cons.IH [OF ch(1)]) (use Cons.prems False in auto)
    ultimately show ?thesis using Cons.prems(1) ch(2) False by auto
  qed
qed simp

lemma chain_end: "chain E n c cs \<Longrightarrow> n \<le> E (unat (last cs))"
  by (induction cs arbitrary: c) (auto split: if_splits)

lemma file_sector_prefix:
  assumes "0 < unat (csize v)" and "i < unat (csize v) * length cs"
  shows "file_sector v (cs @ ds) i = file_sector v cs i"
  using assms by (simp add: file_sector_def nth_append less_mult_imp_div_less mult.commute)

lemma file_sectors_prefix: "0 < unat (csize v) \<Longrightarrow> file_sectors v cs \<subseteq> file_sectors v (cs @ ds)"
proof
  fix s
  assume p: "0 < unat (csize v)" and "s \<in> file_sectors v cs"
  then obtain i where i: "i < unat (csize v) * length cs" "s = file_sector v cs i" by (auto simp: file_sectors_def)
  then have "i < unat (csize v) * length (cs @ ds)" by (simp add: add_mult_distrib2)
  then show "s \<in> file_sectors v (cs @ ds)"
    using file_sector_prefix [OF p i(1), of ds] i(2) by (auto simp: file_sectors_def intro: rev_image_eqI)
qed

text \<open>A step that may add clusters to a file, its bytes unchanged.\<close>

definition grows :: "DWORD list \<Rightarrow> vol \<Rightarrow> FIL \<Rightarrow> DWORD list \<Rightarrow> vol \<Rightarrow> FIL \<Rightarrow> bool" where
  "grows cs v fp cs' v' fp' \<longleftrightarrow>
     (\<exists>ds. cs' = cs @ ds) \<and> file_inv v' fp' cs' \<and> \<not> bad_entry v' \<and> geo v' = geo v
     \<and> obj_fs (fobj fp') = obj_fs (fobj fp) \<and> obj_id (fobj fp') = obj_id (fobj fp)
     \<and> objsize (fobj fp') = objsize (fobj fp) \<and> err fp' = err fp
     \<and> flag fp' AND (FA_READ OR FA_WRITE) = flag fp AND (FA_READ OR FA_WRITE)
     \<and> (\<forall>s \<in> file_sectors v cs. fsec v' fp' s = fsec v fp s)"

lemma same_file_grows: "same_file cs v fp v' fp' \<Longrightarrow> \<not> bad_entry v' \<Longrightarrow> grows cs v fp cs v' fp'"
  by (simp add: same_file_def grows_def)

lemma same_data_bad: "same_data cs v v' \<Longrightarrow> bad_entry v' = bad_entry v"
  using geo_fields(7) [of v' v] by (auto simp: same_data_def bad_entry_def)

lemma file_chain:
  assumes "file_inv v fp cs" and "cs \<noteq> []"
  shows "chain (fat_entry v) (n_fatent v) (sclust (fobj fp)) cs" "sclust (fobj fp) = cs ! 0" "2 \<le> cs ! 0"
proof -
  show ch: "chain (fat_entry v) (n_fatent v) (sclust (fobj fp)) cs" using assms by (simp add: file_inv_def)
  from chain_nth [OF this] show "sclust (fobj fp) = cs ! 0" by simp
  show "2 \<le> cs ! 0" using chain_range [OF ch] assms(2) by simp
qed

text \<open>A free cluster appended to the chain.\<close>

lemma append_cluster:
  assumes i: "file_inv v fp cs" and nb: "\<not> bad_entry v"
    and r: "2 \<le> r" "r < n_fatent v" "fat_entry v (unat r) = 0"
    and fo: "fat_only v v'" and h: "healthy v'" and w: "in_fat v (unat (winsect v'))"
    and er: "fat_entry v' (unat r) = fat_cut v"
    and ec: "cs \<noteq> [] \<Longrightarrow> fat_entry v' (unat (last cs)) = r"
    and eo: "\<And>d. 2 \<le> d \<Longrightarrow> d < unat (n_fatent v) \<Longrightarrow> d \<noteq> unat r \<Longrightarrow> (cs \<noteq> [] \<Longrightarrow> d \<noteq> unat (last cs)) \<Longrightarrow> fat_entry v' d = fat_entry v d"
  shows "grows cs v fp (cs @ [r]) v' (fp\<lparr>fobj := (fobj fp)\<lparr>sclust := (cs @ [r]) ! 0\<rparr>, fclust := r\<rparr>)"
proof -
  note d = file_invD [OF i] and dd = data_okD [OF file_invD(1) [OF i]]
  have geo: "geo v' = geo v" and ok': "vok v'" using fat_onlyD [OF fo] by simp_all
  have n': "n_fatent v' = n_fatent v" "csize v' = csize v" using geo_fields [OF geo] by simp_all
  have nr: "r \<notin> set cs"
  proof
    assume "r \<in> set cs"
    then have "cs \<noteq> []" by auto
    from chain_nonzero [OF file_chain(1) [OF i this] \<open>r \<in> set cs\<close>] show False using r(3) by (simp add: word_le_nat_alt)
  qed
  have "n_fatent v \<le> fat_cut v" by (rule fat_cut_end [OF dd(4)])
  have ch: "chain (fat_entry v') (n_fatent v) ((cs @ [r]) ! 0) (cs @ [r])"
  proof (cases "cs = []")
    case True
    then show ?thesis using r er \<open>n_fatent v \<le> fat_cut v\<close> by simp
  next
    case False
    have "fat_entry v' (unat x) = fat_entry v (unat x)" if "x \<in> set cs" "x \<noteq> last cs" for x
    proof (rule eo)
      show "2 \<le> unat x" "unat x < unat (n_fatent v)" using dd(5) that(1) by (simp_all add: word_le_nat_alt word_less_nat_alt)
      show "unat x \<noteq> unat r" "cs \<noteq> [] \<Longrightarrow> unat x \<noteq> unat (last cs)" using that nr by (metis word_unat_eq_iff)+
    qed
    then show ?thesis
      using chain_append [OF file_chain(1) [OF i False] nr r(1,2), of "fat_entry v'"] er ec False
        \<open>n_fatent v \<le> fat_cut v\<close> file_chain(2) [OF i False] by (simp add: nth_append)
  qed
  have cl: "clusters_ok v (cs @ [r])" using dd(5) r by auto
  have nw: "unat (winsect v') \<notin> file_sectors v (cs @ [r])" using w file_sectors_data(2) [OF dd(3) cl] by blast
  have d': "data_ok v' (cs @ [r])"
    using ok' h cl nw dd(3,6) nr data_geom_geo [OF geo] file_sectors_geo [OF geo] n' by (simp add: data_ok_def)
  note pre = file_sectors_prefix [OF dd(8), of cs "[r]"]
  have sec: "sectors (drv v') s = sectors (drv v) s" if "s \<in> file_sectors v cs" for s
    using data_sector(1,2) [OF d(1) that] data_sector(1) [OF d', of s] fo pre that file_sectors_data(2) [OF dd(3,5) that]
    by (auto simp: fat_only_def file_sectors_geo [OF geo])
  have "fat_entry v' e \<noteq> 1" if e: "2 \<le> e" "e < unat (n_fatent v)" for e
  proof (cases "e = unat r \<or> cs \<noteq> [] \<and> e = unat (last cs)")
    case True
    then show ?thesis using er ec r(1) \<open>n_fatent v \<le> fat_cut v\<close> fat_geom_min [OF dd(4)]
      by (auto simp: word_le_nat_alt)
  next
    case False
    then show ?thesis using nb eo [of e] e by (auto simp: bad_entry_def)
  qed
  then have nb': "\<not> bad_entry v'" using n' by (auto simp: bad_entry_def)
  have z: "0 \<notin> file_sectors v (cs @ [r])"
  proof
    assume "0 \<in> file_sectors v (cs @ [r])"
    then have "unat (database v) = 0" by (auto simp: file_sectors_def file_sector_def)
    then show False using data_geom_pos [OF dd(3)] by simp
  qed
  have "file_inv v' (fp\<lparr>fobj := (fobj fp)\<lparr>sclust := (cs @ [r]) ! 0\<rparr>, fclust := r\<rparr>) (cs @ [r])"
    using i d' ch sec z pre file_sectors_geo [OF geo] n' d(3)
    by (auto simp: file_inv_def simp del: chain.simps) 
  then show ?thesis using nb' geo sec by (simp add: grows_def fsec_def)
qed

text \<open>No cluster is free, or the free count says so.\<close>

definition disk_full :: "vol \<Rightarrow> bool" where
  "disk_full v \<longleftrightarrow> free_clst v = 0 \<or> (\<forall>d. 2 \<le> d \<longrightarrow> d < unat (n_fatent v) \<longrightarrow> fat_entry v d \<noteq> 0)"

lemma quiet_disk_full: "quiet v v' \<Longrightarrow> vok v \<Longrightarrow> fat_geom v \<Longrightarrow> disk_full v' = disk_full v"
  using quiet_fat_entry [of v v'] quiet_fields(7,17) [of v v'] by (simp add: disk_full_def)

text \<open>The cluster step of a write at the boundary of a cluster.\<close>

lemma write_cluster_file:
  assumes i: "file_inv v fp cs" and p: "file_at v fp cs" and nb: "\<not> bad_entry v"
    and m: "unat (fptr fp) = SS * q" "q = unat (csize v) * k"
  shows "\<exists>r fp' v'. write_cluster v fp = Some (r, fp', v') \<and>
    (r = Inr None \<and> fp' = fp \<and> grows cs v fp cs v' fp \<and> disk_full v' \<and> k = length cs \<or>
     r = Inr (Some ()) \<and> (\<exists>cs'. grows cs v fp cs' v' fp' \<and> k < length cs' \<and> fclust fp' = cs' ! k
       \<and> fptr fp' = fptr fp \<and> fsect fp' = fsect fp \<and> buf fp' = buf fp \<and> flag fp' = flag fp))"
proof -
  note d = file_invD [OF i] and dd = data_okD [OF file_invD(1) [OF i]]
  have "SS * q \<le> SS * (unat (csize v) * length cs)"
    using p d(3) m(1) by (simp add: file_at_def word_le_nat_alt)
  then have k: "k \<le> length cs" using m(2) dd(8) by simp
  have rng: "2 \<le> c \<Longrightarrow> c < n_fatent v \<Longrightarrow> c \<noteq> 0 \<and> c \<noteq> 1 \<and> c \<noteq> 0xFFFFFFFF" for c :: DWORD
    using fat_geom_max [OF dd(4)] by (auto simp: word_less_nat_alt word_le_nat_alt)
  define c where "c = (if k = 0 then 0 else cs ! (k - 1))"
  have fz: "fptr fp = 0 \<longleftrightarrow> k = 0"
  proof
    assume "fptr fp = 0" then show "k = 0" using m dd(8) by simp
  next
    assume "k = 0" then have "unat (fptr fp) = 0" using m by simp
    then show "fptr fp = 0" by (simp add: unsigned_eq_0_iff)
  qed
  have fc: "fclust fp = c" if k0: "k \<noteq> 0"
  proof -
    have q0: "0 < q" using m(2) k0 dd(8) by simp
    then obtain r where r: "q = Suc r" by (cases q) auto
    obtain k' where k': "k = Suc k'" using k0 by (cases k) auto
    have "r div unat (csize v) = k'"
      by (rule div_nat_eqI) (use m(2) r k' dd(8) in auto)
    then have "(SS * q - 1) div SS div unat (csize v) = k'" using r by simp
    then show ?thesis using p fz k0 m(1) k' by (simp add: file_at_def c_def)
  qed
  show ?thesis
  proof (cases "k = 0 \<and> cs \<noteq> []")
    case True
    note fch = file_chain [OF i conjunct2 [OF True]]
    have "2 \<le> sclust (fobj fp)" "sclust (fobj fp) < n_fatent v"
      using chain_range [OF fch(1)] fch(2) True by simp_all
    note sr = rng [OF this]
    have "write_cluster v fp = Some (Inr (Some ()), fp\<lparr>fclust := sclust (fobj fp)\<rparr>, v)"
      using True fz sr by (simp add: write_cluster_def)
    moreover have "grows cs v fp cs v (fp\<lparr>fclust := sclust (fobj fp)\<rparr>)"
      using i nb by (simp add: grows_def fsec_def file_inv_def)
    ultimately show ?thesis using True fch(2) by auto
  next
    case False
    \<comment> \<open>the chain is followed or stretched from \<open>c\<close>\<close>
    have c: "c = 0 \<or> 2 \<le> c \<and> c < n_fatent v \<and> 2 \<le> fat_entry v (unat c)"
    proof (cases "k = 0")
      case k0: False
      then have "cs \<noteq> []" "c \<in> set cs" using k by (auto simp: c_def intro: nth_mem)
      then show ?thesis using dd(5) chain_nonzero [OF file_chain(1) [OF i] ] by simp
    qed (simp add: c_def)
    have c0: "c = 0 \<longleftrightarrow> k = 0" using c k dd(5) rng by (auto simp: c_def)
    have s0: "k = 0 \<Longrightarrow> sclust (fobj fp) = 0 \<and> cs = []" using False i by (auto simp: file_inv_def)
    from create_chain_step [OF dd(1,2,4) nb c] obtain r v' where
      cr: "create_chain v c = Some (r, v')" "healthy v'" "near_fat v v'"
        "if c \<noteq> 0 \<and> fat_entry v (unat c) < n_fatent v then r = fat_entry v (unat c) \<and> quiet v v'
         else r = 0 \<and> quiet v v' \<and> disk_full v
         \<or> 2 \<le> r \<and> r < n_fatent v \<and> fat_only v v' \<and> in_fat v (unat (winsect v')) \<and> fat_entry v (unat r) = 0
         \<and> fat_entry v' (unat r) = fat_cut v \<and> (c \<noteq> 0 \<longrightarrow> fat_entry v' (unat c) = r)
         \<and> (\<forall>d < unat (n_fatent v). d \<noteq> unat r \<longrightarrow> d \<noteq> unat c \<longrightarrow> fat_entry v' d = fat_entry v d)"
      unfolding disk_full_def by blast
    have wc: "write_cluster v fp = (if r = 0 then Some (Inr None, fp, v')
        else if r = 1 then Some (Inl FR_INT_ERR, fp, v')
        else if r = 0xFFFFFFFF then Some (Inl FR_DISK_ERR, fp, v')
        else Some (Inr (Some ()), (if sclust (fobj fp) = 0 then fp\<lparr>fclust := r, fobj := (fobj fp)\<lparr>sclust := r\<rparr>\<rparr>
                                   else fp\<lparr>fclust := r\<rparr>), v'))"
      using cr(1) fz fc s0 by (cases "k = 0") (auto simp: write_cluster_def c_def Let_def)
    have same: "same_file cs v fp v' fp \<and> \<not> bad_entry v' \<and> disk_full v' = disk_full v" if "quiet v v'"
    proof -
      have sd: "same_data cs v v'"
        by (rule view_same_data [OF d(1) quietD(3) [OF that dd(1)] cr(2) quietD(4) [OF that dd(1)] cr(3)])
      then show ?thesis using same_data_file [OF sd i] same_data_bad [OF sd] nb quiet_disk_full [OF that dd(1,4)] by simp
    qed
    show ?thesis
    proof (cases "k < length cs")
      case True
      then have k0: "k \<noteq> 0" using False by auto
      then obtain k' where k': "k = Suc k'" by (cases k) auto
      moreover have "cs \<noteq> []" using True by auto
      ultimately have "fat_entry v (unat c) = cs ! k"
        using chain_nth [OF file_chain(1) [OF i]] True by (auto simp: c_def)
      moreover have "cs ! k < n_fatent v" "2 \<le> cs ! k" using True dd(5) by simp_all
      ultimately have r: "r = cs ! k" "quiet v v'" using cr(4) c0 k0 by auto
      have "sclust (fobj fp) \<noteq> 0"
        using file_chain(2,3) [OF i] True rng [of "cs ! 0"] dd(5) by fastforce
      then have "write_cluster v fp = Some (Inr (Some ()), fp\<lparr>fclust := r\<rparr>, v')"
        using wc r rng [of "cs ! k"] \<open>cs ! k < n_fatent v\<close> \<open>2 \<le> cs ! k\<close> by simp
      moreover have "grows cs v fp cs v' (fp\<lparr>fclust := r\<rparr>)"
        using same [OF r(2)] same_file_grows by simp
      ultimately show ?thesis using True r(1) by auto
    next
      case last: False
      then have kl: "k = length cs" using k by simp
      have "\<not> (c \<noteq> 0 \<and> fat_entry v (unat c) < n_fatent v)"
      proof
        assume a: "c \<noteq> 0 \<and> fat_entry v (unat c) < n_fatent v"
        then have "k \<noteq> 0" using c0 by simp
        then have "cs \<noteq> []" "c = last cs" using kl by (auto simp: c_def last_conv_nth)
        then show False using a chain_end [OF file_chain(1) [OF i]] by (simp add: not_less [symmetric])
      qed
      note cr4 = cr(4) [unfolded if_not_P [OF this]]
      show ?thesis
      proof (cases "r = 0")
        case True
        then have "quiet v v'" "disk_full v" using cr4 by auto
        then show ?thesis using wc True same same_file_grows kl by simp
      next
        case False
        then have f: "2 \<le> r" "r < n_fatent v" "fat_only v v'" "in_fat v (unat (winsect v'))" "fat_entry v (unat r) = 0"
          "fat_entry v' (unat r) = fat_cut v" "c \<noteq> 0 \<longrightarrow> fat_entry v' (unat c) = r"
          "\<forall>d < unat (n_fatent v). d \<noteq> unat r \<longrightarrow> d \<noteq> unat c \<longrightarrow> fat_entry v' d = fat_entry v d"
          using cr4 by auto
        have cl: "cs \<noteq> [] \<Longrightarrow> c = last cs \<and> c \<noteq> 0" using kl c0 by (auto simp: c_def last_conv_nth)
        define fp' where "fp' = fp\<lparr>fobj := (fobj fp)\<lparr>sclust := (cs @ [r]) ! 0\<rparr>, fclust := r\<rparr>"
        have g: "grows cs v fp (cs @ [r]) v' fp'" unfolding fp'_def
        proof (rule append_cluster [OF i nb f(1,2,5,3) cr(2) f(4,6)])
          fix e
          assume "2 \<le> e" "e < unat (n_fatent v)" "e \<noteq> unat r" "cs \<noteq> [] \<Longrightarrow> e \<noteq> unat (last cs)"
          then show "fat_entry v' e = fat_entry v e" using f(8) cl kl c0 by (cases "cs = []") auto
        qed (use f(7) cl in metis)
        have "write_cluster v fp = Some (Inr (Some ()), fp', v')"
        proof (cases "cs = []")
          case True
          then have "k = 0" using kl by simp
          then show ?thesis using wc s0 rng [OF f(1,2)] True by (simp add: fp'_def)
        next
          case ne: False
          have "sclust (fobj fp) = cs ! 0" "sclust (fobj fp) \<noteq> 0"
            using file_chain(2,3) [OF i ne] rng [of "cs ! 0"] dd(5) ne by fastforce+
          then show ?thesis using wc rng [OF f(1,2)] ne by (simp add: fp'_def nth_append)
        qed
        then show ?thesis using g kl by (auto simp: fp'_def)
      qed
    qed
  qed
qed

section \<open>Writing\<close>

text \<open>\<open>writes cs v fp cs' v' fp' p data\<close>: the bytes \<open>data\<close> are now those of the file from position
  \<open>p\<close> on, the file has grown as far as needed, and no other byte of it has changed.\<close>

definition writes ::
    "DWORD list \<Rightarrow> vol \<Rightarrow> FIL \<Rightarrow> DWORD list \<Rightarrow> vol \<Rightarrow> FIL \<Rightarrow> nat \<Rightarrow> BYTE list \<Rightarrow> bool" where
  "writes cs v fp cs' v' fp' p data \<longleftrightarrow>
     (\<exists>ds. cs' = cs @ ds) \<and> file_inv v' fp' cs' \<and> \<not> bad_entry v' \<and> geo v' = geo v
     \<and> obj_fs (fobj fp') = obj_fs (fobj fp) \<and> obj_id (fobj fp') = obj_id (fobj fp) \<and> err fp' = err fp
     \<and> flag fp' AND (FA_READ OR FA_WRITE) = flag fp AND (FA_READ OR FA_WRITE)
     \<and> unat (objsize (fobj fp')) = max (unat (objsize (fobj fp))) (p + length data)
     \<and> (\<forall>i < max (unat (objsize (fobj fp))) (p + length data).
          file_byte v' fp' cs' i =
            (if p \<le> i \<and> i < p + length data then data ! (i - p) else file_byte v fp cs i))"

lemma file_byte_prefix:
  "0 < unat (csize v) \<Longrightarrow> i < SS * (unat (csize v) * length cs) \<Longrightarrow> file_byte v fp (cs @ ds) i = file_byte v fp cs i"
  by (simp add: file_byte_def file_sector_prefix less_mult_imp_div_less mult.commute)

lemma grows_byte:
  assumes g: "grows cs v fp cs' v' fp'" and d: "data_ok v cs" and i: "i < SS * (unat (csize v) * length cs)"
  shows "file_byte v' fp' cs' i = file_byte v fp cs i"
proof -
  obtain ds where ds: "cs' = cs @ ds" using g by (auto simp: grows_def)
  have geo: "geo v' = geo v" using g by (simp add: grows_def)
  have q: "i div SS < unat (csize v) * length cs" using i by (simp add: less_mult_imp_div_less mult.commute)
  have "file_byte v' fp' cs' i = file_byte v' fp' cs i"
    using file_byte_prefix [of v' i cs fp' ds] data_okD(8) [OF d] i geo_fields(6) [OF geo] by (simp add: ds)
  also have "\<dots> = file_byte v fp cs i"
    using g file_sector_in [OF q] by (simp add: file_byte_def grows_def file_sector_geo [OF geo])
  finally show ?thesis .
qed

text \<open>Writes after a growth, and one write after the other.\<close>

lemma grows_writes:
  assumes g: "grows cs v fp cs1 v1 fp1" and w: "writes cs1 v1 fp1 cs2 v2 fp2 p data" and i: "file_inv v fp cs"
    and p: "p \<le> unat (objsize (fobj fp))"
  shows "writes cs v fp cs2 v2 fp2 p data"
proof -
  note d = file_invD [OF i]
  have ob: "objsize (fobj fp1) = objsize (fobj fp)"
    using g by (simp add: grows_def)
  have "file_byte v2 fp2 cs2 i = (if p \<le> i \<and> i < p + length data then data ! (i - p) else file_byte v fp cs i)"
    if "i < max (unat (objsize (fobj fp))) (p + length data)" for i
  proof -
    have w2: "file_byte v2 fp2 cs2 i = (if p \<le> i \<and> i < p + length data then data ! (i - p) else file_byte v1 fp1 cs1 i)"
      using w that ob by (simp add: writes_def)
    show ?thesis
    proof (cases "p \<le> i \<and> i < p + length data")
      case False
      have "i < unat (objsize (fobj fp))" using that p False by linarith
      then have "i < SS * (unat (csize v) * length cs)" using d(3) by linarith
      then show ?thesis unfolding w2 if_not_P [OF False] by (rule grows_byte [OF g d(1)])
    qed (simp add: w2)
  qed
  then show ?thesis using g w ob by (auto simp: grows_def writes_def)
qed

lemma writes_writes:
  assumes w1: "writes cs v fp cs1 v1 fp1 p d1" and w2: "writes cs1 v1 fp1 cs2 v2 fp2 (p + length d1) d2"
    and p: "p \<le> unat (objsize (fobj fp))"
  shows "writes cs v fp cs2 v2 fp2 p (d1 @ d2)"
proof -
  let ?o = "unat (objsize (fobj fp))" and ?m = "length d1" and ?n = "length d2"
  have o1: "unat (objsize (fobj fp1)) = max ?o (p + ?m)" using w1 by (simp add: writes_def)
  have b1: "file_byte v1 fp1 cs1 i = (if p \<le> i \<and> i < p + ?m then d1 ! (i - p) else file_byte v fp cs i)"
    if "i < max ?o (p + ?m)" for i using w1 that by (simp add: writes_def)
  have b2: "file_byte v2 fp2 cs2 i = (if p + ?m \<le> i \<and> i < p + ?m + ?n then d2 ! (i - (p + ?m)) else file_byte v1 fp1 cs1 i)"
    if "i < max (max ?o (p + ?m)) (p + ?m + ?n)" for i using w2 that o1 by (simp add: writes_def)
  have "file_byte v2 fp2 cs2 i = (if p \<le> i \<and> i < p + length (d1 @ d2) then (d1 @ d2) ! (i - p) else file_byte v fp cs i)"
    if i: "i < max ?o (p + length (d1 @ d2))" for i
  proof -
    have "i < max (max ?o (p + ?m)) (p + ?m + ?n)" using i by auto
    note b2' = b2 [OF this]
    show ?thesis
    proof (cases "p + ?m \<le> i \<and> i < p + ?m + ?n")
      case True
      then show ?thesis using b2' by (auto simp: nth_append diff_diff_left)
    next
      case False
      then have "i < max ?o (p + ?m)" using i by auto
      then show ?thesis using b2' b1 False by (auto simp: nth_append)
    qed
  qed
  then show ?thesis using w1 w2 o1 by (auto simp: writes_def max.assoc)
qed

lemma advance_simps [simp]:
  "fptr (advance fp n) = fptr fp + n" "fclust (advance fp n) = fclust fp" "fsect (advance fp n) = fsect fp"
  "buf (advance fp n) = buf fp" "flag (advance fp n) = flag fp" "err (advance fp n) = err fp"
  "sclust (fobj (advance fp n)) = sclust (fobj fp)" "obj_fs (fobj (advance fp n)) = obj_fs (fobj fp)"
  "obj_id (fobj (advance fp n)) = obj_id (fobj fp)"
  by (simp_all add: advance_def Let_def)

lemma advance_size:
  assumes "unat (fptr fp) + unat n < 2 ^ 32"
  shows "unat (fptr fp + n) = unat (fptr fp) + unat n"
    and "unat (objsize (fobj (advance fp n))) = max (unat (objsize (fobj fp))) (unat (fptr fp) + unat n)"
proof -
  show p: "unat (fptr fp + n) = unat (fptr fp) + unat n" using assms by (intro unat_add_bound) simp
  show "unat (objsize (fobj (advance fp n))) = max (unat (objsize (fobj fp))) (unat (fptr fp) + unat n)"
    by (simp add: advance_def Let_def word_less_nat_alt p max_def not_less)
qed

lemma dirty_flags: "(x OR FA_DIRTY) AND FA_DIRTY \<noteq> (0 :: BYTE)" "(x OR FA_DIRTY) AND 3 = (x AND 3 :: BYTE)"
  by (simp_all add: bit.conj_disj_distrib2 word_ao_absorbs)

text \<open>The position after a write that stays within a sector, or fills sectors of one cluster.\<close>

lemma file_at_advance:
  assumes n: "unat (fptr fp) + unat n < 2 ^ 32" "0 < unat n"
    and c: "fclust fp = cs ! ((unat (fptr fp) + unat n - 1) div SS div unat (csize v))"
    and s: "(unat (fptr fp) + unat n) mod SS \<noteq> 0 \<Longrightarrow> unat (fsect fp) = file_sector v cs ((unat (fptr fp) + unat n) div SS)"
  shows "file_at v (advance fp n) cs"
  using c s advance_size [OF n(1)] n(2)
  by (auto simp: file_at_def word_le_nat_alt)

text \<open>Writing into the buffer, which then holds sector \<open>sect\<close> of the file. What the buffer held of
  that sector before must be right as far as the file reaches.\<close>

lemma buffered_write:
  assumes i: "file_inv v fp cs" and nb: "\<not> bad_entry v"
    and q: "unat (fptr fp) div SS < unat (csize v) * length cs" and s: "unat sect = file_sector v cs (unat (fptr fp) div SS)"
    and c: "fsect fp = sect \<or> \<not> dirty fp" and B: "length B = SS"
    and agree: "\<And>r. r < SS \<Longrightarrow> SS * (unat (fptr fp) div SS) + r < unat (objsize (fobj fp)) \<Longrightarrow> B ! r = fsec v fp (unat sect) ! r"
    and n: "0 < unat n" "unat (fptr fp) mod SS + unat n \<le> SS" "pos + unat n \<le> length b"
      "unat (fptr fp) + unat n < 2 ^ 32" and p: "fptr fp \<le> objsize (fobj fp)"
    and cl: "fclust fp = cs ! (unat (fptr fp) div SS div unat (csize v))"
  defines "fp' \<equiv> fp\<lparr>fsect := sect, buf := put_seg B (unat (fptr fp) mod SS) (seg b pos (unat n)), flag := flag fp OR FA_DIRTY\<rparr>"
  shows "writes cs v fp cs v (advance fp' n) (unat (fptr fp)) (seg b pos (unat n))" "file_at v (advance fp' n) cs"
proof -
  let ?f = "unat (fptr fp)" and ?n = "unat n" and ?q = "unat (fptr fp) div SS" and ?o = "unat (objsize (fobj fp))"
  note d = file_invD [OF i] and dd = data_okD [OF file_invD(1) [OF i]]
  have ls: "length (seg b pos ?n) = ?n" using n(3) by simp
  have f: "SS * ?q + ?f mod SS = ?f" by (rule mult_div_mod_eq)
  have sin: "unat sect \<in> file_sectors v cs" using file_sector_in [OF q] s by simp
  have size: "unat (objsize (fobj (advance fp' n))) = max ?o (?f + ?n)"
    using advance_size(2) [of fp' n] n(4) by (simp add: fp'_def)
  have "SS * Suc ?q \<le> SS * (unat (csize v) * length cs)" using q by (intro mult_le_mono2) simp
  then have "SS * ?q + SS \<le> SS * (unat (csize v) * length cs)" by simp
  then have cap: "?f + ?n \<le> SS * (unat (csize v) * length cs)" using f n(2) by linarith
  have inv: "file_inv v (advance fp' n) cs"
    using i sin B ls n(2) size cap dirty_flags(1) by (auto simp: file_inv_def fp'_def)
  have sec: "fsec v (advance fp' n) t = (if t = unat sect then buf fp' else fsec v fp t)" if "t \<in> file_sectors v cs" for t
    using c that i by (auto simp: fsec_def fp'_def file_inv_def)
  have byte: "file_byte v (advance fp' n) cs k = (if ?f \<le> k \<and> k < ?f + ?n then seg b pos ?n ! (k - ?f) else file_byte v fp cs k)"
    if k: "k < max ?o (?f + ?n)" for k
  proof -
    have "k < SS * (unat (csize v) * length cs)" using k cap d(3) by linarith
    then have kq: "k div SS < unat (csize v) * length cs" by (simp add: less_mult_imp_div_less mult.commute)
    note ks = sec [OF file_sector_in [OF kq]]
    show ?thesis
    proof (cases "k div SS = ?q")
      case True
      have kf: "k = SS * ?q + k mod SS" using True by (metis mult_div_mod_eq)
      have rng: "?f \<le> k \<and> k < ?f + ?n \<longleftrightarrow> ?f mod SS \<le> k mod SS \<and> k mod SS < ?f mod SS + ?n"
        using kf f by linarith
      have kd: "k - ?f = k mod SS - ?f mod SS" using kf f by linarith
      have "fsec v fp (unat sect) ! (k mod SS) = B ! (k mod SS)" if "\<not> (?f \<le> k \<and> k < ?f + ?n)"
      proof -
        have "k < ?o" using that k p by (auto simp: word_le_nat_alt)
        then show ?thesis using agree [of "k mod SS"] kf by simp
      qed
      then show ?thesis using True ks s B n(2) ls rng kd
        by (auto simp: file_byte_def fp'_def nth_put_seg)
    next
      case False
      have "file_sector v cs (k div SS) \<noteq> unat sect"
        using False file_sector_inj [OF dd(6,5,8) kq q] s by auto
      moreover have out: "\<not> (?f \<le> k \<and> k < ?f + ?n)"
      proof
        assume "?f \<le> k \<and> k < ?f + ?n"
        then have "SS * ?q \<le> k" "k < SS * ?q + SS" using f n(2) by linarith+
        then show False using False div_sector [of k ?q] by simp
      qed
      ultimately show ?thesis unfolding if_not_P [OF out] using ks by (simp add: file_byte_def)
    qed
  qed
  show "writes cs v fp cs v (advance fp' n) ?f (seg b pos ?n)"
    using inv nb size byte dirty_flags(2) ls by (simp add: writes_def fp'_def)
  show "file_at v (advance fp' n) cs"
    by (rule file_at_advance) (use n sector_move [OF n(2,1)] cl s in \<open>simp_all add: fp'_def\<close>)
qed

text \<open>Whole sectors go to the drive, and the buffer follows if it holds one of them.\<close>

lemma disk_write_many:
  assumes "healthy v" and "unat cc * SS < 2 ^ 32"
  shows "disk_write (pdrv v) data s cc (drv v) =
    (RES_OK, (drv v)\<lparr>sectors := store_sectors (sectors (drv v)) (unat s) (unat cc) data\<rparr>)"
proof -
  have "unat (cc * SS) = unat cc * SS" using assms(2) by (subst unat_mult_bound) simp_all
  then show ?thesis using assms(1)
    by (simp add: healthy_def disk_write_def dev_write_def next_fault_def Let_def not_le)
qed

lemma run_hit:
  fixes f s cc :: DWORD
  assumes "unat s + unat cc \<le> 2 ^ 32"
  shows "f - s < cc \<longleftrightarrow> unat s \<le> unat f \<and> unat f < unat s + unat cc"
    and "f - s < cc \<Longrightarrow> unat (f - s) = unat f - unat s"
proof -
  have hit: "unat s \<le> unat f \<and> unat f < unat s + unat cc \<and> unat (f - s) = unat f - unat s" if "f - s < cc"
  proof -
    have l: "unat (f - s) < unat cc" using that by (simp add: word_less_nat_alt)
    have "unat (s + (f - s)) = unat s + unat (f - s)" by (rule unat_add_bound) (use l assms in simp)
    then show ?thesis using l by simp
  qed
  moreover have "f - s < cc" if "unat s \<le> unat f" "unat f < unat s + unat cc"
    using unat_sub [of s f] that by (simp add: word_le_nat_alt word_less_nat_alt)
  ultimately show "f - s < cc \<longleftrightarrow> unat s \<le> unat f \<and> unat f < unat s + unat cc"
    "f - s < cc \<Longrightarrow> unat (f - s) = unat f - unat s" by blast+
qed

lemma write_direct_file:
  assumes i: "file_inv v fp cs" and nb: "\<not> bad_entry v" and nd: "\<not> dirty fp"
    and w: "write_direct v fp b pos sect cc = (ok, fp', v')"
    and q: "q mod unat (csize v) + unat cc \<le> unat (csize v)" "q < unat (csize v) * length cs"
    and s: "unat sect = file_sector v cs q" and b: "pos + SS * unat cc \<le> length b"
    and f: "unat (fptr fp) = SS * q" "fptr fp \<le> objsize (fobj fp)" and n: "0 < unat cc" "SS * q + SS * unat cc < 2 ^ 32"
    and cl: "fclust fp = cs ! (q div unat (csize v))"
  shows "ok" "fptr fp' = fptr fp"
    "writes cs v fp cs v' (advance fp' (SS * cc)) (SS * q) (seg b pos (SS * unat cc))"
    "file_at v' (advance fp' (SS * cc)) cs"
proof -
  let ?n = "unat cc" and ?o = "unat (objsize (fobj fp))" and ?m = "unat (csize v)"
  note d = file_invD [OF i] and dd = data_okD [OF file_invD(1) [OF i]]
  note fs = file_run [OF dd(8) q]
  define g where "g = store_sectors (sectors (drv v)) (unat sect) ?n (drop pos b)"
  define hit where "hit = (fsect fp - sect < cc)"
  have end_b: "file_sector v cs (q + (?n - 1)) < 0xFFFFFFFF"
    by (rule file_sectors_data(3) [OF dd(3,5) file_sector_in [OF fs(2)]]) (use n(1) in simp)
  then have sb: "unat sect + ?n \<le> 2 ^ 32" using fs(1) [of "?n - 1"] n(1) s by simp
  note rh = run_hit [OF sb, of "fsect fp", folded hit_def]
  have "?n * SS < 2 ^ 32" using n(2) by simp
  note dw = disk_write_many [OF dd(2) this, of "drop pos b" sect]
  define fp1 where "fp1 = (if hit then fp\<lparr>buf := mem_cpy (buf fp) 0 b (pos + unat ((fsect fp - sect) * SS)) SS,
      flag := flag fp AND NOT FA_DIRTY\<rparr> else fp)"
  have e: "ok" "fp' = fp1" "v' = v\<lparr>drv := (drv v)\<lparr>sectors := g\<rparr>\<rparr>"
    using w dw by (auto simp: write_direct_def Let_def g_def fp1_def hit_def)
  show "ok" by (rule e)
  show "fptr fp' = fptr fp" by (simp add: e(2) fp1_def)
  have gin: "g (unat sect + a) = seg b (pos + SS * a) SS" if "a < ?n" for a
    using that by (simp add: g_def store_sectors_def seg_def add.commute)
  have gout: "g t = sectors (drv v) t" if "\<not> (unat sect \<le> t \<and> t < unat sect + ?n)" for t
    by (simp only: g_def store_sectors_def if_not_P [OF that])
  have lseg: "length (seg b (pos + SS * a) SS) = SS" if "a < ?n" for a
  proof -
    have "SS * Suc a \<le> SS * ?n" using that by (intro mult_le_mono2) simp
    then show ?thesis using b by simp
  qed
  have run: "t \<in> file_sectors v cs" if "unat sect \<le> t" "t < unat sect + ?n" for t
  proof -
    have "t - unat sect < ?n" "t = unat sect + (t - unat sect)" using that by simp_all
    then show ?thesis using fs [of "t - unat sect"] file_sector_in [of "q + (t - unat sect)" v cs] s by simp
  qed
  have go: "\<And>t. t \<notin> file_sectors v cs \<Longrightarrow> g t = sectors (drv v) t" using run gout by blast
  have gl: "\<And>t. length (g t) = SS"
  proof -
    fix t
    show "length (g t) = SS"
    proof (cases "unat sect \<le> t \<and> t < unat sect + ?n")
      case True
      then have a: "t - unat sect < ?n" "t = unat sect + (t - unat sect)" by linarith+
      show ?thesis using lseg [OF a(1)] gin [OF a(1)] a(2) by simp
    next
      case False
      then show ?thesis using gout dd(10) by (simp add: wf_vol_def)
    qed
  qed
  note st = store_data [OF d(1) go gl, folded e(3)]
  have geo: "csize v' = csize v" "n_fatent v' = n_fatent v" "file_sectors v' cs = file_sectors v cs"
    "file_sector v' cs = file_sector v cs"
    using geo_fields(6,7) [OF st(2)] file_sectors_geo [OF st(2)] file_sector_geo [OF st(2)] by simp_all
  have nb': "\<not> bad_entry v'" using nb st(3) geo(2) by (auto simp: bad_entry_def)
  \<comment> \<open>the buffer after the write\<close>
  have bf: "buf fp1 = seg b (pos + SS * (unat (fsect fp) - unat sect)) SS" "unat (fsect fp) - unat sect < ?n" if hit
  proof -
    let ?a = "unat (fsect fp) - unat sect"
    have "unat sect \<le> unat (fsect fp)" "unat (fsect fp) < unat sect + ?n" using rh(1) that by simp_all
    then show a: "?a < ?n" by linarith
    have "SS * Suc ?a \<le> SS * ?n" using a by (intro mult_le_mono2) simp
    then have "SS * ?a + SS \<le> SS * ?n" by simp
    moreover have "unat ((fsect fp - sect) * SS) = SS * ?a"
      using rh(2) that calculation n(2) by (subst unat_mult_bound) simp_all
    ultimately show "buf fp1 = seg b (pos + SS * ?a) SS"
      using that b d(2) mem_cpy_seg [of 0 SS "buf fp" "pos + SS * ?a" b] lseg [OF a] by (simp add: fp1_def put_seg_def)
  qed
  have nd1: "\<not> dirty fp1" using nd by (simp add: fp1_def and.assoc)
  have fl: "flag fp1 AND 3 = flag fp AND 3" by (simp add: fp1_def and.assoc)
  have fp1: "fptr fp1 = fptr fp" "fclust fp1 = fclust fp" "fsect fp1 = fsect fp" "fobj fp1 = fobj fp" "err fp1 = err fp"
    by (simp_all add: fp1_def)
  have l1: "length (buf fp1) = SS" using bf lseg d(2) by (cases hit) (simp_all add: fp1_def)
  have clean: "buf fp1 = g (unat (fsect fp))" if "unat (fsect fp) \<in> file_sectors v cs"
  proof (cases hit)
    case True
    then have "unat sect \<le> unat (fsect fp)" using rh(1) by simp
    then have "unat sect + (unat (fsect fp) - unat sect) = unat (fsect fp)" by simp
    then show ?thesis using bf(1) [OF True] gin [OF bf(2) [OF True]] by simp
  next
    case False
    have "g (unat (fsect fp)) = sectors (drv v) (unat (fsect fp))" by (rule gout) (use rh(1) False in blast)
    moreover have "buf fp = sectors (drv v) (unat (fsect fp))" using that i nd by (simp add: file_inv_def)
    ultimately show ?thesis using False by (simp only: fp1_def if_False)
  qed
  have um: "unat (SS * cc) = SS * ?n" using n(2) by (subst unat_mult_bound) simp_all
  have nn: "unat (fptr fp1) + unat (SS * cc) < 2 ^ 32" using um f(1) n(2) fp1(1) by simp
  have size: "unat (objsize (fobj (advance fp1 (SS * cc)))) = max ?o (SS * q + SS * ?n)"
    using advance_size(2) [OF nn] fp1 f(1) um by simp
  have "q + ?n \<le> ?m * length cs" using fs(2) [of "?n - 1"] n(1) by simp
  then have "SS * (q + ?n) \<le> SS * (?m * length cs)" by (intro mult_le_mono2)
  then have cap: "SS * q + SS * ?n \<le> SS * (?m * length cs)" by (simp add: distrib_left)
  have inv: "file_inv v' (advance fp1 (SS * cc)) cs"
  proof -
    have "chain (fat_entry v') (n_fatent v) (sclust (fobj fp)) cs" if "chain (fat_entry v) (n_fatent v) (sclust (fobj fp)) cs"
      using that by (rule chain_cong) (use dd(5) st(3) in \<open>auto simp: word_less_nat_alt\<close>)
    moreover have "unat (objsize (fobj (advance fp1 (SS * cc)))) \<le> SS * (?m * length cs)" using size cap d(3) by simp
    moreover have "sectors (drv v') = g" by (simp add: e(3))
    ultimately show ?thesis using i st(1) l1 clean nd1 nd geo by (simp add: file_inv_def fp1)
  qed
  have byte: "file_byte v' (advance fp1 (SS * cc)) cs k =
      (if SS * q \<le> k \<and> k < SS * q + SS * ?n then seg b pos (SS * ?n) ! (k - SS * q) else file_byte v fp cs k)"
    if k: "k < max ?o (SS * q + SS * ?n)" for k
  proof -
    have "k < SS * (?m * length cs)" using k cap d(3) by linarith
    then have kq: "k div SS < ?m * length cs" by (simp add: less_mult_imp_div_less mult.commute)
    have sec: "fsec v' (advance fp1 (SS * cc)) t = g t" if "t \<in> file_sectors v cs" for t
      using clean that by (auto simp: fsec_def fp1 e(3))
    note ks = sec [OF file_sector_in [OF kq]]
    show ?thesis
    proof (cases "q \<le> k div SS \<and> k div SS < q + ?n")
      case True
      define a where "a = k div SS - q"
      have a: "a < ?n" "k div SS = q + a" using True by (auto simp: a_def)
      have kk: "k = SS * (q + a) + k mod SS" using a(2) by (metis mult_div_mod_eq)
      have sa: "SS * a + SS \<le> SS * ?n"
      proof -
        have "SS * Suc a \<le> SS * ?n" using a(1) by (intro mult_le_mono2) simp
        then show ?thesis by simp
      qed
      have m: "k mod SS < SS" by simp
      have rng: "SS * q \<le> k \<and> k < SS * q + SS * ?n" using kk sa m by (simp add: distrib_left)
      have "g (unat sect + a) ! (k mod SS) = b ! (pos + SS * a + k mod SS)"
        using gin [OF a(1)] b sa m by (simp add: nth_seg)
      moreover have "seg b pos (SS * ?n) ! (k - SS * q) = b ! (pos + SS * a + k mod SS)"
      proof -
        have "k - SS * q = SS * a + k mod SS" using kk unfolding distrib_left by linarith
        moreover have "SS * a + k mod SS < SS * ?n" using sa m by linarith
        ultimately show ?thesis using b by (simp add: nth_seg add.assoc)
      qed
      ultimately show ?thesis using rng ks fs(1) [OF a(1)] s a(2) geo by (simp add: file_byte_def)
    next
      case False
      have out: "\<not> (SS * q \<le> k \<and> k < SS * q + SS * ?n)"
      proof
        assume o: "SS * q \<le> k \<and> k < SS * q + SS * ?n"
        then have "q \<le> k div SS" by (simp add: less_eq_div_iff_mult_less_eq mult.commute)
        moreover have "k div SS < q + ?n" using o by (simp add: div_less_iff_less_mult distrib_left mult.commute)
        ultimately show False using False by simp
      qed
      have "\<not> (unat sect \<le> file_sector v cs (k div SS) \<and> file_sector v cs (k div SS) < unat sect + ?n)"
      proof
        assume t: "unat sect \<le> file_sector v cs (k div SS) \<and> file_sector v cs (k div SS) < unat sect + ?n"
        define a where "a = file_sector v cs (k div SS) - unat sect"
        have "a < ?n" "file_sector v cs (k div SS) = file_sector v cs (q + a)"
          using t fs(1) [of a] s by (auto simp: a_def)
        then have "k div SS = q + a" using file_sector_inj [OF dd(6,5,8) kq fs(2)] by simp
        then show False using False \<open>a < ?n\<close> by simp
      qed
      then have "g (file_sector v cs (k div SS)) = fsec v fp (file_sector v cs (k div SS))"
        using gout i nd file_sector_in [OF kq] by (auto simp: fsec_def file_inv_def)
      then show ?thesis unfolding if_not_P [OF out] using ks geo by (simp add: file_byte_def)
    qed
  qed
  show "writes cs v fp cs v' (advance fp' (SS * cc)) (SS * q) (seg b pos (SS * ?n))"
    using inv nb' st(2) size byte fl b by (simp add: writes_def e(2) fp1)
  obtain r where r: "?n = Suc r" using n(1) by (cases ?n) auto
  have "(q + r) div ?m = q div ?m"
  proof -
    have "q mod ?m + r < ?m" using q(1) r by simp
    then have "?m * (q div ?m) \<le> q + r" "q + r < ?m * (q div ?m) + ?m" using mult_div_mod_eq [of ?m q] by linarith+
    then show ?thesis by (intro div_nat_eqI) simp_all
  qed
  moreover have "(SS * q + SS * ?n - 1) div SS = q + r" using r by simp
  ultimately have dv: "(SS * q + SS * ?n - 1) div SS div ?m = q div ?m" by (simp add: distrib_left)
  show "file_at v' (advance fp' (SS * cc)) cs" unfolding e(2)
  proof (rule file_at_advance [OF nn])
    show "0 < unat (SS * cc)" using um n(1) by simp
    show "fclust fp1 = cs ! ((unat (fptr fp1) + unat (SS * cc) - 1) div SS div unat (csize v'))"
      using dv um f(1) cl geo(1) by (simp add: fp1)
    assume "(unat (fptr fp1) + unat (SS * cc)) mod SS \<noteq> 0"
    then show "unat (fsect fp1) = file_sector v' cs ((unat (fptr fp1) + unat (SS * cc)) div SS)"
      using um f(1) fp1(1) by simp
  qed
qed

lemma writes_fptr [simp]: "writes cs v fp cs' v' (fp'\<lparr>fptr := x\<rparr>) p data = writes cs v fp cs' v' fp' p data"
  by (simp add: writes_def)

text \<open>One round of the loop.\<close>

lemma write_sector_file:
  assumes i: "file_inv v fp cs" and nb: "\<not> bad_entry v" and p: "fptr fp \<le> objsize (fobj fp)"
    and f: "unat (fptr fp) = SS * q" and q: "q < unat (csize v) * length cs"
    and cl: "fclust fp = cs ! (q div unat (csize v))" and cs0: "unat csect = q mod unat (csize v)"
    and btw: "0 < btw" and b: "pos + unat btw \<le> length b" and max: "unat (fptr fp) + unat btw < 2 ^ 32"
    and w: "write_sector v fp b pos btw csect = (res, fp', v')"
  shows "\<exists>n. res = Inr n \<and> 0 < n \<and> n \<le> btw \<and> fptr fp' = fptr fp \<and>
    writes cs v fp cs v' (advance fp' n) (SS * q) (seg b pos (unat n)) \<and> file_at v' (advance fp' n) cs"
proof -
  let ?n = "unat (csize v)"
  note d = file_invD [OF i] and dd = data_okD [OF file_invD(1) [OF i]]
  obtain ok1 fp1 v1 where fl: "flush_buf v fp = (ok1, fp1, v1)" by (metis prod_cases3)
  note fl' = flush_buf_file [OF i fl]
  have i1: "file_inv v1 fp1 cs" and geo1: "geo v1 = geo v" and ob1: "fobj fp1 = fobj fp" using fl'(2) by (simp_all add: same_file_def)
  have nb1: "\<not> bad_entry v1" using fl'(8) nb by simp
  have gr: "grows cs v fp cs v1 fp1" by (rule same_file_grows [OF fl'(2) nb1])
  note dd1 = data_okD [OF file_invD(1) [OF i1]]
  have k: "q div ?n < length cs" using q by (simp add: less_mult_imp_div_less mult.commute)
  have rng: "2 \<le> fclust fp" "fclust fp < n_fatent v1" using dd(5) k cl geo_fields(7) [OF geo1] by simp_all
  have km: "q mod ?n < unat (csize v1)" using dd(8) geo_fields(6) [OF geo1] by simp
  define sect where "sect = clst2sect v1 (fclust fp) + csect"
  note c2 = clst2sect_data [OF dd1(3) rng km]
  have "csect = of_nat (q mod ?n)" unfolding cs0 [symmetric] by simp
  then have sect: "unat sect = file_sector v cs q"
    using c2(1) geo_fields(6,12) [OF geo1] cl by (simp add: sect_def file_sector_def)
  define cc where "cc = btw div SS"
  have step: "(res, fp', v') = (if cc > 0 then
        (let cc = (if csect + cc > ucast (csize v1) then ucast (csize v1) - csect else cc) in
         case write_direct v1 fp1 b pos sect cc of (ok, fp, v) \<Rightarrow>
         if \<not> ok then (Inl FR_DISK_ERR, fp, v) else (Inr (SS * cc), fp, v))
      else
        case (if fsect fp1 \<noteq> sect \<and> fptr fp1 < objsize (fobj fp1) then fill_buf v1 fp1 sect
              else (True, fp1, v1)) of (ok, fp, v) \<Rightarrow>
        if \<not> ok then (Inl FR_DISK_ERR, fp, v)
        else
          case write_partial (fp\<lparr>fsect := sect\<rparr>) b pos btw of (wcnt, fp) \<Rightarrow> (Inr wcnt, fp, v))"
    using w fl fl'(1,5) c2(3) by (simp add: write_sector_def Let_def flip: sect_def cc_def)
  have q1: "q < unat (csize v1) * length cs" "fclust fp1 = cs ! (q div unat (csize v1))" "unat sect = file_sector v1 cs q"
    "unat (fptr fp1) = SS * q" "fptr fp1 \<le> objsize (fobj fp1)"
    using q cl fl'(4,5) f p ob1 sect geo_fields(6) [OF geo1] file_sector_geo [OF geo1] by simp_all
  have p': "SS * q \<le> unat (objsize (fobj fp))" using p f by (simp add: word_le_nat_alt)
  show ?thesis
  proof (cases "cc > 0")
    case many: True
    define c where "c = (if csect + cc > ucast (csize v1) then ucast (csize v1) - csect else cc)"
    have "unat csect < unat (csize v1)" "unat (csize v1) \<le> 128" "0 < btw div SS"
      using cs0 km dd(9) geo_fields(6) [OF geo1] many by (simp_all add: cc_def)
    note cp = clip_count [OF this, folded cc_def, folded c_def]
    obtain ok2 fp2 v2 where wd: "write_direct v1 fp1 b pos sect c = (ok2, fp2, v2)" by (metis prod_cases3)
    have "q mod unat (csize v1) + unat c \<le> unat (csize v1)" "pos + SS * unat c \<le> length b" "SS * q + SS * unat c < 2 ^ 32"
      using cp(2,3) cs0 geo_fields(6) [OF geo1] b max f by simp_all
    note wd' = write_direct_file [OF i1 nb1 fl'(3) wd this(1) q1(1,3) this(2) q1(4,5) cp(1) this(3) q1(2)]
    have e: "res = Inr (SS * c)" "fp' = fp2" "v' = v2"
      using step [unfolded if_P [OF many] Let_def, folded c_def, unfolded wd prod.case] wd'(1) by simp_all
    have "0 < SS * c" "SS * c \<le> btw" using cp by (simp_all add: word_less_nat_alt word_le_nat_alt)
    then show ?thesis using e wd'(2-4) fl'(4) grows_writes [OF gr wd'(3) i p'] cp(4)
      by (intro exI [of _ "SS * c"]) simp
  next
    case few: False
    define fill where "fill = (fsect fp1 \<noteq> sect \<and> fptr fp1 < objsize (fobj fp1))"
    obtain ok2 fp2 v2 where fi: "(if fill then fill_buf v1 fp1 sect else (True, fp1, v1)) = (ok2, fp2, v2)"
      by (metis prod_cases3)
    have sin: "unat sect \<in> file_sectors v1 cs" using file_sector_in [OF q1(1)] q1(3) by simp
    have e2: "ok2" "v2 = v1" "fp2 = fp1\<lparr>buf := if fill then sectors (drv v1) (unat sect) else buf fp1\<rparr>"
    proof -
      have "ok2 \<and> v2 = v1 \<and> fp2 = fp1\<lparr>buf := if fill then sectors (drv v1) (unat sect) else buf fp1\<rparr>"
      proof (cases fill)
        case True
        then show ?thesis using fill_buf_file(1-3) [OF i1 fl'(3) sin, of ok2 fp2 v2] fi by simp
      next
        case False
        then show ?thesis using fi by auto
      qed
      then show "ok2" "v2 = v1" "fp2 = fp1\<lparr>buf := if fill then sectors (drv v1) (unat sect) else buf fp1\<rparr>" by simp_all
    qed
    define m where "m = (if SS - fptr fp1 mod SS > btw then btw else SS - fptr fp1 mod SS)"
    note sr = sector_rest [OF btw, of "fptr fp1", folded m_def]
    have f0: "unat (fptr fp1) mod SS = 0" "unat (fptr fp1) div SS = q" using q1(4) by simp_all
    have mb: "unat m \<le> unat btw" using sr(2) by (simp add: word_le_nat_alt)
    have wp: "write_partial (fp2\<lparr>fsect := sect\<rparr>) b pos btw =
      (m, fp2\<lparr>fsect := sect, buf := mem_cpy (buf fp2) 0 b pos (unat m), flag := flag fp2 OR FA_DIRTY\<rparr>)"
      using sr(4) f0(1) e2(3) by (simp add: write_partial_def Let_def m_def)
    have lb: "length (buf fp2) = SS" using e2(3) file_invD(2) [OF i1] dd1(10) by (simp add: wf_vol_def)
    have ms: "unat m \<le> SS" using sr(3) by simp
    have bf: "mem_cpy (buf fp2) 0 b pos (unat m) = put_seg (buf fp2) 0 (seg b pos (unat m))"
      by (rule mem_cpy_seg) (use ms lb b mb in simp_all)
    have e: "res = Inr m" "v' = v1"
      "fp' = fp1\<lparr>fsect := sect, buf := put_seg (buf fp2) (unat (fptr fp1) mod SS) (seg b pos (unat m)), flag := flag fp1 OR FA_DIRTY\<rparr>"
      using step [unfolded if_not_P [OF few], folded fill_def, unfolded fi prod.case] e2 wp bf f0(1) by simp_all
    have agree: "buf fp2 ! r = fsec v1 fp1 (unat sect) ! r"
      if "r < SS" "SS * (unat (fptr fp1) div SS) + r < unat (objsize (fobj fp1))" for r
    proof (cases fill)
      case True
      then have "unat sect \<noteq> unat (fsect fp1)" unfolding fill_def by (metis word_unat_eq_iff)
      then show ?thesis using True e2(3) by (simp add: fsec_def)
    next
      case False
      have "fptr fp1 < objsize (fobj fp1)" using that(2) q1(4) f0(2) by (simp add: word_less_nat_alt)
      then have "fsect fp1 = sect" using False by (simp add: fill_def)
      then show ?thesis using False e2(3) by (simp add: fsec_def)
    qed
    have "unat (fptr fp1) div SS < unat (csize v1) * length cs" "unat sect = file_sector v1 cs (unat (fptr fp1) div SS)"
      "fsect fp1 = sect \<or> \<not> dirty fp1" "0 < unat m" "unat (fptr fp1) mod SS + unat m \<le> SS" "pos + unat m \<le> length b"
      "unat (fptr fp1) + unat m < 2 ^ 32" "fclust fp1 = cs ! (unat (fptr fp1) div SS div unat (csize v1))"
      using q1 f0 fl'(3,4) ms mb b max f sr(1) by (simp_all add: unat_gt_0)
    note bw = buffered_write [OF i1 nb1 this(1-3) lb agree this(4-7) q1(5) this(8), folded e(3)]
    have "writes cs v1 fp1 cs v1 (advance fp' m) (SS * q) (seg b pos (unat m))" using bw(1) q1(4) by simp
    from grows_writes [OF gr this i p'] show ?thesis using e bw(2) sr(1,2) fl'(4) by simp
  qed
qed

lemma write_round_file:
  assumes i: "file_inv v fp cs" and at: "file_at v fp cs" and nb: "\<not> bad_entry v"
    and btw: "0 < btw" and b: "pos + unat btw \<le> length b" and max: "unat (fptr fp) + unat btw < 2 ^ 32"
  shows "\<exists>r fp' v' cs'. write_round v fp b pos btw = Some (r, fp', v') \<and>
    (r = Inr None \<and> grows cs v fp cs v' fp' \<and> file_at v' fp' cs \<and> fptr fp' = fptr fp \<and> disk_full v' \<and> unat (fptr fp) = SS * (unat (csize v) * length cs) \<or>
     (\<exists>n. r = Inr (Some n) \<and> 0 < n \<and> n \<le> btw \<and> fptr fp' = fptr fp \<and>
        writes cs v fp cs' v' (advance fp' n) (unat (fptr fp)) (seg b pos (unat n)) \<and> file_at v' (advance fp' n) cs'))"
proof -
  let ?f = "unat (fptr fp)" and ?n = "unat (csize v)"
  note d = file_invD [OF i] and dd = data_okD [OF file_invD(1) [OF i]]
  have p: "fptr fp \<le> objsize (fobj fp)" using at by (simp add: file_at_def)
  then have pn: "?f \<le> unat (objsize (fobj fp))" by (simp add: word_le_nat_alt)
  have "unat (fptr fp mod SS) = ?f mod SS" by (subst unat_mod) simp
  then have mod0: "fptr fp mod SS = 0 \<longleftrightarrow> ?f mod SS = 0" by (metis unsigned_eq_0_iff)
  show ?thesis
  proof (cases "?f mod SS = 0")
    case False
    \<comment> \<open>within a sector, which the buffer holds\<close>
    have "?f \<le> SS * (?n * length cs)" using pn d(3) by linarith
    moreover have "?f \<noteq> SS * (?n * length cs)" using False by (metis mod_mult_self1_is_0)
    ultimately have q: "?f div SS < ?n * length cs" by (simp add: div_less_iff_less_mult mult.commute)
    have "(?f - 1) div SS = ?f div SS" using False by (cases ?f) (auto simp: div_Suc)
    moreover have "fptr fp \<noteq> 0" using False by auto
    ultimately have cl: "fclust fp = cs ! (?f div SS div ?n)" using at by (simp add: file_at_def)
    have s: "unat (fsect fp) = file_sector v cs (?f div SS)" using at False by (simp add: file_at_def)
    define m where "m = (if SS - fptr fp mod SS > btw then btw else SS - fptr fp mod SS)"
    note sr = sector_rest [OF btw, of "fptr fp", folded m_def]
    have mb: "unat m \<le> unat btw" using sr(2) by (simp add: word_le_nat_alt)
    have ms: "?f mod SS + unat m \<le> SS" using sr(3) by (simp add: le_diff_conv2 less_imp_le add.commute)
    have bf: "mem_cpy (buf fp) (?f mod SS) b pos (unat m) = put_seg (buf fp) (?f mod SS) (seg b pos (unat m))"
      by (rule mem_cpy_seg) (use ms d(2) b mb in simp_all)
    define fp' where "fp' = fp\<lparr>fsect := fsect fp, buf := put_seg (buf fp) (?f mod SS) (seg b pos (unat m)), flag := flag fp OR FA_DIRTY\<rparr>"
    have r: "write_round v fp b pos btw = Some (Inr (Some m), fp', v)"
      using False mod0 sr(4) bf by (simp add: write_round_def write_partial_def Let_def m_def fp'_def)
    have "0 < unat m" "pos + unat m \<le> length b" "?f + unat m < 2 ^ 32" using sr(1) b mb max by (simp_all add: unat_gt_0)
    note bw = buffered_write [OF i nb q s _ d(2) _ this(1) ms this(2,3) p cl, folded fp'_def]
    have "buf fp ! r = fsec v fp (unat (fsect fp)) ! r" for r by (simp add: fsec_def)
    then have "writes cs v fp cs v (advance fp' m) ?f (seg b pos (unat m))" "file_at v (advance fp' m) cs"
      using bw by blast+
    then show ?thesis using r sr(1,2) by (auto simp: fp'_def)
  next
    case True
    define q where "q = ?f div SS"
    have f: "?f = SS * q" using True by (simp add: q_def) (metis mult_div_mod_eq add.right_neutral)
    define csect where "csect = (fptr fp div SS) AND (ucast (csize v) - 1)"
    have cs0: "unat csect = q mod ?n" using csect_nat [OF dd(3)] by (simp add: csect_def q_def)
    have c0: "csect = 0 \<longleftrightarrow> q mod ?n = 0" by (simp flip: cs0 add: unsigned_eq_0_iff)
    define w where "w = (if csect = 0 then write_cluster v fp else Some (Inr (Some ()), fp, v))"
    have step: "write_round v fp b pos btw = do {
        (r, fp, v) \<leftarrow> w;
        (case r of
           Inl res \<Rightarrow> Some (Inl res, fp, v)
         | Inr None \<Rightarrow> Some (Inr None, fp, v)
         | Inr (Some _) \<Rightarrow>
             (case write_sector v fp b pos btw csect of
                (Inl res, fp, v) \<Rightarrow> Some (Inl res, fp, v)
              | (Inr n, fp, v) \<Rightarrow> Some (Inr (Some n), fp, v))) }"
      using True mod0 by (simp add: write_round_def Let_def w_def flip: csect_def)
    \<comment> \<open>the cluster step\<close>
    have "(\<exists>v1. w = Some (Inr None, fp, v1) \<and> grows cs v fp cs v1 fp \<and> disk_full v1 \<and> q = ?n * length cs) \<or>
      (\<exists>fp1 v1 cs1. w = Some (Inr (Some ()), fp1, v1) \<and> grows cs v fp cs1 v1 fp1 \<and> q < ?n * length cs1
        \<and> fclust fp1 = cs1 ! (q div ?n) \<and> fptr fp1 = fptr fp)"
    proof (cases "csect = 0")
      case True
      define k where "k = q div ?n"
      have k: "q = ?n * k" using True c0 by (simp add: k_def) (metis mult_div_mod_eq add.right_neutral)
      obtain r fp1 v1 where wc: "write_cluster v fp = Some (r, fp1, v1)" and
        alt: "r = Inr None \<and> fp1 = fp \<and> grows cs v fp cs v1 fp \<and> disk_full v1 \<and> k = length cs \<or>
          r = Inr (Some ()) \<and> (\<exists>cs1. grows cs v fp cs1 v1 fp1 \<and> k < length cs1 \<and> fclust fp1 = cs1 ! k
          \<and> fptr fp1 = fptr fp \<and> fsect fp1 = fsect fp \<and> buf fp1 = buf fp \<and> flag fp1 = flag fp)"
        using write_cluster_file [OF i at nb f k] by blast
      have w1: "w = Some (r, fp1, v1)" using wc True by (simp add: w_def)
      have kd: "q div ?n = k" by (simp add: k_def)
      from alt show ?thesis
      proof (elim disjE exE conjE)
        assume "r = Inr None" "fp1 = fp" "grows cs v fp cs v1 fp" "disk_full v1" "k = length cs"
        then show ?thesis using w1 k by auto
      next
        fix cs1
        assume "r = Inr (Some ())" "grows cs v fp cs1 v1 fp1" "k < length cs1" "fclust fp1 = cs1 ! k" "fptr fp1 = fptr fp"
        moreover from this have "q < ?n * length cs1" using k dd(8) by simp
        ultimately show ?thesis using w1 unfolding kd by blast
      qed
    next
      case False
      then have qm: "q mod ?n \<noteq> 0" using c0 by simp
      then obtain r where r: "q = Suc r" by (cases q) auto
      have "(?f - 1) div SS div ?n = q div ?n" using r qm f by (simp add: div_Suc)
      moreover have "fptr fp \<noteq> 0" using f r by auto
      ultimately have cl: "fclust fp = cs ! (q div ?n)" using at by (simp add: file_at_def)
      have "SS * q \<le> SS * (?n * length cs)" using pn d(3) f by linarith
      then have "q \<le> ?n * length cs" by simp
      moreover have "q \<noteq> ?n * length cs" using qm by auto
      ultimately have "q < ?n * length cs" by simp
      then show ?thesis using False cl i nb same_file_grows [OF same_file_refl [OF i]] by (auto simp: w_def)
    qed
    then show ?thesis
    proof (elim disjE exE conjE)
      fix v1
      assume "w = Some (Inr None, fp, v1)" and g: "grows cs v fp cs v1 fp" and "disk_full v1" "q = ?n * length cs"
      moreover have geo1: "geo v1 = geo v" using g by (simp add: grows_def)
      have "file_at v1 fp cs" using at by (simp add: file_at_def geo_fields(6) [OF geo1] file_sector_geo [OF geo1])
      ultimately show ?thesis using step f by simp
    next
      fix fp1 v1 cs1
      assume w: "w = Some (Inr (Some ()), fp1, v1)" and g: "grows cs v fp cs1 v1 fp1" and q1: "q < ?n * length cs1"
        and cl: "fclust fp1 = cs1 ! (q div ?n)" and f1: "fptr fp1 = fptr fp"
      have geo1: "geo v1 = geo v" and i1: "file_inv v1 fp1 cs1" and nb1: "\<not> bad_entry v1"
        and ob: "objsize (fobj fp1) = objsize (fobj fp)" using g by (simp_all add: grows_def)
      obtain res fp2 v2 where ws: "write_sector v1 fp1 b pos btw csect = (res, fp2, v2)" by (metis prod_cases3)
      have "fptr fp1 \<le> objsize (fobj fp1)" "unat (fptr fp1) = SS * q" "q < unat (csize v1) * length cs1"
        "fclust fp1 = cs1 ! (q div unat (csize v1))" "unat csect = q mod unat (csize v1)" "unat (fptr fp1) + unat btw < 2 ^ 32"
        using p ob f1 f q1 cl cs0 max geo_fields(6) [OF geo1] by simp_all
      from write_sector_file [OF i1 nb1 this(1-5) btw b this(6) ws] obtain n where
        n: "res = Inr n" "0 < n" "n \<le> btw" "fptr fp2 = fptr fp1"
          "writes cs1 v1 fp1 cs1 v2 (advance fp2 n) (SS * q) (seg b pos (unat n))" "file_at v2 (advance fp2 n) cs1" by blast
      have "writes cs v fp cs1 v2 (advance fp2 n) (SS * q) (seg b pos (unat n))"
        using grows_writes [OF g n(5) i] pn f by simp
      then show ?thesis using step w ws n f f1 by auto
    qed
  qed
qed

text \<open>The loop.\<close>

lemma grows_writes_nil:
  "grows cs v fp cs' v' fp' \<Longrightarrow> file_inv v fp cs \<Longrightarrow> p \<le> unat (objsize (fobj fp)) \<Longrightarrow> writes cs v fp cs' v' fp' p []"
  using grows_byte [of cs v fp cs' v' fp'] file_invD(1,3) [of v fp cs]
  by (auto simp: writes_def grows_def max_def dest: order_less_le_trans)

lemma modified_flags:
  "(x OR FA_MODIFIED) AND FA_DIRTY = (x AND FA_DIRTY :: BYTE)" "(x OR FA_MODIFIED) AND 3 = (x AND 3 :: BYTE)"
  by (simp_all add: bit.conj_disj_distrib2)

lemma modified_file [simp]:
  "file_inv v (fp\<lparr>flag := flag fp OR FA_MODIFIED\<rparr>) cs = file_inv v fp cs"
  "file_at v (fp\<lparr>flag := flag fp OR FA_MODIFIED\<rparr>) cs = file_at v fp cs"
  "writes cs v fp0 cs' v' (fp\<lparr>flag := flag fp OR FA_MODIFIED\<rparr>) p data = writes cs v fp0 cs' v' fp p data"
proof -
  show i: "file_inv v (fp\<lparr>flag := flag fp OR FA_MODIFIED\<rparr>) cs = file_inv v fp cs" for v cs
    using modified_flags(1) by (simp add: file_inv_def)
  show "file_at v (fp\<lparr>flag := flag fp OR FA_MODIFIED\<rparr>) cs = file_at v fp cs" by (simp add: file_at_def)
  have "file_byte v' (fp\<lparr>flag := flag fp OR FA_MODIFIED\<rparr>) cs' = file_byte v' fp cs'"
    by (simp add: file_byte_def fsec_def fun_eq_iff)
  then show "writes cs v fp0 cs' v' (fp\<lparr>flag := flag fp OR FA_MODIFIED\<rparr>) p data = writes cs v fp0 cs' v' fp p data"
    using modified_flags(2) i by (simp add: writes_def)
qed

lemma seg_append: "pos + m + n \<le> length b \<Longrightarrow> seg b pos m @ seg b (pos + m) n = seg b pos (m + n)"
  by (rule nth_equalityI) (auto simp: nth_append nth_seg)

lemma write_loop_file:
  assumes "file_inv v fp cs" and "file_at v fp cs" and "\<not> bad_entry v"
    and "unat bw + unat btw \<le> length b" and "unat bw + unat btw < 2 ^ 32" and "unat (fptr fp) + unat btw < 2 ^ 32"
  shows "\<exists>n fp' v' cs'. write_loop v fp b bw btw = Some (FR_OK, (fp', bw + n), v') \<and> n \<le> btw
    \<and> writes cs v fp cs' v' fp' (unat (fptr fp)) (seg b (unat bw) (unat n)) \<and> file_at v' fp' cs'
    \<and> unat (fptr fp') = unat (fptr fp) + unat n \<and> (n \<noteq> btw \<longrightarrow> disk_full v' \<and> unat (fptr fp') = SS * (unat (csize v) * length cs'))"
  using assms
proof (induction "unat btw" arbitrary: v fp bw btw cs rule: less_induct)
  case less
  note i = less.prems(1)
  have pn: "unat (fptr fp) \<le> unat (objsize (fobj fp))" using less.prems(2) by (simp add: file_at_def word_le_nat_alt)
  show ?case
  proof (cases "btw = 0")
    case True
    have "writes cs v fp cs v fp (unat (fptr fp)) []"
      using grows_writes_nil [OF same_file_grows [OF same_file_refl [OF i] less.prems(3)] i pn] .
    then show ?thesis using True less.prems(2)
      by (intro exI [of _ 0] exI [of _ "fp\<lparr>flag := flag fp OR FA_MODIFIED\<rparr>"] exI [of _ v] exI [of _ cs])
        (simp add: write_loop.simps seg_def)
  next
    case False
    then have pos: "0 < btw" by (simp add: word_neq_0_conv)
    from write_round_file [OF less.prems(1-3) pos less.prems(4,6)] obtain r fp1 v1 cs1 where
      w: "write_round v fp b (unat bw) btw = Some (r, fp1, v1)" and
      alt: "r = Inr None \<and> grows cs v fp cs v1 fp1 \<and> file_at v1 fp1 cs \<and> fptr fp1 = fptr fp \<and> disk_full v1 \<and> unat (fptr fp) = SS * (unat (csize v) * length cs) \<or>
       (\<exists>n. r = Inr (Some n) \<and> 0 < n \<and> n \<le> btw \<and> fptr fp1 = fptr fp \<and>
        writes cs v fp cs1 v1 (advance fp1 n) (unat (fptr fp)) (seg b (unat bw) (unat n)) \<and> file_at v1 (advance fp1 n) cs1)"
      by blast
    from alt show ?thesis
    proof (elim disjE exE conjE)
      assume r: "r = Inr None" and g: "grows cs v fp cs v1 fp1" and at: "file_at v1 fp1 cs" and f: "fptr fp1 = fptr fp"
        and full: "disk_full v1" "unat (fptr fp) = SS * (unat (csize v) * length cs)"
      have "write_loop v fp b bw btw = Some (FR_OK, (fp1\<lparr>flag := flag fp1 OR FA_MODIFIED\<rparr>, bw), v1)"
        using False w r by (simp add: write_loop.simps [of v fp])
      moreover have "writes cs v fp cs v1 fp1 (unat (fptr fp)) []" by (rule grows_writes_nil [OF g i pn])
      ultimately show ?thesis using at f full
        by (intro exI [of _ 0] exI [of _ "fp1\<lparr>flag := flag fp1 OR FA_MODIFIED\<rparr>"] exI [of _ v1] exI [of _ cs])
          (simp add: seg_def)
    next
      fix n
      assume r: "r = Inr (Some n)" and n: "0 < n" "n \<le> btw" and f: "fptr fp1 = fptr fp"
        and wr: "writes cs v fp cs1 v1 (advance fp1 n) (unat (fptr fp)) (seg b (unat bw) (unat n))"
        and at: "file_at v1 (advance fp1 n) cs1"
      let ?g = "advance fp1 n"
      have nn: "0 < unat n" "unat n \<le> unat btw" using n by (simp_all add: unat_gt_0 word_le_nat_alt)
      have rest: "unat (btw - n) = unat btw - unat n" using n(2) by (rule unat_sub)
      have ps: "unat (fptr fp + n) = unat (fptr fp) + unat n"
        by (rule unat_add_bound) (use nn(2) less.prems(6) in simp)
      have bs: "unat (bw + n) = unat bw + unat n"
        by (rule unat_add_bound) (use nn(2) less.prems(5) in simp)
      have inv: "file_inv v1 ?g cs1" and nb: "\<not> bad_entry v1" using wr by (simp_all add: writes_def)
      have "unat (btw - n) < unat btw" "unat (bw + n) + unat (btw - n) \<le> length b"
        "unat (bw + n) + unat (btw - n) < 2 ^ 32" "unat (fptr ?g) + unat (btw - n) < 2 ^ 32"
        using nn rest ps bs f less.prems(4-6) by simp_all
      from less.hyps [OF this(1) inv at nb this(2-4)] obtain m fp2 v2 cs2 where
        l: "write_loop v1 ?g b (bw + n) (btw - n) = Some (FR_OK, (fp2, bw + n + m), v2)" and m: "m \<le> btw - n"
        and w2: "writes cs1 v1 ?g cs2 v2 fp2 (unat (fptr ?g)) (seg b (unat (bw + n)) (unat m))"
        and at2: "file_at v2 fp2 cs2" "unat (fptr fp2) = unat (fptr ?g) + unat m" and full: "m \<noteq> btw - n \<longrightarrow> disk_full v2 \<and> unat (fptr fp2) = SS * (unat (csize v1) * length cs2)"
        by blast
      have mn: "unat m + unat n \<le> unat btw" using m rest nn(2) by (simp add: word_le_nat_alt)
      then have nm: "unat (n + m) = unat n + unat m"
        by (intro unat_add_bound) (use less.prems(5) in simp)
      have len: "unat bw + unat n + unat m \<le> length b" using mn less.prems(4) by simp
      have ls: "length (seg b (unat bw) (unat n)) = unat n" using len by simp
      have "writes cs1 v1 ?g cs2 v2 fp2 (unat (fptr fp) + length (seg b (unat bw) (unat n))) (seg b (unat (bw + n)) (unat m))"
        using w2 ls ps f by simp
      from writes_writes [OF wr this pn]
      have "writes cs v fp cs2 v2 fp2 (unat (fptr fp)) (seg b (unat bw) (unat (n + m)))"
        using seg_append [OF len] bs nm by simp
      moreover have "write_loop v fp b bw btw = Some (FR_OK, (fp2, bw + (n + m)), v2)"
        using False w r l by (simp add: write_loop.simps [of v fp] add.assoc)
      moreover have "n + m \<le> btw" using nm mn by (simp add: word_le_nat_alt)
      moreover have "unat (fptr fp2) = unat (fptr fp) + unat (n + m)" using at2(2) ps nm f by simp
      moreover have "geo v1 = geo v" using wr by (simp add: writes_def)
      from geo_fields(6) [OF this]
      have "n + m \<noteq> btw \<longrightarrow> disk_full v2 \<and> unat (fptr fp2) = SS * (unat (csize v) * length cs2)" using full by auto
      ultimately show ?thesis using at2(1) by blast
    qed
  qed
qed

section \<open>The API call\<close>

lemma write_work_file:
  assumes "file_inv v fp cs" and "file_at v fp cs" and "\<not> bad_entry v"
    and "unat btw \<le> length b" and "unat (fptr fp) + unat btw < 2 ^ 32"
  shows "\<exists>n fp' v' cs'. write_work fp b btw v = Some (FR_OK, (fp', n), v') \<and> n \<le> btw
    \<and> writes cs v fp cs' v' fp' (unat (fptr fp)) (take (unat n) b) \<and> file_at v' fp' cs'
    \<and> unat (fptr fp') = unat (fptr fp) + unat n \<and> (n \<noteq> btw \<longrightarrow> disk_full v' \<and> unat (fptr fp') = SS * (unat (csize v) * length cs'))"
proof -
  have "unat (fptr fp + btw) = unat (fptr fp) + unat btw" using assms(5) by (intro unat_add_bound) simp
  then have "\<not> fptr fp + btw < fptr fp" by (simp add: word_less_nat_alt)
  then show ?thesis
    using write_loop_file [OF assms(1-3), of 0 btw b] assms(4,5) by (simp add: write_work_def Let_def seg_def)
qed

lemma f_write_file:
  assumes "open_on g fp FA_WRITE k" and "file_inv (vol_of g k) fp cs" and "file_at (vol_of g k) fp cs"
    and "\<not> bad_entry (vol_of g k)" and "unat btw \<le> length b" and "unat (fptr fp) + unat btw < 2 ^ 32"
  shows "\<exists>n fp' g' ds. f_write g fp b btw = Some (FR_OK, (fp', n), g')
    \<and> n \<le> btw \<and> (n = btw \<or> disk_full (vol_of g' k)
         \<and> unat (fptr fp') = SS * (unat (csize (objs g k)) * length (cs @ ds)))
    \<and> unat (fptr fp') = unat (fptr fp) + unat n
    \<and> unat (objsize (fobj fp')) = max (unat (objsize (fobj fp))) (unat (fptr fp) + unat n)
    \<and> (\<forall>i < unat (objsize (fobj fp')). file_byte (vol_of g' k) fp' (cs @ ds) i =
         (if unat (fptr fp) \<le> i \<and> i < unat (fptr fp) + unat n then b ! (i - unat (fptr fp))
          else file_byte (vol_of g k) fp cs i))
    \<and> open_on g' fp' FA_WRITE k \<and> file_inv (vol_of g' k) fp' (cs @ ds) \<and> file_at (vol_of g' k) fp' (cs @ ds)
    \<and> \<not> bad_entry (vol_of g' k) \<and> flag fp' AND (FA_READ OR FA_WRITE) = flag fp AND (FA_READ OR FA_WRITE)"
proof -
  let ?v = "(vol_of g k)\<lparr>sobj := True\<rparr>"
  have bad: "bad_entry ?v = bad_entry (vol_of g k)" "disk_full (w\<lparr>sobj := l\<rparr>) = disk_full w"
      "bad_entry (w\<lparr>sobj := l\<rparr>) = bad_entry w" for w l
    by (simp_all add: bad_entry_def disk_full_def)
  have i: "file_inv ?v fp cs" and p: "file_at ?v fp cs" and nb: "\<not> bad_entry ?v" using assms(2-4) bad by simp_all
  from write_work_file [OF i p nb assms(5,6)] obtain n fp' v' cs' where
    w: "write_work fp b btw ?v = Some (FR_OK, (fp', n), v')" and n: "n \<le> btw" "n \<noteq> btw \<longrightarrow> disk_full v' \<and> unat (fptr fp') = SS * (unat (csize ?v) * length cs')"
    and wr: "writes cs ?v fp cs' v' fp' (unat (fptr fp)) (take (unat n) b)" and at: "file_at v' fp' cs'"
      "unat (fptr fp') = unat (fptr fp) + unat n" by blast
  obtain ds where ds: "cs' = cs @ ds" using wr by (auto simp: writes_def)
  have geo: "geo v' = geo ?v" using wr by (simp add: writes_def)
  then have "now v' = now (vol_of g k)" using geo_fields(14) [OF geo] by simp
  from enter_file_open [OF assms(1) data_okD(2) [OF file_invD(1) [OF assms(2)]]] obtain g1 where
    e: "enter_file g fp FA_WRITE = Some (Inr k, Some k, g1)" "vol_of g1 k = ?v" "sys_now g1 = sys_now g" by blast
  from api_work [where work = "write_work fp b btw", OF w \<open>now v' = _\<close> e(2,3)] obtain g' where
    r: "do { (res, x, g) \<leftarrow> on_volume g1 k (write_work fp b btw); leave_ff g (Some k) res x } = Some (FR_OK, (fp', n), g')"
    and g': "vol_of g' k = v'\<lparr>sobj := False\<rparr>" by blast
  have call: "f_write g fp b btw = Some (FR_OK, (fp', n), g')" using e(1) r by (simp add: f_write_def)
  have nb: "unat n \<le> unat btw" using n(1) by (simp add: word_le_nat_alt)
  then have len: "length (take (unat n) b) = unat n" using assms(5) by simp
  have size: "unat (objsize (fobj fp')) = max (unat (objsize (fobj fp))) (unat (fptr fp) + unat n)"
    using wr len by (simp add: writes_def)
  have bytes: "file_byte (vol_of g' k) fp' (cs @ ds) i =
      (if unat (fptr fp) \<le> i \<and> i < unat (fptr fp) + unat n then b ! (i - unat (fptr fp)) else file_byte (vol_of g k) fp cs i)"
    if "i < unat (objsize (fobj fp'))" for i
  proof -
    have "file_byte v' fp' cs' i = (if unat (fptr fp) \<le> i \<and> i < unat (fptr fp) + unat n
        then take (unat n) b ! (i - unat (fptr fp)) else file_byte ?v fp cs i)"
      using wr that size len by (simp add: writes_def)
    then show ?thesis using g' ds by auto
  qed
  have fl: "flag fp' AND FA_WRITE \<noteq> 0"
  proof -
    have "flag fp' AND 3 = flag fp AND 3" using wr by (simp add: writes_def)
    from arg_cong [where f = "\<lambda>x. x AND FA_WRITE", OF this]
    have "flag fp' AND FA_WRITE = flag fp AND FA_WRITE" by (simp only: and.assoc) simp
    then show ?thesis using assms(1) by (simp add: open_on_def)
  qed
  have "open_on g' fp' FA_WRITE k"
  proof -
    have "fs_type (vol_of g' k) = fs_type (objs g' k)" "fs_id (vol_of g' k) = fs_id (objs g' k)"
      "sobj (vol_of g' k) = sobj (objs g' k)" "fs_type (vol_of g k) = fs_type (objs g k)" "fs_id (vol_of g k) = fs_id (objs g k)"
      by (simp_all add: vol_of_def FATFS.defs)
    then show ?thesis using assms(1) g' geo_fields(1,4) [OF geo] wr fl by (simp add: open_on_def writes_def)
  qed
  moreover have "csize ?v = csize (objs g k)" by (simp add: vol_of_def FATFS.defs)
  ultimately show ?thesis
    using call n at size bytes wr g' ds bad(2,3) [where w = v' and l = False]
    by (intro exI [of _ n] exI [of _ fp'] exI [of _ g'] exI [of _ ds]) (simp add: writes_def, blast)
qed

text \<open>C3: Writing an open file stores exactly the caller's bytes. On a healthy drive whose table holds
  no reserved value \<open>f_write\<close> returns with \<open>FR_OK\<close>, for any number of bytes that does not take the
  position beyond 4 GiB. It writes \<open>n\<close> bytes, all that were asked for unless no cluster is free any more and the file has filled those it has: the bytes of the
  file from the position on are then the caller's, every other byte of the file is as before, the
  size is the larger of the old size and the end of the write, and the cluster chain of the file
  has kept its clusters and grown at its end at most; the volume is unlocked and the file ready
  for the next call.\<close>

theorem file_write:
  assumes "open_on g fp FA_WRITE k" and "file_inv (vol_of g k) fp cs" and "file_at (vol_of g k) fp cs"
    and "\<not> bad_entry (vol_of g k)" and "unat btw \<le> length b" and "unat (fptr fp) + unat btw < 2 ^ 32"
  shows "\<exists>n fp' g' ds. f_write g fp b btw = Some (FR_OK, (fp', n), g')
    \<and> n \<le> btw \<and> (n = btw \<or> disk_full (vol_of g' k)
         \<and> unat (fptr fp') = SS * (unat (csize (objs g k)) * length (cs @ ds)))
    \<and> unat (fptr fp') = unat (fptr fp) + unat n
    \<and> unat (objsize (fobj fp')) = max (unat (objsize (fobj fp))) (unat (fptr fp) + unat n)
    \<and> (\<forall>i < unat (objsize (fobj fp')). file_byte (vol_of g' k) fp' (cs @ ds) i =
         (if unat (fptr fp) \<le> i \<and> i < unat (fptr fp) + unat n then b ! (i - unat (fptr fp))
          else file_byte (vol_of g k) fp cs i))
    \<and> open_on g' fp' FA_WRITE k \<and> file_inv (vol_of g' k) fp' (cs @ ds) \<and> file_at (vol_of g' k) fp' (cs @ ds)"
  using f_write_file [OF assms] by blast

theorem file_write_witness:
  "\<exists>fp' g' ds. f_write (sample_sys sample_vol) sample_file [1, 2, 3] 3 = Some (FR_OK, (fp', 3), g')
    \<and> unat (objsize (fobj fp')) = 514 \<and> file_byte (vol_of g' 0) fp' ([2, 3] @ ds) 511 = 1
    \<and> file_byte (vol_of g' 0) fp' ([2, 3] @ ds) 513 = 3"
proof -
  let ?g = "sample_sys sample_vol"
  have "fat_entry sample_vol d \<noteq> 1" if "2 \<le> d" "d < 5" for d
  proof -
    from that have "d = 2 \<or> d = 3 \<or> d = 4" by linarith
    then show ?thesis unfolding sample_vol_def by (elim disjE) (simp_all add: sample_entries)
  qed
  then have nb: "\<not> bad_entry (vol_of ?g 0)" by (auto simp: bad_entry_def vol_of_sample_sys sample_vol_def)
  have f: "unat (fptr sample_file) = 511" "unat (objsize (fobj sample_file)) = 514" "unat (csize (objs ?g 0)) = 1"
    by (simp_all add: sample_file_def fields_sample_sys sample_vol_def sample_def FATFS.defs)
  have ok: "file_inv (vol_of ?g 0) sample_file [2, 3]" "file_at (vol_of ?g 0) sample_file [2, 3]"
    using sample_file_ok by (simp_all add: vol_of_sample_sys)
  have "unat (3 :: UINT) \<le> length [1, 2, 3 :: BYTE]" "unat (fptr sample_file) + unat (3 :: UINT) < 2 ^ 32" using f by simp_all
  from file_write [OF sample_file_ok(4) ok nb this, unfolded f] obtain n fp' g' ds where
    w: "f_write ?g sample_file [1, 2, 3] 3 = Some (FR_OK, (fp', n), g')" "n \<le> 3"
      "n = 3 \<or> unat (fptr fp') = SS * (1 * length ([2, 3] @ ds))" "unat (fptr fp') = 511 + unat n"
      "unat (objsize (fobj fp')) = max 514 (511 + unat n)"
      "\<forall>i < unat (objsize (fobj fp')). file_byte (vol_of g' 0) fp' ([2, 3] @ ds) i =
         (if 511 \<le> i \<and> i < 511 + unat n then [1, 2, 3] ! (i - 511) else file_byte (vol_of ?g 0) sample_file [2, 3] i)"
    by blast
  have "unat n \<le> 3" using w(2) by (simp add: word_le_nat_alt)
  then have n: "n = 3" using w(3,4) by auto
  have "file_byte (vol_of g' 0) fp' ([2, 3] @ ds) 511 = 1" "file_byte (vol_of g' 0) fp' ([2, 3] @ ds) 513 = 3"
    using w(5,6) n by simp_all
  then show ?thesis using w(1,5) n by auto
qed

end
