(* ===== verification/Fat_Seek.thy ===== *)
theory Fat_Seek
  imports Fat_Write
begin

text \<open>
  Moving the position of an open file: \<open>f_lseek\<close> of \<^verbatim>\<open>addon/fatfs/ff.c\<close> for positions within the file,
  from the walk along the cluster chain up to the API call, and the three calls together: what is
  written and sought is read back.
\<close>

unbundle bit_operations_syntax

section \<open>Moving the position\<close>

text \<open>The cluster size in bytes, and the start of the cluster that holds a byte.\<close>

lemma cluster_bytes:
  assumes "data_geom v"
  obtains n where "n \<le> 16" "unat (ucast (csize v) * SS :: DWORD) = 2 ^ n" "2 ^ n = SS * unat (csize v)"
    "ucast (csize v) * SS - 1 = (mask n :: DWORD)"
proof -
  obtain j where j: "j \<le> 7" "unat (csize v) = 2 ^ j" using assms by (auto simp: data_geom_def)
  have p: "(2 :: nat) ^ (j + 9) = SS * unat (csize v)" using j(2) by (simp add: power_add)
  have u: "unat (ucast (csize v) * SS :: DWORD) = 2 ^ (j + 9)"
    using data_geomD(3) [OF assms] p by (subst unat_mult_bound) simp_all
  have "(2 :: nat) ^ (j + 9) \<le> 2 ^ 16" using j(1) by (intro power_increasing) simp_all
  then have "unat (of_nat (2 ^ (j + 9)) :: DWORD) = 2 ^ (j + 9)" by (intro unat_of_nat_DWORD) simp
  then have "unat (ucast (csize v) * SS :: DWORD) = unat (2 ^ (j + 9) :: DWORD)" using u by simp
  then have "ucast (csize v) * SS = (2 ^ (j + 9) :: DWORD)" by (simp only: word_unat_eq_iff)
  then have "ucast (csize v) * SS - 1 = (mask (j + 9) :: DWORD)" by (simp add: mask_eq_exp_minus_1)
  then show ?thesis using that [of "j + 9"] j(1) u p by simp
qed

lemma and_not_mask_unat: "unat (x AND NOT (mask n) :: DWORD) = 2 ^ n * (unat x div 2 ^ n)"
proof -
  have e: "x AND NOT (mask n) = push_bit n (drop_bit n x)"
    by (rule bit_word_eqI) (auto simp: bit_simps)
  have "unat (push_bit n (drop_bit n x)) = take_bit 32 (push_bit n (unat (drop_bit n x)))"
    by (simp add: unsigned_push_bit_eq)
  also have "push_bit n (unat (drop_bit n x)) = 2 ^ n * (unat x div 2 ^ n)"
    by (simp only: push_bit_eq_mult unat_drop_bit_eq) (simp add: drop_bit_eq_div mult.commute)
  also have "take_bit 32 (2 ^ n * (unat x div 2 ^ n)) = 2 ^ n * (unat x div 2 ^ n)"
    by (rule take_bit_nat_eq_self, rule le_less_trans [OF times_div_less_eq_dividend]) (rule order_less_le_trans [OF unsigned_less], simp)
  finally show ?thesis using e by simp
qed


text \<open>Following the chain of the file, which in write mode goes through \<open>create_chain\<close>.\<close>

lemma follow_link:
  assumes d: "data_ok v cs" and ch: "chain (fat_entry v) (n_fatent v) c0 cs" and k: "Suc k < length cs"
    and nb: "w \<Longrightarrow> \<not> bad_entry v"
  shows "\<exists>v'. (if w then create_chain v (cs ! k) else Some (get_fat v (cs ! k))) = Some (cs ! Suc k, v')
    \<and> same_data cs v v'"
proof -
  note dd = data_okD [OF d]
  have r: "2 \<le> cs ! k" "cs ! k < n_fatent v" "2 \<le> cs ! Suc k" "cs ! Suc k < n_fatent v" using dd(5) k by simp_all
  have e: "fat_entry v (unat (cs ! k)) = cs ! Suc k" using chain_nth [OF ch] k by simp
  show ?thesis
  proof (cases w)
    case False
    obtain x v' where g: "get_fat v (cs ! k) = (x, v')" by fastforce
    have "x = cs ! Suc k" using get_fat_healthyD [OF g dd(2,1,4) r(1,2)] e by simp
    then show ?thesis using False g get_fat_data [OF g d] by simp
  next
    case True
    have nz: "cs ! k \<noteq> 0" using r(1) by auto
    have "cs ! k = 0 \<or> 2 \<le> cs ! k \<and> cs ! k < n_fatent v \<and> 2 \<le> fat_entry v (unat (cs ! k))" using r e by simp
    from create_chain_step [OF dd(1,2,4) nb [OF True] this] nz e r obtain v' where
      c: "create_chain v (cs ! k) = Some (cs ! Suc k, v')" "healthy v'" "near_fat v v'" "quiet v v'" by auto
    then show ?thesis
      using True view_same_data [OF d quietD(3) [OF c(4) dd(1)] c(2) quietD(4) [OF c(4) dd(1)] c(3)] by simp
  qed
qed

lemma seek_loop_file:
  assumes "file_inv v fp cs" and "flag fp AND FA_WRITE \<noteq> 0 \<Longrightarrow> \<not> bad_entry v"
    and "unat (fptr fp) = SS * unat (csize v) * k" and "fclust fp = cs ! k"
    and "0 < ofs" and "unat (fptr fp) + unat ofs \<le> SS * unat (csize v) * length cs"
    and "unat (fptr fp) + unat ofs < 2 ^ 32"
  shows "\<exists>p o' q v'. seek_loop v fp (ucast (csize v) * SS) ofs (cs ! k) =
      Some (Inr (o', cs ! q), fp\<lparr>fptr := p, fclust := cs ! q\<rparr>, v')
    \<and> same_data cs v v' \<and> unat p = SS * unat (csize v) * q \<and> 0 < o' \<and> unat o' \<le> SS * unat (csize v)
    \<and> unat p + unat o' = unat (fptr fp) + unat ofs \<and> q < length cs"
  using assms
proof (induction "unat ofs" arbitrary: v fp ofs k rule: less_induct)
  case less
  note i = less.prems(1) and d = file_invD [OF less.prems(1)]
  note dd = data_okD [OF d(1)]
  let ?B = "SS * unat (csize v)"
  have B: "unat (ucast (csize v) * SS :: DWORD) = ?B" "0 < ?B"
    using cluster_bytes [OF dd(3)] dd(8) by (metis, simp)
  have o0: "0 < unat ofs" using less.prems(5) by (simp add: unat_gt_0)
  have k: "k < length cs"
  proof (rule ccontr)
    assume "\<not> k < length cs"
    then have "?B * length cs \<le> ?B * k" by (intro mult_le_mono2) simp
    then show False using less.prems(3,6) o0 by linarith
  qed
  show ?case
  proof (cases "ofs > ucast (csize v) * SS")
    case False
    then have le: "unat ofs \<le> ?B" using B(1) by (simp add: word_less_nat_alt not_less)
    have "seek_loop v fp (ucast (csize v) * SS) ofs (cs ! k) = Some (Inr (ofs, cs ! k), fp\<lparr>fptr := fptr fp, fclust := cs ! k\<rparr>, v)"
      using False less.prems(4) by (simp add: seek_loop.simps [of v fp])
    then show ?thesis using same_data_refl [OF d(1)] less.prems(3,5) le k by blast
  next
    case True
    then have gt: "?B < unat ofs" using B(1) by (simp add: word_less_nat_alt)
    have os: "unat (ofs - ucast (csize v) * SS) = unat ofs - ?B" using True B(1) by (subst unat_sub) simp_all
    have ps: "unat (fptr fp + ucast (csize v) * SS) = unat (fptr fp) + ?B"
      using B(1) gt less.prems(7) by (subst unat_add_bound) simp_all
    have "?B * Suc k < ?B * length cs" using gt less.prems(3,6) by (simp add: algebra_simps)
    then have k1: "Suc k < length cs" using nat_mult_less_cancel1 [OF B(2)] by blast
    then have ne: "cs \<noteq> []" by auto
    let ?w = "flag fp AND FA_WRITE \<noteq> 0" and ?f = "fp\<lparr>fptr := fptr fp + ucast (csize v) * SS, fclust := cs ! Suc k\<rparr>"
    from follow_link [OF d(1) file_chain(1) [OF i ne] k1, of ?w] less.prems(2) obtain v1 where
      l: "(if ?w then create_chain v (cs ! k) else Some (get_fat v (cs ! k))) = Some (cs ! Suc k, v1)" "same_data cs v v1"
      by blast
    have r: "2 \<le> cs ! Suc k" "cs ! Suc k < n_fatent v" using dd(5) k1 by simp_all
    have ok: "cs ! Suc k \<noteq> 0" "cs ! Suc k \<noteq> 0xFFFFFFFF" "\<not> cs ! Suc k \<le> 1" "\<not> n_fatent v \<le> cs ! Suc k"
      using r fat_geom_max [OF dd(4)] by (auto simp: word_less_nat_alt word_le_nat_alt)
    have geo: "geo v1 = geo v" using l(2) by (simp add: same_data_def)
    have g: "csize v1 = csize v" "n_fatent v1 = n_fatent v" using geo_fields(6,7) [OF geo] by simp_all
    have step: "seek_loop v fp (ucast (csize v) * SS) ofs (cs ! k) =
        seek_loop v1 ?f (ucast (csize v) * SS) (ofs - ucast (csize v) * SS) (cs ! Suc k)"
      using True l(1) ok r g(2) by (simp add: seek_loop.simps [of v fp] Let_def split del: if_split)
    have inv1: "file_inv v1 ?f cs" using same_data_file [OF l(2) i] by (simp add: same_file_def)
    have nb1: "flag ?f AND FA_WRITE \<noteq> 0 \<Longrightarrow> \<not> bad_entry v1" using less.prems(2) same_data_bad [OF l(2)] by simp
    have "unat (ofs - ucast (csize v) * SS) < unat ofs" using os B(2) o0 by simp
    moreover have "unat (fptr ?f) = SS * unat (csize v1) * Suc k" using ps less.prems(3) g by simp
    moreover have "0 < ofs - ucast (csize v) * SS" using os gt by (simp add: word_less_nat_alt)
    moreover have "unat (fptr ?f) + unat (ofs - ucast (csize v) * SS) = unat (fptr fp) + unat ofs"
      using ps os gt by simp
    ultimately obtain p o' q v' where
      f: "seek_loop v1 ?f (ucast (csize v1) * SS) (ofs - ucast (csize v) * SS) (cs ! Suc k) =
        Some (Inr (o', cs ! q), ?f\<lparr>fptr := p, fclust := cs ! q\<rparr>, v')"
      "same_data cs v1 v'" "unat p = SS * unat (csize v1) * q" "0 < o'" "unat o' \<le> SS * unat (csize v1)"
      "unat p + unat o' = unat (fptr fp) + unat ofs" "q < length cs"
      using less.hyps [OF _ inv1 nb1, of "ofs - ucast (csize v) * SS" "Suc k"] less.prems(6,7) g(1) by auto
    have "same_data cs v v'"
      using l(2) f(2) geo g(2) file_sectors_geo [OF geo, of cs] by (simp add: same_data_def)
    then show ?thesis using step g f
      by (intro exI [of _ p] exI [of _ o'] exI [of _ q] exI [of _ v']) simp
  qed
qed

text \<open>The start of the walk: the cluster of the position, if the target does not lie before it, or
  else the first cluster.\<close>

lemma seek_start_file:
  assumes i: "file_inv v fp cs" and pos: "ifptr \<noteq> 0 \<Longrightarrow> fclust fp = cs ! ((unat ifptr - 1) div SS div unat (csize v))"
    and z: "fptr fp = 0" and ofs: "0 < ofs" "ofs \<le> objsize (fobj fp)" "ifptr \<le> objsize (fobj fp)"
  shows "\<exists>p o' k. seek_start v fp ifptr ofs = Some (Inr (o', cs ! k), fp\<lparr>fptr := p, fclust := cs ! k\<rparr>, v)
    \<and> unat p = SS * unat (csize v) * k \<and> 0 < o' \<and> unat p + unat o' = unat ofs \<and> cs \<noteq> [] \<and> cs ! k \<noteq> 0"
proof -
  note d = file_invD [OF i] and dd = data_okD [OF file_invD(1) [OF i]]
  let ?B = "SS * unat (csize v)"
  obtain n where n: "unat (ucast (csize v) * SS :: DWORD) = 2 ^ n" "2 ^ n = ?B" "ucast (csize v) * SS - 1 = (mask n :: DWORD)"
    using cluster_bytes [OF dd(3)] by metis
  have o0: "0 < unat ofs" using ofs(1) by (simp add: unat_gt_0)
  have lim: "unat ofs \<le> ?B * length cs" "unat ifptr \<le> ?B * length cs"
    using d(3) ofs(2,3) by (simp_all add: word_le_nat_alt mult.assoc)
  then have ne: "cs \<noteq> []" using o0 by auto
  have cn: "cs ! k \<noteq> 0" if "k < length cs" for k 
  proof -
    have "2 \<le> cs ! k" using dd(5) that by simp
    then show ?thesis by auto
  qed
  note fc = file_chain [OF i ne]
  have sub: "unat (x - 1) = unat x - 1" if "x \<noteq> 0" for x :: DWORD using that by (simp add: unat_minus_one)
  show ?thesis
  proof (cases "ifptr > 0 \<and> (ofs - 1) div (ucast (csize v) * SS) \<ge> (ifptr - 1) div (ucast (csize v) * SS)")
    case False
    have "sclust (fobj fp) \<noteq> 0" using cn [of 0] fc(2) ne by simp
    moreover have "fp\<lparr>fptr := 0, fclust := x\<rparr> = fp\<lparr>fclust := x\<rparr>" for x using z by simp
    ultimately have "seek_start v fp ifptr ofs = Some (Inr (ofs, cs ! 0), fp\<lparr>fptr := 0, fclust := cs ! 0\<rparr>, v)"
      unfolding seek_start_def Let_def if_not_P [OF False] using fc(2) z by simp
    then show ?thesis using ofs(1) ne cn [of 0] by (intro exI [of _ 0] exI [of _ ofs]) simp
  next
    case True
    then have nz: "ifptr \<noteq> 0" by auto
    let ?k = "(unat ifptr - 1) div ?B" and ?p = "(ifptr - 1) AND NOT (ucast (csize v) * SS - 1)"
    have up: "unat ?p = ?B * ?k"
      unfolding n(3) and_not_mask_unat using sub [OF nz] n(2) by simp
    have "?k \<le> (unat ofs - 1) div ?B"
      using True sub [OF nz] sub [of ofs] ofs(1) n(1,2) by (auto simp: word_le_nat_alt unat_div)
    then have "?B * ?k \<le> ?B * ((unat ofs - 1) div ?B)" by (rule mult_le_mono2)
    also have "\<dots> \<le> unat ofs - 1" by (rule times_div_less_eq_dividend)
    finally have lt: "unat ?p < unat ofs" using up o0 by linarith
    then have us: "unat (ofs - ?p) = unat ofs - unat ?p" by (intro unat_sub) (simp add: word_le_nat_alt)
    have kk: "(unat ifptr - 1) div SS div unat (csize v) = ?k" by (simp add: div_mult2_eq)
    have "unat ifptr - 1 < ?B * length cs" using lim(2) nz by (simp add: unat_gt_0 [symmetric] del: unat_gt_0)
    then have "?k < length cs" by (simp add: less_mult_imp_div_less mult.commute)
    moreover have "fp\<lparr>fptr := ?p, fclust := cs ! ?k\<rparr> = fp\<lparr>fptr := ?p\<rparr>" using pos [OF nz] kk by simp
    moreover have "seek_start v fp ifptr ofs = Some (Inr (ofs - ?p, cs ! ?k), fp\<lparr>fptr := ?p\<rparr>, v)"
      unfolding seek_start_def Let_def if_P [OF True] using pos [OF nz] kk by simp
    ultimately show ?thesis using up us lt ne cn
      by (intro exI [of _ ?p] exI [of _ "ofs - ?p"] exI [of _ ?k]) (simp add: word_less_nat_alt)
  qed
qed

text \<open>The walk to a position within the file.\<close>

lemma seek_move_file:
  assumes i: "file_inv v fp cs" and pos: "ifptr \<noteq> 0 \<Longrightarrow> fclust fp = cs ! ((unat ifptr - 1) div SS div unat (csize v))"
    and z: "fptr fp = 0" and ofs: "0 < ofs" "ofs \<le> objsize (fobj fp)" "ifptr \<le> objsize (fobj fp)"
    and nb: "flag fp AND FA_WRITE \<noteq> 0 \<Longrightarrow> \<not> bad_entry v"
  shows "\<exists>ns v'. seek_move v fp ifptr ofs = Some (Inr ns,
      fp\<lparr>fptr := ofs, fclust := cs ! ((unat ofs - 1) div SS div unat (csize v))\<rparr>, v')
    \<and> same_data cs v v'
    \<and> (unat ofs mod SS \<noteq> 0 \<longrightarrow> unat ns = file_sector v cs (unat ofs div SS) \<and> unat ofs div SS < unat (csize v) * length cs)"
proof -
  note d = file_invD [OF i] and dd = data_okD [OF file_invD(1) [OF i]]
  let ?n = "unat (csize v)"
  let ?B = "SS * ?n"
  obtain p o1 k where st: "seek_start v fp ifptr ofs = Some (Inr (o1, cs ! k), fp\<lparr>fptr := p, fclust := cs ! k\<rparr>, v)"
    and p: "unat p = ?B * k" "0 < o1" "unat p + unat o1 = unat ofs" "cs ! k \<noteq> 0"
    using seek_start_file [OF i pos z ofs] by blast
  let ?f = "fp\<lparr>fptr := p, fclust := cs ! k\<rparr>"
  have lim: "unat ofs \<le> ?B * length cs" using d(3) ofs(2) by (simp add: word_le_nat_alt mult.assoc)
  have inv: "file_inv v ?f cs" using i by simp
  have lt: "unat p + unat o1 < 2 ^ 32" unfolding p(3) by (rule order_less_le_trans [OF unsigned_less]) simp
  from seek_loop_file [OF inv, of k o1] nb p(1-3) lim lt obtain p2 o2 q v' where
    l: "seek_loop v ?f (ucast (csize v) * SS) o1 (cs ! k) = Some (Inr (o2, cs ! q), ?f\<lparr>fptr := p2, fclust := cs ! q\<rparr>, v')"
    and s: "same_data cs v v'" and q: "unat p2 = ?B * q" "0 < o2" "unat o2 \<le> ?B" "unat p2 + unat o2 = unat ofs" "q < length cs"
    by auto
  have geo: "geo v' = geo v" using s by (simp add: same_data_def)
  have u2: "0 < unat o2" using q(2) by (simp add: word_less_nat_alt)
  have sum: "p2 + o2 = ofs" using q(4) lt p(3) by (simp add: word_unat_eq_iff unat_add_bound)
  have cl: "(unat ofs - 1) div SS div ?n = q"
  proof -
    have "(unat ofs - 1) div ?B = q"
      by (rule div_nat_eqI) (use q(1,3,4) u2 in \<open>auto simp: algebra_simps\<close>)
    then show ?thesis by (simp add: div_mult2_eq)
  qed
  have om: "unat o2 mod SS = unat ofs mod SS" "unat ofs div SS = ?n * q + unat o2 div SS"
    unfolding q(4) [symmetric] q(1) by (simp_all add: mult.assoc)
  have z2: "o2 mod SS = 0 \<longleftrightarrow> unat ofs mod SS = 0"
  proof -
    have "unat (o2 mod SS) = unat ofs mod SS" using om(1) by (simp add: unat_mod)
    then show ?thesis by (metis unsigned_eq_0_iff)
  qed
  let ?ns = "if unat ofs mod SS = 0 then 0 else clst2sect v' (cs ! q) + o2 div SS"
  have sec: "unat (clst2sect v' (cs ! q) + o2 div SS) = file_sector v cs (unat ofs div SS)
      \<and> unat ofs div SS < ?n * length cs \<and> clst2sect v' (cs ! q) \<noteq> 0" if m: "unat ofs mod SS \<noteq> 0"
  proof -
    have "unat o2 \<noteq> ?B"
    proof
      assume "unat o2 = ?B"
      then show False using m om(1) by simp
    qed
    then have "unat o2 < ?B" using q(3) by simp
    then have lo: "unat o2 div SS < ?n" by (simp add: less_mult_imp_div_less mult.commute)
    have ix: "?n * q + unat o2 div SS < ?n * length cs"
    proof -
      have "?n * Suc q \<le> ?n * length cs" using q(5) by (intro mult_le_mono2) simp
      then show ?thesis using lo by simp
    qed
    have qi: "cs ! q \<in> set cs" using q(5) by simp
    have g: "csize v' = csize v" "n_fatent v' = n_fatent v" "database v' = database v"
      using geo_fields [OF geo] by simp_all
    have d': "data_geom v'" using s data_okD(3) by (auto simp: same_data_def)
    have r: "2 \<le> cs ! q" "cs ! q < n_fatent v'" using dd(5) q(5) g by simp_all
    have "(of_nat (unat o2 div SS) :: DWORD) = o2 div SS"
      by (simp add: word_unat_eq_iff unat_div div_le_dividend [THEN le_less_trans, OF unat_lt_pow32] unat_of_nat_DWORD)
    then show ?thesis unfolding om(2)
      using lo ix file_sector_split [OF lo, of cs q] clst2sect_data [OF d' r, of "unat o2 div SS"] g by simp
  qed
  have "seek_move v fp ifptr ofs = Some (Inr ?ns, fp\<lparr>fptr := ofs, fclust := cs ! q\<rparr>, v')"
  proof -
    have e: "?f\<lparr>fptr := p2, fclust := cs ! q\<rparr>\<lparr>fptr := p2 + o2\<rparr> = fp\<lparr>fptr := ofs, fclust := cs ! q\<rparr>" using sum by simp
    show ?thesis using st l p(4) ofs(1) sec z2 e by (simp add: seek_move_def Let_def)
  qed
  then show ?thesis using s sec cl by auto
qed

section \<open>\<open>f_lseek\<close>\<close>

lemma seek_work_file:
  assumes i: "file_inv v fp cs" and at: "file_at v fp cs"
    and nb: "flag fp AND FA_WRITE \<noteq> 0 \<Longrightarrow> \<not> bad_entry v \<and> ofs \<le> objsize (fobj fp)"
  shows "\<exists>fp' v'. seek_work fp ofs v = Some (FR_OK, fp', v') \<and> same_file cs v fp v' fp' \<and> file_at v' fp' cs
    \<and> fptr fp' = min ofs (objsize (fobj fp)) \<and> bad_entry v' = bad_entry v"
proof -
  note d = file_invD [OF i] and dd = data_okD [OF file_invD(1) [OF i]]
  define t where "t = min ofs (objsize (fobj fp))"
  have t: "(if ofs > objsize (fobj fp) \<and> flag fp AND FA_WRITE = 0 then objsize (fobj fp) else ofs) = t"
    using nb by (auto simp: t_def min_def)
  have tle: "t \<le> objsize (fobj fp)" and nt: "\<not> objsize (fobj fp) < t" by (simp_all add: t_def not_less)
  let ?z = "fp\<lparr>fptr := 0\<rparr>" and ?c = "\<lambda>x. cs ! ((unat x - 1) div SS div unat (csize v))"
  have "\<exists>ns fp1 v1. seek_move v ?z (fptr fp) t = Some (Inr ns, fp1, v1) \<and> same_data cs v v1
    \<and> (\<exists>c. fp1 = fp\<lparr>fptr := t, fclust := c\<rparr>) \<and> (t \<noteq> 0 \<longrightarrow> fclust fp1 = ?c t)
    \<and> (unat t mod SS \<noteq> 0 \<longrightarrow> unat ns = file_sector v cs (unat t div SS) \<and> unat t div SS < unat (csize v) * length cs)"
  proof (cases "t = 0")
    case True
    then show ?thesis using same_data_refl [OF d(1)] by (auto simp: seek_move_def intro: exI [of _ "fclust fp"])
  next
    case False
    have "file_inv v ?z cs" using i by simp
    from seek_move_file [OF this, of "fptr fp" t] at False tle nb show ?thesis
      by (force simp: file_at_def word_neq_0_conv)
  qed
  then obtain ns fp1 v1 c where m: "seek_move v ?z (fptr fp) t = Some (Inr ns, fp1, v1)" and sd: "same_data cs v v1"
    and fp1: "fp1 = fp\<lparr>fptr := t, fclust := c\<rparr>" and fc: "t \<noteq> 0 \<longrightarrow> fclust fp1 = ?c t"
    and ns: "unat t mod SS \<noteq> 0 \<longrightarrow> unat ns = file_sector v cs (unat t div SS) \<and> unat t div SS < unat (csize v) * length cs"
    by blast
  have s1: "same_file cs v fp v1 fp1" using same_data_file [OF sd i] fp1 by simp
  have i1: "file_inv v1 fp1 cs" using s1 by (simp add: same_file_def)
  have geo: "geo v1 = geo v" using sd by (simp add: same_data_def)
  have md: "t mod SS \<noteq> 0 \<longleftrightarrow> unat t mod SS \<noteq> 0"
  proof -
    have "unat (t mod SS) = unat t mod SS" by (simp add: unat_mod)
    then show ?thesis by (metis unsigned_eq_0_iff)
  qed
  have work: "seek_work fp ofs v = (if t mod SS \<noteq> 0 \<and> ns \<noteq> fsect fp1 then
      (case flush_buf v1 fp1 of (ok, fp, v) \<Rightarrow>
        if \<not> ok then Some (FR_DISK_ERR, fp\<lparr>err := FR_DISK_ERR\<rparr>, v)
        else case fill_buf v fp ns of (ok, fp, v) \<Rightarrow>
          if \<not> ok then Some (FR_DISK_ERR, fp\<lparr>err := FR_DISK_ERR\<rparr>, v) else Some (FR_OK, fp\<lparr>fsect := ns\<rparr>, v))
     else Some (FR_OK, fp1, v1))"
    using m nt by (simp add: seek_work_def Let_def t fp1)
  have at1: "file_at v' fp' cs" if "geo v' = geo v" "fobj fp' = fobj fp" "fptr fp' = t" "fclust fp' = c"
    "t mod SS \<noteq> 0 \<longrightarrow> fsect fp' = ns" for v' fp'
    using that fc ns tle md fp1 file_sector_geo [OF that(1)] geo_fields(6) [OF that(1)] by (auto simp: file_at_def)
  show ?thesis
  proof (cases "t mod SS \<noteq> 0 \<and> ns \<noteq> fsect fp1")
    case False
    have "file_at v1 fp1 cs" by (rule at1 [OF geo]) (use False fp1 in auto)
    then show ?thesis unfolding work if_not_P [OF False]
      using s1 same_data_bad [OF sd] fp1 by (simp add: t_def)
  next
    case True
    obtain ok fp2 v2 where fl: "flush_buf v1 fp1 = (ok, fp2, v2)" by (metis prod.exhaust)
    note f = flush_buf_file [OF i1 fl]
    have i2: "file_inv v2 fp2 cs" and geo2: "geo v2 = geo v" using f(2) geo by (simp_all add: same_file_def)
    have "unat ns \<in> file_sectors v2 cs"
      using file_sector_in [of "unat t div SS" v cs] ns True md file_sectors_geo [OF geo2] by simp
    obtain ok2 fp3 v3 where fi: "fill_buf v2 fp2 ns = (ok2, fp3, v3)" by (metis prod.exhaust)
    note e = fill_buf_file [OF i2 f(3) \<open>unat ns \<in> _\<close> fi]
    have s3: "same_file cs v fp v3 (fp3\<lparr>fsect := ns\<rparr>)"
      by (rule same_file_trans [OF same_file_trans [OF s1 f(2)] e(4)])
    have geo3: "geo v3 = geo v" using s3 by (simp add: same_file_def)
    have "file_at v3 (fp3\<lparr>fsect := ns\<rparr>) cs"
      by (rule at1 [OF geo3]) (use s3 f e fp1 in \<open>simp_all add: same_file_def\<close>)
    then show ?thesis unfolding work if_P [OF True]
      using fl f(1) fi e(1) s3 f(4,8) e(2,3) fp1 same_data_bad [OF sd] by (simp add: t_def)
  qed
qed

lemma f_lseek_file:
  assumes "open_on g fp acc k" and "acc = FA_READ \<or> acc = FA_WRITE"
    and "file_inv (vol_of g k) fp cs" and "file_at (vol_of g k) fp cs"
    and "flag fp AND FA_WRITE \<noteq> 0 \<longrightarrow> \<not> bad_entry (vol_of g k) \<and> ofs \<le> objsize (fobj fp)"
  shows "\<exists>fp' g'. f_lseek g fp ofs = Some (FR_OK, fp', g') \<and> fptr fp' = min ofs (objsize (fobj fp))
    \<and> fobj fp' = fobj fp \<and> flag fp' AND (FA_READ OR FA_WRITE) = flag fp AND (FA_READ OR FA_WRITE)
    \<and> (\<forall>i < unat (objsize (fobj fp)). file_byte (vol_of g' k) fp' cs i = file_byte (vol_of g k) fp cs i)
    \<and> bad_entry (vol_of g' k) = bad_entry (vol_of g k) \<and> csize (objs g' k) = csize (objs g k)
    \<and> open_on g' fp' acc k \<and> file_inv (vol_of g' k) fp' cs \<and> file_at (vol_of g' k) fp' cs"
proof -
  let ?v = "(vol_of g k)\<lparr>sobj := True\<rparr>"
  have bad: "bad_entry (w\<lparr>sobj := l\<rparr>) = bad_entry w" for w l by (simp add: bad_entry_def)
  have i: "file_inv ?v fp cs" and p: "file_at ?v fp cs" using assms(3,4) by simp_all
  from seek_work_file [OF i p, of ofs] assms(5) bad obtain fp' v' where
    w: "seek_work fp ofs ?v = Some (FR_OK, fp', v')" and s: "same_file cs ?v fp v' fp'" "file_at v' fp' cs"
      "fptr fp' = min ofs (objsize (fobj fp))" "bad_entry v' = bad_entry (vol_of g k)" by auto
  have geo: "geo v' = geo ?v" using s(1) by (simp add: same_file_def)
  then have "now v' = now (vol_of g k)" using geo_fields(14) [OF geo] by simp
  from enter_file_open [OF assms(1) data_okD(2) [OF file_invD(1) [OF assms(3)]]] obtain g1 where
    e: "enter_file g fp acc = Some (Inr k, Some k, g1)" "vol_of g1 k = ?v" "sys_now g1 = sys_now g" by blast
  have val: "validate g (fobj fp) = Some (FR_OK, Some k, g1)" "err fp = FR_OK"
    using e(1) assms(1) by (auto simp: enter_file_def open_on_def bind_eq_Some_conv split: if_splits)
  from api_work [where work = "seek_work fp ofs", OF w \<open>now v' = _\<close> e(2,3)] obtain g' where
    r: "do { (res, x, g) \<leftarrow> on_volume g1 k (seek_work fp ofs); leave_ff g (Some k) res x } = Some (FR_OK, fp', g')"
    and g': "vol_of g' k = v'\<lparr>sobj := False\<rparr>" by blast
  have "f_lseek g fp ofs = Some (FR_OK, fp', g')" using val r by (simp add: f_lseek_def)
  moreover have "file_byte (vol_of g' k) fp' cs i = file_byte (vol_of g k) fp cs i" if "i < unat (objsize (fobj fp))" for i
    using same_file_byte [OF s(1), of i] that file_invD(3) [OF assms(3)] g' by simp
  moreover have "open_on g' fp' acc k"
    by (rule open_on_unlocked [OF assms(1) g' geo])
      (use same_file_open [OF s(1) _ assms(2)] assms(1) in \<open>simp_all add: open_on_def\<close>)
  moreover have "csize (vol_of g' k) = csize (objs g' k)" "csize (vol_of g k) = csize (objs g k)"
    by (simp_all add: vol_of_def FATFS.defs)
  ultimately show ?thesis
    using s g' bad geo_fields(6) [OF geo] by (simp add: same_file_def)
qed

text \<open>C18: Moving the position of an open file. On a healthy drive \<open>f_lseek\<close> to any position within the
  file succeeds, whether it lies before or after the current one and however many clusters are
  crossed, and leaves the position exactly there; a file open for reading only is clipped to its
  end. For a file open for writing the table must hold no entry of the reserved value 1, since
  \<open>f_lseek\<close> then follows the chain with \<open>create_chain\<close>, which takes such an entry for an error. No byte of the file changes, not even when a dirty sector buffer has to be flushed on the
  way, and the file is ready for the next call.\<close>

theorem file_seek:
  assumes "open_on g fp acc k" and "acc = FA_READ \<or> acc = FA_WRITE"
    and "file_inv (vol_of g k) fp cs" and "file_at (vol_of g k) fp cs"
    and "flag fp AND FA_WRITE \<noteq> 0 \<longrightarrow> \<not> bad_entry (vol_of g k) \<and> ofs \<le> objsize (fobj fp)"
  shows "\<exists>fp' g'. f_lseek g fp ofs = Some (FR_OK, fp', g') \<and> fptr fp' = min ofs (objsize (fobj fp))
    \<and> fobj fp' = fobj fp
    \<and> (\<forall>i < unat (objsize (fobj fp)). file_byte (vol_of g' k) fp' cs i = file_byte (vol_of g k) fp cs i)
    \<and> open_on g' fp' acc k \<and> file_inv (vol_of g' k) fp' cs \<and> file_at (vol_of g' k) fp' cs"
  using f_lseek_file [OF assms] by blast

lemma sample_no_bad: "\<not> bad_entry sample_vol"
proof -
  have "fat_entry sample_vol d \<noteq> 1" if "2 \<le> d" "d < 5" for d
  proof -
    from that have "d = 2 \<or> d = 3 \<or> d = 4" by linarith
    then show ?thesis unfolding sample_vol_def by (elim disjE) (simp_all add: sample_entries)
  qed
  then show ?thesis by (auto simp: bad_entry_def sample_vol_def)
qed

theorem file_seek_witness:
  "\<exists>fp' g'. f_lseek (sample_sys sample_vol) sample_file 513 = Some (FR_OK, fp', g') \<and> fptr fp' = 513
    \<and> file_byte (vol_of g' 0) fp' [2, 3] 513 = 8"
proof -
  have "objsize (fobj sample_file) = 514" by (simp add: sample_file_def)
  then show ?thesis
    using file_seek [of "sample_sys sample_vol" sample_file FA_WRITE 0 "[2, 3]" 513] sample_file_ok sample_no_bad sample_bytes
    by (fastforce simp: vol_of_sample_sys)
qed

section \<open>Written, sought, read\<close>

lemma open_on_mode:
  "open_on g fp acc k \<Longrightarrow> flag fp AND (FA_READ OR FA_WRITE) = flag fp0 AND (FA_READ OR FA_WRITE) \<Longrightarrow>
   acc' = FA_READ \<or> acc' = FA_WRITE \<Longrightarrow> flag fp0 AND acc' \<noteq> 0 \<Longrightarrow> open_on g fp acc' k"
proof -
  assume o: "open_on g fp acc k" and f: "flag fp AND (FA_READ OR FA_WRITE) = flag fp0 AND (FA_READ OR FA_WRITE)"
    and a: "acc' = FA_READ \<or> acc' = FA_WRITE" "flag fp0 AND acc' \<noteq> 0"
  from arg_cong [where f = "\<lambda>x. x AND acc'", OF f] a(1) have "flag fp AND acc' = flag fp0 AND acc'"
    by (auto simp: and.assoc)
  then show "open_on g fp acc' k" using o a(2) by (simp add: open_on_def)
qed

text \<open>C12: What is written is read back. On a healthy drive whose table holds no entry of the reserved
  value 1, a program that writes bytes to a file open for reading and writing, moves back to where
  it was, and reads as many bytes as were written finds in its memory the bytes it wrote. The
  write must end below 4 GiB, the largest size of a file (\<open>f_write\<close> cuts a longer one); then all
  bytes asked for were written unless the disk ran full.\<close>

theorem write_read_back:
  assumes "open_on g fp FA_WRITE k" and "flag fp AND FA_READ \<noteq> 0"
    and "file_inv (vol_of g k) fp cs" and "file_at (vol_of g k) fp cs"
    and "\<not> bad_entry (vol_of g k)" and "unat btw \<le> length b" and "unat (fptr fp) + unat btw < 2 ^ 32"
    and "unat btw \<le> length c"
  shows "\<exists>n fp1 g1 fp2 g2 fp3 g3. f_write g fp b btw = Some (FR_OK, (fp1, n), g1)
    \<and> f_lseek g1 fp1 (fptr fp) = Some (FR_OK, fp2, g2)
    \<and> f_read g2 fp2 c n = Some (FR_OK, (fp3, take (unat n) b @ drop (unat n) c, n), g3)
    \<and> n \<le> btw \<and> (n = btw \<or> disk_full (vol_of g1 k))"
proof -
  from f_write_file [OF assms(1,3-7)] obtain n fp1 g1 ds where
    w: "f_write g fp b btw = Some (FR_OK, (fp1, n), g1)" "n \<le> btw" "n = btw \<or> disk_full (vol_of g1 k)"
    and size: "unat (objsize (fobj fp1)) = max (unat (objsize (fobj fp))) (unat (fptr fp) + unat n)"
    and byte: "\<forall>i < unat (objsize (fobj fp1)). file_byte (vol_of g1 k) fp1 (cs @ ds) i =
         (if unat (fptr fp) \<le> i \<and> i < unat (fptr fp) + unat n then b ! (i - unat (fptr fp))
          else file_byte (vol_of g k) fp cs i)"
    and ok: "open_on g1 fp1 FA_WRITE k" "file_inv (vol_of g1 k) fp1 (cs @ ds)" "file_at (vol_of g1 k) fp1 (cs @ ds)"
      "\<not> bad_entry (vol_of g1 k)" "flag fp1 AND (FA_READ OR FA_WRITE) = flag fp AND (FA_READ OR FA_WRITE)"
    by blast
  have nb: "unat n \<le> unat btw" using w(2) by (simp add: word_le_nat_alt)
  have le: "fptr fp \<le> objsize (fobj fp1)" using size by (simp add: word_le_nat_alt)
  from f_lseek_file [OF ok(1) _ ok(2,3), of "fptr fp"] ok(4) le obtain fp2 g2 where
    s: "f_lseek g1 fp1 (fptr fp) = Some (FR_OK, fp2, g2)" "fptr fp2 = fptr fp" "fobj fp2 = fobj fp1"
      "flag fp2 AND (FA_READ OR FA_WRITE) = flag fp1 AND (FA_READ OR FA_WRITE)"
      "\<forall>i < unat (objsize (fobj fp1)). file_byte (vol_of g2 k) fp2 (cs @ ds) i = file_byte (vol_of g1 k) fp1 (cs @ ds) i"
    and ok2: "open_on g2 fp2 FA_WRITE k" "file_inv (vol_of g2 k) fp2 (cs @ ds)" "file_at (vol_of g2 k) fp2 (cs @ ds)"
    by (auto simp: min_absorb1)
  have rd: "open_on g2 fp2 FA_READ k" using open_on_mode [OF ok2(1), of fp FA_READ] s(4) ok(5) assms(2) by simp
  have m: "unat n = min (unat n) (unat (objsize (fobj fp2)) - unat (fptr fp2))" using s(2,3) size by simp
  have nc: "unat n \<le> length c" using nb assms(8) by simp
  from f_read_file [OF rd ok2(2,3) m nc] obtain fp3 g3 where
    r: "f_read g2 fp2 c n = Some (FR_OK, (fp3, put_seg c 0 (map (\<lambda>j. file_byte (vol_of g2 k) fp2 (cs @ ds) (unat (fptr fp2) + j)) [0..<unat n]), of_nat (unat n)), g3)"
    by blast
  have "map (\<lambda>j. file_byte (vol_of g2 k) fp2 (cs @ ds) (unat (fptr fp2) + j)) [0..<unat n] = take (unat n) b"
    by (rule nth_equalityI) (use s(2,3,5) byte size nb assms(6) in auto)
  moreover have "length (take (unat n) b) = unat n" using nb assms(6) by simp
  ultimately have "f_read g2 fp2 c n = Some (FR_OK, (fp3, take (unat n) b @ drop (unat n) c, n), g3)"
    using r by (simp add: put_seg_def)
  then show ?thesis using w s(1) by blast
qed

theorem write_read_back_witness:
  "\<exists>n fp1 g1 fp2 g2 fp3 g3. f_write (sample_sys sample_vol) sample_file [1, 2, 3] 3 = Some (FR_OK, (fp1, n), g1)
    \<and> f_lseek g1 fp1 511 = Some (FR_OK, fp2, g2)
    \<and> f_read g2 fp2 [0, 0, 0, 0] n = Some (FR_OK, (fp3, take (unat n) [1, 2, 3] @ drop (unat n) [0, 0, 0, 0], n), g3)
    \<and> (n = 3 \<or> disk_full (vol_of g1 0))"
proof -
  have f: "unat (fptr sample_file) = 511" "fptr sample_file = 511" "flag sample_file AND FA_READ \<noteq> 0"
    by (simp_all add: sample_file_def)
  have "unat (3 :: UINT) \<le> length [1, 2, 3 :: BYTE]" "unat (fptr sample_file) + unat (3 :: UINT) < 2 ^ 32"
    "unat (3 :: UINT) \<le> length [0, 0, 0, 0 :: BYTE]" using f by simp_all
  from write_read_back [OF sample_file_ok(4) f(3) _ _ _ this, of "[2, 3]"] sample_file_ok(1,2) sample_no_bad show ?thesis
    unfolding vol_of_sample_sys f(2) by blast
qed

end
