(* ===== verification/Fat_Sync.thy ===== *)
theory Fat_Sync
  imports Fat_Seek
begin

text \<open>
  What reaches the drive: \<open>sync_fs\<close> and \<open>f_sync\<close> of \<^verbatim>\<open>addon/fatfs/ff.c\<close>. The first part is the volume with its
  window and FSInfo sector, the second the directory entry of a file and its data.
\<close>

unbundle bit_operations_syntax

section \<open>Synchronising the volume\<close>

text \<open>The FSInfo sector is due.\<close>

definition fsinfo_due :: "vol \<Rightarrow> bool" where
  "fsinfo_due v \<longleftrightarrow> fs_type v = FS_FAT32 \<and> fsi_flag v = 1"

definition fsinfo_bytes :: "vol \<Rightarrow> BYTE list" where
  "fsinfo_bytes v =
     st_dword (st_dword (st_dword (st_dword (st_word (mem_set (win v) 0 0 SS) BS_55AA 0xAA55)
       FSI_LeadSig 0x41615252) FSI_StrucSig 0x61417272) FSI_Free_Count (free_clst v)) FSI_Nxt_Free (last_clst v)"

lemma fsinfo_read:
  assumes "length (win v) = SS"
  shows "length (fsinfo_bytes v) = SS" "ld_word (fsinfo_bytes v) BS_55AA = 0xAA55"
    "ld_dword (fsinfo_bytes v) FSI_LeadSig = 0x41615252" "ld_dword (fsinfo_bytes v) FSI_StrucSig = 0x61417272"
    "ld_dword (fsinfo_bytes v) FSI_Free_Count = free_clst v" "ld_dword (fsinfo_bytes v) FSI_Nxt_Free = last_clst v"
  using assms by (simp_all add: fsinfo_bytes_def ld_st_word ld_st_dword ld_word_st_dword_other ld_dword_st_dword_other)

lemma sync_window_clean:
  assumes "healthy v" and "vok v" and "sync_window v = (r, v1)"
  shows "r = FR_OK" "healthy v1" "vok v1" "wflag v1 = 0" "geo v1 = geo v" "alloc v1 = alloc v" "win v1 = win v"
    "winsect v1 = winsect v" "misc v1 = misc v" "pub v s \<Longrightarrow> vsec v1 s = vsec v s" "pub v s \<Longrightarrow> sectors (drv v1) s = vsec v s"
proof -
  have wf: "wf_vol v" and co: "coherent v" using assms(2) by (simp_all add: vok_def)
  show r: "r = FR_OK" "healthy v1" using sync_window_healthy [OF assms(1) wf] assms(3) by auto
  note sv = sync_window_view [OF assms(3) wf co] and fr = sync_window_frame [OF assms(3)]
  show v1: "vok v1" "wflag v1 = 0" using sv(1,2,4) r(1) by (simp_all add: vok_def)
  show "geo v1 = geo v" "alloc v1 = alloc v" "win v1 = win v" "winsect v1 = winsect v" "misc v1 = misc v" using fr by simp_all
  show vs: "vsec v1 s = vsec v s" if "pub v s" using sv(3) that by (simp add: pub_def)
  have "pub v1 s = pub v s" using pub_geo [of v1 v] fr by simp
  then show "sectors (drv v1) s = vsec v s" if "pub v s" using clean_window [OF v1, of s] that vs [OF that] by simp
qed

lemma sync_fs_writes:
  assumes "healthy v" and "vok v"
  shows "\<exists>v'. sync_fs v = (FR_OK, v') \<and> healthy v' \<and> vok v' \<and> wflag v' = 0 \<and> geo v' = geo v
    \<and> (\<forall>s. pub v s \<longrightarrow> \<not> (fsinfo_due v \<and> s = unat (volbase v + 1)) \<longrightarrow> sectors (drv v') s = vsec v s \<and> vsec v' s = vsec v s)
    \<and> (fsinfo_due v \<longrightarrow> sectors (drv v') (unat (volbase v + 1)) = fsinfo_bytes v \<and> fsi_flag v' = 0)
    \<and> winsect v' = (if fsinfo_due v then volbase v + 1 else winsect v)
    \<and> free_clst v' = free_clst v \<and> last_clst v' = last_clst v"
proof -
  obtain r v1 where sw: "sync_window v = (r, v1)" by fastforce
  note s1 = sync_window_clean [OF assms sw]
  note gf = geo_fields [OF s1(5)] and af = alloc_fields [OF s1(6)]
  have lw: "length (win v) = SS" using assms(2) by (simp add: vok_def wf_vol_def)
  show ?thesis
  proof (cases "fsinfo_due v")
    case False
    then have "\<not> (fs_type v1 = FS_FAT32 \<and> fsi_flag v1 = 1)" using gf af by (auto simp: fsinfo_due_def)
    then have "sync_fs v = (FR_OK, v1)" unfolding sync_fs_def sw prod.case using s1(1) by (auto simp: disk_ioctl_def Let_def)
    then show ?thesis using s1 False af by (intro exI [of _ v1]) auto
  next
    case True
    define w where "w = fsinfo_bytes v"
    have wl: "length w = SS" using fsinfo_read(1) [OF lw] by (simp add: w_def)
    define v' where "v' = v1\<lparr>win := w, winsect := volbase v1 + 1, fsi_flag := 0,
      drv := (drv v1)\<lparr>sectors := (sectors (drv v1))(unat (volbase v1 + 1) := w)\<rparr>\<rparr>"
    have dw: "disk_write (pdrv v1) w (volbase v1 + 1) 1 (drv v1)
        = (RES_OK, (drv v1)\<lparr>sectors := (sectors (drv v1))(unat (volbase v1 + 1) := w)\<rparr>)"
      using s1(2) wl by (intro disk_write_healthy) (simp_all add: healthy_def)
    have ty: "fs_type v1 = 3" "fsi_flag v1 = 1" using True gf af by (auto simp: fsinfo_due_def)
    have we: "st_dword (st_dword (st_dword (st_dword (st_word (mem_set (win v1) 0 0 SS) BS_55AA 0xAA55)
       FSI_LeadSig 0x41615252) FSI_StrucSig 0x61417272) FSI_Free_Count (free_clst v1)) FSI_Nxt_Free (last_clst v1) = w"
      using s1(7) af by (simp add: w_def fsinfo_bytes_def)
    have "sync_fs v = (FR_OK, v')"
      unfolding sync_fs_def sw prod.case Let_def using s1(1) ty we dw
      by (simp add: disk_ioctl_def v'_def)
    moreover have "geo v' = geo v" using s1(5) by (simp add: v'_def geo_def)
    moreover have "healthy v'" "vok v'" using s1(2-4) wl by (auto simp: v'_def healthy_def vok_def wf_vol_def coherent_def)
    moreover have "wflag v' = 0" "fsi_flag v' = 0" "winsect v' = volbase v + 1" "free_clst v' = free_clst v" "last_clst v' = last_clst v"
      using s1(4) gf af by (simp_all add: v'_def)
    moreover have "sectors (drv v') (unat (volbase v + 1)) = fsinfo_bytes v" using gf by (simp add: v'_def w_def)
    moreover have "sectors (drv v') s = vsec v s \<and> vsec v' s = vsec v s" if "pub v s" "s \<noteq> unat (volbase v + 1)" for s
      using s1(11) [OF that(1)] that(2) gf by (simp add: v'_def vsec_def)
    ultimately show ?thesis using True by (intro exI [of _ v']) auto
  qed
qed

text \<open>C33: Synchronising a volume. On a healthy drive \<open>sync_fs\<close> leaves every sector of the file system on the drive
  as the volume saw it through its window; on a FAT32 volume whose allocation changed it replaces
  the sector after the boot sector by a valid FSInfo sector with the free count and the last
  allocated cluster of the volume, and marks it as written.\<close>

theorem volume_synced:
  assumes "healthy v" and "vok v"
  defines "due \<equiv> fs_type v = FS_FAT32 \<and> fsi_flag v = 1"
  shows "\<exists>v' w. sync_fs v = (FR_OK, v') \<and> wflag v' = 0
    \<and> (\<forall>s. pub v s \<longrightarrow> \<not> (due \<and> s = unat (volbase v + 1)) \<longrightarrow> sectors (drv v') s = vsec v s)
    \<and> w = sectors (drv v') (unat (volbase v + 1))
    \<and> (due \<longrightarrow> fsi_flag v' = 0 \<and> ld_word w BS_55AA = 0xAA55 \<and> ld_dword w FSI_LeadSig = 0x41615252
         \<and> ld_dword w FSI_StrucSig = 0x61417272 \<and> ld_dword w FSI_Free_Count = free_clst v
         \<and> ld_dword w FSI_Nxt_Free = last_clst v)"
proof -
  have l: "length (win v) = SS" using assms(2) by (simp add: vok_def wf_vol_def)
  have "due = fsinfo_due v" by (simp add: due_def fsinfo_due_def)
  with sync_fs_writes [OF assms(1,2)] fsinfo_read [OF l] show ?thesis by fastforce
qed

theorem volume_synced_witness:
  "\<exists>v'. sync_fs ((sample 3 [])\<lparr>fsi_flag := 1, free_clst := 7\<rparr>) = (FR_OK, v')
    \<and> ld_dword (sectors (drv v') 1) FSI_Free_Count = 7 \<and> ld_word (sectors (drv v') 1) BS_55AA = 0xAA55"
proof -
  have "healthy ((sample 3 [])\<lparr>fsi_flag := 1, free_clst := 7\<rparr>)" "vok ((sample 3 [])\<lparr>fsi_flag := 1, free_clst := 7\<rparr>)"
    by (simp_all add: healthy_def vok_def coherent_def wf_vol_def length_sample_sector)
  from volume_synced [OF this] show ?thesis by auto
qed

section \<open>The directory entry of a file\<close>

lemma ld_word_update: "j \<noteq> i \<Longrightarrow> j \<noteq> i + 1 \<Longrightarrow> ld_word (p[j := x]) i = ld_word p i"
  by (simp add: ld_word_def)






section \<open>\<open>f_sync\<close>\<close>

text \<open>The place of the directory entry of an open file: a visible sector outside of the file's own data; the
  FSInfo sector is another one.\<close>

definition entry_apart :: "vol \<Rightarrow> FIL \<Rightarrow> DWORD list \<Rightarrow> bool" where
  "entry_apart v fp cs \<longleftrightarrow>
     pub v (unat (dir_sect fp)) \<and> \<not> in_fat v (unat (dir_sect fp)) \<and> unat (dir_sect fp) \<notin> file_sectors v cs \<and> dir_ptr fp + 32 \<le> SS
     \<and> (fs_type v = FS_FAT32 \<longrightarrow> unat (dir_sect fp) \<noteq> unat (volbase v + 1) \<and> unat (volbase v + 1) \<notin> file_sectors v cs
          \<and> unat (volbase v + 1) < unat (fatbase v))"

definition file_on_disk :: "vol \<Rightarrow> vol \<Rightarrow> FIL \<Rightarrow> DWORD list \<Rightarrow> DWORD \<Rightarrow> bool" where
  "file_on_disk v v' fp cs tm \<longleftrightarrow>
     (\<forall>s \<in> file_sectors v cs. sectors (drv v') s = fsec v fp s)
     \<and> (let w = sectors (drv v') (unat (dir_sect fp)); u = vsec v (unat (dir_sect fp)); e = dir_ptr fp in
        ld_clust v w e = sclust (fobj fp) \<and> ld_dword w (e + DIR_FileSize) = objsize (fobj fp)
        \<and> ld_dword w (e + DIR_ModTime) = tm \<and> w ! (e + DIR_Attr) = u ! (e + DIR_Attr) OR AM_ARC
        \<and> (\<forall>j. j < e + DIR_Attr \<or> e + 32 \<le> j \<or> e + DIR_Attr < j \<and> j < e + DIR_LstAccDate \<longrightarrow> w ! j = u ! j))"




lemma lock_irrelevant_sync [simp]:
  "entry_apart (v\<lparr>sobj := l\<rparr>) = entry_apart v" "file_on_disk (v\<lparr>sobj := l\<rparr>) = file_on_disk v"
  "file_on_disk v (v'\<lparr>sobj := l\<rparr>) = file_on_disk v v'"
proof -
  have "pub (v\<lparr>sobj := l\<rparr>) s = pub v s" "in_fat (v\<lparr>sobj := l\<rparr>) s = in_fat v s" for s
    by (simp_all add: pub_def in_mirror_def in_fat_def)
  then show "entry_apart (v\<lparr>sobj := l\<rparr>) = entry_apart v" by (simp add: entry_apart_def fun_eq_iff)
  have "ld_clust (v\<lparr>sobj := l\<rparr>) = ld_clust v" "vsec (v\<lparr>sobj := l\<rparr>) = vsec v"
    by (simp_all add: ld_clust_def vsec_def fun_eq_iff)
  then show "file_on_disk (v\<lparr>sobj := l\<rparr>) = file_on_disk v" by (simp add: file_on_disk_def fun_eq_iff)
  show "file_on_disk v (v'\<lparr>sobj := l\<rparr>) = file_on_disk v v'" by (simp add: file_on_disk_def fun_eq_iff)
qed






end
