(* ===== verification/Fat_Count.thy ===== *)
theory Fat_Count
  imports Fat_Seek
begin

text \<open>
  Clusters and their number: that \<open>clst2sect\<close> keeps the sectors of different clusters apart, and
  \<open>f_getfree\<close> of \<^verbatim>\<open>addon/fatfs/ff.c\<close> (lines 4634-4714) against the number of free entries of the table, for
  the scan by entries of FAT12 and the scan by sectors of FAT16 and FAT32, with what it leaves when
  a scan fails.
\<close>

unbundle bit_operations_syntax

section \<open>Entries in the window\<close>

text \<open>The free entries of the table from \<open>j\<close> on.\<close>

definition free_from :: "vol \<Rightarrow> nat \<Rightarrow> nat set" where
  "free_from v j = {d. j \<le> d \<and> d < unat (n_fatent v) \<and> fat_entry v d = 0}"

lemma card_free_from:
  "j < unat (n_fatent v) \<Longrightarrow>
   card (free_from v j) = (if fat_entry v j = 0 then 1 else 0) + card (free_from v (Suc j))"
proof -
  assume j: "j < unat (n_fatent v)"
  have f: "finite (free_from v (Suc j))" by (rule finite_subset [of _ "{..<unat (n_fatent v)}"]) (auto simp: free_from_def)
  have "free_from v j = (if fat_entry v j = 0 then insert j (free_from v (Suc j)) else free_from v (Suc j))"
    using j by (auto simp: free_from_def Suc_le_eq le_less)
  then show ?thesis using f by (simp add: free_from_def)
qed

lemma free_from_end: "unat (n_fatent v) \<le> j \<Longrightarrow> free_from v j = {}"
  by (auto simp: free_from_def)

lemma free_from_quiet: "quiet v v' \<Longrightarrow> vok v \<Longrightarrow> fat_geom v \<Longrightarrow> free_from v' j = free_from v j"
  using quiet_fat_entry [of v v'] quiet_fields(7) [of v v'] by (auto simp: free_from_def)

text \<open>An entry read from the window when it holds the entry's sector.\<close>

lemma window_image:
  "unat (winsect v) = unat (fatbase v) + i div SS \<Longrightarrow> fat_image v i = win v ! (i mod SS)"
  by (simp add: fat_image_def vsec_def)

lemma window_entry16:
  assumes "unat (winsect v) = unat (fatbase v) + 2 * d div SS" and "fs_type v = 2"
  shows "(ld_word (win v) (2 * d mod SS) = 0) = (fat_entry v d = 0)"
proof -
  note s = sector_pos [of 2 1 d, simplified]
  have "fat_image v (2 * d) = win v ! (2 * d mod SS)" "fat_image v (2 * d + 1) = win v ! (2 * d mod SS + 1)"
    using window_image [of v "2 * d"] window_image [of v "2 * d + 1"] assms(1) s by simp_all
  then have "fat_entry v d = ucast (ld_word (win v) (2 * d mod SS))"
    using assms(2) by (simp add: fat_entry_def dec16_def ucast_ld_word)
  moreover have "unat (ucast (ld_word (win v) (2 * d mod SS)) :: DWORD) = unat (ld_word (win v) (2 * d mod SS))" by simp
  ultimately show ?thesis by (metis unsigned_eq_0_iff)
qed

lemma window_entry32:
  assumes "unat (winsect v) = unat (fatbase v) + 4 * d div SS" and "fs_type v = 3"
  shows "(ld_dword (win v) (4 * d mod SS) AND 0x0FFFFFFF = 0) = (fat_entry v d = 0)"
proof -
  have "win v ! (4 * d mod SS + k) = fat_image v (4 * d + k)" if "k < 4" for k
    using window_image [of v "4 * d + k"] sector_pos [of 4 k d, OF _ that] assms(1) by simp
  from this [of 0] this [of 1] this [of 2] this [of 3]
  have "ld_dword (win v) (4 * d mod SS) = dword32 (fat_image v) d"
    by (simp add: ld_dword_def dword32_def push_bit_or ac_simps)
  then show ?thesis using assms(2) by (simp add: fat_entry_def dec32_def)
qed

text \<open>The next entry lies in the same sector, or at the start of the next one.\<close>

lemma next_entry:
  assumes "w = 2 \<or> w = 4"
  shows "w * Suc j mod SS = (w * j mod SS + w) mod SS"
    and "w * Suc j mod SS = 0 \<Longrightarrow> w * Suc j div SS = Suc (w * j div SS)"
    and "w * Suc j mod SS \<noteq> 0 \<Longrightarrow> w * Suc j div SS = w * j div SS"
proof -
  show "w * Suc j mod SS = (w * j mod SS + w) mod SS" by (simp add: mod_simps add.commute)
  have dv: "w dvd SS" using assms by auto
  then have "w dvd w * j mod SS" by (simp add: dvd_mod)
  moreover have "w * j mod SS < SS" by simp
  ultimately have le: "w * j mod SS + w \<le> SS" using assms by (auto elim!: dvdE)
  have e: "w * Suc j = SS * (w * j div SS) + (w * j mod SS + w)" by simp
  show "w * Suc j mod SS = 0 \<Longrightarrow> w * Suc j div SS = Suc (w * j div SS)"
  proof -
    assume z: "w * Suc j mod SS = 0"
    then have "w * j mod SS + w = SS" using le assms z \<open>w * Suc j mod SS = (w * j mod SS + w) mod SS\<close> by (cases "w * j mod SS + w = SS") auto
    then show ?thesis using e by simp
  qed
  show "w * Suc j mod SS \<noteq> 0 \<Longrightarrow> w * Suc j div SS = w * j div SS"
  proof -
    assume z: "w * Suc j mod SS \<noteq> 0"
    then have "w * j mod SS + w < SS" using le z \<open>w * Suc j mod SS = (w * j mod SS + w) mod SS\<close> by (cases "w * j mod SS + w = SS") auto
    moreover have "w * j = SS * (w * j div SS) + w * j mod SS" by simp
    ultimately have "w * Suc j < SS * Suc (w * j div SS)" "SS * (w * j div SS) \<le> w * Suc j"
      unfolding mult_Suc_right by linarith+
    then show ?thesis by (intro div_nat_eqI) (simp_all add: mult.commute)
  qed
qed

section \<open>The scans\<close>

text \<open>FAT16 and FAT32: sector by sector. The entries 0 and 1 are counted like the others.\<close>

definition scan_at :: "vol \<Rightarrow> nat \<Rightarrow> DWORD \<Rightarrow> UINT \<Rightarrow> nat \<Rightarrow> bool" where
  "scan_at v w sect i j \<longleftrightarrow>
     unat i = w * j mod SS
     \<and> unat sect = unat (fatbase v) + w * j div SS + (if i = 0 then 0 else 1)
     \<and> (i \<noteq> 0 \<longrightarrow> unat (winsect v) = unat (fatbase v) + w * j div SS)"

lemma scan_load:
  assumes ok: "vok v" "healthy v" "fat_geom v" and w: "w = 2 \<and> fs_type v = 2 \<or> w = 4 \<and> fs_type v = 3"
    and p: "scan_at v w sect i j" and j: "j < unat (n_fatent v)"
  shows "\<exists>v1. (if i = 0 then move_window v sect else (FR_OK, v)) = (FR_OK, v1) \<and> quiet v v1 \<and> healthy v1
    \<and> unat (winsect v1) = unat (fatbase v) + w * j div SS
    \<and> unat (if i = 0 then sect + 1 else sect) = unat (fatbase v) + w * j div SS + 1"
proof -
  have "w * j < fat_bytes v" using w j by (auto simp: fat_bytes_def)
  then have "w * j div SS < unat (fsize v)" using ok(3) by (simp add: fat_geom_def less_mult_imp_div_less mult.commute)
  then have "unat (fatbase v) + w * j div SS + 1 < 2 ^ 32" using ok(3) by (simp add: fat_geom_def)
  then have s1: "i = 0 \<Longrightarrow> unat (sect + 1) = unat (fatbase v) + w * j div SS + 1"
    using p by (subst unat_add_bound) (simp_all add: scan_at_def)
  show ?thesis
  proof (cases "i = 0")
    case True
    obtain r v1 where m: "move_window v sect = (r, v1)" by fastforce
    note h = move_window_healthyE [OF ok(2,1) m]
    have "winsect v1 = sect" using move_window_ok(6) [OF m ok(1) h(1)] .
    then show ?thesis using True m h s1 p move_window_quiet [OF m] by (simp add: scan_at_def)
  next
    case False
    then show ?thesis using p ok(2) by (simp add: scan_at_def)
  qed
qed

lemma scan_next:
  assumes w: "w = 2 \<or> w = 4" and p: "scan_at v w sect i j"
    and v1: "fatbase v1 = fatbase v" "unat (winsect v1) = unat (fatbase v) + w * j div SS"
    and s: "unat s1 = unat (fatbase v) + w * j div SS + 1"
  shows "scan_at v1 w s1 ((i + of_nat w) mod SS) (Suc j)"
proof -
  have i: "unat i = w * j mod SS" using p by (simp add: scan_at_def)
  then have "unat i < SS" by simp
  then have "unat (i + of_nat w) = unat i + w" using w by (subst unat_add_bound) auto
  then have u: "unat ((i + of_nat w) mod SS) = w * Suc j mod SS"
    using i next_entry(1) [OF w, of j] by (simp add: unat_mod)
  have z: "(i + of_nat w) mod SS = 0 \<longleftrightarrow> w * Suc j mod SS = 0" unfolding u [symmetric] by (simp add: unsigned_eq_0_iff)
  show ?thesis
  proof (cases "w * Suc j mod SS = 0")
    case True
    then show ?thesis using u z next_entry(2) [OF w True] v1 s by (simp add: scan_at_def)
  next
    case False
    then show ?thesis using u z next_entry(3) [OF w False] v1 s by (simp add: scan_at_def)
  qed
qed

lemma free_scan_counts:
  assumes "vok v" "healthy v" "fat_geom v" and "w = 2 \<and> fs_type v = 2 \<or> w = 4 \<and> fs_type v = 3"
    and "scan_at v w sect i j" and "clst \<noteq> 0" and "unat clst + j = unat (n_fatent v)"
  shows "\<exists>v'. free_scan v clst sect i n = Some (FR_OK, n + of_nat (card (free_from v j)), v') \<and> quiet v v' \<and> healthy v'"
  using assms
proof (induction "unat clst" arbitrary: v sect i j clst n)
  case 0
  then show ?case by (simp add: unsigned_eq_0_iff)
next
  case (Suc m)
  note ok = Suc.prems(1-3) and w = Suc.prems(4)
  have j: "j < unat (n_fatent v)" using Suc.hyps(2) Suc.prems(7) by simp
  from scan_load [OF ok w Suc.prems(5) j] obtain v1 where
    l: "(if i = 0 then move_window v sect else (FR_OK, v)) = (FR_OK, v1)" and q: "quiet v v1" and h1: "healthy v1"
    and ws: "unat (winsect v1) = unat (fatbase v) + w * j div SS"
    and s1: "unat (if i = 0 then sect + 1 else sect) = unat (fatbase v) + w * j div SS + 1" by blast
  note qf = quiet_fields [OF q]
  have ok1: "vok v1" "fat_geom v1" using quietD(3) [OF q ok(1)] quiet_fat_geom [OF q] ok(3) by simp_all
  have i: "unat i = w * j mod SS" using Suc.prems(5) by (simp add: scan_at_def)
  have e: "fat_entry v1 j = fat_entry v j" by (rule quiet_fat_entry [OF q ok(1,3) j])
  have free: "(if fs_type v1 = FS_FAT16 then ld_word (win v1) (unat i) = 0
      else ld_dword (win v1) (unat i) AND 0x0FFFFFFF = 0) = (fat_entry v j = 0)"
    using w window_entry16 [of v1 j] window_entry32 [of v1 j] ws i qf e by auto
  define n1 where "n1 = (if fat_entry v j = 0 then n + 1 else n)"
  define i1 where "i1 = (i + (if fs_type v1 = FS_FAT16 then 2 else 4)) mod SS"
  define st where "st = (if i = 0 then sect + 1 else sect)"
  have step: "free_scan v clst sect i n =
      (if clst - 1 \<noteq> 0 then free_scan v1 (clst - 1) st i1 n1 else Some (FR_OK, n1, v1))"
    unfolding free_scan.simps [of v clst] l prod.case Let_def free i1_def st_def n1_def by simp
  have wv: "of_nat w = (if fs_type v1 = FS_FAT16 then 2 else 4 :: UINT)" using w qf(1) by auto
  have "w = 2 \<or> w = 4" using w by auto
  from scan_next [OF this Suc.prems(5) qf(10) ws s1 [folded st_def]]
  have at: "scan_at v1 w st i1 (Suc j)" unfolding wv i1_def .
  have c1: "unat (clst - 1) = m" using Suc.hyps(2) Suc.prems(6) by (simp add: unat_minus_one)
  have card: "n + of_nat (card (free_from v j)) = n1 + of_nat (card (free_from v (Suc j)))"
    using card_free_from [OF j] by (simp add: n1_def)
  show ?case
  proof (cases "clst - 1 = 0")
    case True
    then have "m = 0" using c1 by simp
    then have "card (free_from v (Suc j)) = 0" using Suc.hyps(2) Suc.prems(7) by (simp add: free_from_end)
    then show ?thesis using step True card q h1 by simp
  next
    case False
    from Suc.hyps(1) [OF c1 [symmetric] ok1(1) h1 ok1(2) _ at False] obtain v' where
      f: "free_scan v1 (clst - 1) st i1 n1 = Some (FR_OK, n1 + of_nat (card (free_from v1 (Suc j))), v')"
        "quiet v1 v'" "healthy v'"
      using w qf c1 Suc.hyps(2) Suc.prems(7) by auto
    then show ?thesis using step False card quiet_trans [OF q f(2)] free_from_quiet [OF q ok(1,3)] by simp
  qed
qed

text \<open>FAT12: entry by entry.\<close>

lemma free_scan12_counts:
  assumes "vok v" "healthy v" "fat_geom v" and "\<not> bad_entry v" and "2 \<le> c" "c < n_fatent v"
  shows "\<exists>v'. free_scan12 v c n = Some (FR_OK, n + of_nat (card (free_from v (unat c))), v') \<and> quiet v v' \<and> healthy v'"
  using assms
proof (induction "unat (n_fatent v) - unat c" arbitrary: v c n rule: less_induct)
  case less
  note ok = less.prems(1-3) and c = less.prems(5,6)
  have cn: "2 \<le> unat c" "unat c < unat (n_fatent v)" using c by (simp_all add: word_le_nat_alt word_less_nat_alt)
  obtain x v1 where g: "get_fat v c = (x, v1)" by fastforce
  note q = get_fat_quiet [OF g]
  note qf = quiet_fields [OF q] and h1 = get_fat_healthy [OF ok(2,1) g]
  have ok1: "vok v1" "fat_geom v1" using quietD(3) [OF q ok(1)] quiet_fat_geom [OF q] ok(3) by simp_all
  have x: "x = fat_entry v (unat c)" using get_fat_healthyD [OF g ok(2,1,3) c] by simp
  then have x1: "x \<noteq> 1" using less.prems(4) cn by (auto simp: bad_entry_def)
  define n1 where "n1 = (if x = 0 then n + 1 else n)"
  have step: "free_scan12 v c n = (if c + 1 < n_fatent v1 then free_scan12 v1 (c + 1) n1 else Some (FR_OK, n1, v1))"
    unfolding n1_def by (subst free_scan12.simps) (use g x1 h1(2) in \<open>simp add: Let_def\<close>)
  have c1: "unat (c + 1) = Suc (unat c)" using cn fat_geom_max [OF ok(3)] by (subst unat_add_bound) simp_all
  have card: "n + of_nat (card (free_from v (unat c))) = n1 + of_nat (card (free_from v (Suc (unat c))))"
    using card_free_from [OF cn(2)] x by (simp add: n1_def)
  show ?case
  proof (cases "c + 1 < n_fatent v1")
    case False
    then have "card (free_from v (Suc (unat c))) = 0"
      using c1 qf(7) by (simp add: word_less_nat_alt free_from_end)
    then show ?thesis using step False card q h1(1) by simp
  next
    case True
    have nb1: "\<not> bad_entry v1"
      using less.prems(4) quiet_fat_entry [OF q ok(1,3)] qf(7) by (auto simp: bad_entry_def)
    have "2 \<le> c + 1" using c1 cn by (simp add: word_le_nat_alt)
    moreover have "unat (n_fatent v1) - unat (c + 1) < unat (n_fatent v) - unat c" using c1 cn qf(7) by simp
    ultimately obtain v' where
      f: "free_scan12 v1 (c + 1) n1 = Some (FR_OK, n1 + of_nat (card (free_from v1 (unat (c + 1)))), v')" "quiet v1 v'" "healthy v'"
      using less.hyps [of v1 "c + 1" n1] ok1 h1(1) nb1 True by blast
    then show ?thesis using step True card quiet_trans [OF q f(2)] free_from_quiet [OF q ok(1,3)] c1 by simp
  qed
qed

section \<open>\<open>f_getfree\<close>\<close>

abbreviation (input) first_counted :: "vol \<Rightarrow> nat" where
  "first_counted v \<equiv> if fs_type v = FS_FAT12 then 2 else 0"

lemma getfree_work_counts:
  assumes ok: "vok v" "healthy v" "fat_geom v" and nb: "\<not> bad_entry v"
  shows "\<exists>c v'. getfree_work v = Some (FR_OK, c, v') \<and> free_clst v' = c \<and> geo v' = geo v \<and> vok v' \<and> healthy v'
    \<and> (\<forall>d < unat (n_fatent v). fat_entry v' d = fat_entry v d)
    \<and> (if free_clst v \<le> n_fatent v - 2 then c = free_clst v
       else c = of_nat (card (free_from v (first_counted v))))"
proof (cases "free_clst v \<le> n_fatent v - 2")
  case True
  then show ?thesis using ok by (simp add: getfree_work_def)
next
  case False
  let ?F = "card (free_from v (first_counted v))"
  have "\<exists>v1. (if fs_type v = FS_FAT12 then free_scan12 v 2 0 else free_scan v (n_fatent v) (fatbase v) 0 0)
      = Some (FR_OK, of_nat ?F, v1) \<and> quiet v v1 \<and> healthy v1"
    using ok(3)
  proof (cases rule: fat_types)
    case FAT12
    have "2 < n_fatent v" using fat_geom_min [OF ok(3)] by (simp add: word_less_nat_alt)
    then show ?thesis using free_scan12_counts [OF ok nb, of 2 0] FAT12 by simp
  next
    case FAT16
    have "scan_at v 2 (fatbase v) 0 0" by (simp add: scan_at_def)
    then show ?thesis
      using free_scan_counts [OF ok, of 2 "fatbase v" 0 0 "n_fatent v" 0] fat_geom_min [OF ok(3)] FAT16 by fastforce
  next
    case FAT32
    have "scan_at v 4 (fatbase v) 0 0" by (simp add: scan_at_def)
    then show ?thesis
      using free_scan_counts [OF ok, of 4 "fatbase v" 0 0 "n_fatent v" 0] fat_geom_min [OF ok(3)] FAT32 by fastforce
  qed
  then obtain v1 where
    s: "(if fs_type v = FS_FAT12 then free_scan12 v 2 0 else free_scan v (n_fatent v) (fatbase v) 0 0)
      = Some (FR_OK, of_nat ?F, v1)" and q: "quiet v v1" and h1: "healthy v1" by blast
  define v' where "v' = v1\<lparr>free_clst := of_nat ?F, fsi_flag := fsi_flag v1 OR 1\<rparr>"
  have ok1: "vok v1" using quietD(3) [OF q ok(1)] .
  have geo: "geo v' = geo v1" by (simp add: v'_def geo_def)
  have ok': "vok v'" "healthy v'" using ok1 h1
    by (simp_all add: v'_def vok_def wf_vol_def coherent_def healthy_def vsec_def in_mirror_def)
  have "fat_image v' = fat_image v1" by (simp add: v'_def fat_image_def vsec_def fun_eq_iff)
  then have ent: "fat_entry v' d = fat_entry v1 d" for d by (simp add: fat_entry_def geo_fields [OF geo])
  have "getfree_work v = Some (FR_OK, of_nat ?F, v')"
    unfolding getfree_work_def if_not_P [OF False] s by (simp add: v'_def)
  moreover have "free_clst v' = of_nat ?F" by (simp add: v'_def)
  ultimately show ?thesis
    using False geo ok' ent quietD(1) [OF q] quiet_fat_entry [OF q ok(1,3)] by auto
qed

text \<open>C27: Counting the free clusters. On a mounted, healthy volume whose table holds no entry of the
  reserved value 1 (an internal error for the scan of FAT12) \<open>f_getfree\<close> answers with the count the
  volume keeps when it is a possible one, and otherwise scans the table, whichever of the three
  layouts it has, and answers with the number of free entries: those of the clusters on FAT12, those
  of the whole table, the two reserved entries included, on FAT16 and FAT32. The answer is kept as
  the free count of the volume, no entry changes, and the volume is unlocked.\<close>

theorem free_clusters_counted:
  assumes "get_ldnumber path = (int n, p)" and "FatFs g n = Some k"
    and "fs_type (objs g k) \<noteq> 0" and "\<not> sobj (objs g k)"
    and "vok (vol_of g k)" and "healthy (vol_of g k)" and "fat_geom (vol_of g k)" and "\<not> bad_entry (vol_of g k)"
  shows "\<exists>c g'. f_getfree g path = Some (FR_OK, Some (c, k), g') \<and> free_clst (objs g' k) = c
    \<and> \<not> sobj (objs g' k) \<and> (\<forall>d < unat (n_fatent (objs g k)). fat_entry (vol_of g' k) d = fat_entry (vol_of g k) d)
    \<and> (if free_clst (objs g k) \<le> n_fatent (objs g k) - 2 then c = free_clst (objs g k)
       else c = of_nat (card {d. first_counted (vol_of g k) \<le> d \<and> d < unat (n_fatent (objs g k)) \<and> fat_entry (vol_of g k) d = 0}))"
proof -
  let ?v = "(vol_of g k)\<lparr>sobj := True\<rparr>"
  let ?g = "g\<lparr>objs := (objs g)(k := (objs g k)\<lparr>sobj := True\<rparr>)\<rparr>"
  have "bad_entry ?v = bad_entry (vol_of g k)" "fat_geom ?v = fat_geom (vol_of g k)"
    by (simp_all add: bad_entry_def fat_geom_def fat_bytes_def)
  then have bad: "\<not> bad_entry ?v" and ge: "fat_geom ?v" using assms(7,8) by simp_all
  have "vok ?v" "healthy ?v" using assms(5,6) by simp_all
  from getfree_work_counts [OF this ge bad] obtain c v' where
    w: "getfree_work ?v = Some (FR_OK, c, v')" "free_clst v' = c" "geo v' = geo ?v"
      "\<forall>d < unat (n_fatent ?v). fat_entry v' d = fat_entry ?v d"
      "if free_clst ?v \<le> n_fatent ?v - 2 then c = free_clst ?v else c = of_nat (card (free_from ?v (first_counted ?v)))" by blast
  note gf = geo_fields [OF w(3)]
  have fields: "free_clst (vol_of g k) = free_clst (objs g k)" "n_fatent (vol_of g k) = n_fatent (objs g k)"
    "fs_type (vol_of g k) = fs_type (objs g k)"
    by (simp_all add: vol_of_def FATFS.defs)
  have vg: "vol_of ?g k = ?v" by (rule vol_of_lock)
  have st: "disk_status (pdrv ?v) (drv ?v) AND STA_NOINIT = 0"
    using assms(6) by (simp add: healthy_def disk_status_def)
  have fv: "find_volume g path 0 = Some (FR_OK, Some k, p, ?g)"
    using assms(1-4) st vg fields(3) by (simp add: find_volume_def lock_fs_def ff_req_grant_def Let_def)
  have "now v' = sys_now ?g" using gf(14) by (simp add: vol_of_def FATFS.defs)
  then have pv: "vol_of (put_vol ?g k v') k = v'" by (rule vol_of_put_vol)
  let ?g' = "unlock_fs (put_vol ?g k v') (Some k) FR_OK"
  have r: "f_getfree g path = Some (FR_OK, Some (c, k), ?g')"
    using fv w(1) vg by (simp add: f_getfree_def on_volume_def leave_ff_def)
  have u: "vol_of ?g' k = v'\<lparr>sobj := False\<rparr>"
    using vol_of_lock [of "put_vol ?g k v'" k False] pv by (simp add: unlock_fs_def ff_rel_grant_def)
  have "free_clst (vol_of ?g' k) = free_clst (objs ?g' k)" "sobj (vol_of ?g' k) = sobj (objs ?g' k)"
    by (simp_all add: vol_of_def FATFS.defs)
  then have "free_clst (objs ?g' k) = c" "\<not> sobj (objs ?g' k)" using u w(2) by simp_all
  moreover have "fat_entry (vol_of ?g' k) d = fat_entry (vol_of g k) d" if "d < unat (n_fatent (objs g k))" for d
    using w(4) that u fields(2) by simp
  moreover have "free_from ?v j = {d. j \<le> d \<and> d < unat (n_fatent (objs g k)) \<and> fat_entry (vol_of g k) d = 0}" for j
    using fields(2) by (simp add: free_from_def)
  ultimately show ?thesis using r w(5) fields by (intro exI [of _ c] exI [of _ ?g']) simp
qed

text \<open>On the sample volume only cluster 4 is free.\<close>

lemma no_prefix: "get_ldnumber (Some []) = (int 0, Some [])"
  by (simp add: get_ldnumber_def find_colon.simps at_def Let_def)

theorem free_clusters_counted_witness:
  "\<exists>g'. f_getfree (sample_sys sample_vol) (Some []) = Some (FR_OK, Some (1, 0), g') \<and> free_clst (objs g' 0) = 1"
proof -
  let ?g = "sample_sys sample_vol"
  have f: "n_fatent (objs ?g 0) = 5" "free_clst (objs ?g 0) = 0xFFFFFFFF" "fs_type (objs ?g 0) = 2" "\<not> sobj (objs ?g 0)"
    by (simp_all add: fields_sample_sys sample_vol_def sample_def FATFS.defs)
  have e: "{d. 0 \<le> d \<and> d < unat (5 :: DWORD) \<and> fat_entry sample_vol d = 0} = {4}"
  proof -
    have "d = 0 \<or> d = 1 \<or> d = 2 \<or> d = 3 \<or> d = 4" if "d < 5" for d :: nat using that by linarith
    moreover have "fat_entry sample_vol 0 \<noteq> 0" "fat_entry sample_vol 1 \<noteq> 0" "fat_entry sample_vol 2 = 3"
      "fat_entry sample_vol 3 = 0xFFFF" "fat_entry sample_vol 4 = 0"
      using sample_entries unfolding sample_vol_def
      by (simp_all add: fat_entry_def dec16_def fat_image_sample table16_def)
    ultimately show ?thesis by (auto; force)
  qed
  have "fat_geom sample_vol" "vok sample_vol" "healthy sample_vol" "FatFs ?g 0 = Some 0" "fs_type sample_vol = 2"
    by (simp_all add: sample_vol_def fat_geom_sample sample_sys_def)
  with free_clusters_counted [OF no_prefix, of ?g 0] show ?thesis
    using f e sample_no_bad by (force simp: vol_of_sample_sys)
qed

text \<open>A failed count is taken for a good one. When the scan of \<open>f_getfree\<close> breaks off with a disk error or
  an internal error, the clusters counted so far are stored as the free count of the volume
  all the same, and the next call answers \<open>FR_OK\<close> with that number without another look at the
  table.\<close>

theorem failed_count_kept:
  assumes "getfree_work v = Some (res, c, v')" and "res \<noteq> FR_OK" and "c \<le> n_fatent v' - 2"
  shows "free_clst v' = c \<and> fsi_flag v' AND 1 = 1 \<and> getfree_work v' = Some (FR_OK, c, v')"
proof -
  have "\<not> free_clst v \<le> n_fatent v - 2" using assms(1,2) by (auto simp: getfree_work_def)
  then obtain v1 where "v' = v1\<lparr>free_clst := c, fsi_flag := fsi_flag v1 OR 1\<rparr>"
    using assms(1) by (auto simp: getfree_work_def bind_eq_Some_conv split: if_splits)
  then have "free_clst v' = c" "fsi_flag v' = fsi_flag v1 OR 1" by simp_all
  then show ?thesis using assms(3) by (simp add: getfree_work_def and.assoc bit.conj_disj_distrib2)
qed

theorem failed_count_kept_witness:
  "\<exists>v'. getfree_work (sample_vol\<lparr>drv := (sample_drive [])\<lparr>faults := [Some 0]\<rparr>\<rparr>) = Some (FR_DISK_ERR, 0, v')
    \<and> getfree_work v' = Some (FR_OK, 0, v')"
proof -
  let ?v = "sample_vol\<lparr>drv := (sample_drive [])\<lparr>faults := [Some 0]\<rparr>\<rparr>"
  have "move_window ?v 1 = (FR_DISK_ERR, ?v\<lparr>drv := sample_drive [], winsect := 0xFFFFFFFF\<rparr>)"
    by (simp add: move_window_def sync_window_def disk_read_def dev_read_def next_fault_def sample_vol_def sample_drive_def)
  then have "free_scan ?v 5 1 0 0 = Some (FR_DISK_ERR, 0, ?v\<lparr>drv := sample_drive [], winsect := 0xFFFFFFFF\<rparr>)"
    by (simp add: free_scan.simps)
  then have "\<exists>v'. getfree_work ?v = Some (FR_DISK_ERR, 0, v') \<and> n_fatent v' = 5"
    by (simp add: getfree_work_def sample_vol_def)
  then show ?thesis using failed_count_kept [of ?v FR_DISK_ERR 0] by auto
qed

section \<open>Clusters apart\<close>

text \<open>Clusters do not share sectors. On a volume whose data area fits the 32-bit sector numbers, a cluster
  number outside of the table gives sector 0, and the sectors of two clusters of the table are different
  unless cluster and offset are the same; none of them is sector 0, the invalid number
  \<open>0xFFFFFFFF\<close>, or a sector of the allocation table or its copy.\<close>

theorem cluster_sectors_apart:
  assumes "data_geom v" and "2 \<le> c" "c < n_fatent v" and "2 \<le> d" "d < n_fatent v"
    and "i < unat (csize v)" and "j < unat (csize v)"
  defines "s \<equiv> clst2sect v c + of_nat i"
  shows "(s = clst2sect v d + of_nat j \<longrightarrow> c = d \<and> i = j) \<and> s \<noteq> 0 \<and> s \<noteq> 0xFFFFFFFF
    \<and> \<not> in_fat v (unat s) \<and> \<not> in_mirror v (unat s)
    \<and> (\<forall>x. x < 2 \<or> n_fatent v \<le> x \<longrightarrow> clst2sect v x = 0)"
proof -
  note dg = data_geomD [OF assms(1)]
  have out: "clst2sect v x = 0" if "x < 2 \<or> n_fatent v \<le> x" for x
  proof -
    have n2: "unat (n_fatent v - 2) = unat (n_fatent v) - 2"
      using fat_geom_min [OF dg(1)] by (simp add: unat_sub word_le_nat_alt)
    have "n_fatent v - 2 \<le> x - 2"
    proof (cases "x < 2")
      case True
      then have "unat x = unat (0 :: DWORD) \<or> unat x = unat (1 :: DWORD)" by (auto simp: word_less_nat_alt)
      then have "x = 0 \<or> x = 1" by (simp only: word_unat_eq_iff)
      moreover have "unat (- 1 :: DWORD) = 0xFFFFFFFF" by (simp add: unsigned_minus_1_eq_mask mask_eq_exp_minus_1)
      ultimately show ?thesis using n2 fat_geom_max [OF dg(1)] by (auto simp: word_le_nat_alt)
    next
      case False
      then have "unat (x - 2) = unat x - 2" by (simp add: unat_sub not_less)
      then show ?thesis using n2 that False by (simp add: word_le_nat_alt)
    qed
    then show ?thesis by (simp add: clst2sect_def Let_def)
  qed
  have sec: "unat (clst2sect v x + of_nat k) = file_sector v [x, y] k" if "2 \<le> x" "x < n_fatent v" "k < unat (csize v)" for x y k
    using clst2sect_data(1) [OF assms(1) that] that(3) by (simp add: file_sector_def)
  have sec2: "file_sector v [x, y] (unat (csize v) + k) = file_sector v [y] k" if "k < unat (csize v)" for x y k
  proof -
    have "(unat (csize v) + k) div unat (csize v) = 1" by (rule div_nat_eqI) (use that in simp_all)
    then show ?thesis using that by (simp add: file_sector_def)
  qed
  have sec1: "file_sector v [x, y] k = file_sector v [x] k" if "k < unat (csize v)" for x y k
    using that by (simp add: file_sector_def)
  have eq: "c = d \<and> i = j" if e: "s = clst2sect v d + of_nat j"
  proof -
    have u: "file_sector v [c] i = file_sector v [d] j"
      using arg_cong [OF e, of unat] sec [OF assms(2,3,6)] sec [OF assms(4,5,7)] sec1 assms(6,7) by (simp add: s_def)
    show ?thesis
    proof (cases "c = d")
      case True
      then show ?thesis using u assms(6,7) by (simp add: file_sector_def)
    next
      case False
      have "file_sector v [c, d] i = file_sector v [c, d] (unat (csize v) + j)"
        using u sec1 [OF assms(6)] sec2 [OF assms(7)] by simp
      from file_sector_inj [OF _ _ dg(2) _ _ this] False assms(2-7) show ?thesis by simp
    qed
  qed
  have "unat s = file_sector v [c] i" using sec [OF assms(2,3,6)] sec1 [OF assms(6)] by (simp add: s_def)
  then have "unat s \<in> file_sectors v [c]" using assms(6) by (simp add: file_sectors_def)
  note fs = file_sectors_data [OF assms(1) _ this]
  have "s \<noteq> 0xFFFFFFFF" "\<not> in_fat v (unat s)" "\<not> in_mirror v (unat s)"
    using fs assms(2,3) by (auto simp: pub_def)
  moreover have "s \<noteq> 0"
    using clst2sect_data(1) [OF assms(1-3,6)] data_geom_pos [OF assms(1)] by (auto simp: s_def)
  ultimately show ?thesis using eq out by blast
qed

theorem cluster_sectors_apart_witness:
  "clst2sect sample_vol 2 + of_nat 0 \<noteq> clst2sect sample_vol 4 + of_nat 0 \<and> \<not> in_fat sample_vol (unat (clst2sect sample_vol 2 + of_nat 0))"
proof -
  have "data_geom sample_vol" using sample_file_ok(1) by (simp add: file_inv_def data_ok_def)
  from cluster_sectors_apart [OF this, of 2 4 0 0] show ?thesis by (simp add: sample_vol_def)
qed

end
