(* ===== verification/Fat_Handle.thy ===== *)
theory Fat_Handle
  imports Fat_Count
begin

text \<open>
  What the callers of \<^verbatim>\<open>addon/fatfs/ff.c\<close> hold: objects of a volume that was unmounted or replaced, and
  the information record that a directory listing fills.
\<close>

unbundle bit_operations_syntax

section \<open>Stale objects\<close>

text \<open>An object whose volume is not mounted, or was mounted again since.\<close>

definition stale :: "sys \<Rightarrow> FFOBJID \<Rightarrow> bool" where
  "stale g ob \<longleftrightarrow> (\<forall>k. obj_fs ob = Some k \<longrightarrow> fs_type (objs g k) = 0 \<or> obj_id ob \<noteq> fs_id (objs g k))"

lemma validate_stale: "stale g ob \<Longrightarrow> validate g ob = Some (FR_INVALID_OBJECT, None, g)"
  by (auto simp: stale_def validate_def split: option.split)

lemma leave_none: "leave_ff g None res x = Some (res, x, g)"
  by (simp add: leave_ff_def unlock_fs_def)

lemma enter_stale: "stale g (fobj fp) \<Longrightarrow> enter_file g fp acc = Some (Inl FR_INVALID_OBJECT, None, g)"
  by (simp add: enter_file_def validate_stale)

lemmas stale_simps = validate_stale enter_stale leave_none

lemma stale_file_calls:
  assumes "stale g (fobj fp)"
  shows "f_read g fp b btr = Some (FR_INVALID_OBJECT, (fp, b, 0), g)"
    "f_write g fp b btr = Some (FR_INVALID_OBJECT, (fp, 0), g)"
    "f_sync g fp = Some (FR_INVALID_OBJECT, fp, g)" "f_close g fp = Some (FR_INVALID_OBJECT, fp, g)"
    "f_lseek g fp ofs = Some (FR_INVALID_OBJECT, fp, g)" "f_truncate g fp = Some (FR_INVALID_OBJECT, fp, g)"
  using assms by (simp_all add: f_read_def f_write_def f_sync_def f_close_def f_lseek_def f_truncate_def stale_simps)

lemma stale_dir_calls:
  assumes "stale g (dobj dp)"
  shows "f_readdir g dp fno = Some (FR_INVALID_OBJECT, (dp, fno), g)"
    "f_closedir g dp = Some (FR_INVALID_OBJECT, dp, g)"
  using assms by (simp_all add: f_readdir_def f_closedir_def stale_simps)

lemma mount_stale:
  assumes m: "f_mount g fs path 0 = Some (FR_OK, g')" and p: "get_ldnumber path = (int n, q)"
    and k: "FatFs g n = Some k \<or> fs = Some k" and ob: "obj_fs ob = Some k"
  shows "stale g' ob"
  using assms by (auto simp: f_mount_def stale_def Let_def split: option.splits if_splits)

text \<open>C32: Objects do not outlive their mount. After \<open>f_mount\<close> has unregistered a volume, or registered another
  or the same one on its drive without mounting it yet, every call on a file or directory that was opened
  on the old or the new filesystem object before returns \<open>FR_INVALID_OBJECT\<close>: nothing is read, written or
  transferred, no lock is touched, and neither the object nor the module changes.\<close>

theorem stale_objects_refused:
  assumes "f_mount g fs path 0 = Some (FR_OK, g')" and "get_ldnumber path = (int n, q)"
    and "FatFs g n = Some k \<or> fs = Some k" and "obj_fs (fobj fp) = Some k" and "obj_fs (dobj dp) = Some k"
  shows "f_read g' fp b btr = Some (FR_INVALID_OBJECT, (fp, b, 0), g')
    \<and> f_write g' fp b btw = Some (FR_INVALID_OBJECT, (fp, 0), g')
    \<and> f_sync g' fp = Some (FR_INVALID_OBJECT, fp, g') \<and> f_close g' fp = Some (FR_INVALID_OBJECT, fp, g')
    \<and> f_lseek g' fp ofs = Some (FR_INVALID_OBJECT, fp, g') \<and> f_truncate g' fp = Some (FR_INVALID_OBJECT, fp, g')
    \<and> f_readdir g' dp fno = Some (FR_INVALID_OBJECT, (dp, fno), g')
    \<and> f_closedir g' dp = Some (FR_INVALID_OBJECT, dp, g')"
  using stale_file_calls [OF mount_stale [OF assms(1-4)]] stale_dir_calls [OF mount_stale [OF assms(1-3,5)]]
  by simp

text \<open>The sample volume is unmounted under its open file and an open directory.\<close>

definition sample_dir :: DIR where
  "sample_dir =
     \<lparr>dobj = \<lparr>obj_fs = Some 0, obj_id = 1, attr = AM_DIR, stat = 0, sclust = 0, objsize = 0\<rparr>,
      dptr = 0, dclust = 0, dsect = 3, dir = 0, fn = replicate 12 0, blk_ofs = 0xFFFFFFFF, pat = []\<rparr>"

theorem stale_objects_refused_witness:
  "\<exists>g'. f_mount (sample_sys sample_vol) None (Some []) 0 = Some (FR_OK, g')
    \<and> f_read g' sample_file [5, 6] 2 = Some (FR_INVALID_OBJECT, (sample_file, [5, 6], 0), g')
    \<and> f_readdir g' sample_dir None = Some (FR_INVALID_OBJECT, (sample_dir, None), g')"
proof -
  let ?g = "sample_sys sample_vol"
  have "get_ldnumber (Some []) = (int 0, Some [])"
    by (rule no_prefix)
  moreover obtain g' where "f_mount ?g None (Some []) 0 = Some (FR_OK, g')"
    using calculation by (auto simp: f_mount_def Let_def)
  moreover have "FatFs ?g 0 = Some 0" by (simp add: sample_sys_def)
  moreover have "obj_fs (fobj sample_file) = Some 0" "obj_fs (dobj sample_dir) = Some 0"
    by (simp_all add: sample_file_def sample_dir_def)
  ultimately show ?thesis
    using stale_objects_refused [of ?g None "Some []" g' 0 "Some []" 0 sample_file sample_dir "[5, 6]" 2] by blast
qed
section \<open>Names within their arrays\<close>

lemma put_utf_fits:
  "put_utf c out i szb = (n, out') \<Longrightarrow> length out' = length out \<and> unat n \<le> unat szb"
  by (auto simp: put_utf_def Let_def word_less_nat_alt not_less split: if_splits)

lemma info_lfn_fits:
  "info_lfn lfn si di hs f = (d, h, f') \<Longrightarrow> di \<le> FF_LFN_BUF \<Longrightarrow> d \<le> FF_LFN_BUF \<and> length f' = length f"
proof (induction lfn si di hs f rule: info_lfn.induct)
  case (1 lfn si di hs f)
  show ?case
  proof (cases "at lfn si = 0 \<or> hs = 0 \<and> IsSurrogate (at lfn si)")
    case True
    then show ?thesis using 1 by (auto simp: info_lfn.simps [of lfn si di hs f] Let_def split: if_splits)
  next
    case False
    obtain n f1 where p: "put_utf (push_bit 16 (ucast hs) OR ucast (at lfn si)) f di (of_nat (FF_LFN_BUF - di)) = (n, f1)"
      by fastforce
    have "unat (of_nat (FF_LFN_BUF - di) :: UINT) = FF_LFN_BUF - di" by (intro unat_of_nat_DWORD) simp
    then have n: "length f1 = length f" "unat n \<le> FF_LFN_BUF - di" using put_utf_fits [OF p] by simp_all
    show ?thesis
    proof (cases "n = 0")
      case True
      then show ?thesis using 1(3) False p n by (auto simp: info_lfn.simps [of lfn si di hs f])
    next
      case nz: False
      have "info_lfn lfn (si + 1) (di + unat n) 0 f1 = (d, h, f')"
        using 1(3) False p nz by (auto simp: info_lfn.simps [of lfn si di hs f])
      moreover have "di + unat n \<le> FF_LFN_BUF" using n(2) 1(4) by simp
      ultimately show ?thesis using 1(2) [OF refl _ refl _ p [symmetric] nz] False n(1) by auto
    qed
  qed
qed

lemma info_sfn_fits:
  "info_sfn w e n si di alt = (d, alt') \<Longrightarrow> si + n = 11 \<Longrightarrow> di \<le> si + (if 9 \<le> si then 1 else 0) \<Longrightarrow>
   d \<le> 12 \<and> length alt' = length alt"
proof (induction w e n si di alt rule: info_sfn.induct)
  case (2 w e n si di alt)
  then show ?case by (fastforce simp: Let_def split: if_splits)
qed (auto split: if_splits)

lemma info_copy_fits:
  "info_copy alt nt si lcf f = (n, f') \<Longrightarrow> k < length alt \<Longrightarrow> alt ! k = 0 \<Longrightarrow> si \<le> k \<Longrightarrow>
   n \<le> k \<and> length f' = length f"
proof (induction alt nt si lcf f rule: info_copy.induct)
  case (1 alt nt si lcf f)
  have "at alt si \<noteq> 0 \<Longrightarrow> si < k" using 1(3-5) by (cases "si = k") (auto simp: at_def)
  then show ?case using 1 by (fastforce simp: info_copy.simps [of alt nt si lcf f] Let_def split: if_splits)
qed

text \<open>C38: What a directory listing reports fits its arrays. For an entry that was read (the directory has not
  ended), and whatever bytes the entry and the long name buffer hold, \<open>get_fileinfo\<close> writes at most 12 characters and a terminator of the short name and at
  most 255 characters and a terminator of the long name: both arrays of the information record
  keep their sizes and hold a terminated string. The other fields, attribute, size, date and time of
  the last change, are those of the entry.\<close>

theorem listed_names_fit:
  fixes v :: vol and dp :: DIR and fno :: FILINFO
  assumes "length (fno_altname fno) = FF_SFN_BUF + 1" and "length (fno_fname fno) = FF_LFN_BUF + 1"
    and "dsect dp \<noteq> 0"
  defines "r \<equiv> get_fileinfo v dp fno"
  shows "length (fno_altname r) = FF_SFN_BUF + 1 \<and> length (fno_fname r) = FF_LFN_BUF + 1
    \<and> (\<exists>i \<le> FF_SFN_BUF. fno_altname r ! i = 0) \<and> (\<exists>i \<le> FF_LFN_BUF. fno_fname r ! i = 0)
    \<and> fst (info_sfn (win v) (dir dp) 11 0 0 (fno_altname fno)) \<le> FF_SFN_BUF
    \<and> fst (info_lfn (lfnbuf v) 0 0 0 ((fno_fname fno)[0 := 0])) \<le> FF_LFN_BUF
    \<and> fno_fattrib r = win v ! (dir dp + DIR_Attr) \<and> fno_fsize r = ld_dword (win v) (dir dp + DIR_FileSize)
    \<and> fno_ftime r = ld_word (win v) (dir dp + DIR_ModTime)
    \<and> fno_fdate r = ld_word (win v) (dir dp + DIR_ModTime + 2)"
proof -
  obtain d h f where l: "info_lfn (lfnbuf v) 0 0 0 ((fno_fname fno)[0 := 0]) = (d, h, f)" by (metis prod_cases3)
  have lf: "d \<le> 255" "length f = 256" using info_lfn_fits [OF l] assms(2) by simp_all
  obtain n alt where s: "info_sfn (win v) (dir dp) 11 0 0 (fno_altname fno) = (n, alt)" by fastforce
  have sf: "n \<le> 12" "length alt = 13" using info_sfn_fits [OF s] assms(1) by simp_all
  let ?g = "if blk_ofs dp \<noteq> 0xFFFFFFFF then f[(if h \<noteq> 0 then 0 else d) := 0] else (fno_fname fno)[0 := 0]"
  have g: "length ?g = 256" "\<exists>i \<le> 255. ?g ! i = 0" using lf assms(2) by auto
  obtain m c where cp: "info_copy (alt[n := 0]) (win v ! (dir dp + DIR_NTres)) 0 NS_BODY ?g = (m, c)" by fastforce
  have cf: "m \<le> n" "length c = 256" using info_copy_fits [OF cp, of n] sf g(1) by simp_all
  have "fno_altname (info_names v dp fno) = (if ?g ! 0 = 0 \<and> win v ! (dir dp + DIR_NTres) = 0 then (alt[n := 0])[0 := 0] else alt[n := 0])"
    "fno_fname (info_names v dp fno) = (if ?g ! 0 = 0 then (if n = 0 then (?g[0 := 0x3F])[1 := 0] else c[m := 0]) else ?g)"
    using l s cp by (auto simp: info_names_def Let_def)
  then have "length (fno_altname (info_names v dp fno)) = 13" "\<exists>i \<le> 12. fno_altname (info_names v dp fno) ! i = 0"
    "length (fno_fname (info_names v dp fno)) = 256" "\<exists>i \<le> 255. fno_fname (info_names v dp fno) ! i = 0"
    using sf g cf by (auto intro: exI [of _ n] exI [of _ m] exI [of _ 1])
  then show ?thesis using assms(3) l lf(1) s sf(1) by (simp add: r_def get_fileinfo_def Let_def)
qed

theorem listed_names_fit_witness:
  "let fno = \<lparr>fno_fsize = 0, fno_fdate = 0, fno_ftime = 0, fno_fattrib = 0,
              fno_altname = replicate 13 0xAA, fno_fname = replicate 256 0xAA\<rparr>
   in length (fno_fname (get_fileinfo sample_vol sample_dir fno)) = 256
    \<and> (\<exists>i \<le> 255. fno_fname (get_fileinfo sample_vol sample_dir fno) ! i = 0)
    \<and> (\<exists>i \<le> 12. fno_altname (get_fileinfo sample_vol sample_dir fno) ! i = 0)"
  using listed_names_fit [of "\<lparr>fno_fsize = 0, fno_fdate = 0, fno_ftime = 0, fno_fattrib = 0,
              fno_altname = replicate 13 0xAA, fno_fname = replicate 256 0xAA\<rparr>" sample_dir sample_vol]
  by (simp add: sample_dir_def)

end
