(* ===== verification/Net_Queue.thy ===== *)
theory Net_Queue
  imports Fat_Prelude
begin

text \<open>
  The two byte queues of a Circle network connection.

  \<^item> \<^verbatim>\<open>CRetransmissionQueue\<close> (\<^verbatim>\<open>lib/net/retransmissionqueue.cpp\<close>) is a ring buffer with
    three indices: data enters at \<open>m_nInPtr\<close>, is read for transmission at
    \<open>m_nPreOutPtr\<close> and leaves at \<open>m_nOutPtr\<close> when it is acknowledged.
  \<^item> \<^verbatim>\<open>CNetQueue\<close> (\<^verbatim>\<open>lib/net/netqueue.cpp\<close>) is a doubly linked list of packets that
    is only ever used from its two ends, here the list of its entries.

  A failed \<open>assert\<close> halts the system (\<open>assertion_failed\<close> logs a panic), so an operation
  that can fail one returns an option and \<open>None\<close> means that the call does not return.

  The locale \<open>sent_stream\<close> is what the TCP connection relies on: the bytes that are in the
  queue are a sent part followed by an unsent part, and no sequence of operations loses,
  repeats or reorders a byte.
\<close>

section \<open>The retransmission queue\<close>

record retrans_queue =
  rq_size :: "32 word"
  rq_buffer :: "8 word list"
  rq_in :: "32 word"
  rq_out :: "32 word"
  rq_pre :: "32 word"

text \<open>The constructor. The buffer is not initialised: its content \<open>junk\<close> is what the heap
  block held.\<close>

definition rq_new :: "32 word \<Rightarrow> 8 word list \<Rightarrow> retrans_queue option" where
  "rq_new nSize junk = (if nSize > 1 \<and> length junk = unat nSize
     then Some \<lparr>rq_size = nSize, rq_buffer = junk, rq_in = 0, rq_out = 0, rq_pre = 0\<rparr>
     else None)"

definition rq_is_empty :: "retrans_queue \<Rightarrow> bool" where
  "rq_is_empty q \<longleftrightarrow> rq_out q = rq_in q"

definition rq_free_space :: "retrans_queue \<Rightarrow> 32 word option" where
  "rq_free_space q =
    (if rq_size q > 1 \<and> rq_in q < rq_size q \<and> rq_out q < rq_size q
     then Some (if rq_out q \<le> rq_in q then rq_size q + rq_out q - rq_in q - 1
                else rq_out q - rq_in q - 1)
     else None)"

fun rq_write_loop :: "retrans_queue \<Rightarrow> 8 word list \<Rightarrow> retrans_queue" where
  "rq_write_loop q [] = q"
| "rq_write_loop q (b # p) =
    rq_write_loop (q\<lparr>rq_buffer := (rq_buffer q)[unat (rq_in q) := b],
                     rq_in := (rq_in q + 1) mod rq_size q\<rparr>) p"

definition rq_write :: "retrans_queue \<Rightarrow> 8 word list \<Rightarrow> retrans_queue option" where
  "rq_write q p =
    (if 0 < length p then
       case rq_free_space q of None \<Rightarrow> None
       | Some fs \<Rightarrow> if length p \<le> unat fs then Some (rq_write_loop q p) else None
     else None)"

definition rq_bytes_available :: "retrans_queue \<Rightarrow> 32 word option" where
  "rq_bytes_available q =
    (if rq_size q > 1 \<and> rq_in q < rq_size q \<and> rq_pre q < rq_size q
     then Some (if rq_in q < rq_pre q then rq_size q + rq_in q - rq_pre q
                else rq_in q - rq_pre q)
     else None)"

fun rq_read_loop :: "retrans_queue \<Rightarrow> nat \<Rightarrow> 8 word list \<times> retrans_queue" where
  "rq_read_loop q 0 = ([], q)"
| "rq_read_loop q (Suc n) =
    (let b = rq_buffer q ! unat (rq_pre q);
         r = rq_read_loop (q\<lparr>rq_pre := (rq_pre q + 1) mod rq_size q\<rparr>) n
     in (b # fst r, snd r))"

definition rq_read :: "retrans_queue \<Rightarrow> 32 word \<Rightarrow> (8 word list \<times> retrans_queue) option" where
  "rq_read q nLength =
    (if 0 < nLength then
       case rq_bytes_available q of None \<Rightarrow> None
       | Some n \<Rightarrow> if nLength \<le> n then Some (rq_read_loop q (unat nLength)) else None
     else None)"

definition rq_advance :: "retrans_queue \<Rightarrow> 32 word \<Rightarrow> retrans_queue option" where
  "rq_advance q nBytes =
    (if rq_size q > 1 \<and> rq_out q < rq_size q \<and> rq_pre q < rq_size q
     then Some (q\<lparr>rq_out := (rq_out q + nBytes) mod rq_size q\<rparr>)
     else None)"

definition rq_reset :: "retrans_queue \<Rightarrow> retrans_queue" where
  "rq_reset q = q\<lparr>rq_pre := rq_out q\<rparr>"

definition rq_flush :: "retrans_queue \<Rightarrow> retrans_queue" where
  "rq_flush q = q\<lparr>rq_in := 0, rq_out := 0, rq_pre := 0\<rparr>"

section \<open>The packet queue\<close>

text \<open>\<open>FRAME_BUFFER_SIZE\<close> of \<^verbatim>\<open>circle/netdevice.h\<close>. The parameter pointer of an entry is not
  used by a TCP connection and is left out.\<close>

definition FRAME_BUFFER_SIZE :: nat where
  "FRAME_BUFFER_SIZE = 1600"

type_synonym net_queue = "8 word list list"

definition nq_is_empty :: "net_queue \<Rightarrow> bool" where
  "nq_is_empty q \<longleftrightarrow> q = []"

definition nq_flush :: "net_queue \<Rightarrow> net_queue" where
  "nq_flush q = []"

definition nq_enqueue :: "net_queue \<Rightarrow> 8 word list \<Rightarrow> net_queue option" where
  "nq_enqueue q p =
    (if 0 < length p \<and> length p \<le> FRAME_BUFFER_SIZE then Some (q @ [p]) else None)"

text \<open>\<open>Dequeue\<close> returns the length of the packet, 0 for an empty queue: here the packet
  itself, \<open>[]\<close> for an empty queue. The asserts on the length of an entry hold for every
  entry that \<open>nq_enqueue\<close> let in.\<close>

fun nq_dequeue :: "net_queue \<Rightarrow> (8 word list \<times> net_queue) option" where
  "nq_dequeue [] = Some ([], [])"
| "nq_dequeue (p # q) =
    (if 0 < length p \<and> length p \<le> FRAME_BUFFER_SIZE then Some (p, q) else None)"

text \<open>Every entry of a packet queue fits a frame buffer; all its operations keep this, and
  with it no dequeue fails.\<close>

definition nq_ok :: "net_queue \<Rightarrow> bool" where
  "nq_ok q \<longleftrightarrow> (\<forall>p \<in> set q. p \<noteq> [] \<and> length p \<le> FRAME_BUFFER_SIZE)"

lemma nq_ok_simps [simp]:
  "nq_ok []" "nq_ok (p # q) \<longleftrightarrow> p \<noteq> [] \<and> length p \<le> FRAME_BUFFER_SIZE \<and> nq_ok q"
  "nq_ok (q @ q') \<longleftrightarrow> nq_ok q \<and> nq_ok q'" "nq_ok (nq_flush q)"
  by (auto simp: nq_ok_def nq_flush_def)

lemma nq_ok_enqueue: "nq_enqueue q p = Some q' \<Longrightarrow> nq_ok q \<Longrightarrow> nq_ok q' \<and> concat q' = concat q @ p"
  by (auto simp: nq_enqueue_def split: if_splits)

lemma nq_dequeue_ok:
  assumes "nq_ok q"
  obtains p q' where "nq_dequeue q = Some (p, q')" "nq_ok q'" "concat q = p @ concat q'"
    "p = [] \<longleftrightarrow> q = []" "length p \<le> FRAME_BUFFER_SIZE"
  using assms by (cases q) auto

section \<open>The ring as a list\<close>

text \<open>The bytes from index \<open>i\<close> up to and without index \<open>j\<close>, going round.\<close>

definition ring_dist :: "nat \<Rightarrow> nat \<Rightarrow> nat \<Rightarrow> nat" where
  "ring_dist n i j = (if i \<le> j then j - i else n + j - i)"

definition ring :: "'a list \<Rightarrow> nat \<Rightarrow> nat \<Rightarrow> 'a list" where
  "ring buf i k = map (\<lambda>m. buf ! ((i + m) mod length buf)) [0..<k]"

definition rq_held :: "retrans_queue \<Rightarrow> nat" where
  "rq_held q = ring_dist (unat (rq_size q)) (unat (rq_out q)) (unat (rq_in q))"

definition rq_read_ahead :: "retrans_queue \<Rightarrow> nat" where
  "rq_read_ahead q = ring_dist (unat (rq_size q)) (unat (rq_out q)) (unat (rq_pre q))"

definition rq_sent :: "retrans_queue \<Rightarrow> 8 word list" where
  "rq_sent q = ring (rq_buffer q) (unat (rq_out q)) (rq_read_ahead q)"

definition rq_unsent :: "retrans_queue \<Rightarrow> 8 word list" where
  "rq_unsent q = ring (rq_buffer q) (unat (rq_pre q)) (rq_held q - rq_read_ahead q)"

definition rq_ok :: "retrans_queue \<Rightarrow> bool" where
  "rq_ok q \<longleftrightarrow> 1 < rq_size q \<and> rq_size q \<le> 0x80000000 \<and> length (rq_buffer q) = unat (rq_size q) \<and>
     rq_in q < rq_size q \<and> rq_out q < rq_size q \<and> rq_pre q < rq_size q \<and>
     rq_read_ahead q \<le> rq_held q"


lemma ring_dist_less: "i < n \<Longrightarrow> j < n \<Longrightarrow> ring_dist n i j < n"
  by (auto simp: ring_dist_def)

lemma ring_dist_add: "i < n \<Longrightarrow> j < n \<Longrightarrow> (i + ring_dist n i j) mod n = j"
  by (auto simp: ring_dist_def)

lemma ring_dist_unique:
  assumes "i < n" "k < n"
  shows "ring_dist n i ((i + k) mod n) = k"
proof (cases "i + k < n")
  case True
  then show ?thesis by (simp add: ring_dist_def)
next
  case False
  then have "(i + k) mod n = i + k - n" using assms by (simp add: le_mod_geq)
  then show ?thesis using False assms by (simp add: ring_dist_def)
qed

lemma ring_dist_self [simp]: "ring_dist n i i = 0"
  by (simp add: ring_dist_def)

lemma length_ring [simp]: "length (ring buf i k) = k"
  by (simp add: ring_def)

lemma ring_0 [simp]: "ring buf i 0 = []"
  by (simp add: ring_def)

lemma ring_add: "ring buf i (k + l) = ring buf i k @ ring buf ((i + k) mod length buf) l"
proof -
  have "map (\<lambda>m. buf ! ((i + m) mod length buf)) [k..<k + l]
      = map (\<lambda>m. buf ! (((i + k) mod length buf + m) mod length buf)) [0..<l]"
    by (rule nth_equalityI) (auto simp: mod_add_left_eq add.assoc)
  then show ?thesis
    by (simp add: ring_def upt_add_eq_append [of 0 k l])
qed

lemma ring_Suc: "ring buf i (Suc k) = ring buf i k @ [buf ! ((i + k) mod length buf)]"
  by (simp add: ring_def)

lemma ring_update:
  assumes "i < length buf" "d + k \<le> e" "e < length buf"
  shows "ring (buf[(i + e) mod length buf := b]) ((i + d) mod length buf) k
       = ring buf ((i + d) mod length buf) k"
proof (rule nth_equalityI)
  fix m assume "m < length (ring (buf[(i + e) mod length buf := b]) ((i + d) mod length buf) k)"
  then have m: "m < k" by simp
  have "(i + (d + m)) mod length buf \<noteq> (i + e) mod length buf"
  proof
    assume eq: "(i + (d + m)) mod length buf = (i + e) mod length buf"
    have "ring_dist (length buf) i ((i + (d + m)) mod length buf) = d + m"
      using assms m by (intro ring_dist_unique) auto
    moreover have "ring_dist (length buf) i ((i + e) mod length buf) = e"
      using assms by (intro ring_dist_unique) auto
    ultimately show False using eq assms m by simp
  qed
  then show "ring (buf[(i + e) mod length buf := b]) ((i + d) mod length buf) k ! m
      = ring buf ((i + d) mod length buf) k ! m"
    using m by (simp add: ring_def mod_add_left_eq add.assoc nth_list_update)
qed simp

text \<open>The indices as natural numbers. The ring has at most \<open>2^31\<close> bytes (\<open>0x10000\<close> in a
  connection), so that no index calculation wraps before its \<open>mod\<close>.\<close>

lemma rq_ok_nat:
  assumes "rq_ok q"
  shows "1 < unat (rq_size q)" "unat (rq_size q) \<le> 2 ^ 31"
    "length (rq_buffer q) = unat (rq_size q)" "unat (rq_in q) < unat (rq_size q)"
    "unat (rq_out q) < unat (rq_size q)" "unat (rq_pre q) < unat (rq_size q)"
    "rq_read_ahead q \<le> rq_held q" "rq_held q < unat (rq_size q)"
  using assms
  by (auto simp: rq_ok_def rq_held_def word_less_nat_alt word_le_nat_alt ring_dist_less)

lemma rq_size_pos: "rq_ok q \<Longrightarrow> 0 < unat (rq_size q)"
  using rq_ok_nat(1) [of q] by linarith

lemma rq_in_eq:
  assumes "rq_ok q"
  shows "unat (rq_in q) = (unat (rq_out q) + rq_held q) mod unat (rq_size q)"
    and "unat (rq_pre q) = (unat (rq_out q) + rq_read_ahead q) mod unat (rq_size q)"
  using rq_ok_nat [OF assms] by (simp_all add: rq_held_def rq_read_ahead_def ring_dist_add)

text \<open>The whole content is the sent part and then the unsent part.\<close>

lemma rq_content:
  assumes "rq_ok q"
  shows "ring (rq_buffer q) (unat (rq_out q)) (rq_held q) = rq_sent q @ rq_unsent q"
proof -
  have "rq_held q = rq_read_ahead q + (rq_held q - rq_read_ahead q)"
    using rq_ok_nat(7) [OF assms] by simp
  then show ?thesis
    by (metis ring_add rq_sent_def rq_unsent_def rq_in_eq(2) [OF assms] rq_ok_nat(3) [OF assms])
qed

lemma rq_length:
  assumes "rq_ok q"
  shows "length (rq_sent q) = rq_read_ahead q" "length (rq_sent q) + length (rq_unsent q) = rq_held q"
  using rq_ok_nat [OF assms] by (simp_all add: rq_sent_def rq_unsent_def)

text \<open>A state given by a start and two distances.\<close>

lemma rq_by_dist:
  assumes "rq_ok q" "rq_size q' = rq_size q" "length (rq_buffer q') = length (rq_buffer q)"
    and "rq_out q' < rq_size q" "rq_pre q' < rq_size q" "rq_in q' < rq_size q"
    and "unat (rq_pre q') = (unat (rq_out q') + a) mod unat (rq_size q)"
    and "unat (rq_in q') = (unat (rq_out q') + h) mod unat (rq_size q)"
    and "a \<le> h" "h < unat (rq_size q)"
  shows "rq_ok q' \<and> rq_read_ahead q' = a \<and> rq_held q' = h"
proof -
  have "unat (rq_out q') < unat (rq_size q)" using assms(4) by (simp add: word_less_nat_alt)
  then have "rq_read_ahead q' = a" "rq_held q' = h"
    using assms by (simp_all add: rq_read_ahead_def rq_held_def ring_dist_unique)
  then show ?thesis using assms by (simp add: rq_ok_def)
qed

lemma mod_shift:
  fixes a :: nat
  assumes "a \<le> d"
  shows "((x + a) mod n + (d - a)) mod n = (x + d) mod n"
proof -
  have "x + d = x + a + (d - a)" using assms by simp
  then show ?thesis by (metis mod_add_left_eq)
qed

section \<open>The operations on the sent and the unsent part\<close>

lemma rq_new_ok:
  assumes "rq_new n junk = Some q" "n \<le> 0x80000000"
  shows "rq_ok q" "rq_sent q = []" "rq_unsent q = []" "rq_size q = n"
  using assms
  by (auto simp: rq_new_def rq_ok_def rq_sent_def rq_unsent_def rq_read_ahead_def rq_held_def
           word_less_nat_alt word_le_nat_alt split: if_splits)

lemma rq_is_empty_iff: "rq_ok q \<Longrightarrow> rq_is_empty q \<longleftrightarrow> rq_sent q = [] \<and> rq_unsent q = []"
  using rq_ok_nat [of q] rq_length [of q]
  by (auto simp: rq_is_empty_def rq_held_def ring_dist_def word_unat_eq_iff
      split: if_splits)

lemma rq_free_space_eq:
  assumes "rq_ok q"
  shows "\<exists>fs. rq_free_space q = Some fs \<and>
    unat fs = unat (rq_size q) - 1 - (length (rq_sent q) + length (rq_unsent q))"
proof -
  note n = rq_ok_nat [OF assms]
  have lt: "rq_size q > 1" "rq_in q < rq_size q" "rq_out q < rq_size q"
    using assms by (simp_all add: rq_ok_def)
  have *: "unat (rq_size q + rq_out q - rq_in q - 1)
      = unat (rq_size q) + unat (rq_out q) - unat (rq_in q) - 1" if "rq_out q \<le> rq_in q"
    using that n by (simp add: unat_sub_if' unat_word_ariths word_le_nat_alt)
  have **: "unat (rq_out q - rq_in q - 1) = unat (rq_out q) - unat (rq_in q) - 1"
    if "\<not> rq_out q \<le> rq_in q"
    using that n by (simp add: unat_sub_if' unat_word_ariths word_le_nat_alt)
  show ?thesis
    unfolding rq_free_space_def rq_length(2) [OF assms] rq_held_def ring_dist_def
    using lt n * ** by (auto simp: word_le_nat_alt)
qed

lemma rq_bytes_available_eq:
  assumes "rq_ok q"
  shows "\<exists>n. rq_bytes_available q = Some n \<and> unat n = length (rq_unsent q)"
proof -
  note n = rq_ok_nat [OF assms]
  have lt: "rq_size q > 1" "rq_in q < rq_size q" "rq_pre q < rq_size q"
    using assms by (simp_all add: rq_ok_def)
  have len: "length (rq_unsent q) = ring_dist (unat (rq_size q)) (unat (rq_pre q)) (unat (rq_in q))"
    using n by (auto simp: rq_unsent_def rq_held_def rq_read_ahead_def ring_dist_def split: if_splits)
  have *: "unat (rq_size q + rq_in q - rq_pre q)
      = unat (rq_size q) + unat (rq_in q) - unat (rq_pre q)" if "rq_in q < rq_pre q"
    using that n by (simp add: unat_sub_if' unat_word_ariths word_less_nat_alt)
  have **: "unat (rq_in q - rq_pre q) = unat (rq_in q) - unat (rq_pre q)" if "\<not> rq_in q < rq_pre q"
    using that n by (simp add: unat_sub_if' word_less_nat_alt)
  show ?thesis
    unfolding rq_bytes_available_def len ring_dist_def
    using lt * ** by (auto simp: word_less_nat_alt)
qed

lemma unat_inc_mod:
  fixes i n :: "32 word"
  assumes "i < n"
  shows "unat ((i + 1) mod n) = Suc (unat i) mod unat n"
proof -
  have "unat n < 2 ^ 32" by (rule order_less_le_trans [OF unsigned_less]) simp
  moreover have "unat i < unat n" using assms by (simp add: word_less_nat_alt)
  ultimately have "Suc (unat i) < 2 ^ 32" by linarith
  then have "unat (i + 1) = Suc (unat i)" by (simp add: unat_word_ariths)
  then show ?thesis by (simp add: unat_mod)
qed

lemma rq_write_loop_ok:
  assumes "rq_ok q" "length (rq_sent q) + length (rq_unsent q) + length p < unat (rq_size q)"
  shows "rq_ok (rq_write_loop q p) \<and> rq_size (rq_write_loop q p) = rq_size q \<and>
    rq_sent (rq_write_loop q p) = rq_sent q \<and>
    rq_unsent (rq_write_loop q p) = rq_unsent q @ p"
  using assms
proof (induction p arbitrary: q)
  case Nil
  then show ?case by simp
next
  case (Cons b p)
  note ok = Cons.prems(1)
  note n = rq_ok_nat [OF ok] and len = rq_length [OF ok] and ix = rq_in_eq [OF ok]
  define q' where "q' = q\<lparr>rq_buffer := (rq_buffer q)[unat (rq_in q) := b],
    rq_in := (rq_in q + 1) mod rq_size q\<rparr>"
  have held: "Suc (rq_held q) < unat (rq_size q)" using Cons.prems(2) len by simp
  have lt: "rq_in q < rq_size q" "rq_size q > 0"
    using n by (simp_all add: word_less_nat_alt)
  have "unat (rq_in q') = Suc (unat (rq_in q)) mod unat (rq_size q)"
    using unat_inc_mod [OF lt(1)] by (simp add: q'_def)
  then have "unat (rq_in q') = (unat (rq_out q) + Suc (rq_held q)) mod unat (rq_size q)"
    by (simp add: ix(1) mod_Suc_eq)
  then have ok': "rq_ok q' \<and> rq_read_ahead q' = rq_read_ahead q \<and> rq_held q' = Suc (rq_held q)"
    using ok n held ix(2) lt
    by (intro rq_by_dist) (simp_all add: q'_def word_less_nat_alt unat_mod rq_ok_def)
  have upd: "ring (rq_buffer q') ((unat (rq_out q) + d) mod length (rq_buffer q)) k
    = ring (rq_buffer q) ((unat (rq_out q) + d) mod length (rq_buffer q)) k"
    if "d + k \<le> rq_held q" for d k
    using ring_update [of "unat (rq_out q)" "rq_buffer q" d k "rq_held q" b] that n held ix(1)
    by (simp add: q'_def)
  have sent: "rq_sent q' = rq_sent q"
    using upd [of 0 "rq_read_ahead q"] ok' n by (simp add: rq_sent_def q'_def)
  have "rq_unsent q' = ring (rq_buffer q') (unat (rq_pre q)) (rq_held q - rq_read_ahead q)
      @ [rq_buffer q' ! ((unat (rq_pre q) + (rq_held q - rq_read_ahead q)) mod length (rq_buffer q'))]"
    using ok' n by (simp add: rq_unsent_def q'_def Suc_diff_le ring_Suc)
  moreover have "ring (rq_buffer q') (unat (rq_pre q)) (rq_held q - rq_read_ahead q) = rq_unsent q"
    using upd [of "rq_read_ahead q" "rq_held q - rq_read_ahead q"] n
    by (simp add: rq_unsent_def ix(2))
  moreover have "rq_buffer q' ! ((unat (rq_pre q) + (rq_held q - rq_read_ahead q)) mod length (rq_buffer q')) = b"
  proof -
    have "(unat (rq_pre q) + (rq_held q - rq_read_ahead q)) mod length (rq_buffer q') = unat (rq_in q)"
      unfolding ix using mod_shift [OF n(7)] n(3) by (simp add: q'_def del: diff_add_assoc)
    then show ?thesis using n by (simp add: q'_def)
  qed
  ultimately have "rq_unsent q' = rq_unsent q @ [b]" by simp
  then show ?case
    using Cons.IH [of q'] Cons.prems(2) ok' sent by (simp add: q'_def)
qed

lemma rq_write_ok:
  assumes "rq_ok q" "p \<noteq> []"
    "length (rq_sent q) + length (rq_unsent q) + length p < unat (rq_size q)"
  shows "\<exists>q'. rq_write q p = Some q' \<and> rq_ok q' \<and> rq_size q' = rq_size q \<and>
    rq_sent q' = rq_sent q \<and> rq_unsent q' = rq_unsent q @ p"
  using rq_free_space_eq [OF assms(1)] rq_write_loop_ok [OF assms(1,3)] assms(2,3)
  by (auto simp: rq_write_def)

lemma rq_read_loop_ok:
  assumes "rq_ok q" "n \<le> length (rq_unsent q)"
  shows "rq_ok (snd (rq_read_loop q n)) \<and> rq_size (snd (rq_read_loop q n)) = rq_size q \<and>
    fst (rq_read_loop q n) = take n (rq_unsent q) \<and>
    rq_sent (snd (rq_read_loop q n)) = rq_sent q @ take n (rq_unsent q) \<and>
    rq_unsent (snd (rq_read_loop q n)) = drop n (rq_unsent q)"
  using assms
proof (induction n arbitrary: q)
  case 0
  then show ?case by simp
next
  case (Suc n)
  note ok = Suc.prems(1)
  note nn = rq_ok_nat [OF ok] and len = rq_length [OF ok] and ix = rq_in_eq [OF ok]
  define q' where "q' = q\<lparr>rq_pre := (rq_pre q + 1) mod rq_size q\<rparr>"
  define b where "b = rq_buffer q ! unat (rq_pre q)"
  have lt: "rq_pre q < rq_size q" "rq_size q > 0"
    using nn by (simp_all add: word_less_nat_alt)
  have lt2: "rq_read_ahead q < rq_held q" using Suc.prems(2) len by simp
  have "unat (rq_pre q') = Suc (unat (rq_pre q)) mod unat (rq_size q)"
    using unat_inc_mod [OF lt(1)] by (simp add: q'_def)
  then have pre': "unat (rq_pre q') = (unat (rq_out q) + Suc (rq_read_ahead q)) mod unat (rq_size q)"
    by (simp add: ix(2) mod_Suc_eq)
  then have ok': "rq_ok q' \<and> rq_read_ahead q' = Suc (rq_read_ahead q) \<and> rq_held q' = rq_held q"
    using ok nn lt2 ix(1) lt
    by (intro rq_by_dist) (simp_all add: q'_def word_less_nat_alt unat_mod rq_ok_def)
  have sent: "rq_sent q' = rq_sent q @ [b]"
    using ok' nn ix(2) by (simp add: rq_sent_def q'_def ring_Suc b_def)
  have "ring (rq_buffer q) (unat (rq_out q)) (rq_held q) = rq_sent q @ [b] @ rq_unsent q'"
    using rq_content [of q'] ok' sent by (simp add: q'_def)
  then have un: "rq_unsent q = b # rq_unsent q'"
    using rq_content [OF ok] by simp
  have loop: "rq_read_loop q (Suc n) = (b # fst (rq_read_loop q' n), snd (rq_read_loop q' n))"
    by (simp add: q'_def b_def Let_def)
  show ?case
    unfolding loop using Suc.IH [of q'] Suc.prems(2) ok' sent un by (simp add: q'_def)
qed

lemma rq_read_ok:
  assumes "rq_ok q" "0 < n" "unat n \<le> length (rq_unsent q)"
  shows "\<exists>q'. rq_read q n = Some (take (unat n) (rq_unsent q), q') \<and> rq_ok q' \<and>
    rq_size q' = rq_size q \<and> rq_sent q' = rq_sent q @ take (unat n) (rq_unsent q) \<and>
    rq_unsent q' = drop (unat n) (rq_unsent q)"
  using rq_bytes_available_eq [OF assms(1)] rq_read_loop_ok [OF assms(1,3)] assms(2,3)
  by (cases "rq_read_loop q (unat n)") (auto simp: rq_read_def word_le_nat_alt)

lemma rq_advance_ok:
  assumes "rq_ok q" "unat n \<le> length (rq_sent q)"
  shows "\<exists>q'. rq_advance q n = Some q' \<and> rq_ok q' \<and> rq_size q' = rq_size q \<and>
    rq_sent q' = drop (unat n) (rq_sent q) \<and> rq_unsent q' = rq_unsent q"
proof -
  note nn = rq_ok_nat [OF assms(1)] and len = rq_length [OF assms(1)]
  note ix = rq_in_eq [OF assms(1)]
  define q' where "q' = q\<lparr>rq_out := (rq_out q + n) mod rq_size q\<rparr>"
  have adv: "rq_advance q n = Some q'"
    using assms(1) by (simp add: rq_advance_def rq_ok_def q'_def)
  have le: "unat n \<le> rq_read_ahead q" using assms(2) len by simp
  have "unat (rq_out q + n) = unat (rq_out q) + unat n"
    using nn le by (simp add: unat_word_ariths)
  then have out': "unat (rq_out q') = (unat (rq_out q) + unat n) mod unat (rq_size q)"
    by (simp add: q'_def unat_mod)
  have ahead: "(unat (rq_out q') + (d - unat n)) mod unat (rq_size q)
      = (unat (rq_out q) + d) mod unat (rq_size q)" if "unat n \<le> d" for d
    unfolding out' by (rule mod_shift [OF that])
  have ok': "rq_ok q' \<and> rq_read_ahead q' = rq_read_ahead q - unat n \<and> rq_held q' = rq_held q - unat n"
    using assms(1) nn le ix rq_size_pos [OF assms(1)] ahead [of "rq_read_ahead q"] ahead [of "rq_held q"]
    by (intro rq_by_dist [OF assms(1)])
      (simp_all add: q'_def word_less_nat_alt unat_mod rq_ok_def)
  have "rq_sent q = ring (rq_buffer q) (unat (rq_out q)) (unat n)
      @ ring (rq_buffer q) (unat (rq_out q')) (rq_read_ahead q - unat n)"
    using ring_add [of "rq_buffer q" "unat (rq_out q)" "unat n" "rq_read_ahead q - unat n"] le nn
    by (simp add: rq_sent_def out')
  then have sent: "rq_sent q' = drop (unat n) (rq_sent q)"
    using ok' by (simp add: rq_sent_def q'_def)
  have "rq_unsent q' = rq_unsent q"
    using ok' le by (simp add: rq_unsent_def q'_def)
  then show ?thesis using adv ok' sent by (simp add: q'_def)
qed

lemma rq_reset_ok:
  assumes "rq_ok q"
  shows "rq_ok (rq_reset q)" "rq_size (rq_reset q) = rq_size q" "rq_sent (rq_reset q) = []"
    "rq_unsent (rq_reset q) = rq_sent q @ rq_unsent q"
proof -
  have "rq_ok (rq_reset q) \<and> rq_read_ahead (rq_reset q) = 0 \<and> rq_held (rq_reset q) = rq_held q"
    using assms rq_ok_nat [OF assms] rq_in_eq(1) [OF assms]
    by (intro rq_by_dist [OF assms]) (simp_all add: rq_reset_def rq_ok_def)
  then show "rq_ok (rq_reset q)" "rq_size (rq_reset q) = rq_size q" "rq_sent (rq_reset q) = []"
    "rq_unsent (rq_reset q) = rq_sent q @ rq_unsent q"
    using rq_content [OF assms] by (simp_all add: rq_sent_def rq_unsent_def rq_reset_def)
qed

lemma rq_flush_ok:
  assumes "rq_ok q"
  shows "rq_ok (rq_flush q)" "rq_size (rq_flush q) = rq_size q" "rq_sent (rq_flush q) = []"
    "rq_unsent (rq_flush q) = []"
proof -
  have "rq_ok (rq_flush q) \<and> rq_read_ahead (rq_flush q) = 0 \<and> rq_held (rq_flush q) = 0"
    using assms rq_ok_nat [OF assms]
    by (intro rq_by_dist [OF assms]) (simp_all add: rq_flush_def rq_ok_def word_less_nat_alt)
  then show "rq_ok (rq_flush q)" "rq_size (rq_flush q) = rq_size q" "rq_sent (rq_flush q) = []"
    "rq_unsent (rq_flush q) = []"
    by (simp_all add: rq_sent_def rq_unsent_def rq_flush_def)
qed

section \<open>What the connection relies on\<close>

text \<open>The contract: all bytes that were ever written form one stream; \<open>ts_base\<close> of them are
  acknowledged and gone, the next one to be read is number \<open>ts_next\<close>.\<close>

record tx_stream =
  ts_bytes :: "8 word list"
  ts_base :: nat
  ts_next :: nat

datatype rq_op = RqWrite "8 word list" | RqRead "32 word" | RqAdvance "32 word" | RqReset

fun ts_step :: "nat \<Rightarrow> rq_op \<Rightarrow> tx_stream \<Rightarrow> (8 word list \<times> tx_stream) option" where
  "ts_step cap (RqWrite p) t =
    (if p \<noteq> [] \<and> length (ts_bytes t) - ts_base t + length p < cap
     then Some ([], t\<lparr>ts_bytes := ts_bytes t @ p\<rparr>) else None)"
| "ts_step cap (RqRead n) t =
    (if 0 < n \<and> ts_next t + unat n \<le> length (ts_bytes t)
     then Some (take (unat n) (drop (ts_next t) (ts_bytes t)), t\<lparr>ts_next := ts_next t + unat n\<rparr>)
     else None)"
| "ts_step cap (RqAdvance n) t =
    (if ts_base t + unat n \<le> ts_next t
     then Some ([], t\<lparr>ts_base := ts_base t + unat n\<rparr>) else None)"
| "ts_step cap RqReset t = Some ([], t\<lparr>ts_next := ts_base t\<rparr>)"

fun ts_run :: "nat \<Rightarrow> rq_op list \<Rightarrow> tx_stream \<Rightarrow> (8 word list list \<times> tx_stream) option" where
  "ts_run cap [] t = Some ([], t)"
| "ts_run cap (op # ops) t =
    (case ts_step cap op t of None \<Rightarrow> None
     | Some (b, t') \<Rightarrow> map_option (\<lambda>(bs, t''). (b # bs, t'')) (ts_run cap ops t'))"

definition stream_parts :: "tx_stream \<Rightarrow> 8 word list \<Rightarrow> 8 word list \<Rightarrow> bool" where
  "stream_parts t snt uns \<longleftrightarrow> ts_base t \<le> ts_next t \<and> ts_next t \<le> length (ts_bytes t) \<and>
     snt = take (ts_next t - ts_base t) (drop (ts_base t) (ts_bytes t)) \<and>
     uns = drop (ts_next t) (ts_bytes t)"

lemma stream_parts_content:
  "stream_parts t snt uns \<Longrightarrow> snt @ uns = drop (ts_base t) (ts_bytes t)"
  unfolding stream_parts_def
  by (metis append_take_drop_id drop_drop le_add_diff_inverse2)

lemma stream_parts_length:
  "stream_parts t snt uns \<Longrightarrow> length snt = ts_next t - ts_base t \<and>
     length uns = length (ts_bytes t) - ts_next t \<and>
     length snt + length uns = length (ts_bytes t) - ts_base t"
  by (auto simp: stream_parts_def)

text \<open>The operations on a single queue state, as the connection calls them.\<close>

locale sent_stream =
  fixes ok :: "'q \<Rightarrow> bool" and cap :: "'q \<Rightarrow> nat"
    and sent :: "'q \<Rightarrow> 8 word list" and unsent :: "'q \<Rightarrow> 8 word list"
    and put :: "'q \<Rightarrow> 8 word list \<Rightarrow> 'q option"
    and get :: "'q \<Rightarrow> 32 word \<Rightarrow> (8 word list \<times> 'q) option"
    and advance :: "'q \<Rightarrow> 32 word \<Rightarrow> 'q option"
    and reset :: "'q \<Rightarrow> 'q"
  assumes write_law: "\<lbrakk>ok q; p \<noteq> []; length (sent q) + length (unsent q) + length p < cap q\<rbrakk>
      \<Longrightarrow> \<exists>q'. put q p = Some q' \<and> ok q' \<and> cap q' = cap q \<and>
          sent q' = sent q \<and> unsent q' = unsent q @ p"
    and read_law: "\<lbrakk>ok q; 0 < n; unat n \<le> length (unsent q)\<rbrakk>
      \<Longrightarrow> \<exists>q'. get q n = Some (take (unat n) (unsent q), q') \<and> ok q' \<and> cap q' = cap q \<and>
          sent q' = sent q @ take (unat n) (unsent q) \<and> unsent q' = drop (unat n) (unsent q)"
    and advance_law: "\<lbrakk>ok q; unat n \<le> length (sent q)\<rbrakk>
      \<Longrightarrow> \<exists>q'. advance q n = Some q' \<and> ok q' \<and> cap q' = cap q \<and>
          sent q' = drop (unat n) (sent q) \<and> unsent q' = unsent q"
    and reset_law: "ok q \<Longrightarrow> ok (reset q) \<and> cap (reset q) = cap q \<and>
          sent (reset q) = [] \<and> unsent (reset q) = sent q @ unsent q"
begin

fun step :: "rq_op \<Rightarrow> 'q \<Rightarrow> (8 word list \<times> 'q) option" where
  "step (RqWrite p) q = map_option (Pair []) (put q p)"
| "step (RqRead n) q = get q n"
| "step (RqAdvance n) q = map_option (Pair []) (advance q n)"
| "step RqReset q = Some ([], reset q)"

fun run :: "rq_op list \<Rightarrow> 'q \<Rightarrow> (8 word list list \<times> 'q) option" where
  "run [] q = Some ([], q)"
| "run (op # ops) q =
    (case step op q of None \<Rightarrow> None
     | Some (b, q') \<Rightarrow> map_option (\<lambda>(bs, q''). (b # bs, q'')) (run ops q'))"

lemma step_refines:
  assumes "ok q" "stream_parts t (sent q) (unsent q)" "ts_step (cap q) op t = Some (b, t')"
  shows "\<exists>q'. step op q = Some (b, q') \<and> ok q' \<and> cap q' = cap q \<and>
    stream_parts t' (sent q') (unsent q')"
proof (cases op)
  case (RqWrite p)
  then show ?thesis
    using assms(2,3) stream_parts_length [OF assms(2)] write_law [OF assms(1), of p]
    by (auto simp: stream_parts_def split: if_splits)
next
  case (RqRead n)
  have "take (ts_next t - ts_base t + unat n) (drop (ts_base t) (ts_bytes t))
      = sent q @ take (unat n) (unsent q)"
    using assms(2) stream_parts_content [OF assms(2)] stream_parts_length [OF assms(2)]
    by (metis append_eq_conv_conj drop_take take_add take_append)
  then show ?thesis
    using RqRead assms(2,3) read_law [OF assms(1), of n]
    by (auto simp: stream_parts_def add.commute split: if_splits)
next
  case (RqAdvance n)
  then show ?thesis
    using assms(2,3) stream_parts_length [OF assms(2)] advance_law [OF assms(1), of n]
    by (auto simp: stream_parts_def drop_take add.commute split: if_splits)
next
  case RqReset
  then show ?thesis
    using assms(2,3) reset_law [OF assms(1)] stream_parts_content [OF assms(2)]
    by (auto simp: stream_parts_def)
qed

lemma run_refines:
  assumes "ok q" "stream_parts t (sent q) (unsent q)" "ts_run (cap q) ops t = Some (bs, t')"
  shows "\<exists>q'. run ops q = Some (bs, q') \<and> ok q' \<and> cap q' = cap q \<and>
    stream_parts t' (sent q') (unsent q')"
  using assms
proof (induction ops arbitrary: q t bs)
  case Nil
  then show ?case by simp
next
  case (Cons op ops)
  from Cons.prems(3) obtain b t1 bs1
    where s1: "ts_step (cap q) op t = Some (b, t1)"
      and s2: "ts_run (cap q) ops t1 = Some (bs1, t')" "bs = b # bs1"
    by (auto split: option.splits)
  from step_refines [OF Cons.prems(1,2) s1] obtain q1
    where q1: "step op q = Some (b, q1)" "ok q1" "cap q1 = cap q"
      "stream_parts t1 (sent q1) (unsent q1)" by blast
  show ?case
    using Cons.IH [OF q1(2,4)] q1(1,3) s2 by auto
qed

end

interpretation rq: sent_stream rq_ok "\<lambda>q. unat (rq_size q)" rq_sent rq_unsent
  rq_write rq_read rq_advance rq_reset
  by unfold_locales
    (use rq_write_ok rq_read_ok rq_advance_ok in \<open>fastforce simp: rq_reset_ok\<close>)+

text \<open>The same two functions, spelt out over the operations of the code.\<close>

fun rq_step :: "rq_op \<Rightarrow> retrans_queue \<Rightarrow> (8 word list \<times> retrans_queue) option" where
  "rq_step (RqWrite p) q = map_option (Pair []) (rq_write q p)"
| "rq_step (RqRead n) q = rq_read q n"
| "rq_step (RqAdvance n) q = map_option (Pair []) (rq_advance q n)"
| "rq_step RqReset q = Some ([], rq_reset q)"

fun rq_run :: "rq_op list \<Rightarrow> retrans_queue \<Rightarrow> (8 word list list \<times> retrans_queue) option" where
  "rq_run [] q = Some ([], q)"
| "rq_run (op # ops) q =
    (case rq_step op q of None \<Rightarrow> None
     | Some (b, q') \<Rightarrow> map_option (\<lambda>(bs, q''). (b # bs, q'')) (rq_run ops q'))"

lemma rq_step_eq: "rq.step op q = rq_step op q"
  by (cases op) simp_all

lemma rq_run_eq: "rq.run ops q = rq_run ops q"
  by (induction ops arbitrary: q) (auto simp: rq_step_eq split: option.splits)

text \<open>C14: The retransmission queue keeps the byte stream. For every sequence of writes, reads,
  acknowledgements and resets (a retransmission) that stays within what was written and
  what was read, started on a new queue, the ring returns to each read exactly the bytes of
  the stream that follow those read before, starting again at the first unacknowledged byte
  after a reset, wherever the indices wrap; the reported free space and available bytes are
  those of the stream; and no assert fails.\<close>

theorem retransmission_stream:
  assumes "rq_new nSize junk = Some q0" "nSize \<le> 0x80000000"
    and "ts_run (unat nSize) ops \<lparr>ts_bytes = [], ts_base = 0, ts_next = 0\<rparr> = Some (reads, t)"
  shows "\<exists>q fs n. rq_run ops q0 = Some (reads, q) \<and>
    rq_free_space q = Some fs \<and> unat fs = unat nSize - 1 - (length (ts_bytes t) - ts_base t) \<and>
    rq_bytes_available q = Some n \<and> unat n = length (ts_bytes t) - ts_next t \<and>
    (rq_is_empty q \<longleftrightarrow> ts_base t = length (ts_bytes t))"
proof -
  note new = rq_new_ok [OF assms(1,2)]
  have "stream_parts \<lparr>ts_bytes = [], ts_base = 0, ts_next = 0\<rparr> (rq_sent q0) (rq_unsent q0)"
    using new by (simp add: stream_parts_def)
  from rq.run_refines [OF new(1) this, of ops reads t] assms(3) new(4)
  obtain q where q: "rq_run ops q0 = Some (reads, q)" "rq_ok q" "rq_size q = nSize"
    and parts: "stream_parts t (rq_sent q) (rq_unsent q)"
    by (auto simp: rq_run_eq word_unat_eq_iff)
  note len = stream_parts_length [OF parts]
  have "rq_is_empty q \<longleftrightarrow> ts_base t = length (ts_bytes t)"
    using rq_is_empty_iff [OF q(2)] stream_parts_content [OF parts] parts
    by (auto simp: stream_parts_def)
  then show ?thesis
    using q rq_free_space_eq [OF q(2)] rq_bytes_available_eq [OF q(2)] len by auto
qed

theorem retransmission_stream_witness:
  "\<exists>q fs n. rq_run [RqWrite [1, 2, 3], RqRead 3, RqAdvance 2, RqWrite [4, 5], RqRead 1, RqReset,
      RqRead 3] \<lparr>rq_size = 4, rq_buffer = [0, 0, 0, 0], rq_in = 0, rq_out = 0, rq_pre = 0\<rparr>
      = Some ([[], [1, 2, 3], [], [], [4], [], [3, 4, 5]], q) \<and>
    rq_free_space q = Some fs \<and> unat fs = 0 \<and> rq_bytes_available q = Some n \<and> unat n = 0 \<and>
    (rq_is_empty q \<longleftrightarrow> False)"
  using retransmission_stream
    [of 4 "[0, 0, 0, 0]"
      "\<lparr>rq_size = 4, rq_buffer = [0, 0, 0, 0], rq_in = 0, rq_out = 0, rq_pre = 0\<rparr>"
      "[RqWrite [1, 2, 3], RqRead 3, RqAdvance 2, RqWrite [4, 5], RqRead 1, RqReset, RqRead 3]"
      "[[], [1, 2, 3], [], [], [4], [], [3, 4, 5]]"
      "\<lparr>ts_bytes = [1, 2, 3, 4, 5], ts_base = 2, ts_next = 5\<rparr>"]
  by (simp add: rq_new_def)
end
