(* ===== verification/Net_Rto.thy ===== *)
theory Net_Rto
  imports Fat_Prelude
begin

text \<open>
  \<^verbatim>\<open>CRetransmissionTimeoutCalculator\<close> (\<^verbatim>\<open>lib/net/retranstimeoutcalc.cpp\<close>): the
  retransmission timeout of a TCP connection, estimated from measured round trip times as
  RFC 6298 says, in units of \<open>1 / HZ\<close> seconds. All its fields are 32 bit unsigned numbers,
  so its arithmetic wraps. The spin lock makes each operation atomic and is not modelled.
  \<open>GetTicks\<close> is an argument \<open>now\<close> of the operations that read the clock.
\<close>

section \<open>The calculator\<close>

definition HZ :: "32 word" where "HZ = 100"

definition INITIAL_RTO :: "32 word" where "INITIAL_RTO = 3 * HZ"
definition MIN_RTO :: "32 word" where "MIN_RTO = 1 * HZ"
definition MAX_RTO :: "32 word" where "MAX_RTO = 120 * HZ"
definition CLEAR_SRTT_AFTER :: "32 word" where "CLEAR_SRTT_AFTER = 3"

record rto_calc =
  rc_isn :: "32 word"
  rc_rto :: "32 word"
  rc_first :: bool
  rc_srtt :: "32 word"
  rc_rttvar :: "32 word"
  rc_running :: bool
  rc_start :: "32 word"
  rc_retrans :: "32 word"

text \<open>The constructor leaves \<open>m_nSRTT\<close>, \<open>m_nRTTVAR\<close> and \<open>m_nStartTicks\<close> as they were in
  memory: they are the arguments \<open>srtt\<close>, \<open>rttvar\<close> and \<open>start\<close>.\<close>

definition rto_new :: "32 word \<Rightarrow> 32 word \<Rightarrow> 32 word \<Rightarrow> rto_calc" where
  "rto_new srtt rttvar start =
    \<lparr>rc_isn = 0, rc_rto = INITIAL_RTO, rc_first = True, rc_srtt = srtt, rc_rttvar = rttvar,
     rc_running = False, rc_start = start, rc_retrans = 0\<rparr>"

definition rto_initialize :: "rto_calc \<Rightarrow> 32 word \<Rightarrow> rto_calc" where
  "rto_initialize c nISN = c\<lparr>rc_isn := nISN, rc_rto := INITIAL_RTO, rc_first := True,
     rc_running := False, rc_retrans := 0\<rparr>"

text \<open>\<open>Calculate\<close>: \<open>nRTTDiff\<close> is a signed \<open>int\<close>; it is the only signed number here, and
  its sign is that of the top bit of the difference. \<open>rto_limit\<close> is its last part.\<close>

definition rto_limit :: "32 word \<Rightarrow> 32 word \<Rightarrow> 32 word" where
  "rto_limit nSRTT nRTTVAR =
    (let nMax = 4 * nRTTVAR;
         nMax = (if nMax < 1 then 1 else nMax);
         nRTO = nSRTT + nMax
     in if nRTO < MIN_RTO then MIN_RTO else if nRTO > MAX_RTO then MAX_RTO else nRTO)"

definition rto_calculate :: "32 word \<Rightarrow> rto_calc \<Rightarrow> rto_calc" where
  "rto_calculate nRTT c =
    (let c1 = (if rc_first c
               then c\<lparr>rc_first := False, rc_srtt := nRTT, rc_rttvar := nRTT div 2\<rparr>
               else let d = rc_srtt c - nRTT;
                        nRTTDiff = (if sint d < 0 then - d else d)
                    in c\<lparr>rc_rttvar := (3 * rc_rttvar c + nRTTDiff) div 4,
                         rc_srtt := (7 * rc_srtt c + nRTT) div 8\<rparr>)
     in c1\<lparr>rc_rto := rto_limit (rc_srtt c1) (rc_rttvar c1)\<rparr>)"

definition rto_segment_sent :: "32 word \<Rightarrow> rto_calc \<Rightarrow> rto_calc" where
  "rto_segment_sent now c =
    (if \<not> rc_running c \<and> rc_retrans c = 0 then c\<lparr>rc_running := True, rc_start := now\<rparr> else c)"

definition rto_segment_acknowledged :: "32 word \<Rightarrow> rto_calc \<Rightarrow> rto_calc" where
  "rto_segment_acknowledged now c =
    (let c1 = (if rc_running c \<and> rc_retrans c = 0 then rto_calculate (now - rc_start c) c else c)
     in c1\<lparr>rc_running := False, rc_retrans := 0\<rparr>)"

definition rto_timer_expired :: "rto_calc \<Rightarrow> rto_calc" where
  "rto_timer_expired c =
    (let nRTO = rc_rto c * 2;
         nRTO = (if nRTO > MAX_RTO then MAX_RTO else nRTO);
         n = rc_retrans c + 1
     in c\<lparr>rc_rto := nRTO, rc_retrans := n,
          rc_first := (if n \<ge> CLEAR_SRTT_AFTER then True else rc_first c),
          rc_running := False\<rparr>)"

lemmas rto_consts = HZ_def INITIAL_RTO_def MIN_RTO_def MAX_RTO_def CLEAR_SRTT_AFTER_def

section \<open>The timeout stays within its bounds\<close>

datatype rto_event = RtoInit "32 word" | RtoSent "32 word" | RtoAcked "32 word" | RtoExpired

fun rto_apply :: "rto_event \<Rightarrow> rto_calc \<Rightarrow> rto_calc" where
  "rto_apply (RtoInit isn) c = rto_initialize c isn"
| "rto_apply (RtoSent now) c = rto_segment_sent now c"
| "rto_apply (RtoAcked now) c = rto_segment_acknowledged now c"
| "rto_apply RtoExpired c = rto_timer_expired c"

definition rto_ok :: "rto_calc \<Rightarrow> bool" where
  "rto_ok c \<longleftrightarrow> MIN_RTO \<le> rc_rto c \<and> rc_rto c \<le> MAX_RTO"

lemma rto_calculate_ok: "rto_ok (rto_calculate r c)"
  by (auto simp: rto_calculate_def rto_limit_def rto_ok_def Let_def rto_consts not_less)

lemma rto_timer_expired_eq:
  assumes "rto_ok c"
  shows "unat (rc_rto (rto_timer_expired c)) = min 12000 (2 * unat (rc_rto c))"
proof -
  have "unat (rc_rto c) \<le> 12000"
    using assms by (simp add: rto_ok_def rto_consts word_le_nat_alt)
  then have "unat (rc_rto c * 2) = 2 * unat (rc_rto c)" by (simp add: unat_word_ariths)
  then show ?thesis
    by (simp add: rto_timer_expired_def Let_def rto_consts word_less_nat_alt)
qed

lemma rto_ok_nat: "rto_ok c \<longleftrightarrow> 100 \<le> unat (rc_rto c) \<and> unat (rc_rto c) \<le> 12000"
  by (simp add: rto_ok_def rto_consts word_le_nat_alt)

lemma rto_expired_ok: "rto_ok c \<Longrightarrow> rto_ok (rto_timer_expired c)"
  using rto_timer_expired_eq [of c] by (simp add: rto_ok_nat)

lemma rto_apply_ok: "rto_ok c \<Longrightarrow> rto_ok (rto_apply e c)"
  using rto_calculate_ok
  by (cases e)
    (auto simp: rto_expired_ok rto_initialize_def rto_segment_sent_def
      rto_segment_acknowledged_def Let_def, auto simp: rto_ok_def rto_consts)

lemma rto_fold_ok: "rto_ok c \<Longrightarrow> rto_ok (fold rto_apply es c)"
  by (induction es arbitrary: c) (auto simp: rto_apply_ok)

text \<open>C31: Whatever sequence of connections opened, segments sent, acknowledgements and
  timeouts a calculator sees, at whatever clock values (the clock wraps) and whatever its
  uninitialised fields held, the timeout it reports lies between one second and two
  minutes.\<close>

theorem timeout_bounds:
  "100 \<le> unat (rc_rto (fold rto_apply es (rto_new srtt rttvar start))) \<and>
   unat (rc_rto (fold rto_apply es (rto_new srtt rttvar start))) \<le> 12000"
  using rto_fold_ok [of "rto_new srtt rttvar start" es]
  by (simp add: rto_ok_nat rto_new_def rto_consts)

section \<open>Back-off\<close>

lemma rto_expired_fields [simp]:
  "rc_running (rto_timer_expired c) = False"
  "rc_retrans (rto_timer_expired c) = rc_retrans c + 1"
  by (simp_all add: rto_timer_expired_def Let_def)

lemma rto_backoff_n:
  assumes "rto_ok c"
  shows "rto_ok ((rto_timer_expired ^^ k) c) \<and>
    unat (rc_rto ((rto_timer_expired ^^ k) c)) = min 12000 (2 ^ k * unat (rc_rto c)) \<and>
    rc_retrans ((rto_timer_expired ^^ k) c) = rc_retrans c + of_nat k"
proof (induction k)
  case 0
  then show ?case using assms by (simp add: rto_ok_nat)
next
  case (Suc k)
  then show ?case
    using rto_timer_expired_eq [of "(rto_timer_expired ^^ k) c"]
    by (auto simp: rto_expired_ok min_def algebra_simps)
qed

text \<open>Back-off and Karn's rule. A run of \<open>k\<close> timeouts multiplies the retransmission
  timeout by \<open>2^k\<close>, capped at two minutes; segments sent again in that time start no
  measurement; and the acknowledgement that ends the run does not feed the ambiguous round
  trip time into the estimate: the backed off timeout stays, and the next segment is
  measured again.\<close>

theorem timeout_backoff:
  assumes "100 \<le> unat (rc_rto c)" "unat (rc_rto c) \<le> 12000" "rc_retrans c = 0"
    and "0 < k" "k < 2 ^ 32"
  shows "unat (rc_rto (rto_segment_acknowledged t2 (rto_segment_sent t1 ((rto_timer_expired ^^ k) c))))
      = min 12000 (2 ^ k * unat (rc_rto c)) \<and>
    rto_segment_sent t1 ((rto_timer_expired ^^ k) c) = (rto_timer_expired ^^ k) c \<and>
    rc_start (rto_segment_sent t3 (rto_segment_acknowledged t2 ((rto_timer_expired ^^ k) c))) = t3"
proof -
  note n = rto_backoff_n [of c k]
  have "(of_nat k :: 32 word) \<noteq> 0"
    using assms(4,5) by (auto simp: word_unat_eq_iff unat_of_nat)
  then have nz: "rc_retrans ((rto_timer_expired ^^ k) c) \<noteq> 0"
    using n assms by (simp add: rto_ok_nat)
  then show ?thesis
    using n assms
    by (simp add: rto_segment_sent_def rto_segment_acknowledged_def rto_ok_nat Let_def)
qed

theorem timeout_backoff_witness:
  "unat (rc_rto (rto_segment_acknowledged 50 (rto_segment_sent 20
      ((rto_timer_expired ^^ 2) (rto_new 0 0 0))))) = min 12000 (2 ^ 2 * unat (rc_rto (rto_new 0 0 0))) \<and>
   rto_segment_sent 20 ((rto_timer_expired ^^ 2) (rto_new 0 0 0)) = (rto_timer_expired ^^ 2) (rto_new 0 0 0) \<and>
   rc_start (rto_segment_sent 60 (rto_segment_acknowledged 50
      ((rto_timer_expired ^^ 2) (rto_new 0 0 0)))) = 60"
  by (rule timeout_backoff) (simp_all add: rto_new_def rto_consts)

section \<open>The estimate of RFC 6298\<close>

text \<open>The estimator over natural numbers: the smoothed round trip time and its variation.\<close>

fun rfc6298 :: "nat list \<Rightarrow> (nat \<times> nat) option" where
  "rfc6298 [] = None"
| "rfc6298 (r # rs) = Some (fold (\<lambda>r (srtt, rttvar).
     ((7 * srtt + r) div 8, (3 * rttvar + (if srtt < r then r - srtt else srtt - r)) div 4))
     rs (r, r div 2))"

definition rfc6298_rto :: "nat \<times> nat \<Rightarrow> nat" where
  "rfc6298_rto e = max 100 (min 12000 (fst e + max 1 (4 * snd e)))"

lemma rto_final:
  assumes "unat s < 2 ^ 28" "unat v < 2 ^ 28"
  shows "unat (rto_limit s v) = rfc6298_rto (unat s, unat v)"
proof -
  have "unat (4 * v) = 4 * unat v" using assms by (simp add: unat_word_ariths)
  then have m: "unat (if 4 * v < 1 then 1 else 4 * v) = max 1 (4 * unat v)"
    by (auto simp: word_less_nat_alt)
  have "unat (s + (if 4 * v < 1 then 1 else 4 * v)) = unat s + max 1 (4 * unat v)"
    using assms by (subst unat_word_ariths, subst m) simp
  then show ?thesis
    by (auto simp: rto_limit_def Let_def rfc6298_rto_def rto_consts word_less_nat_alt)
qed

lemma rto_calculate_first:
  assumes "rc_first c" "unat r < 2 ^ 28"
  shows "\<not> rc_first (rto_calculate r c) \<and> unat (rc_srtt (rto_calculate r c)) = unat r \<and>
    unat (rc_rttvar (rto_calculate r c)) = unat r div 2 \<and>
    unat (rc_rto (rto_calculate r c)) = rfc6298_rto (unat r, unat r div 2)"
proof -
  have v: "unat (r div 2) = unat r div 2" by (simp add: unat_div)
  show ?thesis
    using rto_final [of r "r div 2"] assms v by (simp add: rto_calculate_def Let_def)
qed

lemma signed_take_bit_small:
  "- 268435456 < k \<Longrightarrow> k < 268435456 \<Longrightarrow> signed_take_bit 31 k = (k :: int)"
  by (rule signed_take_bit_int_eq_self) simp_all

lemma abs_diff_word:
  fixes s r :: "32 word"
  assumes "unat s < 2 ^ 28" "unat r < 2 ^ 28"
  shows "unat (if sint (s - r) < 0 then - (s - r) else s - r)
    = (if unat s < unat r then unat r - unat s else unat s - unat r)"
proof -
  have "unat s < 268435456" "unat r < 268435456" using assms by simp_all
  then have lt: "uint s < 268435456" "uint r < 268435456" unfolding uint_nat by linarith+
  have pos: "0 \<le> uint s" "0 \<le> uint r" by simp_all
  have "sint (s - r) = uint s - uint r"
  proof -
    have "signed_take_bit 31 (uint s) = uint s" "signed_take_bit 31 (uint r) = uint r"
      "signed_take_bit 31 (uint s - uint r) = uint s - uint r"
      by (rule signed_take_bit_small; use lt pos in linarith)+
    then show ?thesis
      by (simp add: sint_word_ariths(2)) (simp add: sint_uint)
  qed
  moreover have "uint s - uint r < 0 \<longleftrightarrow> unat s < unat r" unfolding uint_nat by linarith
  ultimately show ?thesis
    by (auto simp: unat_sub word_le_nat_alt not_less)
qed

lemma rto_calculate_next:
  assumes "\<not> rc_first c" "unat r < 2 ^ 28" "unat (rc_srtt c) < 2 ^ 28" "unat (rc_rttvar c) < 2 ^ 28"
    and "s' = (7 * unat (rc_srtt c) + unat r) div 8"
    and "v' = (3 * unat (rc_rttvar c) + (if unat (rc_srtt c) < unat r then unat r - unat (rc_srtt c)
       else unat (rc_srtt c) - unat r)) div 4"
  shows "\<not> rc_first (rto_calculate r c) \<and> unat (rc_srtt (rto_calculate r c)) = s' \<and>
    unat (rc_rttvar (rto_calculate r c)) = v' \<and>
    unat (rc_rto (rto_calculate r c)) = rfc6298_rto (s', v') \<and> s' < 2 ^ 28 \<and> v' < 2 ^ 28"
proof -
  let ?d = "if sint (rc_srtt c - r) < 0 then - (rc_srtt c - r) else rc_srtt c - r"
  let ?s = "(7 * rc_srtt c + r) div 8" and ?v = "(3 * rc_rttvar c + ?d) div 4"
  note d = abs_diff_word [OF assms(3,2)]
  have s: "unat ?s = s'"
    using assms(2,3,5) by (simp add: unat_div unat_word_ariths)
  have dl: "unat ?d < 2 ^ 28" using assms(2,3) d by auto
  have v: "unat ?v = v'"
    using assms(4) dl unfolding assms(6) d [symmetric]
    by (simp add: unat_div unat_word_ariths del: if_split)
  have bounds: "s' < 2 ^ 28" "v' < 2 ^ 28"
    using assms(2-4) by (auto simp: assms(5,6))
  show ?thesis
    using rto_final [of ?s ?v] bounds s v assms(1)
    by (simp add: rto_calculate_def Let_def)
qed

definition rto_measures :: "32 word list \<Rightarrow> rto_calc \<Rightarrow> rto_calc" where
  "rto_measures rs c = fold rto_calculate rs c"

lemma rto_fold_next:
  assumes "\<not> rc_first c" "unat (rc_srtt c) < 2 ^ 28" "unat (rc_rttvar c) < 2 ^ 28"
    and "unat (rc_rto c) = rfc6298_rto (unat (rc_srtt c), unat (rc_rttvar c))"
    and "list_all (\<lambda>r. unat r < 2 ^ 28) rs"
    and "e = fold (\<lambda>r (srtt, rttvar).
     ((7 * srtt + r) div 8, (3 * rttvar + (if srtt < r then r - srtt else srtt - r)) div 4))
     (map unat rs) (unat (rc_srtt c), unat (rc_rttvar c))"
  shows "unat (rc_rto (fold rto_calculate rs c)) = rfc6298_rto e"
  using assms
proof (induction rs arbitrary: c)
  case Nil
  then show ?case by simp
next
  case (Cons r rs)
  have r: "unat r < 2 ^ 28" using Cons.prems(5) by simp
  note n = rto_calculate_next [OF Cons.prems(1) r Cons.prems(2,3) refl refl]
  show ?case
    using Cons.IH [of "rto_calculate r c"] Cons.prems(5,6) n by (simp del: power_numeral)
qed

text \<open>C24: The estimate is the one of RFC 6298 (2.2 to 2.4). For every sequence of measured
  round trip times below \<open>2^28\<close> ticks (a month), the timeout computed in wrapping 32 bit
  arithmetic, with its signed difference, is the one the formulas give over the natural
  numbers, between one second and two minutes; no step wraps.\<close>

theorem timeout_estimate:
  assumes "rs \<noteq> []" "list_all (\<lambda>r. unat r < 2 ^ 28) rs" "rfc6298 (map unat rs) = Some e"
  shows "unat (rc_rto (rto_measures rs (rto_new srtt rttvar start))) = rfc6298_rto e"
proof -
  obtain r rs' where rs: "rs = r # rs'" using assms(1) by (cases rs) auto
  let ?c = "rto_calculate r (rto_new srtt rttvar start)"
  have r: "unat r < 2 ^ 28" using assms(2) rs by simp
  have f: "rc_first (rto_new srtt rttvar start)" by (simp add: rto_new_def)
  note n = rto_calculate_first [OF f r]
  have "unat (rc_rto (fold rto_calculate rs' ?c)) = rfc6298_rto e"
    using n r assms(2,3) by (intro rto_fold_next) (simp_all add: rs)
  then show ?thesis by (simp add: rto_measures_def rs)
qed

theorem timeout_estimate_witness:
  "unat (rc_rto (rto_measures [40, 56, 32] (rto_new 0 0 0))) = rfc6298_rto (40, 16)"
  by (rule timeout_estimate) simp_all
end
