(* ===== verification/Net_Checksum.thy ===== *)
theory Net_Checksum
  imports Fat_Prelude
begin

text \<open>
  \<^verbatim>\<open>CChecksumCalculator\<close> (\<^verbatim>\<open>lib/net/checksumcalculator.cpp\<close>): the Internet checksum
  of IP headers and, over a pseudo header, of TCP and UDP packets. The machine is little
  endian: a 16 bit load takes the low byte first, and the length in the pseudo header is
  stored with its bytes swapped. A failed \<open>assert\<close> is \<open>None\<close>.
\<close>

section \<open>The calculator\<close>

record checksum_calc =
  cs_source :: "8 word list"
  cs_dest :: "8 word list"
  cs_protocol :: "8 word"
  cs_dest_set :: bool

text \<open>The constructor without a destination address leaves that array as it was: \<open>junk\<close>.\<close>

definition cs_new_source :: "8 word list \<Rightarrow> 32 word \<Rightarrow> 8 word list \<Rightarrow> checksum_calc" where
  "cs_new_source source protocol junk =
    \<lparr>cs_source = source, cs_dest = junk, cs_protocol = ucast protocol, cs_dest_set = False\<rparr>"

definition cs_new :: "8 word list \<Rightarrow> 8 word list \<Rightarrow> 32 word \<Rightarrow> checksum_calc" where
  "cs_new source dest protocol =
    \<lparr>cs_source = source, cs_dest = dest, cs_protocol = ucast protocol, cs_dest_set = True\<rparr>"

definition cs_set_source :: "8 word list \<Rightarrow> checksum_calc \<Rightarrow> checksum_calc" where
  "cs_set_source a c = c\<lparr>cs_source := a\<rparr>"

definition cs_set_dest :: "8 word list \<Rightarrow> checksum_calc \<Rightarrow> checksum_calc" where
  "cs_set_dest a c = c\<lparr>cs_dest := a, cs_dest_set := True\<rparr>"

text \<open>\<open>TPseudoHeader\<close> with \<open>nTCPLength = le2be16 (nLength)\<close>, as bytes in memory.\<close>

definition cs_header :: "checksum_calc \<Rightarrow> 32 word \<Rightarrow> 8 word list" where
  "cs_header c nLength = cs_source c @ cs_dest c @ [0, cs_protocol c,
     ucast (drop_bit 8 (ucast nLength :: 16 word)), ucast (ucast nLength :: 16 word)]"

definition load16 :: "8 word \<Rightarrow> 8 word \<Rightarrow> 16 word" where
  "load16 lo hi = push_bit 8 (ucast hi) OR ucast lo"

fun cs_chunk :: "8 word list \<Rightarrow> 32 word \<Rightarrow> 32 word" where
  "cs_chunk (a # b # p) s = cs_chunk p (s + ucast (load16 a b))"
| "cs_chunk [a] s = s + ucast a"
| "cs_chunk [] s = s"

function cs_fold :: "32 word \<Rightarrow> 16 word" where
  "cs_fold s =
    (let nHigh = (ucast (drop_bit 16 s) :: 16 word)
     in if nHigh \<noteq> 0 then cs_fold ((s AND 0xFFFF) + ucast nHigh) else ucast s)"
  by auto

definition cs_calculate :: "checksum_calc \<Rightarrow> 8 word list \<Rightarrow> 16 word option" where
  "cs_calculate c p =
    (if cs_dest_set c \<and> 0 < length p
     then Some (NOT (cs_fold (cs_chunk p (cs_chunk (cs_header c (of_nat (length p))) 0))))
     else None)"

definition cs_simple :: "8 word list \<Rightarrow> 16 word option" where
  "cs_simple p = (if 0 < length p then Some (NOT (cs_fold (cs_chunk p 0))) else None)"

definition CHECKSUM_OK :: "16 word" where
  "CHECKSUM_OK = 0"

section \<open>Folding\<close>

lemma cs_high: "unat (ucast (drop_bit 16 s) :: 16 word) = unat s div 65536" for s :: "32 word"
proof -
  have "unat s div 65536 < 65536" using unat_lt_pow32 [of s] by linarith
  then show ?thesis
    by (simp add: unsigned_ucast_eq unsigned_drop_bit_eq drop_bit_eq_div take_bit_eq_mod unat_div)
qed

lemma cs_low: "unat (s AND 0xFFFF) = unat s mod 65536" for s :: "32 word"
proof -
  have "s AND 0xFFFF = take_bit 16 s" by (simp add: take_bit_eq_mask mask_eq_exp_minus_1)
  then show ?thesis by (simp add: take_bit_eq_mod unat_mod)
qed

lemma cs_step:
  "unat ((s AND 0xFFFF) + ucast (ucast (drop_bit 16 s) :: 16 word)) = unat s mod 65536 + unat s div 65536"
  for s :: "32 word"
proof -
  have "unat s mod 65536 < 65536" by simp
  moreover have "unat s div 65536 < 65536" using unat_lt_pow32 [of s] by linarith
  ultimately have "unat s mod 65536 + unat s div 65536 < 2 ^ 32" by simp
  then show ?thesis by (simp only: unat_word_ariths cs_low unat_ucast_WORD cs_high) simp
qed

lemma cs_high_zero: "(ucast (drop_bit 16 s) :: 16 word) = 0 \<longleftrightarrow> unat s < 65536" for s :: "32 word"
  by (simp add: word_unat_eq_iff cs_high div_eq_0_iff)

termination cs_fold
proof (relation "measure unat")
  fix s :: "32 word" and h :: "16 word"
  assume "h = ucast (drop_bit 16 s)" "h \<noteq> 0"
  moreover from this have "65536 \<le> unat s" by (simp add: cs_high_zero)
  then have "unat s mod 65536 + unat s div 65536 < unat s"
    using div_mult_mod_eq [of "unat s" 65536] by linarith
  ultimately show "((s AND 0xFFFF) + ucast h, s) \<in> measure unat"
    using cs_step [of s] by simp
qed simp

declare cs_fold.simps [simp del]

text \<open>Folding is the representative of \<open>1 .. 65535\<close> modulo \<open>65535\<close>, and 0 for 0 alone.\<close>

definition ones_rep :: "nat \<Rightarrow> nat" where
  "ones_rep n = (if n = 0 then 0 else Suc ((n - 1) mod 65535))"

lemma ones_rep_step:
  assumes "65536 \<le> n"
  shows "ones_rep (n mod 65536 + n div 65536) = ones_rep n"
proof -
  have "n - 1 = (n mod 65536 + n div 65536 - 1) + 65535 * (n div 65536)"
    using assms div_mult_mod_eq [of n 65536] by linarith
  then have "(n - 1) mod 65535 = (n mod 65536 + n div 65536 - 1) mod 65535"
    by (metis mod_mult_self2)
  moreover have "0 < n div 65536" using assms by (simp add: div_greater_zero_iff)
  ultimately show ?thesis using assms by (simp add: ones_rep_def)
qed

lemma cs_fold_eq: "unat (cs_fold s) = ones_rep (unat s)"
proof (induction s rule: cs_fold.induct)
  case (1 s)
  show ?case
  proof (cases "unat s < 65536")
    case True
    then have "cs_fold s = ucast s" by (subst cs_fold.simps) (simp add: cs_high_zero Let_def)
    then show ?thesis using True
      by (auto simp: ones_rep_def unsigned_ucast_eq take_bit_eq_mod)
  next
    case False
    let ?t = "(s AND 0xFFFF) + ucast (ucast (drop_bit 16 s) :: 16 word)"
    have "cs_fold s = cs_fold ?t"
      using False by (subst cs_fold.simps) (simp add: cs_high_zero Let_def)
    moreover have "unat (cs_fold ?t) = ones_rep (unat ?t)"
      using 1 False by (simp add: cs_high_zero)
    ultimately show ?thesis
      using ones_rep_step [of "unat s"] False by (simp only: cs_step)
  qed
qed

section \<open>Summing\<close>

fun sum16 :: "8 word list \<Rightarrow> nat" where
  "sum16 (a # b # p) = unat a + 256 * unat b + sum16 p"
| "sum16 [a] = unat a"
| "sum16 [] = 0"

lemma unat_load16: "unat (load16 a b) = unat a + 256 * unat b"
proof -
  have "load16 a b = push_bit 8 (ucast b) + ucast a"
    unfolding load16_def by (rule disjunctive_add [symmetric]) (auto simp: bit_simps dest: bit_imp_le_length)
  moreover have "unat a \<le> 255" "unat b \<le> 255"
    using unat_lt_pow8 [of a] unat_lt_pow8 [of b] by linarith+
  ultimately show ?thesis
    by (simp add: unat_word_ariths push_bit_eq_mult unsigned_ucast_eq take_bit_eq_mod)
qed

lemma sum16_bound: "2 * sum16 p \<le> 65535 * (length p + 1)"
proof (induction p rule: sum16.induct)
  case (1 a b p)
  have "unat a \<le> 255" "unat b \<le> 255"
    using unat_lt_pow8 [of a] unat_lt_pow8 [of b] by linarith+
  then show ?case using 1 by simp
next
  case (2 a)
  have "unat a \<le> 255" using unat_lt_pow8 [of a] by linarith
  then show ?case by simp
qed simp

lemma cs_chunk_eq: "unat s + sum16 p < 2 ^ 32 \<Longrightarrow> unat (cs_chunk p s) = unat s + sum16 p"
proof (induction p s rule: cs_chunk.induct)
  case (1 a b p s)
  have "unat (s + ucast (load16 a b)) = unat s + (unat a + 256 * unat b)"
    using "1.prems" by (simp add: unat_word_ariths unat_load16)
  then show ?case using 1 by simp
next
  case (2 a s)
  then show ?case by (simp add: unat_word_ariths)
qed simp

lemma sum16_append: "even (length p) \<Longrightarrow> sum16 (p @ q) = sum16 p + sum16 q"
  by (induction p rule: sum16.induct) auto

definition cs_total :: "checksum_calc \<Rightarrow> 8 word list \<Rightarrow> nat" where
  "cs_total c p = sum16 (cs_header c (of_nat (length p))) + sum16 p"

definition cs_wf :: "checksum_calc \<Rightarrow> bool" where
  "cs_wf c \<longleftrightarrow> cs_dest_set c \<and> length (cs_source c) = 4 \<and> length (cs_dest c) = 4"

lemma cs_calculate_eq:
  assumes "cs_wf c" "p \<noteq> []" "length p \<le> 65535"
  shows "\<exists>x. cs_calculate c p = Some x \<and> unat x = 65535 - ones_rep (cs_total c p)"
proof -
  let ?h = "cs_header c (of_nat (length p))"
  have "length ?h = 12" using assms by (simp add: cs_header_def cs_wf_def)
  then have "sum16 ?h + sum16 p < 2 ^ 32"
    using sum16_bound [of ?h] sum16_bound [of p] assms(3) by simp
  then have "unat (cs_chunk p (cs_chunk ?h 0)) = cs_total c p"
    by (simp add: cs_chunk_eq cs_total_def)
  moreover have "unat (NOT x) = 65535 - unat x" for x :: "16 word"
  proof -
    have "NOT x = - 1 - x" by (simp add: not_eq_complement)
    moreover have "unat (- 1 :: 16 word) = 65535" by (simp add: unsigned_minus_1_eq_mask mask_eq_exp_minus_1)
    ultimately show ?thesis by (simp only: unat_sub [OF word_n1_ge])
  qed
  ultimately show ?thesis
    using assms by (simp add: cs_calculate_def cs_fold_eq cs_wf_def)
qed

section \<open>Correctness\<close>

lemma ones_rep_full: "ones_rep n = 65535 \<longleftrightarrow> 0 < n \<and> n mod 65535 = 0"
proof (cases n)
  case (Suc m)
  then show ?thesis
    by (simp add: ones_rep_def mod_Suc)
qed (simp add: ones_rep_def)

lemma ones_rep_le: "ones_rep n \<le> 65535"
  by (simp add: ones_rep_def Suc_le_eq)

lemma ones_rep_mod: "ones_rep n mod 65535 = n mod 65535"
proof (cases n)
  case (Suc m)
  then show ?thesis by (simp add: ones_rep_def mod_Suc_eq)
qed (simp add: ones_rep_def)

lemma add_mod_cancel:
  fixes t a b n :: nat
  assumes "(t + a) mod n = (t + b) mod n"
  shows "a mod n = b mod n"
proof -
  have "int (t + a) mod int n = int (t + b) mod int n"
    using assms by (metis of_nat_mod)
  then have "(int (t + a) - int t) mod int n = (int (t + b) - int t) mod int n"
    by (rule mod_diff_cong) simp
  then have "int a mod int n = int b mod int n" by simp
  then show ?thesis by (metis of_nat_mod of_nat_eq_iff)
qed

text \<open>What a receiver accepts.\<close>

lemma cs_verify_iff:
  assumes "cs_wf c" "p \<noteq> []" "length p \<le> 65535"
  shows "cs_calculate c p = Some CHECKSUM_OK \<longleftrightarrow> 0 < cs_total c p \<and> cs_total c p mod 65535 = 0"
proof -
  obtain x where x: "cs_calculate c p = Some x" "unat x = 65535 - ones_rep (cs_total c p)"
    using cs_calculate_eq [OF assms] by blast
  then have "cs_calculate c p = Some CHECKSUM_OK \<longleftrightarrow> ones_rep (cs_total c p) = 65535"
    using ones_rep_le [of "cs_total c p"] by (auto simp: CHECKSUM_OK_def word_unat_eq_iff)
  then show ?thesis by (simp only: ones_rep_full)
qed

lemma cs_total_swap:
  assumes "length a = 4" "length b = 4"
  shows "cs_total (cs_new b a pr) p = cs_total (cs_new a b pr) p"
  using assms by (simp add: cs_total_def cs_header_def cs_new_def sum16_append)

lemma cs_total_field:
  assumes "even (length u)"
  shows "cs_total c (u @ [x, y] @ w) = cs_total c (u @ [0, 0] @ w) + (unat x + 256 * unat y)"
  using assms by (simp add: cs_total_def sum16_append)

lemma load16_bytes: "unat (ucast c :: 8 word) + 256 * unat (ucast (drop_bit 8 c) :: 8 word) = unat c"
  for c :: "16 word"
proof -
  have "unat c div 256 < 256" using unat_lt_pow16 [of c] by linarith
  then show ?thesis
    by (simp add: unsigned_ucast_eq unsigned_drop_bit_eq take_bit_eq_mod drop_bit_eq_div unat_div)
qed

lemma cs_accepted:
  assumes "length src = 4" "length dst = 4" "even (length u)" "length u + 2 + length w \<le> 65535"
    and "cs_calculate (cs_new src dst proto) (u @ [0, 0] @ w) = Some c"
  shows "cs_calculate (cs_new dst src proto) (u @ [ucast c, ucast (drop_bit 8 c)] @ w)
    = Some CHECKSUM_OK"
proof -
  let ?s = "cs_new src dst proto" and ?r = "cs_new dst src proto"
  have wf: "cs_wf ?s" "cs_wf ?r" using assms(1,2) by (simp_all add: cs_wf_def cs_new_def)
  let ?t = "cs_total ?s (u @ [0, 0] @ w)"
  have c: "unat c = 65535 - ones_rep ?t"
    using cs_calculate_eq [OF wf(1), of "u @ [0, 0] @ w"] assms(4,5) by simp
  have "cs_total ?r (u @ [ucast c, ucast (drop_bit 8 c)] @ w) = ?t + unat c"
    using cs_total_field [OF assms(3), of ?r "ucast c" "ucast (drop_bit 8 c)" w]
    by (simp only: load16_bytes cs_total_swap [OF assms(1,2)])
  moreover have "(?t + unat c) mod 65535 = 0"
  proof -
    have "(?t + unat c) mod 65535 = (ones_rep ?t + unat c) mod 65535"
      by (metis mod_add_left_eq ones_rep_mod)
    then show ?thesis using c ones_rep_le [of ?t] by simp
  qed
  moreover have "0 < ?t + unat c"
    using c by (cases "?t = 0") (simp_all add: ones_rep_def)
  ultimately show ?thesis
    using cs_verify_iff [OF wf(2), of "u @ [ucast c, ucast (drop_bit 8 c)] @ w"] assms(4) by simp
qed

text \<open>A sender that computes the checksum over a packet whose checksum field (two bytes at
  an even offset) is zero and stores the result in that field, low byte first, sends a
  packet that the receiver accepts: the calculator of the receiver, which has the two
  addresses the other way round, returns \<open>CHECKSUM_OK\<close>.\<close>

theorem checksum_accepted:
  assumes "length src = 4" "length dst = 4" "even (length u)" "length u + 2 + length w \<le> 65535"
    and "cs_calculate (cs_new src dst proto) (u @ [0, 0] @ w) = Some c"
  shows "cs_calculate (cs_new dst src proto) (u @ [ucast c, ucast (drop_bit 8 c)] @ w)
    = Some CHECKSUM_OK"
  using assms by (rule cs_accepted)

theorem checksum_accepted_witness:
  "cs_calculate (cs_new [10, 0, 0, 2] [10, 0, 0, 1] 6)
     ([1, 2, 3, 4] @ [ucast (0xE9E0 :: 16 word), ucast (drop_bit 8 (0xE9E0 :: 16 word))] @ [7])
    = Some CHECKSUM_OK"
  by (rule checksum_accepted) (simp_all, code_simp)

text \<open>C30: Error detection. When a packet is accepted and one of its aligned 16 bit words is
  changed in any way, the receiver rejects the changed packet: two accepted packets that
  differ in one aligned word differ only as \<open>0x0000\<close> and \<open>0xFFFF\<close> do, the two zeros of ones'
  complement.\<close>

theorem checksum_detects:
  assumes "cs_wf c" "even (length u)" "length u + 2 + length w \<le> 65535"
    and "cs_calculate c (u @ [a1, b1] @ w) = Some CHECKSUM_OK"
    and "load16 a1 b1 \<noteq> load16 a2 b2"
    and "{load16 a1 b1, load16 a2 b2} \<noteq> {0, 0xFFFF}"
  shows "cs_calculate c (u @ [a2, b2] @ w) \<noteq> Some CHECKSUM_OK"
proof
  assume ok2: "cs_calculate c (u @ [a2, b2] @ w) = Some CHECKSUM_OK"
  let ?t = "cs_total c (u @ [0, 0] @ w)"
  have "(?t + unat (load16 a1 b1)) mod 65535 = 0" "(?t + unat (load16 a2 b2)) mod 65535 = 0"
    using cs_verify_iff [OF assms(1)] assms(3,4) ok2
      cs_total_field [OF assms(2), of c a1 b1 w] cs_total_field [OF assms(2), of c a2 b2 w]
    by (simp_all add: unat_load16)
  then have "(?t + unat (load16 a1 b1)) mod 65535 = (?t + unat (load16 a2 b2)) mod 65535" by simp
  then have m: "unat (load16 a1 b1) mod 65535 = unat (load16 a2 b2) mod 65535"
    by (rule add_mod_cancel)
  have l: "unat (load16 a1 b1) \<le> 65535" "unat (load16 a2 b2) \<le> 65535"
    using unat_lt_pow16 [of "load16 a1 b1"] unat_lt_pow16 [of "load16 a2 b2"] by linarith+
  have "unat (load16 a1 b1) \<noteq> unat (load16 a2 b2)" using assms(5) by (simp add: word_unat_eq_iff)
  then have "{unat (load16 a1 b1), unat (load16 a2 b2)} = {0, 65535}"
    using m l by (cases "unat (load16 a1 b1) = 65535"; cases "unat (load16 a2 b2) = 65535") auto
  then show False
    using assms(6) by (auto simp: word_unat_eq_iff doubleton_eq_iff)
qed

theorem checksum_detects_witness:
  "cs_calculate (cs_new [10, 0, 0, 2] [10, 0, 0, 1] 6) ([1, 2] @ [4, 3] @ [224, 233, 7]) \<noteq> Some CHECKSUM_OK"
  by (rule checksum_detects [where ?a1.0 = 3 and ?b1.0 = 4]) (simp_all, code_simp+)
end
