(* ===== verification/Net_Tcp.thy ===== *)
theory Net_Tcp
  imports Net_Queue Net_Rto Net_Checksum
begin

text \<open>
  \<^verbatim>\<open>CTCPConnection\<close> (\<^verbatim>\<open>lib/net/tcpconnection.cpp\<close>): one TCP connection, from the
  segment that arrives or the call of the user to the segments it hands to the network layer.

  \<^item> The state is a record with the fields of the class; the packets given to the network
    layer are collected in \<open>t_wire\<close>, oldest first. The return value of
    \<open>CNetworkLayer::Send\<close> is used only when a connection is opened and is an argument there.
  \<^item> The clock (\<open>t_ticks\<close>, \<open>t_secs\<close>) is the environment's. A kernel timer is \<open>None\<close> when it is
    not running and the delay it was started with when it is; that it fires is an event
    (\<open>tcp_timer_handler\<close>).
  \<^item> An operation returns an option. \<open>None\<close> means that the call does not return: an
    \<open>assert\<close> or \<open>UNEXPECTED_STATE\<close> halts the system, or a loop does not end.
  \<^item> A call that waits for the event of the connection is split where it waits: the part before
    returns \<open>TcpWait\<close>, the part after it is the operation with the suffix \<open>_woken\<close>.
\<close>

section \<open>Constants and types\<close>

definition TCP_FLAG_ACK :: "16 word" where "TCP_FLAG_ACK = 0x1000"
definition TCP_FLAG_PUSH :: "16 word" where "TCP_FLAG_PUSH = 0x800"
definition TCP_FLAG_RESET :: "16 word" where "TCP_FLAG_RESET = 0x400"
definition TCP_FLAG_SYN :: "16 word" where "TCP_FLAG_SYN = 0x200"
definition TCP_FLAG_FIN :: "16 word" where "TCP_FLAG_FIN = 0x100"

lemmas tcp_flags = TCP_FLAG_ACK_def TCP_FLAG_PUSH_def TCP_FLAG_RESET_def TCP_FLAG_SYN_def
  TCP_FLAG_FIN_def

definition TCP_CONFIG_MSS :: "16 word" where "TCP_CONFIG_MSS = 1480 - 20"
definition TCP_CONFIG_WINDOW :: "32 word" where "TCP_CONFIG_WINDOW = (1480 - 20) * 10"
definition TCP_CONFIG_RETRANS_BUFFER_SIZE :: "32 word" where
  "TCP_CONFIG_RETRANS_BUFFER_SIZE = 0x10000"
definition TCP_MAX_CONNECTIONS :: "32 word" where "TCP_MAX_CONNECTIONS = 1000"
definition HZ_TIMEWAIT :: "32 word" where "HZ_TIMEWAIT = 60 * HZ"
definition HZ_FIN_TIMEOUT :: "32 word" where "HZ_FIN_TIMEOUT = 60 * HZ"
definition MAX_RETRANSMISSIONS :: "32 word" where "MAX_RETRANSMISSIONS = 5"
definition MSS_S :: "32 word" where "MSS_S = 1480"
definition IPPROTO_TCP :: "32 word" where "IPPROTO_TCP = 6"

lemmas tcp_consts = TCP_CONFIG_MSS_def TCP_CONFIG_WINDOW_def TCP_CONFIG_RETRANS_BUFFER_SIZE_def
  TCP_MAX_CONNECTIONS_def HZ_TIMEWAIT_def HZ_FIN_TIMEOUT_def MAX_RETRANSMISSIONS_def MSS_S_def

datatype tcp_state = TCPStateClosed | TCPStateListen | TCPStateSynSent | TCPStateSynReceived
  | TCPStateEstablished | TCPStateFinWait1 | TCPStateFinWait2 | TCPStateCloseWait
  | TCPStateClosing | TCPStateLastAck | TCPStateTimeWait

datatype tcp_timer = TCPTimerUser | TCPTimerRetransmission | TCPTimerTimeWait

record tcp =
  t_active :: bool
  t_state :: tcp_state
  t_errno :: int
  t_txq :: net_queue
  t_rxq :: net_queue
  t_rtq :: retrans_queue
  t_retransmit :: bool
  t_send_syn :: bool
  t_fin_queued :: bool
  t_after_fin :: tcp_state
  t_retrans_count :: "32 word"
  t_timed_out :: bool
  t_event :: bool
  t_tm_user :: "32 word option"
  t_tm_retrans :: "32 word option"
  t_tm_wait :: "32 word option"
  snd_una :: "32 word"
  snd_nxt :: "32 word"
  snd_wnd :: "32 word"
  snd_up :: "16 word"
  snd_wl1 :: "32 word"
  snd_wl2 :: "32 word"
  t_iss :: "32 word"
  rcv_nxt :: "32 word"
  rcv_wnd :: "32 word"
  t_irs :: "32 word"
  snd_mss :: "16 word"
  t_rto :: rto_calc
  own_port :: "16 word"
  foreign_ip :: "32 word option"
  foreign_port :: "16 word"
  t_checksum :: checksum_calc
  t_connections :: "32 word"
  t_ticks :: "32 word"
  t_secs :: "32 word"
  t_wire :: "(32 word \<times> 8 word list) list"

section \<open>Sequence numbers\<close>

definition seq_lt :: "32 word \<Rightarrow> 32 word \<Rightarrow> bool" where
  "seq_lt x y \<longleftrightarrow> sint (x - y) < 0"

definition seq_le :: "32 word \<Rightarrow> 32 word \<Rightarrow> bool" where
  "seq_le x y \<longleftrightarrow> sint (x - y) \<le> 0"

definition seq_gt :: "32 word \<Rightarrow> 32 word \<Rightarrow> bool" where "seq_gt x y \<longleftrightarrow> seq_lt y x"

definition bwl :: "32 word \<Rightarrow> 32 word \<Rightarrow> 32 word \<Rightarrow> bool" where
  "bwl l x h \<longleftrightarrow> seq_le l x \<and> seq_lt x h"

definition bwh :: "32 word \<Rightarrow> 32 word \<Rightarrow> 32 word \<Rightarrow> bool" where
  "bwh l x h \<longleftrightarrow> seq_lt l x \<and> seq_le x h"

definition bwlh :: "32 word \<Rightarrow> 32 word \<Rightarrow> 32 word \<Rightarrow> bool" where
  "bwlh l x h \<longleftrightarrow> seq_le l x \<and> seq_le x h"

section \<open>Bytes\<close>

definition be16 :: "16 word \<Rightarrow> 8 word list" where
  "be16 x = [ucast (drop_bit 8 x), ucast x]"

definition be32 :: "32 word \<Rightarrow> 8 word list" where
  "be32 x = [ucast (drop_bit 24 x), ucast (drop_bit 16 x), ucast (drop_bit 8 x), ucast x]"

definition le16 :: "16 word \<Rightarrow> 8 word list" where
  "le16 x = [ucast x, ucast (drop_bit 8 x)]"

definition get_be16 :: "8 word list \<Rightarrow> nat \<Rightarrow> 16 word" where
  "get_be16 p i = load16 (p ! (i + 1)) (p ! i)"

definition get_be32 :: "8 word list \<Rightarrow> nat \<Rightarrow> 32 word" where
  "get_be32 p i = push_bit 16 (ucast (get_be16 p i)) OR ucast (get_be16 p (i + 2))"

definition ip_bytes :: "32 word \<Rightarrow> 8 word list" where
  "ip_bytes a = [ucast a, ucast (drop_bit 8 a), ucast (drop_bit 16 a), ucast (drop_bit 24 a)]"

section \<open>Timers\<close>

definition stop_timer :: "tcp_timer \<Rightarrow> tcp \<Rightarrow> tcp" where
  "stop_timer tm c = (case tm of TCPTimerUser \<Rightarrow> c\<lparr>t_tm_user := None\<rparr>
     | TCPTimerRetransmission \<Rightarrow> c\<lparr>t_tm_retrans := None\<rparr>
     | TCPTimerTimeWait \<Rightarrow> c\<lparr>t_tm_wait := None\<rparr>)"

definition start_timer :: "tcp_timer \<Rightarrow> 32 word \<Rightarrow> tcp \<Rightarrow> tcp option" where
  "start_timer tm nHZ c = (if nHZ > 0 then
     let c = stop_timer tm c
     in Some (case tm of TCPTimerUser \<Rightarrow> c\<lparr>t_tm_user := Some nHZ\<rparr>
          | TCPTimerRetransmission \<Rightarrow> c\<lparr>t_tm_retrans := Some nHZ\<rparr>
          | TCPTimerTimeWait \<Rightarrow> c\<lparr>t_tm_wait := Some nHZ\<rparr>)
     else None)"

definition start_retransmission_timer :: "tcp \<Rightarrow> tcp option" where
  "start_retransmission_timer c = start_timer TCPTimerRetransmission (rc_rto (t_rto c)) c"

definition rto_sent :: "tcp \<Rightarrow> tcp" where
  "rto_sent c = c\<lparr>t_rto := rto_segment_sent (t_ticks c) (t_rto c)\<rparr>"

definition rto_acked :: "tcp \<Rightarrow> tcp" where
  "rto_acked c = c\<lparr>t_rto := rto_segment_acknowledged (t_ticks c) (t_rto c)\<rparr>"

text \<open>\<open>TCP_MAX_WINDOW / TCP_QUIET_TIME / HZ\<close> is \<open>65535 / 30 / 100 = 21\<close>.\<close>

definition calculate_isn :: "tcp \<Rightarrow> 32 word" where
  "calculate_isn c = (t_secs c * HZ + t_ticks c mod HZ) * 21"

section \<open>Sending\<close>

text \<open>The bytes before and behind the checksum field of a segment.\<close>

definition segment_front :: "tcp \<Rightarrow> 16 word \<Rightarrow> 32 word \<Rightarrow> 32 word \<Rightarrow> 8 word list" where
  "segment_front c flags seq ack =
    (let nDataOffset = (if flags AND TCP_FLAG_SYN \<noteq> 0 then 6 else 5)
     in be16 (own_port c) @ be16 (foreign_port c) @ be32 seq
        @ be32 (if flags AND TCP_FLAG_ACK \<noteq> 0 then ack else 0)
        @ le16 (push_bit 4 nDataOffset OR flags) @ be16 (ucast (rcv_wnd c)))"

definition segment_back :: "tcp \<Rightarrow> 16 word \<Rightarrow> 8 word list \<Rightarrow> 8 word list" where
  "segment_back c flags dat = be16 (snd_up c)
     @ (if flags AND TCP_FLAG_SYN \<noteq> 0 then [2, 4] @ be16 TCP_CONFIG_MSS else []) @ dat"

text \<open>A segment that does not fit \<open>TxBuffer\<close> overruns the stack: like a failed assert, it has
  no result in the model.\<close>

definition send_segment :: "16 word \<Rightarrow> 32 word \<Rightarrow> 32 word \<Rightarrow> 8 word list \<Rightarrow> tcp \<Rightarrow> tcp option" where
  "send_segment flags seq ack dat c =
    (let u = segment_front c flags seq ack; w = segment_back c flags dat
     in if length u + 2 + length w \<le> FRAME_BUFFER_SIZE then
          (case cs_calculate (t_checksum c) (u @ [0, 0] @ w) of None \<Rightarrow> None
           | Some x \<Rightarrow> (case foreign_ip c of None \<Rightarrow> None
              | Some a \<Rightarrow> Some (c\<lparr>t_wire := t_wire c @ [(a, u @ le16 x @ w)]\<rparr>)))
        else None)"

definition send_ack :: "tcp \<Rightarrow> tcp option" where
  "send_ack c = send_segment TCP_FLAG_ACK (snd_nxt c) (rcv_nxt c) [] c"

section \<open>Opening\<close>

text \<open>The fields that both constructors set alike. The others keep what was in memory; they are
  those of the argument \<open>c\<close>.\<close>

definition tcp_blank :: "16 word \<Rightarrow> 8 word list \<Rightarrow> tcp \<Rightarrow> tcp option" where
  "tcp_blank nOwnPort junk c =
    (case rq_new TCP_CONFIG_RETRANS_BUFFER_SIZE junk of None \<Rightarrow> None
     | Some q \<Rightarrow> Some (c\<lparr>t_errno := 0, t_txq := [], t_rxq := [], t_rtq := q, t_retransmit := False,
         t_send_syn := False, t_fin_queued := False, t_retrans_count := 0, t_timed_out := False,
         t_event := False, snd_wnd := TCP_CONFIG_WINDOW, snd_up := 0, rcv_nxt := 0,
         rcv_wnd := TCP_CONFIG_WINDOW, t_irs := 0, snd_mss := 536,
         t_rto := rto_new (rc_srtt (t_rto c)) (rc_rttvar (t_rto c)) (rc_start (t_rto c)),
         own_port := nOwnPort, t_connections := t_connections c + 1,
         t_tm_user := None, t_tm_retrans := None, t_tm_wait := None\<rparr>))"

definition active_setup :: "32 word \<Rightarrow> 32 word \<Rightarrow> 16 word \<Rightarrow> tcp \<Rightarrow> tcp" where
  "active_setup ownIP foreignIP nForeignPort c =
    (let c = c\<lparr>t_active := True, t_state := TCPStateClosed, foreign_ip := Some foreignIP,
               foreign_port := nForeignPort,
               t_checksum := cs_new (ip_bytes ownIP) (ip_bytes foreignIP) IPPROTO_TCP\<rparr>;
         c = c\<lparr>t_iss := calculate_isn c\<rparr>;
         c = c\<lparr>t_rto := rto_initialize (t_rto c) (t_iss c)\<rparr>
     in c\<lparr>snd_una := t_iss c, snd_nxt := t_iss c + 1\<rparr>)"

text \<open>The active open; \<open>sent\<close> is what the network layer returns for the SYN segment.\<close>

definition tcp_open_active ::
  "32 word \<Rightarrow> 32 word \<Rightarrow> 16 word \<Rightarrow> 16 word \<Rightarrow> bool \<Rightarrow> 8 word list \<Rightarrow> tcp \<Rightarrow> tcp option" where
  "tcp_open_active ownIP foreignIP nForeignPort nOwnPort sent junk c0 = do {
     c \<leftarrow> tcp_blank nOwnPort junk c0;
     let c = active_setup ownIP foreignIP nForeignPort c;
     c \<leftarrow> send_segment TCP_FLAG_SYN (t_iss c) 0 [] c;
     if sent then
       start_retransmission_timer
         ((rto_sent c)\<lparr>t_state := TCPStateSynSent, t_retrans_count := MAX_RETRANSMISSIONS\<rparr>)
     else Some c
   }"

definition tcp_open_passive ::
  "32 word \<Rightarrow> 16 word \<Rightarrow> 8 word list \<Rightarrow> 8 word list \<Rightarrow> tcp \<Rightarrow> tcp option" where
  "tcp_open_passive ownIP nOwnPort junk junk4 c0 = do {
     c \<leftarrow> tcp_blank nOwnPort junk c0;
     Some (c\<lparr>t_active := False, t_state := TCPStateListen, foreign_ip := None,
       t_checksum := cs_new_source (ip_bytes ownIP) IPPROTO_TCP junk4\<rparr>)
   }"

section \<open>Calls of the user\<close>

datatype 'a tcp_result = TcpDone 'a | TcpWait

definition tcp_connect :: "tcp \<Rightarrow> (int tcp_result \<times> tcp) option" where
  "tcp_connect c =
    (if t_errno c < 0 then Some (TcpDone (t_errno c), c)
     else case t_state c of
       TCPStateSynSent \<Rightarrow> Some (TcpWait, c\<lparr>t_event := False\<rparr>)
     | TCPStateSynReceived \<Rightarrow> Some (TcpWait, c\<lparr>t_event := False\<rparr>)
     | TCPStateEstablished \<Rightarrow> Some (TcpDone (t_errno c), c)
     | TCPStateClosed \<Rightarrow> Some (TcpDone (- 1), c)
     | _ \<Rightarrow> None)"

definition tcp_connect_woken :: "tcp \<Rightarrow> int" where
  "tcp_connect_woken c = t_errno c"

definition tcp_accept_woken :: "tcp \<Rightarrow> (int \<times> (32 word \<times> 16 word) option) option" where
  "tcp_accept_woken c = (case foreign_ip c of None \<Rightarrow> None
     | Some a \<Rightarrow> Some (t_errno c, Some (a, foreign_port c)))"

definition tcp_accept :: "tcp \<Rightarrow> ((int \<times> (32 word \<times> 16 word) option) tcp_result \<times> tcp) option" where
  "tcp_accept c =
    (if t_errno c < 0 then Some (TcpDone (t_errno c, None), c)
     else case t_state c of
       TCPStateSynSent \<Rightarrow> None
     | TCPStateListen \<Rightarrow> Some (TcpWait, c\<lparr>t_event := False\<rparr>)
     | TCPStateSynReceived \<Rightarrow> map_option (\<lambda>r. (TcpDone r, c)) (tcp_accept_woken c)
     | TCPStateEstablished \<Rightarrow> map_option (\<lambda>r. (TcpDone r, c)) (tcp_accept_woken c)
     | _ \<Rightarrow> Some (TcpDone (- 1, None), c))"

definition queue_fin :: "tcp_state \<Rightarrow> tcp \<Rightarrow> tcp option" where
  "queue_fin after c = (if \<not> t_fin_queued c
     then Some (c\<lparr>t_after_fin := after, t_retrans_count := MAX_RETRANSMISSIONS, t_fin_queued := True\<rparr>)
     else None)"

definition tcp_close :: "tcp \<Rightarrow> (int \<times> tcp) option" where
  "tcp_close c =
    (if t_errno c < 0 then Some (t_errno c, c)
     else case t_state c of
       TCPStateClosed \<Rightarrow> Some (- 1, c)
     | TCPStateListen \<Rightarrow> Some (0, (stop_timer TCPTimerRetransmission c)\<lparr>t_state := TCPStateClosed\<rparr>)
     | TCPStateSynSent \<Rightarrow> Some (0, (stop_timer TCPTimerRetransmission c)\<lparr>t_state := TCPStateClosed\<rparr>)
     | TCPStateSynReceived \<Rightarrow> map_option (Pair 0) (queue_fin TCPStateFinWait1 c)
     | TCPStateEstablished \<Rightarrow> map_option (Pair 0) (queue_fin TCPStateFinWait1 c)
     | TCPStateFinWait1 \<Rightarrow> Some (0, c)
     | TCPStateFinWait2 \<Rightarrow> Some (0, c)
     | TCPStateCloseWait \<Rightarrow> map_option (Pair 0) (queue_fin TCPStateLastAck c)
     | TCPStateClosing \<Rightarrow> Some (- 1, c)
     | TCPStateLastAck \<Rightarrow> Some (- 1, c)
     | TCPStateTimeWait \<Rightarrow> Some (- 1, c))"

definition MSG_DONTWAIT :: int where "MSG_DONTWAIT = 0x40"

text \<open>The data of the user, cut into frame buffers.\<close>

function enqueue_frames :: "net_queue \<Rightarrow> 8 word list \<Rightarrow> net_queue option" where
  "enqueue_frames q dat =
    (if length dat > FRAME_BUFFER_SIZE then
       case nq_enqueue q (take FRAME_BUFFER_SIZE dat) of None \<Rightarrow> None
       | Some q \<Rightarrow> enqueue_frames q (drop FRAME_BUFFER_SIZE dat)
     else if length dat > 0 then nq_enqueue q dat else Some q)"
  by auto
termination by (relation "measure (\<lambda>(q, dat). length dat)") (auto simp: FRAME_BUFFER_SIZE_def)

declare enqueue_frames.simps [simp del]

definition tcp_send :: "8 word list \<Rightarrow> int \<Rightarrow> tcp \<Rightarrow> (int tcp_result \<times> tcp) option" where
  "tcp_send dat nFlags c =
    (if nFlags \<noteq> 0 \<and> nFlags \<noteq> MSG_DONTWAIT then Some (TcpDone (- 1), c)
     else if t_errno c < 0 then Some (TcpDone (t_errno c), c)
     else if t_state c \<in> {TCPStateSynSent, TCPStateSynReceived, TCPStateEstablished,
                          TCPStateCloseWait}
     then (case enqueue_frames (t_txq c) dat of None \<Rightarrow> None
       | Some q \<Rightarrow>
         let c = c\<lparr>t_txq := q\<rparr>
         in if nFlags = 0 then Some (TcpWait, c\<lparr>t_event := False\<rparr>)
            else Some (TcpDone (int (length dat)), c))
     else Some (TcpDone (- 1), c))"

definition tcp_send_woken :: "nat \<Rightarrow> tcp \<Rightarrow> int" where
  "tcp_send_woken nResult c = (if t_errno c < 0 then t_errno c else int nResult)"

text \<open>\<open>Receive\<close> waits in a loop; \<open>tcp_receive_loop\<close> is one turn from the attempt to dequeue. It
  returns the number of bytes or an error, and the bytes. After a wait, \<open>tcp_receive_woken\<close>
  goes on.\<close>

definition tcp_receive_loop :: "int \<Rightarrow> tcp \<Rightarrow> ((int \<times> 8 word list) tcp_result \<times> tcp) option" where
  "tcp_receive_loop nFlags c =
    (case nq_dequeue (t_rxq c) of None \<Rightarrow> None
     | Some (p, q) \<Rightarrow>
       let c = c\<lparr>t_rxq := q\<rparr>
       in if p \<noteq> [] then Some (TcpDone (int (length p), p), c)
          else if t_state c \<notin> {TCPStateSynSent, TCPStateSynReceived, TCPStateEstablished}
          then Some (TcpDone (- 1, []), c)
          else if nFlags \<noteq> 0 then Some (TcpDone (0, []), c)
          else Some (TcpWait, c\<lparr>t_event := False\<rparr>))"

definition tcp_receive_woken :: "int \<Rightarrow> tcp \<Rightarrow> ((int \<times> 8 word list) tcp_result \<times> tcp) option" where
  "tcp_receive_woken nFlags c =
    (if t_errno c < 0 then Some (TcpDone (t_errno c, []), c) else tcp_receive_loop nFlags c)"

definition tcp_receive :: "int \<Rightarrow> tcp \<Rightarrow> ((int \<times> 8 word list) tcp_result \<times> tcp) option" where
  "tcp_receive nFlags c =
    (if nFlags \<noteq> 0 \<and> nFlags \<noteq> MSG_DONTWAIT then Some (TcpDone (- 1, []), c)
     else if t_errno c < 0 then Some (TcpDone (t_errno c, []), c)
     else tcp_receive_loop nFlags c)"

text \<open>\<open>SendTo\<close> ignores the address; \<open>ReceiveFrom\<close> also returns the peer, when both pointers
  (\<open>wanted\<close>) are given.\<close>

definition tcp_send_to ::
  "8 word list \<Rightarrow> int \<Rightarrow> 32 word \<Rightarrow> 16 word \<Rightarrow> tcp \<Rightarrow> (int tcp_result \<times> tcp) option" where
  "tcp_send_to dat nFlags foreignIP nForeignPort c = tcp_send dat nFlags c"

definition receive_from_end ::
  "bool \<Rightarrow> tcp \<Rightarrow> int \<times> 8 word list \<Rightarrow> (int \<times> 8 word list \<times> (32 word \<times> 16 word) option) option" where
  "receive_from_end wanted c r = (case r of (nResult, p) \<Rightarrow>
     if nResult \<le> 0 then Some (nResult, p, None)
     else if wanted
     then (case foreign_ip c of None \<Rightarrow> None | Some a \<Rightarrow> Some (0, p, Some (a, foreign_port c)))
     else Some (0, p, None))"

definition receive_from_result ::
  "bool \<Rightarrow> ((int \<times> 8 word list) tcp_result \<times> tcp) option \<Rightarrow>
   ((int \<times> 8 word list \<times> (32 word \<times> 16 word) option) tcp_result \<times> tcp) option" where
  "receive_from_result wanted res = (case res of None \<Rightarrow> None
     | Some (TcpWait, c) \<Rightarrow> Some (TcpWait, c)
     | Some (TcpDone r, c) \<Rightarrow> map_option (\<lambda>r. (TcpDone r, c)) (receive_from_end wanted c r))"

definition tcp_receive_from :: "int \<Rightarrow> bool \<Rightarrow> tcp \<Rightarrow>
   ((int \<times> 8 word list \<times> (32 word \<times> 16 word) option) tcp_result \<times> tcp) option" where
  "tcp_receive_from nFlags wanted c = receive_from_result wanted (tcp_receive nFlags c)"

definition tcp_receive_from_woken :: "int \<Rightarrow> bool \<Rightarrow> tcp \<Rightarrow>
   ((int \<times> 8 word list \<times> (32 word \<times> 16 word) option) tcp_result \<times> tcp) option" where
  "tcp_receive_from_woken nFlags wanted c = receive_from_result wanted (tcp_receive_woken nFlags c)"

definition tcp_set_option_broadcast :: "bool \<Rightarrow> tcp \<Rightarrow> int" where
  "tcp_set_option_broadcast bAllowed c = 0"

text \<open>The destructor.\<close>

definition tcp_delete :: "tcp \<Rightarrow> tcp option" where
  "tcp_delete c =
    (if t_state c = TCPStateClosed then
       let c = stop_timer TCPTimerTimeWait (stop_timer TCPTimerRetransmission (stop_timer TCPTimerUser c))
       in if t_connections c > 0 then Some (c\<lparr>t_connections := t_connections c - 1\<rparr>) else None
     else None)"

definition tcp_is_connected :: "tcp \<Rightarrow> bool" where
  "tcp_is_connected c \<longleftrightarrow>
     t_state c \<notin> {TCPStateClosed, TCPStateListen, TCPStateSynSent, TCPStateTimeWait}"

definition tcp_is_terminated :: "tcp \<Rightarrow> bool" where
  "tcp_is_terminated c \<longleftrightarrow> t_state c = TCPStateClosed"

section \<open>Process\<close>

text \<open>Packets of the user move to the retransmission queue while it has room for a full frame.\<close>

fun tx_transfer :: "net_queue \<Rightarrow> retrans_queue \<Rightarrow> (net_queue \<times> retrans_queue) option" where
  "tx_transfer [] q = map_option (\<lambda>_. ([], q)) (rq_free_space q)"
| "tx_transfer (p # tx) q =
    (case rq_free_space q of None \<Rightarrow> None
     | Some fs \<Rightarrow>
       if FRAME_BUFFER_SIZE \<le> unat fs then
         if 0 < length p \<and> length p \<le> FRAME_BUFFER_SIZE then
           case rq_write q p of None \<Rightarrow> None | Some q \<Rightarrow> tx_transfer tx q
         else None
       else Some (p # tx, q))"

definition tx_length :: "32 word \<Rightarrow> tcp \<Rightarrow> 32 word" where
  "tx_length nBytesAvail c =
    (let nWindowLeft = snd_una c + snd_wnd c - snd_nxt c
     in min (min nBytesAvail nWindowLeft) (ucast (snd_mss c)))"

definition tx_segment :: "32 word \<Rightarrow> tcp \<Rightarrow> tcp option" where
  "tx_segment nLength c =
    (if unat nLength \<le> FRAME_BUFFER_SIZE then
       case rq_read (t_rtq c) nLength of None \<Rightarrow> None
       | Some (dat, q) \<Rightarrow> do {
           let c = c\<lparr>t_rtq := q\<rparr>;
           let nFlags = (if rq_is_empty q \<and> nq_is_empty (t_txq c)
                         then TCP_FLAG_ACK OR TCP_FLAG_PUSH else TCP_FLAG_ACK);
           c \<leftarrow> send_segment nFlags (snd_nxt c) (rcv_nxt c) dat c;
           start_retransmission_timer ((rto_sent c)\<lparr>snd_nxt := snd_nxt c + nLength\<rparr>)
         }
     else None)"

partial_function (option) tx_loop :: "tcp \<Rightarrow> tcp option" where
  "tx_loop c =
    (case rq_bytes_available (t_rtq c) of None \<Rightarrow> None
     | Some n \<Rightarrow>
       if n > 0 \<and> snd_una c + snd_wnd c - snd_nxt c > 0
       then (case tx_segment (tx_length n c) c of None \<Rightarrow> None | Some c \<Rightarrow> tx_loop c)
       else Some c)"

definition process_syn :: "tcp \<Rightarrow> tcp option" where
  "process_syn c =
    (if t_send_syn c then do {
       let c = c\<lparr>t_send_syn := False\<rparr>;
       c \<leftarrow> (if t_state c = TCPStateSynSent
              then send_segment TCP_FLAG_SYN (t_iss c) 0 [] c
              else send_segment (TCP_FLAG_SYN OR TCP_FLAG_ACK) (t_iss c) (rcv_nxt c) [] c);
       start_retransmission_timer (rto_sent c)
     } else Some c)"

definition process_fin :: "tcp \<Rightarrow> tcp option" where
  "process_fin c =
    (if rq_is_empty (t_rtq c) \<and> nq_is_empty (t_txq c) \<and> t_fin_queued c then do {
       c \<leftarrow> send_segment (TCP_FLAG_FIN OR TCP_FLAG_ACK) (snd_nxt c) (rcv_nxt c) [] c;
       let c = rto_sent c;
       start_retransmission_timer
         (c\<lparr>snd_nxt := snd_nxt c + 1, t_state := t_after_fin c, t_fin_queued := False\<rparr>)
     } else Some c)"

definition process_data :: "tcp \<Rightarrow> tcp option" where
  "process_data c =
    (case tx_transfer (t_txq c) (t_rtq c) of None \<Rightarrow> None
     | Some (tx, q) \<Rightarrow>
       let c = c\<lparr>t_txq := tx, t_rtq := q\<rparr>
       in tx_loop (if t_retransmit c
                   then c\<lparr>t_retransmit := False, t_rtq := rq_reset (t_rtq c), snd_nxt := snd_una c\<rparr>
                   else c))"

definition tcp_process :: "tcp \<Rightarrow> tcp option" where
  "tcp_process c =
    (if t_timed_out c
     then Some (c\<lparr>t_errno := - 1, t_state := TCPStateClosed, t_event := True\<rparr>)
     else if t_state c \<in> {TCPStateClosed, TCPStateListen, TCPStateFinWait2, TCPStateTimeWait}
     then Some c
     else if t_state c \<in> {TCPStateSynSent, TCPStateSynReceived}
     then process_syn c
     else process_fin c \<bind> process_data)"

section \<open>Timers fire\<close>

definition retransmission_expired :: "tcp \<Rightarrow> tcp option" where
  "retransmission_expired c0 =
    (let c = c0\<lparr>t_rto := rto_timer_expired (t_rto c0), t_retrans_count := t_retrans_count c0 - 1\<rparr>
     in if t_retrans_count c0 = 0 then Some (c\<lparr>t_timed_out := True\<rparr>)
        else case t_state c of
          TCPStateSynSent \<Rightarrow> if \<not> t_send_syn c then Some (c\<lparr>t_send_syn := True\<rparr>) else None
        | TCPStateSynReceived \<Rightarrow> if \<not> t_send_syn c then Some (c\<lparr>t_send_syn := True\<rparr>) else None
        | TCPStateEstablished \<Rightarrow> if \<not> t_retransmit c then Some (c\<lparr>t_retransmit := True\<rparr>) else None
        | TCPStateCloseWait \<Rightarrow> if \<not> t_retransmit c then Some (c\<lparr>t_retransmit := True\<rparr>) else None
        | TCPStateFinWait1 \<Rightarrow> if \<not> t_fin_queued c then Some (c\<lparr>t_fin_queued := True\<rparr>) else None
        | TCPStateClosing \<Rightarrow> if \<not> t_fin_queued c then Some (c\<lparr>t_fin_queued := True\<rparr>) else None
        | TCPStateLastAck \<Rightarrow> if \<not> t_fin_queued c then Some (c\<lparr>t_fin_queued := True\<rparr>) else None
        | _ \<Rightarrow> None)"

text \<open>The kernel timer calls the handler of a timer that has run out; one that was stopped in
  the meantime has no handle any more and nothing happens.\<close>

definition tcp_timer_handler :: "tcp_timer \<Rightarrow> tcp \<Rightarrow> tcp option" where
  "tcp_timer_handler tm c =
    (case tm of
       TCPTimerUser \<Rightarrow> if t_tm_user c = None then Some c else None
     | TCPTimerRetransmission \<Rightarrow> if t_tm_retrans c = None then Some c
         else retransmission_expired (c\<lparr>t_tm_retrans := None\<rparr>)
     | TCPTimerTimeWait \<Rightarrow> if t_tm_wait c = None then Some c
         else Some (c\<lparr>t_tm_wait := None, t_state := TCPStateClosed\<rparr>))"

section \<open>Segments arrive\<close>

text \<open>The options of a header \<open>p\<close>, from offset \<open>i\<close>; \<open>hend\<close> is the end of the header. An option
  other than END and NOP is left behind by its length, and an option of length 0 never.\<close>

definition option_mss :: "8 word list \<Rightarrow> nat \<Rightarrow> 32 word" where
  "option_mss p i =
    (let nMSS = (push_bit 8 (ucast (p ! (i + 2))) OR ucast (p ! (i + 3)) :: 32 word)
     in (if nMSS + 20 \<le> MSS_S then nMSS + 20 else MSS_S) - 20)"

definition scan_mss :: "8 word list \<Rightarrow> nat \<Rightarrow> nat \<Rightarrow> 16 word \<Rightarrow> 16 word" where
  "scan_mss p i hend mss =
    (if p ! i = 2 \<and> p ! (i + 1) = 4 \<and> i + 4 \<le> hend \<and> 10 \<le> option_mss p i
     then ucast (option_mss p i) else mss)"

partial_function (option) scan_options :: "8 word list \<Rightarrow> nat \<Rightarrow> nat \<Rightarrow> 16 word \<Rightarrow> 16 word option" where
  "scan_options p i hend mss =
    (if i + 2 \<le> hend then
       if p ! i = 0 then Some mss
       else if p ! i = 1 then scan_options p (i + 1) hend mss
       else scan_options p (i + unat (p ! (i + 1))) hend (scan_mss p i hend mss)
     else Some mss)"

text \<open>The variables of the current segment: \<open>sg_off\<close> and \<open>sg_dlen\<close> are \<open>nDataOffset\<close> and
  \<open>nDataLength\<close>, \<open>sg_buf\<close> the buffer that holds the packet.\<close>

record segment =
  sg_sender :: "32 word"
  sg_sport :: "16 word"
  sg_flags :: "16 word"
  sg_off :: "32 word"
  sg_dlen :: "32 word"
  sg_seq :: "32 word"
  sg_ack :: "32 word"
  sg_len :: "32 word"
  sg_wnd :: "32 word"
  sg_buf :: "8 word list"

definition has :: "segment \<Rightarrow> 16 word \<Rightarrow> bool" where
  "has sg f \<longleftrightarrow> sg_flags sg AND f \<noteq> 0"

definition parse_segment :: "8 word list \<Rightarrow> 32 word \<Rightarrow> 32 word \<Rightarrow> segment" where
  "parse_segment p nLength sender =
    (let fl = load16 (p ! 12) (p ! 13);
         off = ucast (drop_bit 4 fl AND 0x0F) * 4;
         dlen = nLength - off
     in \<lparr>sg_sender = sender, sg_sport = get_be16 p 0, sg_flags = fl, sg_off = off, sg_dlen = dlen,
         sg_seq = get_be32 p 4, sg_ack = get_be32 p 8,
         sg_len = dlen + (if fl AND TCP_FLAG_SYN \<noteq> 0 then 1 else 0)
                       + (if fl AND TCP_FLAG_FIN \<noteq> 0 then 1 else 0),
         sg_wnd = ucast (get_be16 p 14), sg_buf = p\<rparr>)"

text \<open>The data of the segment goes to the receive queue.\<close>

definition rx_enqueue :: "segment \<Rightarrow> tcp \<Rightarrow> tcp option" where
  "rx_enqueue sg c =
    (if unat (sg_dlen sg) \<le> FRAME_BUFFER_SIZE then
       case nq_enqueue (t_rxq c) (take (unat (sg_dlen sg)) (drop (unat (sg_off sg)) (sg_buf sg)))
       of None \<Rightarrow> None | Some q \<Rightarrow> Some (c\<lparr>t_rxq := q\<rparr>)
     else None)"

definition take_peer :: "segment \<Rightarrow> tcp \<Rightarrow> tcp" where
  "take_peer sg c = c\<lparr>foreign_ip := Some (sg_sender sg), foreign_port := sg_sport sg,
     t_checksum := cs_set_dest (ip_bytes (sg_sender sg)) (t_checksum c)\<rparr>"

definition set_window :: "segment \<Rightarrow> tcp \<Rightarrow> tcp" where
  "set_window sg c = c\<lparr>snd_wnd := sg_wnd sg, snd_wl1 := sg_seq sg, snd_wl2 := sg_ack sg\<rparr>"

text \<open>\<open>TCPStateClosed\<close>.\<close>

definition rx_closed :: "segment \<Rightarrow> tcp \<Rightarrow> tcp option" where
  "rx_closed sg c =
    (if has sg TCP_FLAG_RESET then Some c
     else if \<not> has sg TCP_FLAG_ACK then
       send_segment (TCP_FLAG_RESET OR TCP_FLAG_ACK) 0 (sg_seq sg + sg_len sg) [] (take_peer sg c)
     else send_segment TCP_FLAG_RESET (sg_ack sg) 0 [] (take_peer sg c))"

text \<open>\<open>TCPStateListen\<close>.\<close>

definition rx_listen_syn :: "segment \<Rightarrow> tcp \<Rightarrow> tcp option" where
  "rx_listen_syn sg c =
    (if sg_len sg > 0 then do {
       let c = set_window sg (c\<lparr>rcv_nxt := sg_seq sg + 1, t_irs := sg_seq sg\<rparr>);
       c \<leftarrow> (if sg_dlen sg > 0 then rx_enqueue sg c else Some c);
       let c = c\<lparr>t_iss := calculate_isn c\<rparr>;
       let c = take_peer sg (c\<lparr>t_rto := rto_initialize (t_rto c) (t_iss c)\<rparr>);
       c \<leftarrow> send_segment (TCP_FLAG_SYN OR TCP_FLAG_ACK) (t_iss c) (rcv_nxt c) [] c;
       Some ((rto_sent c)\<lparr>snd_nxt := t_iss c + 1, snd_una := t_iss c,
                          t_state := TCPStateSynReceived, t_event := True\<rparr>)
     } else None)"

definition rx_listen :: "segment \<Rightarrow> tcp \<Rightarrow> tcp option" where
  "rx_listen sg c =
    (if has sg TCP_FLAG_RESET then Some c
     else if has sg TCP_FLAG_ACK then send_segment TCP_FLAG_RESET (sg_ack sg) 0 [] (take_peer sg c)
     else if has sg TCP_FLAG_SYN then
       if t_connections c \<ge> TCP_MAX_CONNECTIONS then
         send_segment (TCP_FLAG_RESET OR TCP_FLAG_ACK) 0 (sg_seq sg + sg_len sg) [] (take_peer sg c)
       else rx_listen_syn sg c
     else Some c)"

text \<open>Steps 7 and 8 (\<open>StepSix\<close> and what follows): the text and the FIN of a segment.\<close>

definition rx_fin :: "segment \<Rightarrow> tcp \<Rightarrow> tcp option" where
  "rx_fin sg c =
    (if t_state c \<in> {TCPStateClosed, TCPStateListen, TCPStateSynSent} \<or> \<not> has sg TCP_FLAG_FIN
     then Some c
     else do {
       c \<leftarrow> send_ack (c\<lparr>rcv_nxt := rcv_nxt c + 1\<rparr>);
       case t_state c of
         TCPStateSynReceived \<Rightarrow> Some (c\<lparr>t_state := TCPStateCloseWait, t_event := True\<rparr>)
       | TCPStateEstablished \<Rightarrow> Some (c\<lparr>t_state := TCPStateCloseWait, t_event := True\<rparr>)
       | TCPStateFinWait1 \<Rightarrow>
           if sg_ack sg = snd_nxt c
           then start_timer TCPTimerTimeWait HZ_TIMEWAIT
             ((stop_timer TCPTimerUser (stop_timer TCPTimerRetransmission (c\<lparr>t_fin_queued := False\<rparr>)))
               \<lparr>t_state := TCPStateTimeWait\<rparr>)
           else Some (c\<lparr>t_state := TCPStateClosing\<rparr>)
       | TCPStateFinWait2 \<Rightarrow> start_timer TCPTimerTimeWait HZ_TIMEWAIT
           ((stop_timer TCPTimerUser (stop_timer TCPTimerRetransmission c))\<lparr>t_state := TCPStateTimeWait\<rparr>)
       | TCPStateCloseWait \<Rightarrow> Some c
       | TCPStateClosing \<Rightarrow> Some c
       | TCPStateLastAck \<Rightarrow> Some c
       | TCPStateTimeWait \<Rightarrow> start_timer TCPTimerTimeWait HZ_TIMEWAIT c
       | _ \<Rightarrow> None
     })"

definition rx_text :: "segment \<Rightarrow> tcp \<Rightarrow> tcp option" where
  "rx_text sg c =
    (if sg_len sg = 0 then Some c
     else case t_state c of
       TCPStateCloseWait \<Rightarrow> rx_fin sg c
     | TCPStateClosing \<Rightarrow> rx_fin sg c
     | TCPStateLastAck \<Rightarrow> rx_fin sg c
     | TCPStateTimeWait \<Rightarrow> rx_fin sg c
     | s \<Rightarrow>
       if s \<in> {TCPStateEstablished, TCPStateFinWait1, TCPStateFinWait2} then
         if sg_seq sg = rcv_nxt c then
           if sg_dlen sg > 0 then do {
             c \<leftarrow> rx_enqueue sg c;
             c \<leftarrow> send_ack (c\<lparr>rcv_nxt := rcv_nxt c + sg_dlen sg\<rparr>);
             rx_fin sg (if has sg TCP_FLAG_PUSH then c\<lparr>t_event := True\<rparr> else c)
           } else rx_fin sg c
         else send_ack c
       else None)"

text \<open>\<open>TCPStateSynSent\<close>.\<close>

definition rx_synsent_established :: "segment \<Rightarrow> tcp \<Rightarrow> tcp option" where
  "rx_synsent_established sg c = do {
     let c = stop_timer TCPTimerRetransmission (c\<lparr>t_state := TCPStateEstablished, t_send_syn := False\<rparr>);
     c \<leftarrow> send_ack (set_window sg (c\<lparr>t_retrans_count := MAX_RETRANSMISSIONS, t_event := True\<rparr>));
     if has sg TCP_FLAG_FIN \<or> sg_dlen sg > 0 then rx_text sg c else Some c
   }"

definition synsent_fin :: "segment \<Rightarrow> tcp \<Rightarrow> tcp option" where
  "synsent_fin sg c =
    (if has sg TCP_FLAG_FIN
     then map_option (t_state_update (\<lambda>_. TCPStateClosed)) (send_segment TCP_FLAG_RESET (snd_nxt c) 0 [] c)
     else Some c)"

definition rx_synsent_received :: "segment \<Rightarrow> tcp \<Rightarrow> tcp option" where
  "rx_synsent_received sg c = do {
     c \<leftarrow> send_segment (TCP_FLAG_SYN OR TCP_FLAG_ACK) (t_iss c) (rcv_nxt c) []
            (c\<lparr>t_state := TCPStateSynReceived, t_send_syn := False\<rparr>);
     c \<leftarrow> start_retransmission_timer ((rto_sent c)\<lparr>t_retrans_count := MAX_RETRANSMISSIONS\<rparr>);
     c \<leftarrow> synsent_fin sg c;
     if sg_dlen sg > 0 then rx_enqueue sg c else Some c
   }"

definition synsent_ack :: "segment \<Rightarrow> tcp \<Rightarrow> tcp option" where
  "synsent_ack sg c =
    (if has sg TCP_FLAG_ACK then
       let c = rto_acked c
       in if sg_ack sg - snd_una c > 1
          then map_option (\<lambda>q. c\<lparr>t_rtq := q, snd_una := sg_ack sg\<rparr>)
            (rq_advance (t_rtq c) (sg_ack sg - snd_una c - 1))
          else Some (c\<lparr>snd_una := sg_ack sg\<rparr>)
     else Some c)"

definition rx_synsent_syn :: "segment \<Rightarrow> tcp \<Rightarrow> tcp option" where
  "rx_synsent_syn sg c = do {
     c \<leftarrow> synsent_ack sg (c\<lparr>rcv_nxt := sg_seq sg + 1, t_irs := sg_seq sg\<rparr>);
     if seq_gt (snd_una c) (t_iss c) then rx_synsent_established sg c else rx_synsent_received sg c
   }"

definition rx_synsent :: "segment \<Rightarrow> tcp \<Rightarrow> tcp option" where
  "rx_synsent sg c =
    (if has sg TCP_FLAG_ACK \<and> \<not> bwh (t_iss c) (sg_ack sg) (snd_nxt c) then
       if \<not> has sg TCP_FLAG_RESET then send_segment TCP_FLAG_RESET (sg_ack sg) 0 [] c else Some c
     else
       let bAcceptable = (has sg TCP_FLAG_ACK \<and> bwlh (snd_una c) (sg_ack sg) (snd_nxt c))
       in if has sg TCP_FLAG_RESET then
            Some (if bAcceptable
                  then c\<lparr>t_state := TCPStateClosed, t_send_syn := False, t_errno := - 1, t_event := True\<rparr>
                  else c)
          else if has sg TCP_FLAG_ACK \<and> \<not> bAcceptable then Some c
          else if has sg TCP_FLAG_SYN then rx_synsent_syn sg c
          else Some c)"

text \<open>The other states. Step 1: is the segment in the receive window?\<close>

definition rx_acceptable :: "segment \<Rightarrow> tcp \<Rightarrow> bool" where
  "rx_acceptable sg c =
    (if rcv_wnd c > 0 then
       if sg_len sg = 0 then bwl (rcv_nxt c) (sg_seq sg) (rcv_nxt c + rcv_wnd c)
       else bwl (rcv_nxt c) (sg_seq sg) (rcv_nxt c + rcv_wnd c) \<or>
            bwl (rcv_nxt c) (sg_seq sg + sg_len sg - 1) (rcv_nxt c + rcv_wnd c)
     else sg_len sg = 0 \<and> sg_seq sg = rcv_nxt c)"

text \<open>Step 2: RST.\<close>

definition flush_queues :: "tcp \<Rightarrow> tcp" where
  "flush_queues c = c\<lparr>t_rtq := rq_flush (t_rtq c), t_txq := nq_flush (t_txq c), t_rxq := nq_flush (t_rxq c)\<rparr>"

definition rx_reset :: "tcp \<Rightarrow> tcp option" where
  "rx_reset c =
    (case t_state c of
       TCPStateSynReceived \<Rightarrow>
         let c = c\<lparr>t_rtq := rq_flush (t_rtq c)\<rparr>
         in if \<not> t_active c then Some (c\<lparr>t_state := TCPStateListen\<rparr>)
            else Some (c\<lparr>t_errno := - 1, t_state := TCPStateClosed, t_event := True\<rparr>)
     | TCPStateClosing \<Rightarrow> Some (c\<lparr>t_state := TCPStateClosed, t_event := True\<rparr>)
     | TCPStateLastAck \<Rightarrow> Some (c\<lparr>t_state := TCPStateClosed, t_event := True\<rparr>)
     | TCPStateTimeWait \<Rightarrow> Some (c\<lparr>t_state := TCPStateClosed, t_event := True\<rparr>)
     | s \<Rightarrow>
       if s \<in> {TCPStateEstablished, TCPStateFinWait1, TCPStateFinWait2, TCPStateCloseWait}
       then Some ((flush_queues c)\<lparr>t_errno := - 1, t_state := TCPStateClosed, t_event := True\<rparr>)
       else None)"

text \<open>Step 4: SYN.\<close>

definition rx_syn :: "tcp \<Rightarrow> tcp option" where
  "rx_syn c =
    (if t_state c = TCPStateSynReceived \<and> \<not> t_active c then Some (c\<lparr>t_state := TCPStateListen\<rparr>)
     else map_option (\<lambda>c. (flush_queues (c\<lparr>t_errno := - 1\<rparr>))\<lparr>t_state := TCPStateClosed, t_event := True\<rparr>)
       (send_segment TCP_FLAG_RESET (snd_nxt c) 0 [] c))"

text \<open>Step 5: ACK.\<close>

definition newer_window :: "segment \<Rightarrow> tcp \<Rightarrow> tcp" where
  "newer_window sg c =
    (if seq_lt (snd_wl1 c) (sg_seq sg) \<or> snd_wl1 c = sg_seq sg \<and> seq_le (snd_wl2 c) (sg_ack sg)
     then set_window sg c else c)"

definition ack_syn_received :: "segment \<Rightarrow> tcp \<Rightarrow> tcp option" where
  "ack_syn_received sg c =
    (if bwlh (snd_una c) (sg_ack sg) (snd_nxt c)
     then Some ((rto_acked ((set_window sg c)\<lparr>snd_una := sg_ack sg\<rparr>))
       \<lparr>t_state := TCPStateEstablished, t_retrans_count := MAX_RETRANSMISSIONS\<rparr>)
     else send_segment TCP_FLAG_RESET (sg_ack sg) 0 [] c)"

text \<open>How many bytes of the retransmission queue an acknowledgement covers: \<open>nBytesAck\<close> without
  the FIN, and with the exception for a single byte.\<close>

definition bytes_acked :: "segment \<Rightarrow> tcp \<Rightarrow> 32 word" where
  "bytes_acked sg c =
    (let nBytesAck = sg_ack sg - snd_una c;
         nBytesAck = (if t_state c \<in> {TCPStateFinWait1, TCPStateClosing} then nBytesAck - 1
                      else nBytesAck)
     in if t_state c = TCPStateEstablished \<and> nBytesAck = 1 then nBytesAck - 1 else nBytesAck)"

definition ack_new :: "segment \<Rightarrow> tcp \<Rightarrow> tcp option" where
  "ack_new sg c = do {
     let n = bytes_acked sg c;
     let c = (rto_acked c)\<lparr>snd_una := sg_ack sg\<rparr>;
     let c = (if sg_ack sg = snd_nxt c
              then (stop_timer TCPTimerRetransmission c)
                \<lparr>t_retrans_count := MAX_RETRANSMISSIONS, t_event := True\<rparr>
              else c);
     let c = (if t_state c \<in> {TCPStateFinWait1, TCPStateClosing} then c\<lparr>t_fin_queued := False\<rparr> else c);
     c \<leftarrow> (if n > 0 then map_option (\<lambda>q. c\<lparr>t_rtq := q\<rparr>) (rq_advance (t_rtq c) n) else Some c);
     Some (newer_window sg c)
   }"

definition ack_duplicate :: "segment \<Rightarrow> tcp \<Rightarrow> tcp" where
  "ack_duplicate sg c =
    (if bwlh (snd_una c) (sg_ack sg) (snd_nxt c) then newer_window sg c else c)"

definition ack_closing :: "segment \<Rightarrow> tcp \<Rightarrow> tcp option" where
  "ack_closing sg c =
    (case t_state c of
       TCPStateEstablished \<Rightarrow> Some c
     | TCPStateCloseWait \<Rightarrow> Some c
     | TCPStateFinWait1 \<Rightarrow>
         if sg_ack sg = snd_nxt c then
           map_option (\<lambda>c. if rq_is_empty (t_rtq c) then c\<lparr>t_event := True\<rparr> else c)
             (start_timer TCPTimerTimeWait HZ_FIN_TIMEOUT
               ((stop_timer TCPTimerRetransmission ((rto_acked c)\<lparr>t_fin_queued := False\<rparr>))
                 \<lparr>t_state := TCPStateFinWait2\<rparr>))
         else Some c
     | TCPStateFinWait2 \<Rightarrow> Some (if rq_is_empty (t_rtq c) then c\<lparr>t_event := True\<rparr> else c)
     | TCPStateClosing \<Rightarrow>
         if sg_ack sg = snd_nxt c then
           start_timer TCPTimerTimeWait HZ_TIMEWAIT
             ((stop_timer TCPTimerRetransmission ((rto_acked c)\<lparr>t_fin_queued := False\<rparr>))
               \<lparr>t_state := TCPStateTimeWait\<rparr>)
         else Some c
     | _ \<Rightarrow> None)"

text \<open>Step 5 as a whole: \<open>Inl\<close> is the early return.\<close>

definition rx_ack :: "segment \<Rightarrow> tcp \<Rightarrow> (tcp + tcp) option" where
  "rx_ack sg c =
    (case t_state c of
       TCPStateSynReceived \<Rightarrow> map_option Inr (ack_syn_received sg c)
     | TCPStateLastAck \<Rightarrow>
         if sg_ack sg = snd_nxt c
         then Some (Inl (c\<lparr>t_fin_queued := False, t_state := TCPStateClosed, t_event := True\<rparr>))
         else Some (Inr c)
     | TCPStateTimeWait \<Rightarrow>
         if sg_ack sg = snd_nxt c
         then map_option Inr (send_ack (c\<lparr>t_fin_queued := False\<rparr>)
                \<bind> start_timer TCPTimerTimeWait HZ_TIMEWAIT)
         else Some (Inr c)
     | s \<Rightarrow>
       if s \<in> {TCPStateEstablished, TCPStateFinWait1, TCPStateFinWait2, TCPStateCloseWait, TCPStateClosing}
       then if bwh (snd_una c) (sg_ack sg) (snd_nxt c)
            then map_option Inr (ack_new sg c \<bind> ack_closing sg)
            else if seq_le (sg_ack sg) (snd_una c)
            then map_option Inr (ack_closing sg (ack_duplicate sg c))
            else if seq_gt (sg_ack sg) (snd_nxt c)
            then map_option Inl (send_ack c)
            else map_option Inr (ack_closing sg c)
       else None)"

definition rx_synchronized :: "segment \<Rightarrow> tcp \<Rightarrow> tcp option" where
  "rx_synchronized sg c =
    (if \<not> rx_acceptable sg c \<and> t_state c \<noteq> TCPStateSynReceived then send_ack c
     else if has sg TCP_FLAG_RESET then rx_reset c
     else if has sg TCP_FLAG_SYN then rx_syn c
     else if \<not> has sg TCP_FLAG_ACK then Some c
     else (case rx_ack sg c of None \<Rightarrow> None
       | Some (Inl c) \<Rightarrow> Some c
       | Some (Inr c) \<Rightarrow> rx_text sg c))"

definition rx_segment :: "segment \<Rightarrow> tcp \<Rightarrow> tcp option" where
  "rx_segment sg c =
    (case t_state c of
       TCPStateClosed \<Rightarrow> rx_closed sg c
     | TCPStateListen \<Rightarrow> rx_listen sg c
     | TCPStateSynSent \<Rightarrow> rx_synsent sg c
     | _ \<Rightarrow> rx_synchronized sg c)"

text \<open>Is the packet for this connection? Comparing with a foreign address that was never set
  fails an assert. In \<open>Listen\<close> the checksum is computed for the sender.\<close>

definition rx_match :: "segment \<Rightarrow> tcp \<Rightarrow> (bool \<times> tcp) option" where
  "rx_match sg c =
    (if t_state c \<noteq> TCPStateListen then
       (case foreign_ip c of None \<Rightarrow> None
        | Some a \<Rightarrow> Some (a = sg_sender sg \<and> foreign_port c = sg_sport sg, c))
     else if \<not> has sg TCP_FLAG_SYN then Some (False, c)
     else Some (True, c\<lparr>t_checksum := cs_set_dest (ip_bytes (sg_sender sg)) (t_checksum c)\<rparr>))"

text \<open>\<open>p\<close> is the buffer with the packet, its first \<open>nLength\<close> bytes are the packet. The receiver's
  address is not used.\<close>

definition packet_received ::
  "8 word list \<Rightarrow> 32 word \<Rightarrow> 32 word \<Rightarrow> 32 word \<Rightarrow> tcp \<Rightarrow> (int \<times> tcp) option" where
  "packet_received p nLength sender nProtocol c =
    (if nProtocol \<noteq> IPPROTO_TCP then Some (0, c)
     else if nLength < 20 then Some (- 1, c)
     else if own_port c \<noteq> get_be16 p 2 then Some (0, c)
     else
       let sg = parse_segment p nLength sender
       in case rx_match sg c of None \<Rightarrow> None
          | Some (mine, c) \<Rightarrow>
            if \<not> mine then Some (0, c)
            else (case cs_calculate (t_checksum c) (take (unat nLength) p) of None \<Rightarrow> None
              | Some x \<Rightarrow>
                if x \<noteq> CHECKSUM_OK then Some (0, c)
                else (case scan_options p 20 (unat (sg_off sg)) (snd_mss c) of None \<Rightarrow> None
                  | Some mss \<Rightarrow> map_option (Pair 1) (rx_segment sg (c\<lparr>snd_mss := mss\<rparr>)))))"

definition notification_received ::
  "32 word \<Rightarrow> 32 word \<Rightarrow> 16 word \<Rightarrow> 16 word \<Rightarrow> 32 word \<Rightarrow> 32 word \<Rightarrow> tcp \<Rightarrow> (int \<times> tcp) option" where
  "notification_received sender receiver nSendPort nReceivePort nProtocol ownIP c =
    (if nProtocol \<noteq> IPPROTO_TCP then Some (0, c)
     else if t_state c \<in> {TCPStateClosed, TCPStateListen} then Some (0, c)
     else case foreign_ip c of None \<Rightarrow> None
       | Some a \<Rightarrow>
         if a \<noteq> sender \<or> foreign_port c \<noteq> nSendPort then Some (0, c)
         else if receiver \<noteq> ownIP \<or> own_port c \<noteq> nReceivePort then Some (0, c)
         else Some (1, c\<lparr>t_errno := - 1, t_event := True\<rparr>))"

end
