(* ===== verification/Net_State.thy ===== *)
theory Net_State
  imports Net_Tcp
begin

text \<open>
  The state machine of a TCP connection: which changes of \<open>t_state\<close> the operations of
  \<open>Net_Tcp\<close> make, over every event that can happen to a connection. \<open>fin_ok\<close> is the
  invariant that ties the state our FIN leads to (\<open>m_StateAfterFIN\<close>) to the state the
  connection is in. The lemmas with the suffix \<open>_goes\<close> are the part of one operation,
  \<open>tcp_event_to\<close> puts them together.
\<close>

section \<open>The state machine\<close>

text \<open>What a segment sent, a timer and a queue leave alone.\<close>

definition tcp_core :: "tcp \<Rightarrow> tcp_state \<times> bool \<times> tcp_state" where
  "tcp_core c = (t_state c, t_fin_queued c, t_after_fin c)"

lemma tcp_core_iff: "tcp_core c' = tcp_core c \<longleftrightarrow>
  t_state c' = t_state c \<and> t_fin_queued c' = t_fin_queued c \<and> t_after_fin c' = t_after_fin c"
  by (auto simp: tcp_core_def)

lemma send_segmentD:
  "send_segment fl s a d c = Some c' \<Longrightarrow> \<exists>w. c' = c\<lparr>t_wire := w\<rparr>"
  by (auto simp: send_segment_def Let_def split: if_splits option.splits)

lemma send_core: "send_segment fl s a d c = Some c' \<Longrightarrow> tcp_core c' = tcp_core c"
  by (auto dest!: send_segmentD simp: tcp_core_def)

lemma send_ack_core: "send_ack c = Some c' \<Longrightarrow> tcp_core c' = tcp_core c"
  by (auto simp: send_ack_def dest: send_core)

lemma stop_timer_core [simp]: "tcp_core (stop_timer tm c) = tcp_core c"
  by (cases tm) (simp_all add: stop_timer_def tcp_core_def)

lemma stop_timer_simps [simp]:
  "t_state (stop_timer tm c) = t_state c" "t_fin_queued (stop_timer tm c) = t_fin_queued c"
  "t_after_fin (stop_timer tm c) = t_after_fin c"
  using stop_timer_core [of tm c] by (simp_all only: tcp_core_iff)

lemma start_timer_core: "start_timer tm n c = Some c' \<Longrightarrow> tcp_core c' = tcp_core c"
  by (cases tm) (auto simp: start_timer_def Let_def tcp_core_def split: if_splits)

lemma start_retransmission_core:
  "start_retransmission_timer c = Some c' \<Longrightarrow> tcp_core c' = tcp_core c"
  by (auto simp: start_retransmission_timer_def dest: start_timer_core)

lemma rto_core [simp]:
  "t_state (rto_sent c) = t_state c" "t_fin_queued (rto_sent c) = t_fin_queued c"
  "t_after_fin (rto_sent c) = t_after_fin c" "t_state (rto_acked c) = t_state c"
  "t_fin_queued (rto_acked c) = t_fin_queued c" "t_after_fin (rto_acked c) = t_after_fin c"
  by (simp_all add: rto_sent_def rto_acked_def)

lemma peer_core [simp]:
  "t_state (take_peer sg c) = t_state c" "t_fin_queued (take_peer sg c) = t_fin_queued c"
  "t_after_fin (take_peer sg c) = t_after_fin c" "t_state (set_window sg c) = t_state c"
  "t_fin_queued (set_window sg c) = t_fin_queued c" "t_after_fin (set_window sg c) = t_after_fin c"
  "t_state (newer_window sg c) = t_state c" "t_fin_queued (newer_window sg c) = t_fin_queued c"
  "t_after_fin (newer_window sg c) = t_after_fin c" "t_state (flush_queues c) = t_state c"
  "t_fin_queued (flush_queues c) = t_fin_queued c" "t_after_fin (flush_queues c) = t_after_fin c"
  by (simp_all add: take_peer_def set_window_def newer_window_def flush_queues_def)

lemma enqueue_core: "rx_enqueue sg c = Some c' \<Longrightarrow> tcp_core c' = tcp_core c"
  by (auto simp: rx_enqueue_def tcp_core_def split: if_splits option.splits)

lemmas tcp_cores = send_core send_ack_core start_timer_core start_retransmission_core enqueue_core

text \<open>The invariant that ties the state after our FIN to the state now.\<close>

fun fin_rel :: "tcp_state \<Rightarrow> bool \<Rightarrow> tcp_state \<Rightarrow> bool" where
  "fin_rel TCPStateListen q a = (q \<longrightarrow> a = TCPStateFinWait1)"
| "fin_rel TCPStateSynSent q a = (\<not> q)"
| "fin_rel TCPStateSynReceived q a = (q \<longrightarrow> a = TCPStateFinWait1)"
| "fin_rel TCPStateEstablished q a = (q \<longrightarrow> a = TCPStateFinWait1)"
| "fin_rel TCPStateFinWait1 q a = (a = TCPStateFinWait1)"
| "fin_rel TCPStateCloseWait q a = (q \<longrightarrow> a = TCPStateFinWait1 \<or> a = TCPStateLastAck)"
| "fin_rel TCPStateClosing q a = (a = TCPStateFinWait1)"
| "fin_rel TCPStateLastAck q a = (a = TCPStateLastAck)"
| "fin_rel s q a = True"

definition fin_ok :: "tcp \<Rightarrow> bool" where
  "fin_ok c \<longleftrightarrow> fin_rel (t_state c) (t_fin_queued c) (t_after_fin c)"

text \<open>The arrows of RFC 793, figure 6, and their compositions for segments that carry more than
  one control bit.\<close>

fun rfc_next :: "tcp_state \<Rightarrow> tcp_state set" where
  "rfc_next TCPStateClosed = {}"
| "rfc_next TCPStateListen = {TCPStateSynReceived, TCPStateClosed}"
| "rfc_next TCPStateSynSent = {TCPStateSynReceived, TCPStateEstablished, TCPStateCloseWait, TCPStateClosed}"
| "rfc_next TCPStateSynReceived = {TCPStateListen, TCPStateEstablished, TCPStateCloseWait, TCPStateClosed}"
| "rfc_next TCPStateEstablished = {TCPStateFinWait1, TCPStateCloseWait, TCPStateClosed}"
| "rfc_next TCPStateFinWait1 = {TCPStateFinWait2, TCPStateClosing, TCPStateTimeWait, TCPStateClosed}"
| "rfc_next TCPStateFinWait2 = {TCPStateTimeWait, TCPStateClosed}"
| "rfc_next TCPStateCloseWait = {TCPStateLastAck, TCPStateClosed}"
| "rfc_next TCPStateClosing = {TCPStateTimeWait, TCPStateClosed}"
| "rfc_next TCPStateLastAck = {TCPStateClosed}"
| "rfc_next TCPStateTimeWait = {TCPStateClosed}"

text \<open>The part of an acknowledgement, and the part of a FIN.\<close>

fun ack_next :: "tcp_state \<Rightarrow> tcp_state set" where
  "ack_next TCPStateSynReceived = {TCPStateEstablished}"
| "ack_next TCPStateFinWait1 = {TCPStateFinWait2}"
| "ack_next TCPStateClosing = {TCPStateTimeWait}"
| "ack_next TCPStateLastAck = {TCPStateClosed}"
| "ack_next s = {}"

fun fin_next :: "tcp_state \<Rightarrow> tcp_state set" where
  "fin_next TCPStateSynReceived = {TCPStateCloseWait}"
| "fin_next TCPStateEstablished = {TCPStateCloseWait}"
| "fin_next TCPStateFinWait1 = {TCPStateClosing, TCPStateTimeWait}"
| "fin_next TCPStateFinWait2 = {TCPStateTimeWait}"
| "fin_next s = {}"

lemma rfc_parts:
  "s1 = s \<or> s1 \<in> ack_next s \<Longrightarrow> s2 = s1 \<or> s2 \<in> fin_next s1 \<Longrightarrow> s2 = s \<or> s2 \<in> rfc_next s"
  by (cases s) auto

definition goes :: "(tcp_state \<Rightarrow> tcp_state set) \<Rightarrow> tcp \<Rightarrow> tcp \<Rightarrow> bool" where
  "goes nx c c' \<longleftrightarrow> fin_ok c' \<and> (t_state c' = t_state c \<or> t_state c' \<in> nx (t_state c))"

lemma goes_core: "tcp_core c' = tcp_core c \<Longrightarrow> fin_ok c \<Longrightarrow> goes nx c c'"
  by (simp add: tcp_core_iff goes_def fin_ok_def)

lemma rx_fin_goes:
  assumes "rx_fin sg c = Some c'" "fin_ok c"
  shows "goes fin_next c c'"
proof (cases "t_state c \<in> {TCPStateClosed, TCPStateListen, TCPStateSynSent} \<or> \<not> has sg TCP_FLAG_FIN")
  case True
  then show ?thesis using assms goes_core [OF refl assms(2)] by (auto simp: rx_fin_def)
next
  case False
  then obtain x where x: "tcp_core x = tcp_core c"
    and r: "(case t_state x of
         TCPStateSynReceived \<Rightarrow> Some (x\<lparr>t_state := TCPStateCloseWait, t_event := True\<rparr>)
       | TCPStateEstablished \<Rightarrow> Some (x\<lparr>t_state := TCPStateCloseWait, t_event := True\<rparr>)
       | TCPStateFinWait1 \<Rightarrow>
           if sg_ack sg = snd_nxt x
           then start_timer TCPTimerTimeWait HZ_TIMEWAIT
             ((stop_timer TCPTimerUser (stop_timer TCPTimerRetransmission (x\<lparr>t_fin_queued := False\<rparr>)))
               \<lparr>t_state := TCPStateTimeWait\<rparr>)
           else Some (x\<lparr>t_state := TCPStateClosing\<rparr>)
       | TCPStateFinWait2 \<Rightarrow> start_timer TCPTimerTimeWait HZ_TIMEWAIT
           ((stop_timer TCPTimerUser (stop_timer TCPTimerRetransmission x))\<lparr>t_state := TCPStateTimeWait\<rparr>)
       | TCPStateCloseWait \<Rightarrow> Some x
       | TCPStateClosing \<Rightarrow> Some x
       | TCPStateLastAck \<Rightarrow> Some x
       | TCPStateTimeWait \<Rightarrow> start_timer TCPTimerTimeWait HZ_TIMEWAIT x
       | _ \<Rightarrow> None) = Some c'"
    using assms(1) by (auto simp: rx_fin_def bind_eq_Some_conv tcp_core_iff dest!: send_ack_core)
  from x assms(2) have ok: "fin_ok x" "t_state x = t_state c"
    by (simp_all add: fin_ok_def tcp_core_iff)
  show ?thesis
    using r ok unfolding goes_def
    by (cases "t_state c")
      (auto simp: fin_ok_def dest!: start_timer_core [unfolded tcp_core_iff] split: if_splits)
qed

lemma goes_same_core:
  "tcp_core x = tcp_core c \<Longrightarrow> goes nx x c' = goes nx c c'"
  by (simp add: goes_def tcp_core_iff)

lemma fin_ok_core: "tcp_core x = tcp_core c \<Longrightarrow> fin_ok x \<longleftrightarrow> fin_ok c"
  by (simp add: fin_ok_def tcp_core_iff)

lemma rx_text_goes:
  assumes "rx_text sg c = Some c'" "fin_ok c"
  shows "goes fin_next c c'"
proof -
  have fin: "goes fin_next c c'" if "rx_fin sg x = Some c'" "tcp_core x = tcp_core c" for x
    using rx_fin_goes [OF that(1)] assms(2)
    by (simp add: fin_ok_core [OF that(2)] goes_same_core [OF that(2)])
  have ack: "goes fin_next c c'" if "send_ack c = Some c'"
    using send_ack_core [OF that] assms(2) by (rule goes_core)
  have dat: "goes fin_next c c'"
    if e: "rx_enqueue sg c \<bind> (\<lambda>c. send_ack (c\<lparr>rcv_nxt := rcv_nxt c + sg_dlen sg\<rparr>) \<bind>
        (\<lambda>c. rx_fin sg (if has sg TCP_FLAG_PUSH then c\<lparr>t_event := True\<rparr> else c))) = Some c'"
  proof -
    from e obtain x y where "rx_enqueue sg c = Some x"
      and "send_ack (x\<lparr>rcv_nxt := rcv_nxt x + sg_dlen sg\<rparr>) = Some y"
      and r: "rx_fin sg (if has sg TCP_FLAG_PUSH then y\<lparr>t_event := True\<rparr> else y) = Some c'"
      by (auto simp: bind_eq_Some_conv)
    then have "tcp_core x = tcp_core c" "tcp_core y = tcp_core (x\<lparr>rcv_nxt := rcv_nxt x + sg_dlen sg\<rparr>)"
      by (auto dest: enqueue_core send_ack_core)
    then have "tcp_core (if has sg TCP_FLAG_PUSH then y\<lparr>t_event := True\<rparr> else y) = tcp_core c"
      by (simp add: tcp_core_iff)
    then show ?thesis by (rule fin [OF r])
  qed
  show ?thesis
    using assms(1) fin [OF _ refl] ack dat goes_core [OF refl assms(2)] unfolding rx_text_def
    by (cases "t_state c") (simp_all split: if_splits)
qed

lemma rx_ack_done: "rx_ack sg c = Some r \<Longrightarrow> fin_ok c \<Longrightarrow> r = Inl c' \<Longrightarrow> goes ack_next c c'"
  by (cases "t_state c")
    (auto simp: rx_ack_def goes_def fin_ok_def split: if_splits
      dest!: send_ack_core [unfolded tcp_core_iff])

lemma ack_new_core:
  assumes "ack_new sg c = Some c'"
  shows "t_state c' = t_state c \<and> t_after_fin c' = t_after_fin c \<and>
    (t_fin_queued c' \<longrightarrow> t_fin_queued c)"
  using assms by (auto simp: ack_new_def bind_eq_Some_conv Let_def split: if_splits)

lemma ack_duplicate_core: "tcp_core (ack_duplicate sg c) = tcp_core c"
  by (simp add: ack_duplicate_def tcp_core_iff)

text \<open>How far an acknowledgement alone takes a connection; a FIN in the same segment can take it
  further.\<close>

lemma ack_closing_goes:
  assumes "ack_closing sg c = Some c'" "fin_ok c"
  shows "goes ack_next c c'"
proof (cases "(t_state c = TCPStateFinWait1 \<or> t_state c = TCPStateClosing) \<and> sg_ack sg = snd_nxt c")
  case True
  define s where "s = (if t_state c = TCPStateClosing then TCPStateTimeWait else TCPStateFinWait2)"
  from True obtain n z where
    "start_timer TCPTimerTimeWait n
      ((stop_timer TCPTimerRetransmission ((rto_acked c)\<lparr>t_fin_queued := False\<rparr>))\<lparr>t_state := s\<rparr>) = Some z"
    and c': "c' = z \<or> c' = z\<lparr>t_event := True\<rparr>"
    using assms(1) by (elim conjE disjE) (force simp: ack_closing_def s_def split: if_splits)+
  then have "t_state z = s" by (auto dest!: start_timer_core simp: tcp_core_iff)
  then have "t_state c' = s" using c' by auto
  then show ?thesis using True by (auto simp: goes_def s_def fin_ok_def)
next
  case False
  then have "tcp_core c' = tcp_core c"
    using assms(1)
    by (cases "t_state c") (auto simp: ack_closing_def tcp_core_def split: if_splits)
  then show ?thesis using assms(2) by (rule goes_core)
qed

lemma rx_ack_goes:
  assumes "rx_ack sg c = Some (Inr x)" "fin_ok c"
  shows "goes ack_next c x"
proof (cases "t_state c \<in> {TCPStateEstablished, TCPStateFinWait1, TCPStateFinWait2, TCPStateCloseWait, TCPStateClosing}")
  case True
  then obtain y where y: "ack_closing sg y = Some x" "t_state y = t_state c" "t_after_fin y = t_after_fin c"
    "t_fin_queued y \<longrightarrow> t_fin_queued c"
    using assms(1) ack_duplicate_core [of sg c]
    by (auto simp: rx_ack_def bind_eq_Some_conv tcp_core_iff dest!: ack_new_core split: if_splits)
  then have "fin_ok y" using True assms(2) by (auto simp: fin_ok_def)
  from ack_closing_goes [OF y(1) this] y(2) show ?thesis by (simp add: goes_def)
next
  case False
  have timer: "tcp_core z = tcp_core (c\<lparr>t_fin_queued := False\<rparr>)"
    if "send_ack (c\<lparr>t_fin_queued := False\<rparr>) \<bind> start_timer TCPTimerTimeWait n = Some z" for n z
    using that by (auto simp: bind_eq_Some_conv dest!: send_ack_core start_timer_core)
  show ?thesis
  proof (cases "t_state c")
    case TCPStateSynReceived
    then show ?thesis
      using assms by (auto simp: rx_ack_def ack_syn_received_def goes_def fin_ok_def
        dest!: send_core [unfolded tcp_core_iff] split: if_splits)
  next
    case TCPStateTimeWait
    then show ?thesis
      using assms by (auto simp: rx_ack_def goes_def fin_ok_def
        dest!: timer [unfolded tcp_core_iff] split: if_splits)
  qed (use False assms in \<open>auto simp: rx_ack_def goes_def split: if_splits\<close>)
qed

lemma rx_reset_goes: "rx_reset c = Some c' \<Longrightarrow> fin_ok c \<Longrightarrow> goes rfc_next c c'"
  by (cases "t_state c") (auto simp: rx_reset_def goes_def fin_ok_def Let_def split: if_splits)

lemma rx_syn_goes:
  "rx_syn c = Some c' \<Longrightarrow> fin_ok c \<Longrightarrow>
    t_state c \<notin> {TCPStateClosed, TCPStateListen, TCPStateSynSent} \<Longrightarrow> goes rfc_next c c'"
  by (cases "t_state c") (auto simp: rx_syn_def goes_def fin_ok_def split: if_splits)

lemma goes_via:
  assumes "goes ack_next c x" "goes fin_next x c'"
  shows "goes rfc_next c c'"
  using assms rfc_parts [of "t_state x" "t_state c" "t_state c'"] by (auto simp: goes_def)

lemma rx_synchronized_goes:
  assumes "rx_synchronized sg c = Some c'" "fin_ok c"
    "t_state c \<notin> {TCPStateClosed, TCPStateListen, TCPStateSynSent}"
  shows "goes rfc_next c c'"
proof -
  have via: "goes rfc_next c c'" if "rx_ack sg c = Some (Inr x)" "rx_text sg x = Some c'" for x
  proof -
    have g: "goes ack_next c x" by (rule rx_ack_goes [OF that(1) assms(2)])
    then have "fin_ok x" by (simp add: goes_def)
    from goes_via [OF g rx_text_goes [OF that(2) this]] show ?thesis .
  qed
  have early: "goes rfc_next c c'" if "rx_ack sg c = Some (Inl c')"
    using rx_ack_done [OF that assms(2) refl] rfc_parts [of "t_state c'" "t_state c" "t_state c'"]
    by (auto simp: goes_def)
  have ack: "goes rfc_next c c'" if "send_ack c = Some c'"
    using goes_core [OF send_ack_core [OF that] assms(2)] .
  show ?thesis
    using assms(1) via early ack rx_reset_goes [OF _ assms(2)] rx_syn_goes [OF _ assms(2,3)]
      goes_core [OF refl assms(2)]
    unfolding rx_synchronized_def by (auto split: if_splits option.splits sum.splits)
qed

lemma synsent_ack_core: "synsent_ack sg c = Some c' \<Longrightarrow> tcp_core c' = tcp_core c"
  by (auto simp: synsent_ack_def Let_def tcp_core_iff split: if_splits)

lemma synsent_fin_core:
  "synsent_fin sg c = Some c' \<Longrightarrow> tcp_core c' = tcp_core c \<or> tcp_core c' = tcp_core (c\<lparr>t_state := TCPStateClosed\<rparr>)"
  by (auto simp: synsent_fin_def tcp_core_iff dest!: send_core split: if_splits)

lemma synsent_received_core:
  assumes "rx_synsent_received sg c = Some c'"
  shows "t_fin_queued c' = t_fin_queued c \<and> t_state c' \<in> {TCPStateSynReceived, TCPStateClosed}"
proof -
  from assms obtain x y z where
    "send_segment (TCP_FLAG_SYN OR TCP_FLAG_ACK) (t_iss c) (rcv_nxt c) []
       (c\<lparr>t_state := TCPStateSynReceived, t_send_syn := False\<rparr>) = Some x"
    and "start_retransmission_timer ((rto_sent x)\<lparr>t_retrans_count := MAX_RETRANSMISSIONS\<rparr>) = Some y"
    and z: "synsent_fin sg y = Some z"
    and "rx_enqueue sg z = Some c' \<or> z = c'"
    by (auto simp: rx_synsent_received_def bind_eq_Some_conv split: if_splits)
  then have "tcp_core y = tcp_core (c\<lparr>t_state := TCPStateSynReceived\<rparr>)" "tcp_core c' = tcp_core z"
    by (auto dest!: tcp_cores simp: tcp_core_iff)
  with synsent_fin_core [OF z] show ?thesis by (auto simp: tcp_core_iff)
qed

lemma rx_synsent_syn_goes:
  assumes "rx_synsent_syn sg c = Some c'" "fin_ok c" "t_state c = TCPStateSynSent"
  shows "goes rfc_next c c'"
proof -
  from assms(1) obtain x where
    "synsent_ack sg (c\<lparr>rcv_nxt := sg_seq sg + 1, t_irs := sg_seq sg\<rparr>) = Some x"
    and r: "rx_synsent_established sg x = Some c' \<or> rx_synsent_received sg x = Some c'"
    by (auto simp: rx_synsent_syn_def bind_eq_Some_conv split: if_splits)
  then have x: "tcp_core x = tcp_core c"
    by (auto dest!: synsent_ack_core simp: tcp_core_iff)
  have nq: "\<not> t_fin_queued x" "t_state x = TCPStateSynSent"
    using assms(2,3) x by (auto simp: fin_ok_def tcp_core_iff)
  show ?thesis
    using r
  proof
    assume "rx_synsent_established sg x = Some c'"
    then obtain y where y: "t_state y = TCPStateEstablished" "\<not> t_fin_queued y"
      and t: "rx_text sg y = Some c' \<or> y = c'"
      using nq by (auto simp: rx_synsent_established_def bind_eq_Some_conv Let_def
        dest!: send_ack_core [unfolded tcp_core_iff] split: if_splits)
    have "fin_ok y" using y by (simp add: fin_ok_def)
    then have "goes fin_next y c'" using t rx_text_goes goes_core [OF refl] by blast
    then show ?thesis using y assms(3) by (auto simp: goes_def)
  next
    assume "rx_synsent_received sg x = Some c'"
    from synsent_received_core [OF this] show ?thesis
      using nq assms(3) by (auto simp: goes_def fin_ok_def)
  qed
qed

lemma rx_synsent_goes:
  assumes "rx_synsent sg c = Some c'" "fin_ok c" "t_state c = TCPStateSynSent"
  shows "goes rfc_next c c'"
proof -
  have snd: "goes rfc_next c c'" if "send_segment f s a d c = Some c'" for f s a d
    using send_core [OF that] assms(2) by (rule goes_core)
  have rst: "goes rfc_next c (c\<lparr>t_state := TCPStateClosed, t_send_syn := False, t_errno := - 1, t_event := True\<rparr>)"
    using assms(3) by (simp add: goes_def fin_ok_def)
  show ?thesis
    using assms(1) rx_synsent_syn_goes [OF _ assms(2,3)] snd rst goes_core [OF refl assms(2)]
    by (auto simp: rx_synsent_def Let_def split: if_splits)
qed

lemma rx_listen_goes:
  assumes "rx_listen sg c = Some c'" "fin_ok c" "t_state c = TCPStateListen"
  shows "goes rfc_next c c'"
proof -
  have syn: "goes rfc_next c c'" if "rx_listen_syn sg c = Some c'"
  proof -
    from that obtain x y where "x = set_window sg (c\<lparr>rcv_nxt := sg_seq sg + 1, t_irs := sg_seq sg\<rparr>)"
      and "tcp_core y = tcp_core x" and "t_state c' = TCPStateSynReceived"
      and "t_fin_queued c' = t_fin_queued y" "t_after_fin c' = t_after_fin y"
      by (auto simp: rx_listen_syn_def bind_eq_Some_conv Let_def split: if_splits
          dest!: send_core enqueue_core) (simp_all add: tcp_core_iff)
    then show ?thesis using assms(2,3) by (auto simp: goes_def fin_ok_def tcp_core_iff)
  qed
  have peer: "goes rfc_next c c'" if "send_segment f s a d (take_peer sg c) = Some c'" for f s a d
    using send_core [OF that] assms(2) by (intro goes_core) (simp_all add: tcp_core_iff)
  show ?thesis
    using assms(1) syn peer goes_core [OF refl assms(2)]
    by (auto simp: rx_listen_def split: if_splits)
qed

lemma rx_closed_goes:
  assumes "rx_closed sg c = Some c'" "fin_ok c"
  shows "goes rfc_next c c'"
proof -
  have peer: "goes rfc_next c c'" if "send_segment f s a d (take_peer sg c) = Some c'" for f s a d
    using send_core [OF that] assms(2) by (intro goes_core) (simp_all add: tcp_core_iff)
  show ?thesis
    using assms(1) peer goes_core [OF refl assms(2)]
    by (auto simp: rx_closed_def split: if_splits)
qed

lemma rx_segment_goes:
  assumes "rx_segment sg c = Some c'" "fin_ok c"
  shows "goes rfc_next c c'"
  using assms rx_closed_goes rx_listen_goes rx_synsent_goes rx_synchronized_goes
  by (cases "t_state c") (simp_all add: rx_segment_def)

lemma packet_received_goes:
  assumes "packet_received p n s pr c = Some (r, c')" "fin_ok c"
  shows "goes rfc_next c c'"
proof -
  have m: "tcp_core x = tcp_core c" if "rx_match sg c = Some (b, x)" for sg b x
    using that by (auto simp: rx_match_def tcp_core_iff split: if_splits option.splits)
  have g: "goes rfc_next c c'"
    if "rx_match sg c = Some (b, x)" "rx_segment sg (x\<lparr>snd_mss := k\<rparr>) = Some c'" for sg b x k
  proof -
    have "tcp_core (x\<lparr>snd_mss := k\<rparr>) = tcp_core c" using m [OF that(1)] by (simp add: tcp_core_iff)
    from goes_same_core [OF this] fin_ok_core [OF this] show ?thesis
      using rx_segment_goes [OF that(2)] assms(2) by simp
  qed
  show ?thesis
    using assms(1) g m goes_core [OF _ assms(2)]
    by (auto simp: packet_received_def Let_def split: if_splits option.splits)
qed

text \<open>Our own calls: \<open>Close\<close> queues the FIN, \<open>Process\<close> sends it and changes the state.\<close>

lemma tx_segment_core: "tx_segment n c = Some c' \<Longrightarrow> tcp_core c' = tcp_core c"
  by (auto simp: tx_segment_def bind_eq_Some_conv Let_def tcp_core_iff
    dest!: tcp_cores [unfolded tcp_core_iff] split: if_splits option.splits)

lemma tx_loop_core:
  assumes "tx_loop c = Some c'"
  shows "tcp_core c' = tcp_core c"
proof (rule tx_loop.raw_induct [where P = "\<lambda>c c'. tcp_core c' = tcp_core c", OF _ assms])
  fix f x y
  assume IH: "\<And>c c'. f c = Some c' \<Longrightarrow> tcp_core c' = tcp_core c"
    and "(case rq_bytes_available (t_rtq x) of None \<Rightarrow> None
      | Some n \<Rightarrow> if n > 0 \<and> snd_una x + snd_wnd x - snd_nxt x > 0
        then (case tx_segment (tx_length n x) x of None \<Rightarrow> None | Some c \<Rightarrow> f c) else Some x) = Some y"
  then show "tcp_core y = tcp_core x"
    by (auto dest!: IH tx_segment_core split: option.splits if_splits)
qed

lemma process_data_core: "process_data c = Some c' \<Longrightarrow> tcp_core c' = tcp_core c"
  by (auto simp: process_data_def Let_def tcp_core_iff
    dest!: tx_loop_core [unfolded tcp_core_iff] split: option.splits if_splits)

lemma process_syn_core: "process_syn c = Some c' \<Longrightarrow> tcp_core c' = tcp_core c"
  by (auto simp: process_syn_def bind_eq_Some_conv Let_def tcp_core_iff
    dest!: tcp_cores [unfolded tcp_core_iff] split: if_splits)

lemma process_fin_core:
  assumes "process_fin c = Some c'"
  shows "tcp_core c' = tcp_core c \<or>
    t_fin_queued c \<and> t_state c' = t_after_fin c \<and> t_after_fin c' = t_after_fin c \<and> \<not> t_fin_queued c'"
  using assms
  by (auto simp: process_fin_def bind_eq_Some_conv Let_def tcp_core_iff
    dest!: tcp_cores [unfolded tcp_core_iff] split: if_splits)

text \<open>The arrows of the code: those of RFC 793, and two more that a FIN takes which is sent late
  or again.\<close>

definition tcp_next :: "tcp_state \<Rightarrow> tcp_state set" where
  "tcp_next s = rfc_next s \<union>
    (if s = TCPStateCloseWait \<or> s = TCPStateClosing then {TCPStateFinWait1} else {})"

lemma tcp_process_goes:
  assumes "tcp_process c = Some c'" "fin_ok c"
  shows "fin_ok c' \<and> (t_state c' = t_state c \<or> t_state c' \<in> tcp_next (t_state c) \<or>
    t_timed_out c \<and> t_state c' = TCPStateClosed)"
proof (cases "t_timed_out c \<or> t_state c \<in> {TCPStateClosed, TCPStateListen, TCPStateFinWait2,
    TCPStateTimeWait, TCPStateSynSent, TCPStateSynReceived}")
  case True
  then show ?thesis
    using assms by (auto simp: tcp_process_def fin_ok_def tcp_core_iff
      dest!: process_syn_core split: if_splits)
next
  case False
  then obtain x where x: "process_fin c = Some x" "tcp_core c' = tcp_core x"
    using assms(1) by (auto simp: tcp_process_def bind_eq_Some_conv dest!: process_data_core)
  from process_fin_core [OF x(1)] show ?thesis
    using False x(2) assms(2)
    by (cases "t_state c") (auto simp: tcp_core_iff fin_ok_def tcp_next_def)
qed

section \<open>All events\<close>

text \<open>Whatever happens to a connection: a packet or a notification arrives, the stack runs
  \<open>Process\<close>, a timer fires, the user calls, the clock moves.\<close>

inductive tcp_event :: "tcp \<Rightarrow> tcp \<Rightarrow> bool" where
  ev_packet: "packet_received p n sender proto c = Some (r, c') \<Longrightarrow> tcp_event c c'"
| ev_notification: "notification_received s rc sp rp proto ip c = Some (r, c') \<Longrightarrow> tcp_event c c'"
| ev_process: "tcp_process c = Some c' \<Longrightarrow> tcp_event c c'"
| ev_timer: "tcp_timer_handler tm c = Some c' \<Longrightarrow> tcp_event c c'"
| ev_connect: "tcp_connect c = Some (rc, c') \<Longrightarrow> tcp_event c c'"
| ev_accept: "tcp_accept c = Some (ra, c') \<Longrightarrow> tcp_event c c'"
| ev_close: "tcp_close c = Some (r, c') \<Longrightarrow> tcp_event c c'"
| ev_send: "tcp_send dat fl c = Some (rs, c') \<Longrightarrow> tcp_event c c'"
| ev_receive: "tcp_receive fl c = Some (rr, c') \<Longrightarrow> tcp_event c c'"
| ev_receive_woken: "tcp_receive_woken fl c = Some (rr, c') \<Longrightarrow> tcp_event c c'"
| ev_clock: "tcp_event c (c\<lparr>t_ticks := t, t_secs := s\<rparr>)"

definition tcp_to :: "tcp \<Rightarrow> tcp \<Rightarrow> bool" where
  "tcp_to c c' \<longleftrightarrow> fin_ok c' \<and> (t_state c' = t_state c \<or> t_state c' \<in> tcp_next (t_state c))"

lemma next_closed: "s = TCPStateClosed \<or> TCPStateClosed \<in> tcp_next s"
  by (cases s) (auto simp: tcp_next_def)

lemma tcp_to_closed: "t_state c' = TCPStateClosed \<Longrightarrow> tcp_to c c'"
  using next_closed [of "t_state c"] by (auto simp: tcp_to_def fin_ok_def)

lemma tcp_to_goes: "goes rfc_next c c' \<Longrightarrow> tcp_to c c'"
  by (auto simp: goes_def tcp_to_def tcp_next_def)

lemma tcp_to_core: "tcp_core c' = tcp_core c \<Longrightarrow> fin_ok c \<Longrightarrow> tcp_to c c'"
  by (rule tcp_to_goes [OF goes_core])

lemma receive_core: "tcp_receive_loop fl c = Some (r, c') \<Longrightarrow> tcp_core c' = tcp_core c"
  by (auto simp: tcp_receive_loop_def Let_def tcp_core_iff split: option.splits if_splits)

lemma user_calls_core:
  "tcp_connect c = Some (rc, c') \<Longrightarrow> tcp_core c' = tcp_core c"
  "tcp_accept c = Some (ra, c') \<Longrightarrow> tcp_core c' = tcp_core c"
  "tcp_send dat fl c = Some (rs, c') \<Longrightarrow> tcp_core c' = tcp_core c"
  "tcp_receive fl c = Some (rr, c') \<Longrightarrow> tcp_core c' = tcp_core c"
  "tcp_receive_woken fl c = Some (rr, c') \<Longrightarrow> tcp_core c' = tcp_core c"
  "notification_received s rcv sp rp proto ip c = Some (r, c') \<Longrightarrow> tcp_core c' = tcp_core c"
  subgoal by (cases "t_state c") (auto simp: tcp_connect_def tcp_core_iff split: if_splits)
  subgoal by (cases "t_state c") (auto simp: tcp_accept_def tcp_core_iff split: if_splits)
  subgoal by (auto simp: tcp_send_def Let_def tcp_core_iff split: if_splits option.splits)
  subgoal by (auto simp: tcp_receive_def dest: receive_core split: if_splits)
  subgoal by (auto simp: tcp_receive_woken_def dest: receive_core split: if_splits)
  subgoal by (auto simp: notification_received_def tcp_core_iff split: if_splits option.splits)
  done

lemmas user_calls_to = user_calls_core [THEN tcp_to_core]

lemma tcp_close_to:
  assumes "tcp_close c = Some (r, c')" "fin_ok c"
  shows "tcp_to c c'"
proof (cases "t_state c' = TCPStateClosed")
  case False
  then show ?thesis
    using assms by (cases "t_state c")
      (auto simp: tcp_close_def queue_fin_def tcp_to_def fin_ok_def split: if_splits)
qed (rule tcp_to_closed)

lemma tcp_timer_to:
  assumes "tcp_timer_handler tm c = Some c'" "fin_ok c"
  shows "tcp_to c c'"
proof (cases "t_state c' = TCPStateClosed")
  case False
  then show ?thesis
    using assms by (cases tm; cases "t_state c")
      (auto simp: tcp_timer_handler_def retransmission_expired_def Let_def tcp_to_def fin_ok_def
        split: if_splits)
qed (rule tcp_to_closed)

lemma tcp_event_to:
  assumes "tcp_event c c'" "fin_ok c"
  shows "tcp_to c c'"
  using assms
proof (cases rule: tcp_event.cases)
  case ev_packet
  then show ?thesis using packet_received_goes assms(2) tcp_to_goes by blast
next
  case ev_process
  then show ?thesis
    using tcp_process_goes [OF _ assms(2)] tcp_to_closed [of c' c]
    by (cases "t_state c' = TCPStateClosed") (auto simp: tcp_to_def)
next
  case ev_timer
  then show ?thesis using tcp_timer_to assms(2) by blast
next
  case ev_close
  then show ?thesis using tcp_close_to assms(2) by blast
next
  case ev_clock
  then show ?thesis using assms(2) by (intro tcp_to_core) (simp_all add: tcp_core_iff)
qed (auto dest: user_calls_to simp: assms(2))

text \<open>The states a connection goes through in a run, and that the first of them is as the
  constructors leave it.\<close>

inductive tcp_run :: "tcp \<Rightarrow> tcp \<Rightarrow> bool" for c where
  run_start: "tcp_run c c"
| run_event: "tcp_run c x \<Longrightarrow> tcp_event x y \<Longrightarrow> tcp_run c y"

lemma tcp_blank_fin: "tcp_blank port junk c0 = Some c \<Longrightarrow> \<not> t_fin_queued c"
  by (auto simp: tcp_blank_def split: option.splits)

lemma open_active_fin_ok:
  assumes "tcp_open_active own peer fport port sent junk c0 = Some c"
  shows "fin_ok c"
proof -
  from assms obtain b z where b: "tcp_blank port junk c0 = Some b"
    and z: "send_segment TCP_FLAG_SYN (t_iss (active_setup own peer fport b)) 0 []
      (active_setup own peer fport b) = Some z"
    and c: "c = z \<or> start_retransmission_timer
      ((rto_sent z)\<lparr>t_state := TCPStateSynSent, t_retrans_count := MAX_RETRANSMISSIONS\<rparr>) = Some c"
    by (auto simp: tcp_open_active_def bind_eq_Some_conv Let_def split: if_splits)
  have y: "t_fin_queued (active_setup own peer fport b) = t_fin_queued b"
    "t_state (active_setup own peer fport b) = TCPStateClosed"
    by (simp_all add: active_setup_def Let_def)
  have "\<not> t_fin_queued z" "t_state z = TCPStateClosed"
    using send_core [OF z] y tcp_blank_fin [OF b] by (simp_all add: tcp_core_iff)
  with c show ?thesis
    by (auto simp: fin_ok_def dest!: start_retransmission_core [unfolded tcp_core_iff])
qed

lemma open_passive_fin_ok:
  "tcp_open_passive own port junk junk4 c0 = Some c \<Longrightarrow> fin_ok c"
  by (auto simp: tcp_open_passive_def bind_eq_Some_conv fin_ok_def dest!: tcp_blank_fin)

lemma tcp_run_fin_ok: "tcp_run c x \<Longrightarrow> fin_ok c \<Longrightarrow> fin_ok x"
  by (induction rule: tcp_run.induct) (auto dest: tcp_event_to simp: tcp_to_def)

text \<open>C10: The state machine of a connection. In every run of a connection from its constructor,
  over packets, notifications, timers, the clock, \<open>Process\<close> and the calls of the user in any order and
  with any content, every change of the state follows an arrow of RFC 793, is the end of the
  connection in \<open>Closed\<close>, or is one of the two arrows into \<open>FinWait1\<close> that \<open>tcp_next\<close> adds for
  \<open>CloseWait\<close> and \<open>Closing\<close>.\<close>

theorem tcp_state_machine:
  assumes "tcp_open_active own peer fport port sent junk c0 = Some c \<or>
      tcp_open_passive own port junk junk4 c0 = Some c"
    and "tcp_run c x" "tcp_event x y"
  shows "t_state y = t_state x \<or> t_state y \<in> tcp_next (t_state x)"
proof -
  have "fin_ok c" using assms(1) open_active_fin_ok open_passive_fin_ok by blast
  then have "fin_ok x" by (rule tcp_run_fin_ok [OF assms(2)])
  from tcp_event_to [OF assms(3) this] show ?thesis by (simp add: tcp_to_def)
qed

text \<open>A connection object in zeroed memory, for the witnesses.\<close>

definition tcp_zero :: tcp where
  "tcp_zero = \<lparr>t_active = False, t_state = TCPStateClosed, t_errno = 0, t_txq = [], t_rxq = [],
     t_rtq = \<lparr>rq_size = 0x10000, rq_buffer = replicate 0x10000 0, rq_in = 0, rq_out = 0, rq_pre = 0\<rparr>,
     t_retransmit = False, t_send_syn = False, t_fin_queued = False, t_after_fin = TCPStateClosed,
     t_retrans_count = 0, t_timed_out = False, t_event = False, t_tm_user = None,
     t_tm_retrans = None, t_tm_wait = None, snd_una = 0, snd_nxt = 0, snd_wnd = 0, snd_up = 0,
     snd_wl1 = 0, snd_wl2 = 0, t_iss = 0, rcv_nxt = 0, rcv_wnd = 0, t_irs = 0, snd_mss = 0,
     t_rto = rto_new 0 0 0, own_port = 0, foreign_ip = None, foreign_port = 0,
     t_checksum = cs_new [0, 0, 0, 0] [0, 0, 0, 0] 6, t_connections = 0, t_ticks = 0, t_secs = 0,
     t_wire = []\<rparr>"

lemma open_passive_zero:
  "\<exists>c. tcp_open_passive own port (replicate 0x10000 0) junk4 tcp_zero = Some c \<and>
    t_state c = TCPStateListen \<and> t_errno c = 0"
  by (simp add: tcp_open_passive_def tcp_blank_def rq_new_def tcp_consts)

theorem tcp_state_machine_witness:
  "\<exists>c y. tcp_open_passive 1 80 (replicate 0x10000 0) [0, 0, 0, 0] tcp_zero = Some c \<and>
    tcp_close c = Some (0, y) \<and>
    (t_state y = t_state c \<or> t_state y \<in> tcp_next (t_state c))"
proof -
  obtain c where c: "tcp_open_passive 1 80 (replicate 0x10000 0) [0, 0, 0, 0] tcp_zero = Some c"
    and s: "t_state c = TCPStateListen" "t_errno c = 0"
    using open_passive_zero by blast
  have y: "tcp_close c = Some (0, (stop_timer TCPTimerRetransmission c)\<lparr>t_state := TCPStateClosed\<rparr>)"
    using s by (simp add: tcp_close_def)
  show ?thesis
    using c y tcp_state_machine [OF disjI2 [OF c] run_start ev_close [OF y]] by blast
qed

end
