(* ===== verification/Net_Wire.thy ===== *)
theory Net_Wire
  imports Net_State
begin

text \<open>
  From one end of a connection to the other: the bytes that \<open>SendSegment\<close> lays out are read
  back by \<open>PacketReceived\<close> of the other end as the segment that was meant. Two connections
  are the ends of one connection by \<open>tcp_ends\<close>.
\<close>

unbundle bit_operations_syntax

section \<open>Numbers in a header\<close>

lemma load16_be16: "load16 (ucast x) (ucast (drop_bit 8 x)) = x"
  by (rule bit_word_eqI) (auto simp: load16_def bit_simps)

lemma get_be32_bytes:
  "push_bit 16 (ucast (load16 (ucast (drop_bit 16 x)) (ucast (drop_bit 24 x)))) OR
   ucast (load16 (ucast x) (ucast (drop_bit 8 x))) = x" for x :: "32 word"
  apply (rule bit_word_eqI)
  subgoal for n by (cases "16 \<le> n") (auto simp: load16_def bit_simps)
  done

text \<open>The data offset shares a word with the flags and does not disturb them.\<close>

lemma offset_flags:
  fixes fl :: "16 word"
  assumes "fl AND 0xFF = 0"
  shows "drop_bit 4 (0x50 OR fl) AND 0x0F = 5" "drop_bit 4 (0x60 OR fl) AND 0x0F = 6"
proof -
  have b: "\<not> bit fl n" if "n < 8" for n
  proof -
    have m: "(0xFF :: 16 word) = mask 8" by (simp add: mask_eq_exp_minus_1)
    have "bit (fl AND 0xFF) n \<longleftrightarrow> bit fl n"
      unfolding m using that by (simp only: bit_and_iff bit_mask_iff) simp
    then show ?thesis using assms by simp
  qed
  have m: "(0x0F :: 16 word) = mask 4" by (simp add: mask_eq_exp_minus_1)
  have "drop_bit 4 fl AND 0x0F = 0"
    unfolding m by (rule bit_word_eqI) (auto simp: bit_simps b)
  then show "drop_bit 4 (0x50 OR fl) AND 0x0F = 5" "drop_bit 4 (0x60 OR fl) AND 0x0F = 6"
    by (simp_all add: drop_bit_or bit.conj_disj_distrib2)
qed

section \<open>What a segment says\<close>

definition segment_offset :: "16 word \<Rightarrow> nat" where
  "segment_offset fl = (if fl AND TCP_FLAG_SYN \<noteq> 0 then 24 else 20)"

text \<open>The segment variables that the receiver is to compute.\<close>

definition sent_segment :: "tcp \<Rightarrow> 32 word \<Rightarrow> 16 word \<Rightarrow> 32 word \<Rightarrow> 32 word \<Rightarrow> 8 word list \<Rightarrow>
    8 word list \<Rightarrow> segment" where
  "sent_segment c sender fl seq ack dat p =
    \<lparr>sg_sender = sender, sg_sport = own_port c,
     sg_flags = (if fl AND TCP_FLAG_SYN \<noteq> 0 then 0x60 else 0x50) OR fl,
     sg_off = of_nat (segment_offset fl), sg_dlen = of_nat (length dat),
     sg_seq = seq, sg_ack = (if fl AND TCP_FLAG_ACK \<noteq> 0 then ack else 0),
     sg_len = of_nat (length dat) + (if fl AND TCP_FLAG_SYN \<noteq> 0 then 1 else 0)
       + (if fl AND TCP_FLAG_FIN \<noteq> 0 then 1 else 0),
     sg_wnd = ucast (ucast (rcv_wnd c) :: 16 word), sg_buf = p\<rparr>"

lemma send_segment_parts:
  assumes "send_segment fl seq ack dat c = Some c'"
  obtains a x where "foreign_ip c = Some a"
    "cs_calculate (t_checksum c) (segment_front c fl seq ack @ [0, 0] @ segment_back c fl dat) = Some x"
    "c' = c\<lparr>t_wire := t_wire c @ [(a, segment_front c fl seq ack @ le16 x @ segment_back c fl dat)]\<rparr>"
    "length (segment_front c fl seq ack) + 2 + length (segment_back c fl dat) \<le> FRAME_BUFFER_SIZE"
  using assms by (auto simp: send_segment_def Let_def split: if_splits option.splits)

lemma length_front [simp]: "length (segment_front c fl seq ack) = 16"
  by (simp add: segment_front_def be16_def be32_def le16_def Let_def)

lemma length_back: "length (segment_back c fl dat) + 18 = segment_offset fl + length dat"
  by (simp add: segment_back_def segment_offset_def be16_def)

text \<open>A connection that has a peer can send whatever fits a frame.\<close>

lemma send_segment_returns:
  assumes "cs_dest_set (t_checksum c)" "foreign_ip c = Some a" "length dat \<le> 1560"
  shows "\<exists>c'. send_segment fl seq ack dat c = Some c'"
proof -
  have "length (segment_front c fl seq ack) + 2 + length (segment_back c fl dat) \<le> FRAME_BUFFER_SIZE"
    using length_back [of c fl dat] assms(3)
    by (simp add: FRAME_BUFFER_SIZE_def segment_offset_def split: if_splits)
  then show ?thesis
    using assms(1,2) by (simp add: send_segment_def Let_def cs_calculate_def)
qed

lemma drop_segment:
  assumes "length u = 16" "length x = 2" "w = segment_back c fl dat"
  shows "drop (segment_offset fl) (u @ x @ w) = dat"
  using assms by (simp add: segment_back_def segment_offset_def be16_def)

lemma flags_offset:
  "(0x50 OR fl) AND TCP_FLAG_SYN = fl AND TCP_FLAG_SYN" "(0x60 OR fl) AND TCP_FLAG_SYN = fl AND TCP_FLAG_SYN"
  "(0x50 OR fl) AND TCP_FLAG_FIN = fl AND TCP_FLAG_FIN" "(0x60 OR fl) AND TCP_FLAG_FIN = fl AND TCP_FLAG_FIN"
  "(0x50 OR fl) AND TCP_FLAG_ACK = fl AND TCP_FLAG_ACK" "(0x60 OR fl) AND TCP_FLAG_ACK = fl AND TCP_FLAG_ACK"
  "(0x50 OR fl) AND TCP_FLAG_RESET = fl AND TCP_FLAG_RESET" "(0x60 OR fl) AND TCP_FLAG_RESET = fl AND TCP_FLAG_RESET"
  "(0x50 OR fl) AND TCP_FLAG_PUSH = fl AND TCP_FLAG_PUSH" "(0x60 OR fl) AND TCP_FLAG_PUSH = fl AND TCP_FLAG_PUSH"
  by (simp_all add: tcp_flags bit.conj_disj_distrib2)

lemma load_le16:
  "length pre = n \<Longrightarrow> load16 ((pre @ le16 v @ r) ! n) ((pre @ le16 v @ r) ! Suc n) = v"
  by (simp add: nth_append le16_def load16_be16)

lemma parse_sent:
  assumes "fl AND 0xFF = 0" "p = segment_front c fl seq ack @ le16 x @ segment_back c fl dat"
    and "length dat \<le> FRAME_BUFFER_SIZE"
  shows "parse_segment p (of_nat (length p)) sender = sent_segment c sender fl seq ack dat p"
    and "get_be16 p 2 = foreign_port c"
proof -
  define b where "b = segment_back c fl dat"
  have hw: "load16 (p ! 12) (p ! 13) = (if fl AND TCP_FLAG_SYN \<noteq> 0 then 0x60 else 0x50) OR fl"
  proof -
    define v where "v = (if fl AND TCP_FLAG_SYN \<noteq> 0 then 0x60 else 0x50) OR fl"
    define pre where "pre = be16 (own_port c) @ be16 (foreign_port c) @ be32 seq
      @ be32 (if fl AND TCP_FLAG_ACK \<noteq> 0 then ack else 0)"
    have "p = pre @ le16 v @ be16 (ucast (rcv_wnd c)) @ le16 x @ segment_back c fl dat"
      by (simp add: assms(2) segment_front_def v_def pre_def)
    moreover have "length pre = 12" by (simp add: pre_def be16_def be32_def)
    ultimately show ?thesis using load_le16 [of pre 12 v] by (simp add: v_def)
  qed
  have len: "(of_nat (length p) :: 32 word) - of_nat (segment_offset fl) = of_nat (length dat)"
  proof -
    have "length p = segment_offset fl + length dat"
      using length_back [of c fl dat] by (simp add: assms(2) le16_def)
    then show ?thesis by simp
  qed
  have off: "ucast (drop_bit 4 (load16 (p ! 12) (p ! 13)) AND 0x0F) * 4 = (of_nat (segment_offset fl) :: 32 word)"
    unfolding hw using offset_flags [OF assms(1)] by (simp add: segment_offset_def)
  have f: "get_be16 p 0 = own_port c" "get_be16 p 14 = ucast (rcv_wnd c)" "get_be32 p 4 = seq"
    "get_be32 p 8 = (if fl AND TCP_FLAG_ACK \<noteq> 0 then ack else 0)"
    unfolding assms(2) segment_front_def
    by (simp_all add: be16_def be32_def le16_def Let_def get_be16_def get_be32_def load16_be16 get_be32_bytes)
  define fw where "fw = load16 (p ! 12) (p ! 13)"
  have fa: "fw AND TCP_FLAG_SYN = fl AND TCP_FLAG_SYN" "fw AND TCP_FLAG_FIN = fl AND TCP_FLAG_FIN"
    unfolding fw_def hw by (simp_all add: flags_offset)
  show "parse_segment p (of_nat (length p)) sender = sent_segment c sender fl seq ack dat p"
    unfolding parse_segment_def sent_segment_def Let_def hw [symmetric] fw_def [symmetric]
      off [folded fw_def] len f fa
    by simp
  show "get_be16 p 2 = foreign_port c"
    unfolding assms(2) segment_front_def by (simp add: be16_def get_be16_def load16_be16 Let_def)
qed

lemma scan_sent:
  assumes "p = segment_front c fl seq ack @ le16 x @ segment_back c fl dat"
  shows "scan_options p 20 (segment_offset fl) mss =
    Some (if fl AND TCP_FLAG_SYN \<noteq> 0 then TCP_CONFIG_MSS else mss)"
proof (cases "fl AND TCP_FLAG_SYN = 0")
  case True
  then show ?thesis by (simp add: scan_options.simps segment_offset_def)
next
  case False
  have b: "p ! 20 = 2" "p ! 21 = 4" "p ! 22 = 5" "p ! 23 = 180"
    using False unfolding assms segment_back_def
    by (simp_all add: nth_append le16_def be16_def TCP_CONFIG_MSS_def)
  have m: "option_mss p 20 = 1460"
    by (simp add: option_mss_def b MSS_S_def Let_def)
  then have "scan_mss p 20 24 mss = 1460"
    by (simp add: scan_mss_def b)
  then show ?thesis
    using False b by (simp add: segment_offset_def TCP_CONFIG_MSS_def scan_options.simps [of p 20]
      scan_options.simps [of p 24])
qed

section \<open>From one connection to the other\<close>

text \<open>\<open>d\<close> is the other end of the connection \<open>c\<close>: its ports and addresses are those of \<open>c\<close> the
  other way round.\<close>

definition tcp_ends :: "32 word \<Rightarrow> 32 word \<Rightarrow> tcp \<Rightarrow> tcp \<Rightarrow> bool" where
  "tcp_ends a b c d \<longleftrightarrow>
     foreign_ip c = Some b \<and> t_checksum c = cs_new (ip_bytes a) (ip_bytes b) IPPROTO_TCP \<and>
     foreign_ip d = Some a \<and> t_checksum d = cs_new (ip_bytes b) (ip_bytes a) IPPROTO_TCP \<and>
     own_port d = foreign_port c \<and> foreign_port d = own_port c"

lemma segment_accepted:
  assumes "send_segment fl seq ack dat c = Some c'" "fl AND 0xFF = 0"
    and "tcp_ends a b c d" "t_state d \<noteq> TCPStateListen"
  shows "\<exists>p. t_wire c' = t_wire c @ [(b, p)] \<and>
    drop (segment_offset fl) p = dat \<and>
    parse_segment p (of_nat (length p)) a = sent_segment c a fl seq ack dat p \<and>
    packet_received p (of_nat (length p)) a IPPROTO_TCP d =
      map_option (Pair 1) (rx_segment (sent_segment c a fl seq ack dat p)
        (d\<lparr>snd_mss := if fl AND TCP_FLAG_SYN \<noteq> 0 then TCP_CONFIG_MSS else snd_mss d\<rparr>))"
proof -
  obtain x where x: "cs_calculate (cs_new (ip_bytes a) (ip_bytes b) IPPROTO_TCP)
      (segment_front c fl seq ack @ [0, 0] @ segment_back c fl dat) = Some x"
    and len: "length (segment_front c fl seq ack) + 2 + length (segment_back c fl dat) \<le> FRAME_BUFFER_SIZE"
    and wire: "t_wire c' = t_wire c @ [(b, segment_front c fl seq ack @ le16 x @ segment_back c fl dat)]"
    using send_segment_parts [OF assms(1)] assms(3) by (force simp: tcp_ends_def)
  define p where "p = segment_front c fl seq ack @ le16 x @ segment_back c fl dat"
  have lp: "length p = segment_offset fl + length dat" "length p \<le> 1600"
    using length_back [of c fl dat] len by (simp_all add: p_def le16_def FRAME_BUFFER_SIZE_def)
  have "cs_calculate (cs_new (ip_bytes b) (ip_bytes a) IPPROTO_TCP)
      (segment_front c fl seq ack @ [ucast x, ucast (drop_bit 8 x)] @ segment_back c fl dat) = Some CHECKSUM_OK"
    by (rule cs_accepted [OF _ _ _ _ x]) (use len in \<open>simp_all add: ip_bytes_def FRAME_BUFFER_SIZE_def\<close>)
  then have cs: "cs_calculate (t_checksum d) p = Some CHECKSUM_OK"
    using assms(3) by (simp add: tcp_ends_def p_def le16_def)
  have lw: "unat (of_nat (length p) :: 32 word) = length p" using lp(2) by (simp add: unat_of_nat)
  have big: "\<not> (of_nat (length p) :: 32 word) < 20"
    using lw lp(1) by (simp add: word_less_nat_alt segment_offset_def split: if_splits)
  have port: "own_port d = foreign_port c" using assms(3) by (simp add: tcp_ends_def)
  note parse = parse_sent [OF assms(2) p_def]
  have ld: "length dat \<le> FRAME_BUFFER_SIZE" using lp by (simp add: FRAME_BUFFER_SIZE_def)
  have m: "rx_match (sent_segment c a fl seq ack dat p) d = Some (True, d)"
    using assms(3,4) by (simp add: rx_match_def sent_segment_def tcp_ends_def)
  have off: "unat (sg_off (sent_segment c a fl seq ack dat p)) = segment_offset fl"
    by (simp add: sent_segment_def segment_offset_def)
  have "packet_received p (of_nat (length p)) a IPPROTO_TCP d =
      map_option (Pair 1) (rx_segment (sent_segment c a fl seq ack dat p)
        (d\<lparr>snd_mss := if fl AND TCP_FLAG_SYN \<noteq> 0 then TCP_CONFIG_MSS else snd_mss d\<rparr>))"
    unfolding packet_received_def parse(1) [OF ld] parse(2) [OF ld] Let_def m off lw
    using big port by (simp add: m cs off scan_sent [OF p_def])
  moreover have "drop (segment_offset fl) p = dat"
    unfolding p_def by (rule drop_segment) (simp_all add: le16_def)
  moreover have "t_wire c' = t_wire c @ [(b, p)]" by (simp only: wire p_def)
  moreover note parse(1) [OF ld]
  ultimately show ?thesis by (intro exI [of _ p] conjI)
qed

text \<open>C11: What one end sends, the other end takes in. Take two ends that know each other, the receiving
  one not in \<open>Listen\<close> (where the peer is still to be found). Every segment that \<open>SendSegment\<close> hands to
  the network layer, with any of the TCP flags, any numbers and data, is one for \<open>PacketReceived\<close>
  of the other end: it is recognised by its addresses and ports, its checksum is right, its options
  are read (a SYN announces a segment size of 1460), and the segment variables that the state
  machine is entered with are exactly the flags, numbers, window and data that were sent. When the
  state machine is done with them \<open>PacketReceived\<close> returns 1.\<close>

theorem segment_delivered:
  assumes "send_segment fl seq ack dat c = Some c'" "fl AND 0xFF = 0"
    and "tcp_ends a b c d" "t_state d \<noteq> TCPStateListen"
  shows "\<exists>p. t_wire c' = t_wire c @ [(b, p)] \<and>
    drop (segment_offset fl) p = dat \<and>
    parse_segment p (of_nat (length p)) a = sent_segment c a fl seq ack dat p \<and>
    packet_received p (of_nat (length p)) a IPPROTO_TCP d =
      map_option (Pair 1) (rx_segment (sent_segment c a fl seq ack dat p)
        (d\<lparr>snd_mss := if fl AND TCP_FLAG_SYN \<noteq> 0 then TCP_CONFIG_MSS else snd_mss d\<rparr>))"
  using assms by (rule segment_accepted)

definition end_a :: tcp where
  "end_a = tcp_zero\<lparr>foreign_ip := Some 0x0200000A, own_port := 1000, foreign_port := 80,
     t_checksum := cs_new (ip_bytes 0x0100000A) (ip_bytes 0x0200000A) IPPROTO_TCP,
     t_state := TCPStateEstablished, rcv_wnd := TCP_CONFIG_WINDOW\<rparr>"

definition end_b :: tcp where
  "end_b = tcp_zero\<lparr>foreign_ip := Some 0x0100000A, own_port := 80, foreign_port := 1000,
     t_checksum := cs_new (ip_bytes 0x0200000A) (ip_bytes 0x0100000A) IPPROTO_TCP,
     t_state := TCPStateEstablished, rcv_wnd := TCP_CONFIG_WINDOW\<rparr>"

lemma ends_a_b: "tcp_ends 0x0100000A 0x0200000A end_a end_b"
  by (simp add: tcp_ends_def end_a_def end_b_def)

lemma end_a_sends: "\<exists>c'. send_segment TCP_FLAG_ACK 5 7 [1, 2, 3] end_a = Some c'"
  by (rule send_segment_returns) (simp_all add: end_a_def cs_new_def)

theorem segment_delivered_witness:
  "\<exists>c' p. send_segment TCP_FLAG_ACK 5 7 [1, 2, 3] end_a = Some c' \<and>
    t_wire c' = t_wire end_a @ [(0x0200000A, p)] \<and>
    drop (segment_offset TCP_FLAG_ACK) p = [1, 2, 3] \<and>
    parse_segment p (of_nat (length p)) 0x0100000A =
      sent_segment end_a 0x0100000A TCP_FLAG_ACK 5 7 [1, 2, 3] p \<and>
    packet_received p (of_nat (length p)) 0x0100000A IPPROTO_TCP end_b =
      map_option (Pair 1) (rx_segment (sent_segment end_a 0x0100000A TCP_FLAG_ACK 5 7 [1, 2, 3] p)
        (end_b\<lparr>snd_mss := if TCP_FLAG_ACK AND TCP_FLAG_SYN \<noteq> 0 then TCP_CONFIG_MSS else snd_mss end_b\<rparr>))"
proof -
  obtain c' where c': "send_segment TCP_FLAG_ACK 5 7 [1, 2, 3] end_a = Some c'"
    using end_a_sends by blast
  have "TCP_FLAG_ACK AND 0xFF = 0" "t_state end_b \<noteq> TCPStateListen"
    by (simp_all add: TCP_FLAG_ACK_def end_b_def)
  from segment_delivered [OF c' this(1) ends_a_b this(2)] c' show ?thesis by blast
qed

end
