(* ===== verification/Net_Stream.thy ===== *)
theory Net_Stream
  imports Net_Wire
begin

text \<open>
  What the user of a connection receives. \<open>rx_core\<close> is the receive queue and \<open>RCV.NXT\<close>; the
  lemmas with the suffix \<open>_rx\<close> say what an operation does to them. \<open>peer_run\<close> is a run of a
  connection with a peer that sends a stream of bytes, \<open>stream_inv\<close> its invariant.
\<close>

section \<open>What keeps the receive queue\<close>

definition rx_core :: "tcp \<Rightarrow> net_queue \<times> 32 word" where
  "rx_core c = (t_rxq c, rcv_nxt c)"

lemma rx_core_iff: "rx_core c' = rx_core c \<longleftrightarrow> t_rxq c' = t_rxq c \<and> rcv_nxt c' = rcv_nxt c"
  by (simp add: rx_core_def)

lemma send_rx: "send_segment fl s a d c = Some c' \<Longrightarrow> rx_core c' = rx_core c"
  by (auto dest!: send_segmentD simp: rx_core_def)

lemma send_ack_rx: "send_ack c = Some c' \<Longrightarrow> rx_core c' = rx_core c"
  by (auto simp: send_ack_def dest: send_rx)

lemma stop_timer_rx [simp]: "rx_core (stop_timer tm c) = rx_core c"
  by (cases tm) (simp_all add: stop_timer_def rx_core_def)

lemma stop_timer_rx_simps [simp]: "t_rxq (stop_timer tm c) = t_rxq c" "rcv_nxt (stop_timer tm c) = rcv_nxt c"
  using stop_timer_rx [of tm c] by (simp_all only: rx_core_iff)

lemma start_timer_rx: "start_timer tm n c = Some c' \<Longrightarrow> rx_core c' = rx_core c"
  by (cases tm) (auto simp: start_timer_def Let_def rx_core_def split: if_splits)

lemma start_retransmission_rx: "start_retransmission_timer c = Some c' \<Longrightarrow> rx_core c' = rx_core c"
  by (auto simp: start_retransmission_timer_def dest: start_timer_rx)

lemma set_rx [simp]:
  "t_rxq (rto_sent c) = t_rxq c" "rcv_nxt (rto_sent c) = rcv_nxt c"
  "t_rxq (rto_acked c) = t_rxq c" "rcv_nxt (rto_acked c) = rcv_nxt c"
  "t_rxq (set_window sg c) = t_rxq c" "rcv_nxt (set_window sg c) = rcv_nxt c"
  "t_rxq (newer_window sg c) = t_rxq c" "rcv_nxt (newer_window sg c) = rcv_nxt c"
  "t_rxq (take_peer sg c) = t_rxq c" "rcv_nxt (take_peer sg c) = rcv_nxt c"
  by (simp_all add: rto_sent_def rto_acked_def set_window_def newer_window_def take_peer_def)

lemmas tcp_rxs = send_rx send_ack_rx start_timer_rx start_retransmission_rx
lemmas tcp_rxs' = tcp_rxs [unfolded rx_core_iff]

section \<open>The operations of our own side\<close>

lemma tx_segment_rx: "tx_segment n c = Some c' \<Longrightarrow> rx_core c' = rx_core c"
  by (auto simp: tx_segment_def bind_eq_Some_conv Let_def rx_core_iff
    dest!: tcp_rxs' split: if_splits option.splits)

lemma tx_loop_rx:
  assumes "tx_loop c = Some c'"
  shows "rx_core c' = rx_core c"
proof (rule tx_loop.raw_induct [where P = "\<lambda>c c'. rx_core c' = rx_core c", OF _ assms])
  fix f x y
  assume IH: "\<And>c c'. f c = Some c' \<Longrightarrow> rx_core c' = rx_core c"
    and "(case rq_bytes_available (t_rtq x) of None \<Rightarrow> None
      | Some n \<Rightarrow> if n > 0 \<and> snd_una x + snd_wnd x - snd_nxt x > 0
        then (case tx_segment (tx_length n x) x of None \<Rightarrow> None | Some c \<Rightarrow> f c) else Some x) = Some y"
  then show "rx_core y = rx_core x"
    by (auto dest!: IH tx_segment_rx split: option.splits if_splits)
qed

lemma process_data_rx: "process_data c = Some c' \<Longrightarrow> rx_core c' = rx_core c"
  by (auto simp: process_data_def Let_def rx_core_iff
    dest!: tx_loop_rx [unfolded rx_core_iff] split: option.splits if_splits)

lemma process_syn_rx: "process_syn c = Some c' \<Longrightarrow> rx_core c' = rx_core c"
  by (auto simp: process_syn_def bind_eq_Some_conv Let_def rx_core_iff dest!: tcp_rxs' split: if_splits)

lemma process_fin_rx: "process_fin c = Some c' \<Longrightarrow> rx_core c' = rx_core c"
  by (auto simp: process_fin_def bind_eq_Some_conv Let_def rx_core_iff dest!: tcp_rxs' split: if_splits)

lemma tcp_process_rx: "tcp_process c = Some c' \<Longrightarrow> rx_core c' = rx_core c"
  by (auto simp: tcp_process_def bind_eq_Some_conv rx_core_iff
    dest!: process_data_rx [unfolded rx_core_iff] process_syn_rx [unfolded rx_core_iff]
      process_fin_rx [unfolded rx_core_iff] split: if_splits)

lemma tcp_close_rx: "tcp_close c = Some (r, c') \<Longrightarrow> rx_core c' = rx_core c"
  by (cases "t_state c") (auto simp: tcp_close_def queue_fin_def rx_core_iff split: if_splits)

lemma tcp_timer_rx: "tcp_timer_handler tm c = Some c' \<Longrightarrow> rx_core c' = rx_core c"
  by (cases tm; cases "t_state c")
    (auto simp: tcp_timer_handler_def retransmission_expired_def Let_def rx_core_iff split: if_splits)

lemma user_calls_rx:
  "tcp_connect c = Some (rc, c') \<Longrightarrow> rx_core c' = rx_core c"
  "tcp_accept c = Some (ra, c') \<Longrightarrow> rx_core c' = rx_core c"
  "tcp_send dat fl c = Some (rs, c') \<Longrightarrow> rx_core c' = rx_core c"
  "notification_received s rcv sp rp proto ip c = Some (r, c') \<Longrightarrow> rx_core c' = rx_core c"
  subgoal by (cases "t_state c") (auto simp: tcp_connect_def rx_core_iff split: if_splits)
  subgoal by (cases "t_state c") (auto simp: tcp_accept_def rx_core_iff split: if_splits)
  subgoal by (auto simp: tcp_send_def Let_def rx_core_iff split: if_splits option.splits)
  subgoal by (auto simp: notification_received_def rx_core_iff split: if_splits option.splits)
  done

text \<open>Everything but packets and \<open>Receive\<close>.\<close>

inductive own_event :: "tcp \<Rightarrow> tcp \<Rightarrow> bool" where
  own_notification: "notification_received s rc sp rp proto ip c = Some (r, c') \<Longrightarrow> own_event c c'"
| own_process: "tcp_process c = Some c' \<Longrightarrow> own_event c c'"
| own_timer: "tcp_timer_handler tm c = Some c' \<Longrightarrow> own_event c c'"
| own_connect: "tcp_connect c = Some (rc, c') \<Longrightarrow> own_event c c'"
| own_accept: "tcp_accept c = Some (ra, c') \<Longrightarrow> own_event c c'"
| own_close: "tcp_close c = Some (r, c') \<Longrightarrow> own_event c c'"
| own_send: "tcp_send dat fl c = Some (rs, c') \<Longrightarrow> own_event c c'"
| own_clock: "own_event c (c\<lparr>t_ticks := t, t_secs := s\<rparr>)"

lemma own_event_rx:
  assumes "own_event c c'"
  shows "rx_core c' = rx_core c"
  using assms
  by (cases rule: own_event.cases)
    (auto dest: tcp_process_rx tcp_close_rx tcp_timer_rx user_calls_rx simp: rx_core_iff)

lemma own_event_event: "own_event c c' \<Longrightarrow> tcp_event c c'"
  by (induction rule: own_event.induct) (blast intro: tcp_event.intros)+

text \<open>Our own side changes the state only by sending its FIN, and to \<open>Closed\<close>.\<close>

lemma own_event_state:
  assumes "own_event c c'"
  shows "t_state c' = t_state c \<or> t_state c' = TCPStateClosed \<or> t_state c' = t_after_fin c \<and>
    t_fin_queued c \<and> t_state c \<in> {TCPStateEstablished, TCPStateFinWait1, TCPStateCloseWait,
      TCPStateClosing, TCPStateLastAck}"
  using assms
proof (cases rule: own_event.cases)
  case own_process
  show ?thesis
  proof (cases "t_timed_out c \<or> t_state c \<in> {TCPStateClosed, TCPStateListen, TCPStateFinWait2,
      TCPStateTimeWait, TCPStateSynSent, TCPStateSynReceived}")
    case True
    then show ?thesis
      using own_process by (auto simp: tcp_process_def tcp_core_iff dest!: process_syn_core split: if_splits)
  next
    case False
    then obtain x where x: "process_fin c = Some x" "tcp_core c' = tcp_core x"
      using own_process by (auto simp: tcp_process_def bind_eq_Some_conv dest!: process_data_core)
    from process_fin_core [OF x(1)] x(2) False show ?thesis
      by (cases "t_state c") (auto simp: tcp_core_iff)
  qed
next
  case (own_timer tm)
  then show ?thesis
    by (cases tm; cases "t_state c")
      (auto simp: tcp_timer_handler_def retransmission_expired_def Let_def split: if_splits)
next
  case (own_close r)
  then show ?thesis
    by (cases "t_state c") (auto simp: tcp_close_def queue_fin_def split: if_splits)
qed (auto dest!: user_calls_core simp: tcp_core_iff)

section \<open>What a segment does to the receive queue\<close>

definition seg_data :: "segment \<Rightarrow> 8 word list" where
  "seg_data sg = take (unat (sg_dlen sg)) (drop (unat (sg_off sg)) (sg_buf sg))"

lemma rx_enqueue_data:
  "rx_enqueue sg c = Some c' \<Longrightarrow> t_rxq c' = t_rxq c @ [seg_data sg] \<and> seg_data sg \<noteq> [] \<and>
    rcv_nxt c' = rcv_nxt c"
  by (auto simp: rx_enqueue_def nq_enqueue_def seg_data_def split: if_splits)

lemma rx_fin_rx:
  assumes "rx_fin sg c = Some c'"
  shows "t_rxq c' = t_rxq c \<and>
    rcv_nxt c' = (if has sg TCP_FLAG_FIN \<and> t_state c \<notin> {TCPStateClosed, TCPStateListen, TCPStateSynSent}
      then rcv_nxt c + 1 else rcv_nxt c)"
proof (cases "t_state c \<in> {TCPStateClosed, TCPStateListen, TCPStateSynSent} \<or> \<not> has sg TCP_FLAG_FIN")
  case True
  then show ?thesis using assms by (auto simp: rx_fin_def)
next
  case False
  from False obtain x where x: "send_ack (c\<lparr>rcv_nxt := rcv_nxt c + 1\<rparr>) = Some x"
    using assms by (auto simp: rx_fin_def bind_eq_Some_conv)
  have s: "t_state x = t_state c" using send_ack_core [OF x] by (simp add: tcp_core_iff)
  have "rx_core c' = rx_core x"
    using assms x s False
    by (cases "t_state c") (auto simp: rx_fin_def rx_core_iff dest!: start_timer_rx [unfolded rx_core_iff]
      split: if_splits)
  then show ?thesis using send_ack_rx [OF x] False by (simp add: rx_core_iff)
qed

lemma rx_fin_state:
  assumes "rx_fin sg c = Some c'" "has sg TCP_FLAG_FIN"
    "t_state c \<in> {TCPStateEstablished, TCPStateFinWait1, TCPStateFinWait2}"
  shows "t_state c' \<in> {TCPStateCloseWait, TCPStateClosing, TCPStateTimeWait}"
proof -
  obtain x where x: "send_ack (c\<lparr>rcv_nxt := rcv_nxt c + 1\<rparr>) = Some x"
    using assms by (auto simp: rx_fin_def bind_eq_Some_conv)
  have s: "t_state x = t_state c" using send_ack_core [OF x] by (simp add: tcp_core_iff)
  show ?thesis
    using assms x s
    by (auto simp: rx_fin_def dest!: start_timer_core [unfolded tcp_core_iff] split: if_splits)
qed

text \<open>The states that take text, and those in which the FIN of the peer has been taken.\<close>

definition open_states :: "tcp_state set" where
  "open_states = {TCPStateEstablished, TCPStateFinWait1, TCPStateFinWait2}"

definition fin_states :: "tcp_state set" where
  "fin_states = {TCPStateCloseWait, TCPStateClosing, TCPStateLastAck, TCPStateTimeWait}"

lemmas state_sets = open_states_def fin_states_def

text \<open>In an open state a segment is taken when it is the next one, and then as a whole.\<close>

lemma rx_text_open_eq:
  "t_state c \<in> open_states \<Longrightarrow> sg_len sg \<noteq> 0 \<Longrightarrow> sg_seq sg = rcv_nxt c \<Longrightarrow> rx_text sg c =
    (if sg_dlen sg > 0 then
       rx_enqueue sg c \<bind> (\<lambda>c. send_ack (c\<lparr>rcv_nxt := rcv_nxt c + sg_dlen sg\<rparr>) \<bind>
         (\<lambda>c. rx_fin sg (if has sg TCP_FLAG_PUSH then c\<lparr>t_event := True\<rparr> else c)))
     else rx_fin sg c)"
  by (auto simp: rx_text_def state_sets)

lemma rx_text_open:
  assumes "rx_text sg c = Some c'" "t_state c \<in> open_states"
  shows "rx_core c' = rx_core c \<and> t_state c' = t_state c \<or>
    sg_seq sg = rcv_nxt c \<and>
    (\<exists>ds. t_rxq c' = t_rxq c @ ds \<and> concat ds = (if sg_dlen sg > 0 then seg_data sg else []) \<and>
      rcv_nxt c' = rcv_nxt c + sg_dlen sg + (if has sg TCP_FLAG_FIN then 1 else 0) \<and>
      (if has sg TCP_FLAG_FIN then t_state c' \<in> fin_states else t_state c' = t_state c))"
proof (cases "sg_len sg = 0 \<or> sg_seq sg \<noteq> rcv_nxt c")
  case True
  have "send_ack c = Some c' \<Longrightarrow> rx_core c' = rx_core c \<and> t_state c' = t_state c"
    using send_ack_rx [of c c'] send_ack_core [of c c'] by (simp add: tcp_core_iff)
  with True show ?thesis
    using assms by (auto simp: rx_text_def state_sets split: if_splits)
next
  case False
  have fin: "t_rxq c' = t_rxq x \<and> rcv_nxt c' = rcv_nxt x + (if has sg TCP_FLAG_FIN then 1 else 0) \<and>
      (if has sg TCP_FLAG_FIN then t_state c' \<in> fin_states else t_state c' = t_state x)"
    if "rx_fin sg x = Some c'" "t_state x = t_state c" for x
  proof (cases "has sg TCP_FLAG_FIN")
    case True
    then show ?thesis
      using rx_fin_rx [OF that(1)] rx_fin_state [OF that(1)] that(2) assms(2)
      by (auto simp: state_sets)
  next
    case False
    then show ?thesis using that by (auto simp: rx_fin_def)
  qed
  show ?thesis
  proof (cases "sg_dlen sg = 0")
    case True
    then have "rx_fin sg c = Some c'"
      using False assms rx_text_open_eq [OF assms(2)] by simp
    from fin [OF this refl] show ?thesis using False True by auto
  next
    case dl: False
    then have pos: "sg_dlen sg > 0" by (simp add: word_gt_0)
    with False assms rx_text_open_eq [OF assms(2)] obtain x y where x: "rx_enqueue sg c = Some x"
      and y: "send_ack (x\<lparr>rcv_nxt := rcv_nxt x + sg_dlen sg\<rparr>) = Some y"
      and f: "rx_fin sg (if has sg TCP_FLAG_PUSH then y\<lparr>t_event := True\<rparr> else y) = Some c'"
      by (auto simp: bind_eq_Some_conv simp del: if_split)
    have s: "t_state (if has sg TCP_FLAG_PUSH then y\<lparr>t_event := True\<rparr> else y) = t_state c"
      using enqueue_core [OF x] send_ack_core [OF y] by (simp add: tcp_core_iff)
    show ?thesis
      using fin [OF f s] rx_enqueue_data [OF x] send_ack_rx [OF y] send_ack_core [OF y]
        enqueue_core [OF x] pos False
      by (auto simp: rx_core_iff tcp_core_iff simp del: if_split split: if_split_asm)
  qed
qed

lemma rx_text_fin:
  assumes "rx_text sg c = Some c'" "t_state c \<in> fin_states" "fin_ok c"
  shows "t_rxq c' = t_rxq c \<and> t_state c' = t_state c \<and>
    (sg_len sg = 0 \<or> \<not> has sg TCP_FLAG_FIN \<longrightarrow> rcv_nxt c' = rcv_nxt c)"
proof (cases "sg_len sg = 0")
  case True
  then show ?thesis using assms(1) by (simp add: rx_text_def)
next
  case False
  then have f: "rx_fin sg c = Some c'" using assms(1,2) by (auto simp: rx_text_def state_sets)
  show ?thesis
    using rx_fin_rx [OF f] rx_fin_goes [OF f assms(3)] False assms(2)
    by (auto simp: goes_def state_sets)
qed

text \<open>Up to there, only the control bits matter.\<close>

lemma ack_new_rx: "ack_new sg c = Some c' \<Longrightarrow> rx_core c' = rx_core c"
  by (auto simp: ack_new_def bind_eq_Some_conv Let_def rx_core_iff split: if_splits)

lemma ack_closing_rx:
  assumes "ack_closing sg c = Some c'"
  shows "rx_core c' = rx_core c"
proof (cases "t_state c = TCPStateFinWait1 \<and> sg_ack sg = snd_nxt c")
  case True
  then obtain n z where
    "start_timer TCPTimerTimeWait n
      ((stop_timer TCPTimerRetransmission ((rto_acked c)\<lparr>t_fin_queued := False\<rparr>))\<lparr>t_state := TCPStateFinWait2\<rparr>) = Some z"
    and c': "c' = z \<or> c' = z\<lparr>t_event := True\<rparr>"
    using assms by (force simp: ack_closing_def split: if_splits)
  then show ?thesis by (auto dest!: start_timer_rx simp: rx_core_iff)
next
  case False
  then show ?thesis
    using assms
    by (cases "t_state c")
      (auto simp: ack_closing_def rx_core_iff dest!: start_timer_rx [unfolded rx_core_iff] split: if_splits)
qed

lemma ack_duplicate_rx: "rx_core (ack_duplicate sg c) = rx_core c"
  by (simp add: ack_duplicate_def rx_core_iff)

lemma rx_ack_rx:
  assumes "rx_ack sg c = Some r" "r = Inl x \<or> r = Inr x"
  shows "rx_core x = rx_core c"
proof (cases "t_state c \<in> {TCPStateEstablished, TCPStateFinWait1, TCPStateFinWait2, TCPStateCloseWait, TCPStateClosing}")
  case True
  then show ?thesis
    using assms ack_duplicate_rx [of sg c]
    by (auto simp: rx_ack_def bind_eq_Some_conv rx_core_iff
      dest!: ack_new_rx [unfolded rx_core_iff] ack_closing_rx [unfolded rx_core_iff]
        send_ack_rx [unfolded rx_core_iff] split: if_splits)
next
  case False
  then show ?thesis
    using assms
    by (cases "t_state c")
      (auto simp: rx_ack_def ack_syn_received_def bind_eq_Some_conv rx_core_iff
        dest!: tcp_rxs' split: if_splits)
qed

section \<open>A packet\<close>

text \<open>What a packet leaves behind: in an open state the next piece of text, once the FIN is taken
  nothing more; a connection that is reset loses what was not read.\<close>

lemma rx_reset_rx:
  assumes "rx_reset c = Some c'" "t_state c \<in> open_states \<union> fin_states"
  shows "t_state c' = TCPStateClosed \<and> (t_rxq c' = t_rxq c \<or> t_rxq c' = [])"
  using assms by (auto simp: rx_reset_def state_sets flush_queues_def nq_flush_def)

lemma rx_syn_rx:
  assumes "rx_syn c = Some c'" "t_state c \<in> open_states \<union> fin_states"
  shows "t_state c' = TCPStateClosed \<and> t_rxq c' = []"
  using assms by (auto simp: rx_syn_def state_sets flush_queues_def nq_flush_def split: if_splits)

definition takes_text :: "segment \<Rightarrow> tcp \<Rightarrow> tcp \<Rightarrow> bool" where
  "takes_text sg c c' \<longleftrightarrow>
    sg_seq sg = rcv_nxt c \<and>
    (\<exists>ds. t_rxq c' = t_rxq c @ ds \<and> concat ds = (if sg_dlen sg > 0 then seg_data sg else []) \<and>
      rcv_nxt c' = rcv_nxt c + sg_dlen sg + (if has sg TCP_FLAG_FIN then 1 else 0) \<and>
      (if has sg TCP_FLAG_FIN then t_state c' \<in> fin_states else t_state c' \<in> open_states))"

lemma ack_state:
  assumes "goes ack_next c x" "t_state c \<in> open_states"
  shows "t_state x \<in> open_states"
  using assms by (auto simp: goes_def state_sets)

lemma ack_state_fin:
  assumes "goes ack_next c x" "t_state c \<in> fin_states"
  shows "t_state x \<in> fin_states \<or> t_state x = TCPStateClosed"
  using assms by (auto simp: goes_def state_sets)

lemma rx_synchronized_open:
  assumes "rx_synchronized sg c = Some c'" "t_state c \<in> open_states" "fin_ok c"
  shows "t_state c' = TCPStateClosed \<and> (t_rxq c' = t_rxq c \<or> t_rxq c' = []) \<or>
    rx_core c' = rx_core c \<and> t_state c' \<in> open_states \<or> takes_text sg c c'"
proof -
  have ack: "rx_core c' = rx_core c \<and> t_state c' \<in> open_states" if "send_ack c = Some c'"
    using send_ack_rx [OF that] send_ack_core [OF that] assms(2) by (simp add: tcp_core_iff)
  have early: "rx_core c' = rx_core c \<and> t_state c' \<in> open_states" if r: "rx_ack sg c = Some (Inl c')"
    using rx_ack_rx [OF r, of c'] ack_state [OF rx_ack_done [OF r assms(3) refl] assms(2)] by simp
  have body: "rx_core c' = rx_core c \<and> t_state c' \<in> open_states \<or> takes_text sg c c'"
    if r: "rx_ack sg c = Some (Inr x)" and t: "rx_text sg x = Some c'" for x
  proof -
    have op: "t_state x \<in> open_states"
      by (rule ack_state [OF rx_ack_goes [OF r assms(3)] assms(2)])
    have "rx_core x = rx_core c" using rx_ack_rx [OF r, of x] by simp
    with rx_text_open [OF t op] op show ?thesis
      by (auto simp: takes_text_def rx_core_iff split: if_splits)
  qed
  have s: "t_state c \<in> open_states \<union> fin_states" using assms(2) by simp
  show ?thesis
    using assms(1,2) ack early body rx_reset_rx [OF _ s] rx_syn_rx [OF _ s]
    unfolding rx_synchronized_def by (auto split: if_splits option.splits sum.splits)
qed

lemma rx_synchronized_fin:
  assumes "rx_synchronized sg c = Some c'" "t_state c \<in> fin_states" "fin_ok c"
  shows "t_state c' = TCPStateClosed \<and> (t_rxq c' = t_rxq c \<or> t_rxq c' = []) \<or>
    t_rxq c' = t_rxq c \<and> t_state c' \<in> fin_states \<and>
    (rcv_nxt c' = rcv_nxt c \<or> rx_acceptable sg c \<and> sg_len sg \<noteq> 0 \<and> has sg TCP_FLAG_FIN \<and> \<not> has sg TCP_FLAG_SYN)"
proof -
  have ack: "rx_core c' = rx_core c \<and> t_state c' \<in> fin_states" if "send_ack c = Some c'"
    using send_ack_rx [OF that] send_ack_core [OF that] assms(2) by (simp add: tcp_core_iff)
  have early: "rx_core c' = rx_core c \<and> (t_state c' \<in> fin_states \<or> t_state c' = TCPStateClosed)"
    if r: "rx_ack sg c = Some (Inl c')"
    using rx_ack_rx [OF r, of c'] ack_state_fin [OF rx_ack_done [OF r assms(3) refl] assms(2)] by simp
  have body: "t_rxq c' = t_rxq c \<and> (t_state c' \<in> fin_states \<or> t_state c' = TCPStateClosed) \<and>
      (rcv_nxt c' = rcv_nxt c \<or> sg_len sg \<noteq> 0 \<and> has sg TCP_FLAG_FIN)"
    if r: "rx_ack sg c = Some (Inr x)" and t: "rx_text sg x = Some c'" for x
  proof -
    note g = rx_ack_goes [OF r assms(3)]
    have x: "rx_core x = rx_core c" using rx_ack_rx [OF r, of x] by simp
    have ok: "fin_ok x" using g by (simp add: goes_def)
    show ?thesis
    proof (cases "t_state x = TCPStateClosed")
      case True
      then have "sg_len sg = 0 \<and> c' = x" using t by (auto simp: rx_text_def split: if_splits)
      then show ?thesis using x True by (simp add: rx_core_iff)
    next
      case False
      then have "t_state x \<in> fin_states" using ack_state_fin [OF g assms(2)] by simp
      from rx_text_fin [OF t this ok] x this show ?thesis by (auto simp: rx_core_iff)
    qed
  qed
  have s: "t_state c \<in> open_states \<union> fin_states" using assms(2) by simp
  have ns: "t_state c \<noteq> TCPStateSynReceived" using assms(2) by (auto simp: state_sets)
  show ?thesis
    using assms(1,2) ns ack early body rx_reset_rx [OF _ s] rx_syn_rx [OF _ s]
    unfolding rx_synchronized_def
    by (auto simp: rx_core_iff split: if_splits option.splits sum.splits)
qed

section \<open>The stream of the peer\<close>

text \<open>The peer sends the bytes \<open>S\<close> and then its FIN; byte number \<open>i\<close> has the sequence number
  \<open>base + i\<close>. A segment of the peer carries a piece of \<open>S\<close> from any position \<open>p\<close>, as it is after
  losses, repetitions, changes of order and new cuts; \<open>n\<close> is the number of bytes that were
  taken, and \<open>p\<close> is not half the number space away from it.\<close>

definition peer_segment :: "8 word list \<Rightarrow> 32 word \<Rightarrow> nat \<Rightarrow> segment \<Rightarrow> bool" where
  "peer_segment S base n sg \<longleftrightarrow>
    (\<exists>p. sg_seq sg = base + of_nat p \<and> n + 1 < p + 2 ^ 31 \<and> p < n + 2 ^ 31 \<and>
      p + unat (sg_dlen sg) \<le> length S \<and> seg_data sg = take (unat (sg_dlen sg)) (drop p S) \<and>
      (has sg TCP_FLAG_FIN \<longrightarrow> p + unat (sg_dlen sg) = length S))"

definition for_us :: "segment \<Rightarrow> tcp \<Rightarrow> bool" where
  "for_us sg c \<longleftrightarrow> foreign_ip c = Some (sg_sender sg) \<and> foreign_port c = sg_sport sg"

fun received :: "(int \<times> 8 word list) tcp_result \<Rightarrow> 8 word list" where
  "received (TcpDone (n, d)) = d"
| "received TcpWait = []"

text \<open>A run of a connection with its peer. \<open>got\<close> is what \<open>Receive\<close> has returned, \<open>acc\<close> what has
  been taken from segments. Packets that are not from the peer are arbitrary.\<close>

inductive peer_run :: "8 word list \<Rightarrow> 32 word \<Rightarrow> tcp \<Rightarrow> tcp \<Rightarrow> 8 word list \<Rightarrow> 8 word list \<Rightarrow> bool"
  for S base c0 where
  pr_start: "peer_run S base c0 c0 [] []"
| pr_packet: "\<lbrakk>peer_run S base c0 c got acc; packet_received p n sender proto c = Some (r, c');
      for_us (parse_segment p n sender) c \<longrightarrow> peer_segment S base (length acc) (parse_segment p n sender)\<rbrakk>
    \<Longrightarrow> peer_run S base c0 c' got (acc @ concat (drop (length (t_rxq c)) (t_rxq c')))"
| pr_own: "\<lbrakk>peer_run S base c0 c got acc; own_event c c'\<rbrakk> \<Longrightarrow> peer_run S base c0 c' got acc"
| pr_receive: "\<lbrakk>peer_run S base c0 c got acc;
      tcp_receive fl c = Some (res, c') \<or> tcp_receive_woken fl c = Some (res, c')\<rbrakk>
    \<Longrightarrow> peer_run S base c0 c' (got @ received res) acc"

text \<open>The invariant.\<close>

definition stream_inv :: "8 word list \<Rightarrow> 32 word \<Rightarrow> tcp \<Rightarrow> 8 word list \<Rightarrow> 8 word list \<Rightarrow> bool" where
  "stream_inv S base c got acc \<longleftrightarrow>
    fin_ok c \<and> length acc \<le> length S \<and> acc = take (length acc) S \<and>
    (\<exists>rest. acc = got @ concat (t_rxq c) @ rest \<and> (t_state c \<noteq> TCPStateClosed \<longrightarrow> rest = [])) \<and>
    (t_state c = TCPStateClosed \<or>
     t_state c \<in> open_states \<and> rcv_nxt c = base + of_nat (length acc) \<or>
     t_state c \<in> fin_states \<union> {TCPStateFinWait1, TCPStateFinWait2} \<and> length acc = length S \<and>
       rcv_nxt c = base + of_nat (length S + 1))"

lemma of_nat_close:
  assumes "(of_nat p :: 32 word) = of_nat n" "p < n + 2 ^ 31" "n < p + 2 ^ 31"
  shows "p = n"
proof (cases "n \<le> p")
  case True
  then have "(of_nat (p - n) :: 32 word) = 0" using assms(1) by (simp add: of_nat_diff)
  then have "2 ^ 32 dvd p - n" by (simp add: word_of_nat_eq_0_iff)
  then show ?thesis
    using assms(2) True by (cases "p = n") (auto dest!: dvd_imp_le)
next
  case False
  then have "(of_nat (n - p) :: 32 word) = 0" using assms(1) by (simp add: of_nat_diff)
  then have "2 ^ 32 dvd n - p" by (simp add: word_of_nat_eq_0_iff)
  then show ?thesis
    using assms(3) False by (auto dest!: dvd_imp_le)
qed

lemma packet_cases:
  assumes "packet_received p n sender proto c = Some (r, c')" "t_state c \<noteq> TCPStateListen"
  shows "c' = c \<or> for_us (parse_segment p n sender) c \<and>
    (\<exists>m. rx_segment (parse_segment p n sender) (c\<lparr>snd_mss := m\<rparr>) = Some c')"
  using assms
  by (auto simp: packet_received_def Let_def rx_match_def for_us_def split: if_splits option.splits)

lemma rx_closed_rx:
  assumes "rx_closed sg c = Some c'"
  shows "rx_core c' = rx_core c \<and> t_state c' = t_state c"
proof -
  have peer: "rx_core c' = rx_core c \<and> t_state c' = t_state c"
    if "send_segment f s a d (take_peer sg c) = Some c'" for f s a d
    using send_rx [OF that] send_core [OF that] by (simp add: rx_core_iff tcp_core_iff)
  show ?thesis
    using assms peer by (auto simp: rx_closed_def split: if_splits)
qed

text \<open>The next segment of the peer is taken from the right place, and after the FIN there is
  none.\<close>

lemma peer_position:
  assumes "peer_segment S base n sg" "sg_seq sg = base + of_nat n"
  shows "n + unat (sg_dlen sg) \<le> length S"
    "seg_data sg = take (unat (sg_dlen sg)) (drop n S)"
    "has sg TCP_FLAG_FIN \<longrightarrow> n + unat (sg_dlen sg) = length S"
proof -
  from assms(1) obtain p where p: "sg_seq sg = base + of_nat p" "n + 1 < p + 2 ^ 31" "p < n + 2 ^ 31"
    "p + unat (sg_dlen sg) \<le> length S" "seg_data sg = take (unat (sg_dlen sg)) (drop p S)"
    "has sg TCP_FLAG_FIN \<longrightarrow> p + unat (sg_dlen sg) = length S"
    by (auto simp: peer_segment_def)
  have "(of_nat p :: 32 word) = of_nat n" using p(1) assms(2) by simp
  then have "p = n" by (rule of_nat_close) (use p in simp_all)
  with p show "n + unat (sg_dlen sg) \<le> length S"
    "seg_data sg = take (unat (sg_dlen sg)) (drop n S)"
    "has sg TCP_FLAG_FIN \<longrightarrow> n + unat (sg_dlen sg) = length S" by simp_all
qed

lemma peer_after_fin:
  assumes "peer_segment S base (length S) sg"
  shows "sg_seq sg \<noteq> base + of_nat (length S + 1)"
proof
  assume seq: "sg_seq sg = base + of_nat (length S + 1)"
  from assms obtain p where p: "sg_seq sg = base + of_nat p" "length S + 1 < p + 2 ^ 31"
    "p + unat (sg_dlen sg) \<le> length S"
    by (auto simp: peer_segment_def)
  have "(of_nat p :: 32 word) = of_nat (length S + 1)"
    using p(1) seq by (metis add_left_cancel)
  then have "p = length S + 1" by (rule of_nat_close) (use p in simp_all)
  then show False using p(3) by simp
qed

lemma sint_of_nat_pos:
  assumes "0 < k" "k < 2 ^ 31"
  shows "0 < sint (of_nat k :: 32 word)"
proof -
  have "unat (of_nat k :: 32 word) = k" using assms by (simp add: unat_of_nat)
  then have "uint (of_nat k :: 32 word) = int k" by (metis uint_nat)
  then have "sint (of_nat k :: 32 word) = int k"
    using assms(2) by (simp only: sint_uint) (simp add: signed_take_bit_int_eq_self)
  then show ?thesis using assms(1) by simp
qed

lemma peer_fin_again:
  assumes "peer_segment S base (length S) sg" "has sg TCP_FLAG_FIN" "rcv_nxt c = base + of_nat (length S + 1)"
    and "sg_len sg = sg_dlen sg + 1"
  shows "\<not> rx_acceptable sg c"
proof -
  from assms(1,2) obtain p where p: "sg_seq sg = base + of_nat p" "length S + 1 < p + 2 ^ 31"
    "p + unat (sg_dlen sg) = length S"
    by (auto simp: peer_segment_def)
  have d: "rcv_nxt c - sg_seq sg = of_nat (length S + 1 - p)"
    using p by (simp add: assms(3) of_nat_diff)
  have "0 < sint (of_nat (length S + 1 - p) :: 32 word)"
    by (rule sint_of_nat_pos) (use p in simp_all)
  then have a: "\<not> seq_le (rcv_nxt c) (sg_seq sg)"
    unfolding seq_le_def d by linarith
  have "sg_seq sg + sg_len sg - 1 = base + of_nat (p + unat (sg_dlen sg))"
    using p(1) assms(4) by simp
  then have e: "rcv_nxt c - (sg_seq sg + sg_len sg - 1) = 1"
    using p(3) assms(3) by simp
  have b: "\<not> seq_le (rcv_nxt c) (sg_seq sg + sg_len sg - 1)"
    unfolding seq_le_def e by simp
  have c: "sg_len sg \<noteq> 0 \<or> sg_seq sg \<noteq> rcv_nxt c"
    using a by (auto simp: seq_le_def)
  show ?thesis
    using a b c peer_after_fin [OF assms(1)] assms(3)
    by (auto simp: rx_acceptable_def bwl_def)
qed

lemma stream_inv_core:
  assumes "stream_inv S base c got acc" "rx_core c' = rx_core c" "fin_ok c'"
    and "t_state c' = t_state c \<or> t_state c' = TCPStateClosed \<or>
      t_state c \<in> open_states \<and> t_state c' \<in> open_states \<and>
        (t_state c' = TCPStateEstablished \<longrightarrow> t_state c = TCPStateEstablished) \<or>
      t_state c \<in> fin_states \<and> t_state c' \<in> fin_states \<union> {TCPStateFinWait1}"
  shows "stream_inv S base c' got acc"
proof -
  have q: "t_rxq c' = t_rxq c" "rcv_nxt c' = rcv_nxt c" using assms(2) by (simp_all add: rx_core_iff)
  from assms(1) obtain rest where acc: "acc = got @ concat (t_rxq c) @ rest"
    and rest: "t_state c \<noteq> TCPStateClosed \<longrightarrow> rest = []" and len: "length acc \<le> length S" "acc = take (length acc) S"
    and ph: "t_state c = TCPStateClosed \<or>
     t_state c \<in> open_states \<and> rcv_nxt c = base + of_nat (length acc) \<or>
     t_state c \<in> fin_states \<union> {TCPStateFinWait1, TCPStateFinWait2} \<and> length acc = length S \<and>
       rcv_nxt c = base + of_nat (length S + 1)"
    unfolding stream_inv_def by blast
  have nc: "t_state c = TCPStateClosed \<longrightarrow> t_state c' = TCPStateClosed"
    using assms(4) by (auto simp: state_sets)
  have "t_state c' = TCPStateClosed \<or>
     t_state c' \<in> open_states \<and> rcv_nxt c = base + of_nat (length acc) \<or>
     t_state c' \<in> fin_states \<union> {TCPStateFinWait1, TCPStateFinWait2} \<and> length acc = length S \<and>
       rcv_nxt c = base + of_nat (length S + 1)"
  proof (cases "t_state c = TCPStateClosed \<or> t_state c' = t_state c \<or> t_state c' = TCPStateClosed")
    case True
    then show ?thesis using ph nc by metis
  next
    case False
    then consider (op) "t_state c \<in> open_states" "t_state c' \<in> open_states" "t_state c' \<noteq> TCPStateEstablished"
      | (fin) "t_state c \<in> fin_states" "t_state c' \<in> fin_states \<union> {TCPStateFinWait1}"
      using assms(4) by fastforce
    then show ?thesis
    proof cases
      case op
      then have "t_state c' \<in> {TCPStateFinWait1, TCPStateFinWait2}" by (auto simp: open_states_def)
      then show ?thesis using op ph False by fastforce
    next
      case fin
      then have "t_state c \<notin> open_states" by (auto simp: state_sets)
      then show ?thesis using fin ph False by fastforce
    qed
  qed
  moreover have "\<exists>rest. acc = got @ concat (t_rxq c) @ rest \<and> (t_state c' \<noteq> TCPStateClosed \<longrightarrow> rest = [])"
    using acc rest nc by blast
  ultimately show ?thesis
    unfolding stream_inv_def q using assms(3) len by blast
qed

lemma own_event_inv:
  assumes "stream_inv S base c got acc" "own_event c c'"
  shows "stream_inv S base c' got acc"
proof (rule stream_inv_core [OF assms(1) own_event_rx [OF assms(2)]])
  have ok: "fin_ok c" using assms(1) by (simp add: stream_inv_def)
  then show "fin_ok c'" using tcp_event_to [OF own_event_event [OF assms(2)]] by (simp add: tcp_to_def)
  show "t_state c' = t_state c \<or> t_state c' = TCPStateClosed \<or>
      t_state c \<in> open_states \<and> t_state c' \<in> open_states \<and>
        (t_state c' = TCPStateEstablished \<longrightarrow> t_state c = TCPStateEstablished) \<or>
      t_state c \<in> fin_states \<and> t_state c' \<in> fin_states \<union> {TCPStateFinWait1}"
    using own_event_state [OF assms(2)] ok
    by (cases "t_state c") (auto simp: fin_ok_def state_sets)
qed

lemma receive_loop_inv:
  assumes "stream_inv S base c got acc" "tcp_receive_loop fl c = Some (res, c')"
  shows "stream_inv S base c' (got @ received res) acc"
proof -
  from assms(2) obtain p q where q: "nq_dequeue (t_rxq c) = Some (p, q)"
    and c': "t_rxq c' = q" "rcv_nxt c' = rcv_nxt c" "t_state c' = t_state c"
      "t_fin_queued c' = t_fin_queued c" "t_after_fin c' = t_after_fin c"
    and res: "received res = p"
    by (auto simp: tcp_receive_loop_def Let_def split: option.splits if_splits)
  have "concat (t_rxq c) = p @ concat q"
    using q by (cases "t_rxq c") (auto split: if_splits)
  then show ?thesis
    using assms(1) c' res by (auto simp: stream_inv_def fin_ok_def)
qed

lemma receive_inv:
  assumes "stream_inv S base c got acc"
    "tcp_receive fl c = Some (res, c') \<or> tcp_receive_woken fl c = Some (res, c')"
  shows "stream_inv S base c' (got @ received res) acc"
  using assms receive_loop_inv [OF assms(1)]
  by (auto simp: tcp_receive_def tcp_receive_woken_def split: if_splits)

lemma set_mss_simps:
  "rx_core (c\<lparr>snd_mss := m\<rparr>) = rx_core c" "takes_text sg (c\<lparr>snd_mss := m\<rparr>) c' = takes_text sg c c'"
  "fin_ok (c\<lparr>snd_mss := m\<rparr>) = fin_ok c" "rx_acceptable sg (c\<lparr>snd_mss := m\<rparr>) = rx_acceptable sg c"
  by (simp_all add: rx_core_def takes_text_def fin_ok_def rx_acceptable_def)

lemma closed_inv:
  assumes "stream_inv S base c got acc" "t_state c' = TCPStateClosed" "t_rxq c' = t_rxq c \<or> t_rxq c' = []"
  shows "stream_inv S base c' got (acc @ concat (drop (length (t_rxq c)) (t_rxq c')))"
proof -
  from assms(1) obtain rest where acc: "acc = got @ concat (t_rxq c) @ rest"
    by (auto simp: stream_inv_def)
  then have "\<exists>rest'. acc = got @ concat (t_rxq c') @ rest'" using assms(3) by auto
  moreover have e: "concat (drop (length (t_rxq c)) (t_rxq c')) = []" using assms(3) by auto
  ultimately show ?thesis
    unfolding e append_Nil2 using assms(1,2) by (simp add: stream_inv_def fin_ok_def)
qed

lemma kept_inv:
  assumes "stream_inv S base c got acc" "rx_core c' = rx_core c" "fin_ok c'"
    and "t_state c' = t_state c \<or> t_state c' = TCPStateClosed \<or>
      t_state c \<in> open_states \<and> t_state c' \<in> open_states \<and>
        (t_state c' = TCPStateEstablished \<longrightarrow> t_state c = TCPStateEstablished) \<or>
      t_state c \<in> fin_states \<and> t_state c' \<in> fin_states"
  shows "stream_inv S base c' got (acc @ concat (drop (length (t_rxq c)) (t_rxq c')))"
proof -
  have "stream_inv S base c' got acc"
    by (rule stream_inv_core [OF assms(1-3)]) (use assms(4) in auto)
  then show ?thesis using assms(2) by (simp add: rx_core_iff)
qed

lemma taken_inv:
  assumes inv: "stream_inv S base c got acc" and ok: "fin_ok c'"
    and peer: "peer_segment S base (length acc) sg" and takes: "takes_text sg c c'"
    and nxt: "rcv_nxt c = base + of_nat (length acc)" and nc: "t_state c \<noteq> TCPStateClosed"
  shows "stream_inv S base c' got (acc @ concat (drop (length (t_rxq c)) (t_rxq c')))"
proof -
  from takes obtain ds where seq: "sg_seq sg = base + of_nat (length acc)"
    and q: "t_rxq c' = t_rxq c @ ds" and ds: "concat ds = (if sg_dlen sg > 0 then seg_data sg else [])"
    and n: "rcv_nxt c' = rcv_nxt c + sg_dlen sg + (if has sg TCP_FLAG_FIN then 1 else 0)"
    and s: "if has sg TCP_FLAG_FIN then t_state c' \<in> fin_states else t_state c' \<in> open_states"
    by (auto simp: takes_text_def nxt)
  note pos = peer_position [OF peer seq]
  let ?k = "unat (sg_dlen sg)"
  have dat: "concat ds = take ?k (drop (length acc) S)"
    using ds pos(2) by (simp add: word_gt_0 split: if_splits)
  have acc: "acc = take (length acc) S" "acc = got @ concat (t_rxq c)"
    using inv nc by (auto simp: stream_inv_def)
  have acc': "acc @ concat ds = take (length acc + ?k) S"
    using acc(1) dat by (metis take_add)
  have len: "length (acc @ concat ds) = length acc + ?k"
    using pos(1) by (simp add: dat)
  have w: "sg_dlen sg = of_nat ?k" by simp
  have "stream_inv S base c' got (acc @ concat ds)"
    unfolding stream_inv_def
  proof (intro conjI)
    show "\<exists>rest. acc @ concat ds = got @ concat (t_rxq c') @ rest \<and> (t_state c' \<noteq> TCPStateClosed \<longrightarrow> rest = [])"
      using acc(2) q by simp
    show "t_state c' = TCPStateClosed \<or>
        t_state c' \<in> open_states \<and> rcv_nxt c' = base + of_nat (length (acc @ concat ds)) \<or>
        t_state c' \<in> fin_states \<union> {TCPStateFinWait1, TCPStateFinWait2} \<and>
        length (acc @ concat ds) = length S \<and> rcv_nxt c' = base + of_nat (length S + 1)"
    proof (cases "has sg TCP_FLAG_FIN")
      case True
      then have L: "length acc + ?k = length S" using pos(3) by simp
      have "rcv_nxt c' = base + (of_nat (length acc) + of_nat ?k) + 1"
        using n nxt True by simp
      then have "rcv_nxt c' = base + of_nat (length S + 1)"
        unfolding of_nat_add [symmetric] L by simp
      then show ?thesis using s True len L by simp
    next
      case False
      then show ?thesis using s n nxt len by simp
    qed
  qed (use ok acc' len pos(1) in simp_all)
  then show ?thesis by (simp add: q)
qed

lemma packet_inv:
  assumes inv: "stream_inv S base c got acc"
    and rx: "packet_received p n sender proto c = Some (r, c')"
    and peer: "for_us (parse_segment p n sender) c \<longrightarrow> peer_segment S base (length acc) (parse_segment p n sender)"
  shows "stream_inv S base c' got (acc @ concat (drop (length (t_rxq c)) (t_rxq c')))"
proof -
  let ?sg = "parse_segment p n sender"
  have ok: "fin_ok c" using inv by (simp add: stream_inv_def)
  have ok': "fin_ok c'" using packet_received_goes [OF rx ok] by (simp add: goes_def)
  have ne: "t_state c' = TCPStateEstablished \<longrightarrow> t_state c \<in> open_states \<longrightarrow> t_state c = TCPStateEstablished"
    using packet_received_goes [OF rx ok] by (auto simp: goes_def open_states_def)
  note kept = kept_inv [OF inv _ ok'] and closed = closed_inv [OF inv]
  have nl: "t_state c \<noteq> TCPStateListen" using inv by (auto simp: stream_inv_def state_sets)
  show ?thesis
  proof (cases "c' = c")
    case True
    then show ?thesis using inv by simp
  next
    case False
    with packet_cases [OF rx nl] peer obtain m
      where seg: "rx_segment ?sg (c\<lparr>snd_mss := m\<rparr>) = Some c'"
        and pseg: "peer_segment S base (length acc) ?sg" by blast
    consider (shut) "t_state c = TCPStateClosed"
      | (live) "t_state c \<in> open_states" "rcv_nxt c = base + of_nat (length acc)"
      | (late) "t_state c \<in> open_states" "length acc = length S" "rcv_nxt c = base + of_nat (length S + 1)"
      | (fin) "t_state c \<in> fin_states" "length acc = length S" "rcv_nxt c = base + of_nat (length S + 1)"
      using inv by (auto simp: stream_inv_def open_states_def)
    then show ?thesis
    proof cases
      case shut
      then have "rx_closed ?sg (c\<lparr>snd_mss := m\<rparr>) = Some c'" using seg by (simp add: rx_segment_def)
      from rx_closed_rx [OF this] show ?thesis by (intro kept) (simp_all add: set_mss_simps)
    next
      case live
      then have "rx_synchronized ?sg (c\<lparr>snd_mss := m\<rparr>) = Some c'"
        using seg by (auto simp: rx_segment_def open_states_def)
      from rx_synchronized_open [OF this] live ok
      have "t_state c' = TCPStateClosed \<and> (t_rxq c' = t_rxq c \<or> t_rxq c' = []) \<or>
          rx_core c' = rx_core c \<and> t_state c' \<in> open_states \<or> takes_text ?sg c c'"
        by (simp add: set_mss_simps)
      then show ?thesis
        using closed kept ne live taken_inv [OF inv ok' pseg _ live(2)]
        by (auto simp: open_states_def)
    next
      case late
      then have "rx_synchronized ?sg (c\<lparr>snd_mss := m\<rparr>) = Some c'"
        using seg by (auto simp: rx_segment_def open_states_def)
      from rx_synchronized_open [OF this] late ok
      have "t_state c' = TCPStateClosed \<and> (t_rxq c' = t_rxq c \<or> t_rxq c' = []) \<or>
          rx_core c' = rx_core c \<and> t_state c' \<in> open_states \<or> takes_text ?sg c c'"
        by (simp add: set_mss_simps)
      moreover have "\<not> takes_text ?sg c c'"
        using peer_after_fin [of S base ?sg] pseg late by (simp add: takes_text_def)
      ultimately show ?thesis using closed kept ne late by blast
    next
      case fin
      then have sy: "rx_synchronized ?sg (c\<lparr>snd_mss := m\<rparr>) = Some c'"
        using seg by (auto simp: rx_segment_def fin_states_def)
      have again: "\<not> (rx_acceptable ?sg c \<and> sg_len ?sg \<noteq> 0 \<and> has ?sg TCP_FLAG_FIN \<and> \<not> has ?sg TCP_FLAG_SYN)"
        using peer_fin_again [of S base ?sg c] pseg fin
        by (auto simp: parse_segment_def Let_def has_def)
      from rx_synchronized_fin [OF sy] fin ok again
      have "t_state c' = TCPStateClosed \<and> (t_rxq c' = t_rxq c \<or> t_rxq c' = []) \<or>
          rx_core c' = rx_core c \<and> t_state c' \<in> fin_states"
        by (auto simp: set_mss_simps rx_core_iff)
      then show ?thesis using closed kept fin by auto
    qed
  qed
qed

lemma peer_run_inv:
  assumes "peer_run S base c0 c got acc" "stream_inv S base c0 [] []"
  shows "stream_inv S base c got acc"
  using assms
  by (induction rule: peer_run.induct) (auto intro: packet_inv own_event_inv receive_inv)

text \<open>C5: The stream arrives in order and whole. An established connection runs with a peer that
  sends the bytes \<open>S\<close> and a FIN, in segments that are lost, repeated, delayed, reordered and cut
  anew at will, among any packets of others, timers, calls of the user and runs of \<open>Process\<close>.
  Then at every moment the bytes that \<open>Receive\<close> has returned, followed by those that wait in the
  receive queue, are the beginning of \<open>S\<close>: none is lost, repeated or out of place. And when the
  connection has taken the FIN (\<open>CloseWait\<close>, \<open>Closing\<close>, \<open>LastAck\<close>, \<open>TimeWait\<close>) they are all
  of \<open>S\<close>.\<close>

theorem tcp_stream:
  assumes "t_state c0 = TCPStateEstablished" "\<not> t_fin_queued c0" "t_rxq c0 = []" "rcv_nxt c0 = base"
    and "peer_run S base c0 c got acc"
  shows "got @ concat (t_rxq c) = take (length (got @ concat (t_rxq c))) S \<and>
    (t_state c \<in> {TCPStateCloseWait, TCPStateClosing, TCPStateLastAck, TCPStateTimeWait} \<longrightarrow>
      got @ concat (t_rxq c) = S)"
proof -
  have "stream_inv S base c0 [] []"
    using assms(1-4) by (simp add: stream_inv_def fin_ok_def open_states_def)
  from peer_run_inv [OF assms(5) this] have inv: "stream_inv S base c got acc" .
  then obtain rest where acc: "acc = got @ concat (t_rxq c) @ rest" "acc = take (length acc) S"
    and rest: "t_state c \<noteq> TCPStateClosed \<longrightarrow> rest = []"
    unfolding stream_inv_def by blast
  have "got @ concat (t_rxq c) = take (length (got @ concat (t_rxq c))) acc"
    by (simp add: acc(1))
  also have "\<dots> = take (length (got @ concat (t_rxq c))) S"
    using acc by (metis length_append min.absorb1 le_add1 take_take append_assoc)
  finally have pre: "got @ concat (t_rxq c) = take (length (got @ concat (t_rxq c))) S" .
  have "t_state c \<in> fin_states \<longrightarrow> got @ concat (t_rxq c) = S"
    using inv acc rest by (auto simp: stream_inv_def state_sets)
  with pre show ?thesis unfolding fin_states_def by blast
qed


lemma unat_3: "unat (3 :: 32 word) = 3" by simp

text \<open>For the witness: \<open>end_a\<close> sends three bytes and its FIN, \<open>end_b\<close> takes them.\<close>

lemma end_b_takes:
  assumes "sg = sent_segment end_a 0x0100000A (TCP_FLAG_ACK OR TCP_FLAG_FIN) 0 0 [1, 2, 3] p"
    and "drop 20 p = [1, 2, 3]"
  shows "\<exists>c'. rx_segment sg end_b = Some c' \<and> t_state c' = TCPStateCloseWait \<and> t_rxq c' = [[1, 2, 3]]"
proof -
  have sg: "sg_seq sg = 0" "sg_ack sg = 0" "sg_dlen sg = 3" "sg_len sg = 4" "sg_off sg = 20" "sg_buf sg = p"
    "sg_wnd sg = 14600" "has sg TCP_FLAG_ACK" "has sg TCP_FLAG_FIN" "\<not> has sg TCP_FLAG_RESET"
    "\<not> has sg TCP_FLAG_SYN" "\<not> has sg TCP_FLAG_PUSH"
    by (simp_all add: assms(1) sent_segment_def has_def tcp_flags segment_offset_def end_a_def tcp_consts)
  have b: "t_state end_b = TCPStateEstablished" "snd_una end_b = 0" "snd_nxt end_b = 0" "rcv_nxt end_b = 0"
    "rcv_wnd end_b = 14600" "snd_wl1 end_b = 0" "snd_wl2 end_b = 0" "t_rxq end_b = []"
    by (simp_all add: end_b_def tcp_zero_def tcp_consts)
  have acc: "rx_acceptable sg end_b"
    by (simp add: rx_acceptable_def bwl_def seq_le_def seq_lt_def sg b)
  let ?x = "set_window sg end_b"
  have ack: "rx_ack sg end_b = Some (Inr ?x)"
    by (simp add: rx_ack_def b sg bwh_def bwlh_def seq_le_def seq_lt_def ack_duplicate_def newer_window_def
      ack_closing_def set_window_def)
  have data: "seg_data sg = [1, 2, 3]"
    using assms(2) by (simp add: seg_data_def sg)
  let ?y = "?x\<lparr>t_rxq := [[1, 2, 3]]\<rparr>"
  have enq: "rx_enqueue sg ?x = Some ?y"
    using data by (simp add: rx_enqueue_def nq_enqueue_def seg_data_def sg b FRAME_BUFFER_SIZE_def)
  have snd: "\<exists>z. send_ack c = Some z" if "foreign_ip c = foreign_ip end_b" "t_checksum c = t_checksum end_b" for c
    unfolding send_ack_def by (rule send_segment_returns) (simp_all add: that end_b_def cs_new_def)
  obtain z where z: "send_ack (?y\<lparr>rcv_nxt := rcv_nxt ?y + sg_dlen sg\<rparr>) = Some z"
    using snd [of "?y\<lparr>rcv_nxt := rcv_nxt ?y + sg_dlen sg\<rparr>"] by (auto simp: set_window_def)
  have zf: "t_state z = TCPStateEstablished" "foreign_ip z = foreign_ip end_b" "t_checksum z = t_checksum end_b"
    "t_rxq z = [[1, 2, 3]]"
    using z [unfolded send_ack_def] b(1) by (auto dest!: send_segmentD simp: set_window_def)
  obtain w where w: "send_ack (z\<lparr>rcv_nxt := rcv_nxt z + 1\<rparr>) = Some w"
    using snd [of "z\<lparr>rcv_nxt := rcv_nxt z + 1\<rparr>"] zf by auto
  have wf: "t_state w = TCPStateEstablished" "t_rxq w = [[1, 2, 3]]"
    using w [unfolded send_ack_def] zf by (auto dest!: send_segmentD)
  have "rx_fin sg z = Some (w\<lparr>t_state := TCPStateCloseWait, t_event := True\<rparr>)"
    using w wf zf by (simp add: rx_fin_def sg)
  then have "rx_text sg ?x = Some (w\<lparr>t_state := TCPStateCloseWait, t_event := True\<rparr>)"
    using enq z rx_text_open_eq [of ?x sg] by (simp add: b sg open_states_def)
  then have "rx_segment sg end_b = Some (w\<lparr>t_state := TCPStateCloseWait, t_event := True\<rparr>)"
    using acc ack by (simp add: rx_segment_def rx_synchronized_def b sg)
  then show ?thesis using wf by simp
qed

lemma end_b_run:
  "\<exists>c. peer_run [1, 2, 3] 0 end_b c [] [1, 2, 3] \<and> t_state c = TCPStateCloseWait \<and> t_rxq c = [[1, 2, 3]]"
proof -
  let ?fl = "TCP_FLAG_ACK OR TCP_FLAG_FIN"
  have "\<exists>a. send_segment ?fl 0 0 [1, 2, 3] end_a = Some a"
    by (rule send_segment_returns) (simp_all add: end_a_def cs_new_def)
  then obtain a where a: "send_segment ?fl 0 0 [1, 2, 3] end_a = Some a" by blast
  have fl: "?fl AND 0xFF = 0" "?fl AND TCP_FLAG_SYN = 0" "segment_offset ?fl = 20"
    by (simp_all add: tcp_flags segment_offset_def)
  have nl: "t_state end_b \<noteq> TCPStateListen" by (simp add: end_b_def)
  from segment_accepted [OF a fl(1) ends_a_b nl] obtain p
    where d: "drop 20 p = [1, 2, 3]"
      and ps: "parse_segment p (of_nat (length p)) 0x0100000A = sent_segment end_a 0x0100000A ?fl 0 0 [1, 2, 3] p"
      and rx: "packet_received p (of_nat (length p)) 0x0100000A IPPROTO_TCP end_b =
        map_option (Pair 1) (rx_segment (sent_segment end_a 0x0100000A ?fl 0 0 [1, 2, 3] p) end_b)"
    by (auto simp: fl)
  let ?sg = "parse_segment p (of_nat (length p)) 0x0100000A"
  from end_b_takes [OF refl d] obtain c where
    "rx_segment (sent_segment end_a 0x0100000A ?fl 0 0 [1, 2, 3] p) end_b = Some c"
    and c: "t_state c = TCPStateCloseWait" "t_rxq c = [[1, 2, 3]]" by blast
  with rx have r: "packet_received p (of_nat (length p)) 0x0100000A IPPROTO_TCP end_b = Some (1, c)" by simp
  have data: "seg_data ?sg = [1, 2, 3]"
    using d by (simp add: ps seg_data_def sent_segment_def segment_offset_def fl)
  have "peer_segment [1, 2, 3] 0 0 ?sg"
    unfolding peer_segment_def
    by (rule exI [of _ 0]) (simp add: data, simp add: ps sent_segment_def)
  then have "peer_run [1, 2, 3] 0 end_b c [] ([] @ concat (drop (length (t_rxq end_b)) (t_rxq c)))"
    by (intro pr_packet [OF pr_start r]) simp
  then show ?thesis using c by (auto simp: end_b_def tcp_zero_def)
qed

theorem tcp_stream_witness:
  "\<exists>c. peer_run [1, 2, 3] 0 end_b c [] [1, 2, 3] \<and>
    [] @ concat (t_rxq c) = take (length ([] @ concat (t_rxq c))) [1, 2, 3] \<and>
    (t_state c \<in> {TCPStateCloseWait, TCPStateClosing, TCPStateLastAck, TCPStateTimeWait} \<longrightarrow>
      [] @ concat (t_rxq c) = [1, 2, 3]) \<and> t_state c = TCPStateCloseWait"
proof -
  obtain c where c: "peer_run [1, 2, 3] 0 end_b c [] [1, 2, 3]" "t_state c = TCPStateCloseWait"
    using end_b_run by blast
  have b: "t_state end_b = TCPStateEstablished" "\<not> t_fin_queued end_b" "t_rxq end_b = []" "rcv_nxt end_b = 0"
    by (simp_all add: end_b_def tcp_zero_def)
  from tcp_stream [OF b c(1)] c show ?thesis by blast
qed

end
