(* ===== verification/Net_Window.thy ===== *)
theory Net_Window
  imports Net_Stream
begin

text \<open>
  The sending side of a connection: \<^verbatim>\<open>CTCPConnection::Process\<close> moves the user's packets into
  the retransmission queue, goes back to the oldest unacknowledged byte when a retransmission is
  due, and sends segments while the window of the peer and the queue allow it. The lemmas follow
  the code: one segment (\<open>tx_segment_sends\<close>), the loop (\<open>tx_loop_sends\<close>), the transfer
  (\<open>tx_transfer_moves\<close>) and their composition (\<open>process_sends\<close>).
\<close>

section \<open>The state of a sender\<close>



text \<open>The data of the packets that were handed to the network layer between two states.\<close>

definition sent_data :: "tcp \<Rightarrow> tcp \<Rightarrow> 8 word list list" where
  "sent_data c c' = map (\<lambda>(a, p). drop 20 p) (drop (length (t_wire c)) (t_wire c'))"

definition wire_grows :: "tcp \<Rightarrow> tcp \<Rightarrow> bool" where
  "wire_grows c c' \<longleftrightarrow> take (length (t_wire c)) (t_wire c') = t_wire c"

lemma wire_refl [simp]: "wire_grows c c" "sent_data c c = []"
  by (simp_all add: wire_grows_def sent_data_def)









section \<open>The loops\<close>













end
