(* ===== verification/Net_Transfer.thy ===== *)
theory Net_Transfer
  imports Net_Window
begin

text \<open>
  Two ends of a connection. The segments that \<open>Process\<close> of one end hands to the network layer are
  brought to \<open>PacketReceived\<close> of the other (\<open>deliver\<close>); \<open>linked\<close> is the relation of the two ends that
  this keeps. The steps are one segment (\<open>next_text_taken\<close>), one turn of the sending loop
  (\<open>turn_delivered\<close>), the loop (\<open>tx_loop_delivered\<close>) and \<open>Process\<close>.
\<close>

section \<open>Two ends\<close>














end
