(* ===== verification/Net_Options.thy ===== *)
theory Net_Options
  imports Net_Tcp
begin

text \<open>
  \<^verbatim>\<open>CTCPConnection::ScanOptions\<close>: when its loop ends, and which segment sizes it can set.
  \<open>option_walk\<close> are the offsets the loop comes to, \<open>stuck_option\<close> is an option of length 0.
\<close>

unbundle bit_operations_syntax

section \<open>The walk over the options\<close>

inductive option_walk :: "8 word list \<Rightarrow> nat \<Rightarrow> nat \<Rightarrow> nat \<Rightarrow> bool" for p hend where
  walk_start: "option_walk p hend i i"
| walk_nop: "i + 2 \<le> hend \<Longrightarrow> p ! i = 1 \<Longrightarrow> option_walk p hend (i + 1) j \<Longrightarrow> option_walk p hend i j"
| walk_option: "i + 2 \<le> hend \<Longrightarrow> p ! i \<noteq> 0 \<Longrightarrow> p ! i \<noteq> 1 \<Longrightarrow>
    option_walk p hend (i + unat (p ! (i + 1))) j \<Longrightarrow> option_walk p hend i j"

definition stuck_option :: "8 word list \<Rightarrow> nat \<Rightarrow> nat \<Rightarrow> bool" where
  "stuck_option p hend i \<longleftrightarrow> i + 2 \<le> hend \<and> p ! i \<noteq> 0 \<and> p ! i \<noteq> 1 \<and> p ! (i + 1) = 0"

lemma stuck_never_returns: "scan_options p i hend mss = Some m \<Longrightarrow> \<not> stuck_option p hend i"
proof (erule scan_options.raw_induct [where P = "\<lambda>p i hend mss m. \<not> stuck_option p hend i", rotated])
  fix f p i hend mss m
  assume IH: "\<And>p i hend mss m. f p i hend mss = Some m \<Longrightarrow> \<not> stuck_option p hend i"
    and body: "(if i + 2 \<le> hend then
       if p ! i = 0 then Some mss
       else if p ! i = 1 then f p (i + 1) hend mss
       else f p (i + unat (p ! (i + 1))) hend (scan_mss p i hend mss)
     else Some mss) = Some m"
  show "\<not> stuck_option p hend i"
  proof
    assume stuck: "stuck_option p hend i"
    then have "f p i hend (scan_mss p i hend mss) = Some m"
      using body by (simp add: stuck_option_def)
    from IH [OF this] stuck show False by blast
  qed
qed

lemma walk_stuck:
  assumes "option_walk p hend i j" "stuck_option p hend j"
  shows "scan_options p i hend mss = None"
  using assms
proof (induction arbitrary: mss rule: option_walk.induct)
  case (walk_start i)
  then show ?case using stuck_never_returns by (cases "scan_options p i hend mss") blast+
next
  case (walk_nop i j)
  then show ?case by (subst scan_options.simps) simp
next
  case (walk_option i j)
  then show ?case by (subst scan_options.simps) simp
qed

lemma not_stuck_returns:
  assumes "\<forall>j. option_walk p hend i j \<longrightarrow> \<not> stuck_option p hend j"
  shows "\<exists>m. scan_options p i hend mss = Some m"
  using assms
proof (induction "hend - i" arbitrary: i mss rule: less_induct)
  case less
  consider "\<not> i + 2 \<le> hend \<or> p ! i = 0" | "i + 2 \<le> hend" "p ! i = 1"
    | "i + 2 \<le> hend" "p ! i \<noteq> 0" "p ! i \<noteq> 1" by blast
  then show ?case
  proof cases
    case 1
    then show ?thesis by (subst scan_options.simps) auto
  next
    case 2
    then have "\<exists>m. scan_options p (i + 1) hend mss = Some m"
      using less walk_nop [OF 2] by simp
    then show ?thesis using 2 by (subst scan_options.simps) simp
  next
    case 3
    have "\<not> stuck_option p hend i" using less.prems walk_start by blast
    then have "0 < unat (p ! (i + 1))" using 3 by (simp add: stuck_option_def unat_gt_0)
    then have "hend - (i + unat (p ! (i + 1))) < hend - i" using 3(1) by linarith
    then have "\<exists>m. scan_options p (i + unat (p ! (i + 1))) hend (scan_mss p i hend mss) = Some m"
      using less walk_option [OF 3] by blast
    then show ?thesis using 3 by (subst scan_options.simps) simp
  qed
qed

section \<open>The segment size\<close>

definition mss_ok :: "16 word \<Rightarrow> bool" where
  "mss_ok m \<longleftrightarrow> 10 \<le> unat m \<and> unat m \<le> 1460"

lemma option_mss_small: "unat (option_mss p i) \<le> 1460"
proof -
  define n :: "32 word" where "n = push_bit 8 (ucast (p ! (i + 2))) OR ucast (p ! (i + 3))"
  define k :: "32 word" where "k = (if n + 20 \<le> MSS_S then n + 20 else MSS_S)"
  have "take_bit 16 n = n"
    unfolding n_def by (rule bit_word_eqI) (auto simp: bit_simps dest: bit_imp_le_length)
  then have "unat n = take_bit 16 (unat n)" by (metis unsigned_take_bit_eq)
  then have "unat n < 65536" using take_bit_nat_less_exp [of 16 "unat n"] by simp
  then have "unat (n + 20) = unat n + 20" by (simp add: unat_word_ariths)
  then have k: "20 \<le> unat k" "unat k \<le> 1480"
    by (auto simp: k_def MSS_S_def word_le_nat_alt)
  have "option_mss p i = k - 20" by (simp add: option_mss_def n_def k_def Let_def)
  then show ?thesis using k by (simp add: unat_sub word_le_nat_alt)
qed

lemma scan_mss_ok: "scan_mss p i hend mss = mss \<or> mss_ok (scan_mss p i hend mss)"
proof -
  have "unat (ucast (option_mss p i) :: 16 word) = unat (option_mss p i)"
    using option_mss_small [of p i] by (simp add: unsigned_ucast_eq take_bit_nat_eq_self)
  then show ?thesis
    using option_mss_small [of p i] by (auto simp: scan_mss_def mss_ok_def word_le_nat_alt)
qed

lemma scan_options_mss: "scan_options p i hend mss = Some m \<Longrightarrow> m = mss \<or> mss_ok m"
proof (erule scan_options.raw_induct [where P = "\<lambda>p i hend mss m. m = mss \<or> mss_ok m", rotated])
  fix f p i hend mss m
  assume IH: "\<And>p i hend mss m. f p i hend mss = Some m \<Longrightarrow> m = mss \<or> mss_ok m"
    and body: "(if i + 2 \<le> hend then
       if p ! i = 0 then Some mss
       else if p ! i = 1 then f p (i + 1) hend mss
       else f p (i + unat (p ! (i + 1))) hend (scan_mss p i hend mss)
     else Some mss) = Some m"
  show "m = mss \<or> mss_ok m"
    using body scan_mss_ok [of p i hend mss] by (auto split: if_splits dest!: IH)
qed

text \<open>C35: When \<open>ScanOptions\<close> returns, and what it sets. Over any packet it returns unless its walk
  meets an option other than END and NOP whose length is 0, and then it never does: it steps on
  the spot for ever. When it returns, the segment size is the one it was, or one from 10 to 1460.\<close>

theorem options_scanned:
  "(scan_options p i hend mss = None \<longleftrightarrow> (\<exists>j. option_walk p hend i j \<and> stuck_option p hend j)) \<and>
   (\<forall>m. scan_options p i hend mss = Some m \<longrightarrow> m = mss \<or> mss_ok m)"
proof -
  have "scan_options p i hend mss = None"
    if "option_walk p hend i j" "stuck_option p hend j" for j
    by (rule walk_stuck [OF that])
  moreover have "\<exists>j. option_walk p hend i j \<and> stuck_option p hend j" if "scan_options p i hend mss = None"
    using not_stuck_returns [of p hend i mss] that by auto
  ultimately show ?thesis using scan_options_mss by blast
qed

theorem options_scanned_witness:
  "\<exists>m. scan_options [2, 4, 2, 0] 0 4 536 = Some m \<and> (m = 536 \<or> mss_ok m) \<and>
    scan_options [1, 9, 0, 0] 0 4 536 = None"
proof -
  have "scan_options [2, 4, 2, 0] 0 4 536 = Some (scan_mss [2, 4, 2, 0] 0 4 536)"
    by (subst scan_options.simps, subst scan_options.simps) simp
  moreover have "option_walk [1, 9, 0, 0] 4 0 1" "stuck_option [1, 9, 0, 0] 4 1"
    using walk_nop [of 0 4 "[1, 9, 0, 0]" 1] walk_start by (simp_all add: stuck_option_def)
  ultimately show ?thesis
    using options_scanned [of "[2, 4, 2, 0]" 0 4 536] options_scanned [of "[1, 9, 0, 0]" 0 4 536] by blast
qed

end
