(* ===== verification/Net_Udp.thy ===== *)
theory Net_Udp
  imports Net_Wire
begin

text \<open>
  \<^verbatim>\<open>CUDPConnection\<close> (\<^verbatim>\<open>lib/net/udpconnection.cpp\<close>): datagrams from and to one port. The conventions
  are those of the TCP connection: \<open>None\<close> is a failed \<open>assert\<close>, \<open>u_wire\<close> collects the packets given
  to the network layer with their receivers, what \<open>CNetworkLayer::Send\<close> returns is the argument
  \<open>sent\<close>, and a call that waits returns \<open>TcpWait\<close>. An entry of the receive queue carries the
  address and the port of its sender, \<open>TUDPPrivateData\<close>. The addresses of the own host are those of
  \<^verbatim>\<open>CNetConfig\<close>.
\<close>

definition IPPROTO_UDP :: "32 word" where "IPPROTO_UDP = 17"

record net_config =
  nc_ip :: "32 word"
  nc_broadcast :: "32 word"

record udp =
  u_open :: bool
  u_active :: bool
  u_rxq :: "(8 word list \<times> 32 word \<times> 16 word) list"
  u_event :: bool
  u_broadcasts :: bool
  u_errno :: int
  u_own_port :: "16 word"
  u_foreign_ip :: "32 word option"
  u_foreign_port :: "16 word"
  u_checksum :: checksum_calc
  u_wire :: "(32 word \<times> 8 word list) list"

section \<open>Opening and closing\<close>

definition udp_open_active :: "net_config \<Rightarrow> 32 word \<Rightarrow> 16 word \<Rightarrow> 16 word \<Rightarrow> udp" where
  "udp_open_active cfg foreignIP nForeignPort nOwnPort =
    \<lparr>u_open = True, u_active = True, u_rxq = [], u_event = False, u_broadcasts = False, u_errno = 0,
     u_own_port = nOwnPort, u_foreign_ip = Some foreignIP, u_foreign_port = nForeignPort,
     u_checksum = cs_new (ip_bytes (nc_ip cfg)) (ip_bytes foreignIP) IPPROTO_UDP, u_wire = []\<rparr>"

definition udp_open_passive :: "net_config \<Rightarrow> 16 word \<Rightarrow> 8 word list \<Rightarrow> udp" where
  "udp_open_passive cfg nOwnPort junk =
    \<lparr>u_open = True, u_active = False, u_rxq = [], u_event = False, u_broadcasts = False, u_errno = 0,
     u_own_port = nOwnPort, u_foreign_ip = None, u_foreign_port = 0,
     u_checksum = cs_new_source (ip_bytes (nc_ip cfg)) IPPROTO_UDP junk, u_wire = []\<rparr>"

definition udp_connect :: "udp \<Rightarrow> int option" where
  "udp_connect c = (if u_open c then Some 0 else None)"

definition udp_accept :: "udp \<Rightarrow> int" where
  "udp_accept c = - 1"

definition udp_close :: "udp \<Rightarrow> int \<times> udp" where
  "udp_close c = (if \<not> u_open c then (- 1, c) else (0, c\<lparr>u_open := False\<rparr>))"

definition udp_set_option_broadcast :: "bool \<Rightarrow> udp \<Rightarrow> int \<times> udp" where
  "udp_set_option_broadcast bAllowed c = (0, c\<lparr>u_broadcasts := bAllowed\<rparr>)"

definition udp_is_connected :: "udp \<Rightarrow> bool" where
  "udp_is_connected c = False"

definition udp_is_terminated :: "udp \<Rightarrow> bool" where
  "udp_is_terminated c \<longleftrightarrow> \<not> u_open c"

text \<open>The destructor.\<close>

definition udp_delete :: "udp \<Rightarrow> unit option" where
  "udp_delete c = (if \<not> u_open c then Some () else None)"

definition udp_process :: "udp \<Rightarrow> udp" where
  "udp_process c = c"

section \<open>Sending\<close>

text \<open>A pending error is returned once.\<close>

definition udp_take_errno :: "udp \<Rightarrow> int \<times> udp" where
  "udp_take_errno c = (u_errno c, c\<lparr>u_errno := 0\<rparr>)"

definition udp_broadcast :: "net_config \<Rightarrow> 32 word \<Rightarrow> bool" where
  "udp_broadcast cfg a \<longleftrightarrow> a = 0xFFFFFFFF \<or> a = nc_broadcast cfg"

definition udp_front :: "16 word \<Rightarrow> 16 word \<Rightarrow> 32 word \<Rightarrow> 8 word list" where
  "udp_front nOwnPort nForeignPort nPacketLength =
    be16 nOwnPort @ be16 nForeignPort @ be16 (ucast nPacketLength)"

text \<open>What \<open>Send\<close> and \<open>SendTo\<close> share, from the computation of the packet length on.\<close>

definition udp_transmit :: "net_config \<Rightarrow> bool \<Rightarrow> 32 word option \<Rightarrow> 16 word \<Rightarrow> 8 word list \<Rightarrow> udp \<Rightarrow>
    (int \<times> udp) option" where
  "udp_transmit cfg sent peer nForeignPort dat c =
    (let nPacketLength = 8 + of_nat (length dat) :: 32 word
     in if nPacketLength \<le> 8 \<or> unat nPacketLength > FRAME_BUFFER_SIZE then Some (- 1, c)
        else case peer of None \<Rightarrow> None
        | Some a \<Rightarrow>
          if \<not> u_broadcasts c \<and> udp_broadcast cfg a then Some (- 1, c)
          else
            let u = udp_front (u_own_port c) nForeignPort nPacketLength;
                c = c\<lparr>u_checksum := cs_set_dest (ip_bytes a) (cs_set_source (ip_bytes (nc_ip cfg)) (u_checksum c))\<rparr>
            in case cs_calculate (u_checksum c) (u @ [0, 0] @ dat) of None \<Rightarrow> None
               | Some x \<Rightarrow> Some (if sent then int (length dat) else - 1,
                   c\<lparr>u_wire := u_wire c @ [(a, u @ le16 x @ dat)]\<rparr>))"

definition udp_flags_ok :: "int \<Rightarrow> bool" where
  "udp_flags_ok nFlags \<longleftrightarrow> nFlags = 0 \<or> nFlags = MSG_DONTWAIT"

definition udp_send :: "net_config \<Rightarrow> bool \<Rightarrow> 8 word list \<Rightarrow> int \<Rightarrow> udp \<Rightarrow> (int \<times> udp) option" where
  "udp_send cfg sent dat nFlags c =
    (if u_errno c < 0 then Some (udp_take_errno c)
     else if \<not> u_active c then Some (- 1, c)
     else if \<not> udp_flags_ok nFlags then Some (- 1, c)
     else udp_transmit cfg sent (u_foreign_ip c) (u_foreign_port c) dat c)"

definition udp_send_to :: "net_config \<Rightarrow> bool \<Rightarrow> 8 word list \<Rightarrow> int \<Rightarrow> 32 word \<Rightarrow> 16 word \<Rightarrow> udp \<Rightarrow>
    (int \<times> udp) option" where
  "udp_send_to cfg sent dat nFlags foreignIP nForeignPort c =
    (if u_errno c < 0 then Some (udp_take_errno c)
     else if u_active c then udp_send cfg sent dat nFlags c
     else if \<not> udp_flags_ok nFlags then Some (- 1, c)
     else udp_transmit cfg sent (Some foreignIP) nForeignPort dat c)"

section \<open>Receiving\<close>

definition udp_enqueue :: "8 word list \<Rightarrow> 32 word \<Rightarrow> 16 word \<Rightarrow> udp \<Rightarrow> udp option" where
  "udp_enqueue p sender nPort c =
    (if 0 < length p \<and> length p \<le> FRAME_BUFFER_SIZE
     then Some (c\<lparr>u_rxq := u_rxq c @ [(p, sender, nPort)]\<rparr>) else None)"

text \<open>The loop of \<open>Receive\<close> and \<open>ReceiveFrom\<close> from its beginning; after a wait it goes on there, too.
  The result is the length or an error, the data, and the sender.\<close>

definition udp_receive_from ::
  "int \<Rightarrow> bool \<Rightarrow> udp \<Rightarrow> (int \<times> 8 word list \<times> (32 word \<times> 16 word) option) tcp_result \<times> udp" where
  "udp_receive_from nFlags wanted c =
    (if u_errno c < 0 then (TcpDone (u_errno c, [], None), snd (udp_take_errno c))
     else case u_rxq c of
       [] \<Rightarrow> if nFlags = MSG_DONTWAIT then (TcpDone (0, [], None), c)
             else (TcpWait, c\<lparr>u_event := False\<rparr>)
     | (p, a, nPort) # q \<Rightarrow>
         (TcpDone (int (length p), p, if wanted then Some (a, nPort) else None), c\<lparr>u_rxq := q\<rparr>))"

definition udp_receive :: "int \<Rightarrow> udp \<Rightarrow> (int \<times> 8 word list) tcp_result \<times> udp" where
  "udp_receive nFlags c = (case udp_receive_from nFlags False c of
     (TcpDone (n, p, x), c) \<Rightarrow> (TcpDone (n, p), c)
   | (TcpWait, c) \<Rightarrow> (TcpWait, c))"

text \<open>Is the packet from the peer? An active connection to a broadcast address takes answers from
  every host.\<close>

definition udp_from_peer :: "net_config \<Rightarrow> 32 word \<Rightarrow> 16 word \<Rightarrow> udp \<Rightarrow> bool option" where
  "udp_from_peer cfg sender nSourcePort c =
    (if \<not> u_active c then Some True
     else if u_foreign_port c \<noteq> nSourcePort then Some False
     else case u_foreign_ip c of None \<Rightarrow> None
     | Some a \<Rightarrow> Some (a = sender \<or> udp_broadcast cfg a))"

definition udp_checked :: "8 word list \<Rightarrow> 32 word \<Rightarrow> 32 word \<Rightarrow> 32 word \<Rightarrow> udp \<Rightarrow> (bool \<times> udp) option" where
  "udp_checked p nLength sender receiver c =
    (if load16 (p ! 6) (p ! 7) = 0 then Some (True, c)
     else
       let c = c\<lparr>u_checksum := cs_set_dest (ip_bytes receiver) (cs_set_source (ip_bytes sender) (u_checksum c))\<rparr>
       in map_option (\<lambda>x. (x = CHECKSUM_OK, c)) (cs_calculate (u_checksum c) (take (unat nLength) p)))"

definition udp_packet_received :: "net_config \<Rightarrow> 8 word list \<Rightarrow> 32 word \<Rightarrow> 32 word \<Rightarrow> 32 word \<Rightarrow> 32 word \<Rightarrow>
    udp \<Rightarrow> (int \<times> udp) option" where
  "udp_packet_received cfg p nLength sender receiver nProtocol c =
    (if nProtocol \<noteq> IPPROTO_UDP then Some (0, c)
     else if nLength \<le> 8 then Some (- 1, c)
     else if u_own_port c \<noteq> get_be16 p 2 then Some (0, c)
     else case udp_from_peer cfg sender (get_be16 p 0) c of None \<Rightarrow> None
     | Some False \<Rightarrow> Some (0, c)
     | Some True \<Rightarrow>
       if nLength < ucast (get_be16 p 4) then Some (- 1, c)
       else case udp_checked p nLength sender receiver c of None \<Rightarrow> None
       | Some (False, c) \<Rightarrow> Some (- 1, c)
       | Some (True, c) \<Rightarrow>
         if \<not> u_broadcasts c \<and> udp_broadcast cfg receiver then Some (1, c)
         else map_option (\<lambda>c. (1, c\<lparr>u_event := True\<rparr>))
           (udp_enqueue (take (unat nLength - 8) (drop 8 p)) sender (get_be16 p 0) c))"

definition udp_notification_received ::
  "net_config \<Rightarrow> 32 word \<Rightarrow> 32 word \<Rightarrow> 16 word \<Rightarrow> 16 word \<Rightarrow> 32 word \<Rightarrow> udp \<Rightarrow> (int \<times> udp) option" where
  "udp_notification_received cfg sender receiver nSendPort nReceivePort nProtocol c =
    (if nProtocol \<noteq> IPPROTO_UDP \<or> u_own_port c \<noteq> nReceivePort \<or> receiver \<noteq> nc_ip cfg then Some (0, c)
     else if u_active c \<and> u_foreign_port c \<noteq> nSendPort then Some (0, c)
     else if u_active c \<and> u_foreign_ip c = None then None
     else if u_active c \<and> u_foreign_ip c \<noteq> Some sender then Some (0, c)
     else Some (1, c\<lparr>u_errno := - 1, u_event := True\<rparr>))"

section \<open>From one port to the other\<close>

lemma cs_calculate_swap:
  assumes "length src = 4" "length dst = 4" "length p \<le> 65535"
  shows "cs_calculate (cs_new dst src proto) p = cs_calculate (cs_new src dst proto) p"
proof (cases "p = []")
  case True
  then show ?thesis by (simp add: cs_calculate_def)
next
  case False
  have wf: "cs_wf (cs_new src dst proto)" "cs_wf (cs_new dst src proto)"
    using assms(1,2) by (simp_all add: cs_wf_def cs_new_def)
  obtain x y where xy: "cs_calculate (cs_new src dst proto) p = Some x" "cs_calculate (cs_new dst src proto) p = Some y"
    using False by (auto simp: cs_calculate_def cs_new_def)
  have "unat x = unat y"
    using cs_calculate_eq [OF wf(1), of p] cs_calculate_eq [OF wf(2), of p] xy assms(3) False
      cs_total_swap [OF assms(1,2), of proto p] by simp
  then show ?thesis using xy by (simp add: word_unat_eq_iff)
qed

text \<open>A packet length that is not smaller than the header did not wrap around.\<close>

lemma packet_length:
  fixes k :: "32 word"
  assumes "\<not> k + of_nat n \<le> k" "n < 2 ^ 32"
  shows "unat (k + of_nat n) = unat k + n"
proof -
  have "unat (of_nat n :: 32 word) = n" using assms(2) by (simp add: unat_of_nat)
  then have e: "unat (k + of_nat n) = (unat k + n) mod 4294967296" by (simp add: unat_word_ariths)
  have m: "n < 4294967296" using assms(2) by simp
  have g: "unat k < unat (k + of_nat n)" using assms(1) by (simp add: word_le_nat_alt not_le)
  show ?thesis
  proof (cases "unat k + n < 4294967296")
    case True
    then show ?thesis using e by simp
  next
    case False
    then have "(unat k + n) mod 4294967296 = (unat k + n - 4294967296) mod 4294967296"
      by (intro le_mod_geq) simp
    also have "\<dots> \<le> unat k + n - 4294967296" by (rule mod_less_eq_dividend)
    finally show ?thesis using m g e by linarith
  qed
qed

text \<open>A datagram that was given to the network layer, at the port it is for.\<close>

definition udp_takes :: "net_config \<Rightarrow> 32 word \<Rightarrow> 16 word \<Rightarrow> 32 word \<Rightarrow> udp \<Rightarrow> bool" where
  "udp_takes cfg sender nPort receiver d \<longleftrightarrow>
     (u_active d \<longrightarrow> u_foreign_ip d = Some sender \<and> u_foreign_port d = nPort) \<and>
     (u_broadcasts d \<or> \<not> udp_broadcast cfg receiver) \<and> cs_protocol (u_checksum d) = 17"

lemma transmit_delivered:
  assumes tx: "udp_transmit cfg True (Some b) nPort dat c = Some (n, c')" and n: "0 \<le> n"
    and len: "length dat < 2 ^ 32" and proto: "cs_protocol (u_checksum c) = 17"
    and d: "udp_takes cfg' (nc_ip cfg) (u_own_port c) b d" "u_own_port d = nPort"
  shows "n = int (length dat) \<and> (\<exists>p d'. u_wire c' = u_wire c @ [(b, p)] \<and>
    udp_packet_received cfg' p (of_nat (length p)) (nc_ip cfg) b IPPROTO_UDP d = Some (1, d') \<and>
    u_rxq d' = u_rxq d @ [(dat, nc_ip cfg, u_own_port c)] \<and> u_errno d' = u_errno d)"
proof -
  define L where "L = (8 + of_nat (length dat) :: 32 word)"
  define u where "u = udp_front (u_own_port c) nPort L"
  let ?k = "cs_new (ip_bytes (nc_ip cfg)) (ip_bytes b) IPPROTO_UDP"
  have k: "cs_set_dest (ip_bytes b) (cs_set_source (ip_bytes (nc_ip cfg)) x) = ?k"
    if "cs_protocol x = 17" for x :: checksum_calc
    using that by (simp add: cs_set_dest_def cs_set_source_def cs_new_def IPPROTO_UDP_def)
  have L: "\<not> L \<le> 8" "unat L \<le> FRAME_BUFFER_SIZE" and cs: "\<exists>x. cs_calculate ?k (u @ [0, 0] @ dat) = Some x \<and>
      n = int (length dat) \<and> c' = c\<lparr>u_checksum := ?k, u_wire := u_wire c @ [(b, u @ le16 x @ dat)]\<rparr>"
    using tx n unfolding udp_transmit_def Let_def L_def [symmetric] u_def [symmetric]
    by (auto simp: k [OF proto] split: if_splits option.splits)
  obtain x where x: "cs_calculate ?k (u @ [0, 0] @ dat) = Some x" and nd: "n = int (length dat)"
    and c': "u_wire c' = u_wire c @ [(b, u @ le16 x @ dat)]"
    using cs by auto
  have lu: "length u = 6" by (simp add: u_def udp_front_def be16_def)
  have uL: "unat L = 8 + length dat"
    using packet_length [OF _ len, of 8] L(1) by (simp add: L_def)
  have ld: "0 < length dat" "length dat \<le> 1592" "8 + length dat \<le> FRAME_BUFFER_SIZE"
    using L uL by (auto simp: word_le_nat_alt FRAME_BUFFER_SIZE_def)
  define p where "p = u @ le16 x @ dat"
  have lp: "length p = 8 + length dat" by (simp add: p_def lu le16_def)
  define N :: "32 word" where "N = of_nat (length p)"
  have wp: "unat N = 8 + length dat"
    unfolding N_def lp unat_of_nat by (rule mod_less) (use ld(2) in simp)
  have tk: "take (unat N) p = p" by (simp add: wp lp)
  have parse: "get_be16 p 0 = u_own_port c" "get_be16 p 2 = nPort" "get_be16 p 4 = ucast L"
    by (simp_all add: p_def u_def udp_front_def be16_def get_be16_def load16_be16)
  have fit: "\<not> N < (ucast (ucast L :: 16 word) :: 32 word)"
  proof -
    have "take_bit 16 (unat L) = unat L"
      by (rule take_bit_nat_eq_self) (use uL ld(2) in simp)
    then have "unat (ucast (ucast L :: 16 word) :: 32 word) = 8 + length dat"
      using uL by (simp add: unsigned_ucast_eq unsigned_take_bit_eq)
    then show ?thesis by (simp add: word_less_nat_alt wp)
  qed
  have peer: "udp_from_peer cfg' (nc_ip cfg) (u_own_port c) d = Some True"
    using d(1) by (simp add: udp_takes_def udp_from_peer_def)
  have ok: "cs_calculate ?k p = Some CHECKSUM_OK"
  proof -
    let ?s = "cs_new (ip_bytes b) (ip_bytes (nc_ip cfg)) IPPROTO_UDP"
    have ip: "length (ip_bytes a) = 4" for a by (simp add: ip_bytes_def)
    have "cs_calculate ?s (u @ [0, 0] @ dat) = Some x"
      using cs_calculate_swap [OF ip ip, of "u @ [0, 0] @ dat"] x lu ld(2) by simp
    from cs_accepted [OF ip ip _ _ this] show ?thesis
      using lu ld(2) by (simp add: p_def le16_def)
  qed
  have chk: "\<exists>k. udp_checked p N (nc_ip cfg) b d = Some (True, d\<lparr>u_checksum := k\<rparr>)"
  proof (cases "load16 (p ! 6) (p ! 7) = 0")
    case True
    then show ?thesis by (intro exI [of _ "u_checksum d"]) (simp add: udp_checked_def)
  next
    case False
    then show ?thesis using d(1) ok
      by (intro exI [of _ ?k]) (simp add: udp_checked_def udp_takes_def k tk Let_def)
  qed
  then obtain kk where kk: "udp_checked p N (nc_ip cfg) b d = Some (True, d\<lparr>u_checksum := kk\<rparr>)" ..
  have bc: "(\<not> u_broadcasts d \<and> udp_broadcast cfg' b) = False" using d(1) by (auto simp: udp_takes_def)
  have "drop 8 p = dat" by (simp add: p_def lu le16_def)
  let ?e = "d\<lparr>u_checksum := kk, u_rxq := u_rxq d @ [(dat, nc_ip cfg, u_own_port c)], u_event := True\<rparr>"
  have "udp_packet_received cfg' p N (nc_ip cfg) b IPPROTO_UDP d = Some (1, ?e)"
    using d(2) ld fit kk peer wp bc \<open>drop 8 p = dat\<close> unfolding udp_packet_received_def
    by (cases "u_broadcasts d") (simp_all add: parse udp_enqueue_def word_le_nat_alt)
  moreover have "u_rxq ?e = u_rxq d @ [(dat, nc_ip cfg, u_own_port c)]" "u_errno ?e = u_errno d" by simp_all
  moreover have "u_wire c' = u_wire c @ [(b, p)]" using c' by (simp only: p_def)
  ultimately show ?thesis using nd unfolding N_def by blast
qed

lemma receive_first:
  "u_rxq c = (p, a, nPort) # q \<Longrightarrow> 0 \<le> u_errno c \<Longrightarrow>
    fst (udp_receive_from fl True c) = TcpDone (int (length p), p, Some (a, nPort))"
  by (simp add: udp_receive_from_def)

text \<open>C23: A datagram arrives as it was sent. When \<open>SendTo\<close> (or \<open>Send\<close>, for a connection to one host)
  reports success for some data and the network layer takes the packet, it reports its whole
  length, and the packet, brought to a connection of the receiver that is bound to the port it
  was sent to and takes it (\<open>udp_takes\<close>: it is not connected to another host or port, and it allows
  broadcasts if the packet is one), is accepted: its checksum is right, also when it happens to be
  0, and the receive queue gets exactly the data, with the address and the port of the sender. When
  nothing else waits and no error is pending there, \<open>ReceiveFrom\<close> returns that.\<close>

theorem datagram_delivered:
  assumes "udp_send_to cfg True dat nFlags b nPort c = Some (n, c')" "0 \<le> n" "length dat < 2 ^ 32"
    and "u_active c \<longrightarrow> u_foreign_ip c = Some b \<and> u_foreign_port c = nPort"
    and "cs_protocol (u_checksum c) = 17" "udp_takes cfg' (nc_ip cfg) (u_own_port c) b d" "u_own_port d = nPort"
  shows "n = int (length dat) \<and> (\<exists>p d'. u_wire c' = u_wire c @ [(b, p)] \<and>
    udp_packet_received cfg' p (of_nat (length p)) (nc_ip cfg) b IPPROTO_UDP d = Some (1, d') \<and>
    u_rxq d' = u_rxq d @ [(dat, nc_ip cfg, u_own_port c)] \<and>
    (u_rxq d = [] \<and> 0 \<le> u_errno d \<longrightarrow> fst (udp_receive_from rFlags True d') =
      TcpDone (int (length dat), dat, Some (nc_ip cfg, u_own_port c))))"
proof -
  have "udp_transmit cfg True (Some b) nPort dat c = Some (n, c')"
    using assms(1,2,4) by (auto simp: udp_send_to_def udp_send_def udp_take_errno_def split: if_splits)
  from transmit_delivered [OF this assms(2,3,5-7)] obtain p d' where n: "n = int (length dat)"
    and r: "u_wire c' = u_wire c @ [(b, p)]"
    "udp_packet_received cfg' p (of_nat (length p)) (nc_ip cfg) b IPPROTO_UDP d = Some (1, d')"
    and q: "u_rxq d' = u_rxq d @ [(dat, nc_ip cfg, u_own_port c)]" "u_errno d' = u_errno d" by blast
  have "fst (udp_receive_from rFlags True d') = TcpDone (int (length dat), dat, Some (nc_ip cfg, u_own_port c))"
    if "u_rxq d = []" "0 \<le> u_errno d"
    by (rule receive_first [of _ _ _ _ "[]"]) (use q that in simp_all)
  with n r q(1) show ?thesis by blast
qed

definition udp_host :: net_config where
  "udp_host = \<lparr>nc_ip = 0x0100000A, nc_broadcast = 0xFF00000A\<rparr>"

theorem datagram_delivered_witness:
  "\<exists>c' p d'. udp_send_to udp_host True [1, 2, 3] 0 0x0200000A 53 (udp_open_active udp_host 0x0200000A 53 1000)
      = Some (3, c') \<and> u_wire c' = [(0x0200000A, p)] \<and>
    udp_packet_received udp_host p (of_nat (length p)) 0x0100000A 0x0200000A IPPROTO_UDP
      (udp_open_passive udp_host 53 [0, 0, 0, 0]) = Some (1, d') \<and>
    u_rxq d' = [([1, 2, 3], 0x0100000A, 1000)]"
proof -
  let ?c = "udp_open_active udp_host 0x0200000A 53 1000" and ?d = "udp_open_passive udp_host 53 [0, 0, 0, 0]"
  have "\<exists>c'. udp_send_to udp_host True [1, 2, 3] 0 0x0200000A 53 ?c = Some (3, c')"
    by (simp add: udp_send_to_def udp_send_def udp_transmit_def udp_open_active_def udp_flags_ok_def
        udp_broadcast_def udp_host_def FRAME_BUFFER_SIZE_def Let_def cs_calculate_def cs_set_dest_def
        udp_front_def be16_def)
  then obtain c' where c': "udp_send_to udp_host True [1, 2, 3] 0 0x0200000A 53 ?c = Some (3, c')" ..
  have "u_active ?c \<longrightarrow> u_foreign_ip ?c = Some 0x0200000A \<and> u_foreign_port ?c = 53"
    "cs_protocol (u_checksum ?c) = 17" "udp_takes udp_host (nc_ip udp_host) (u_own_port ?c) 0x0200000A ?d"
    "u_own_port ?d = 53"
    by (simp_all add: udp_open_active_def udp_open_passive_def udp_takes_def udp_broadcast_def udp_host_def
        cs_new_def cs_new_source_def IPPROTO_UDP_def)
  note * = datagram_delivered [OF c' _ _ this, of 0]
  have "u_wire ?c = []" "u_rxq ?d = []" "u_own_port ?c = 1000" "nc_ip udp_host = 0x0100000A"
    by (simp_all add: udp_host_def udp_open_active_def udp_open_passive_def)
  with * c' show ?thesis by auto
qed

end
