(* ===== verification/Net_Transport.thy ===== *)
theory Net_Transport
  imports Net_Udp
begin

text \<open>
  \<^verbatim>\<open>CTransportLayer\<close> and \<^verbatim>\<open>CTCPRejector\<close> (\<^verbatim>\<open>lib/net/transportlayer.cpp\<close>, \<^verbatim>\<open>tcprejector.cpp\<close>): the
  table of connections, to which packets are brought and from which handles are taken.

  \<^item> An entry of the table is empty or has a connection with its \<open>m_nProtocol\<close>, which the
    constructor for passive connections does not set: it is the argument \<open>junkProtocol\<close> there.
  \<^item> \<open>s_nConnections\<close> and the clock, which all TCP connections share, are fields here and are copied
    into a connection before it runs (\<open>tl_enter\<close>).
  \<^item> The packets and notifications that the network layer has for \<open>Process\<close> are lists.
  \<^item> The spin lock is not modelled: the tasks are cooperative, so a call is not interrupted but
    where it waits, and then it has returned \<open>TcpWait\<close>.
\<close>

unbundle bit_operations_syntax

section \<open>Segments for nobody\<close>

record tcp_rejector =
  rj_own_port :: "16 word"
  rj_foreign_ip :: "32 word option"
  rj_foreign_port :: "16 word"
  rj_checksum :: checksum_calc
  rj_wire :: "(32 word \<times> 8 word list) list"

definition rejector_new :: "net_config \<Rightarrow> 8 word list \<Rightarrow> tcp_rejector" where
  "rejector_new cfg junk = \<lparr>rj_own_port = 0, rj_foreign_ip = None, rj_foreign_port = 0,
     rj_checksum = cs_new_source (ip_bytes (nc_ip cfg)) IPPROTO_TCP junk, rj_wire = []\<rparr>"

definition rejector_send :: "16 word \<Rightarrow> 32 word \<Rightarrow> 32 word \<Rightarrow> tcp_rejector \<Rightarrow> tcp_rejector option" where
  "rejector_send nFlags nSequenceNumber nAcknowledgmentNumber r =
    (if nFlags AND TCP_FLAG_SYN = 0 then
       let u = be16 (rj_own_port r) @ be16 (rj_foreign_port r) @ be32 nSequenceNumber
             @ be32 (if nFlags AND TCP_FLAG_ACK \<noteq> 0 then nAcknowledgmentNumber else 0)
             @ le16 (push_bit 4 5 OR nFlags) @ be16 0
       in case cs_calculate (rj_checksum r) (u @ [0, 0] @ be16 0) of None \<Rightarrow> None
          | Some x \<Rightarrow> (case rj_foreign_ip r of None \<Rightarrow> None
             | Some a \<Rightarrow> Some (r\<lparr>rj_wire := rj_wire r @ [(a, u @ le16 x @ be16 0)]\<rparr>))
     else None)"

definition rejector_answer :: "segment \<Rightarrow> tcp_rejector \<Rightarrow> tcp_rejector option" where
  "rejector_answer sg r =
    (if has sg TCP_FLAG_RESET then Some r
     else if \<not> has sg TCP_FLAG_ACK
     then rejector_send (TCP_FLAG_RESET OR TCP_FLAG_ACK) 0 (sg_seq sg + sg_len sg) r
     else rejector_send TCP_FLAG_RESET (sg_ack sg) 0 r)"

definition rejector_received :: "net_config \<Rightarrow> 8 word list \<Rightarrow> 32 word \<Rightarrow> 32 word \<Rightarrow> 32 word \<Rightarrow> tcp_rejector \<Rightarrow>
    (int \<times> tcp_rejector) option" where
  "rejector_received cfg p nLength sender nProtocol r =
    (if nProtocol \<noteq> IPPROTO_TCP then Some (0, r)
     else if nLength < 20 then Some (- 1, r)
     else
       let r = r\<lparr>rj_own_port := get_be16 p 2\<rparr>
       in if rj_own_port r = 0 then Some (- 1, r)
          else if nc_ip cfg = 0 then Some (0, r)
          else
            let r = r\<lparr>rj_checksum := cs_set_dest (ip_bytes sender)
                  (cs_set_source (ip_bytes (nc_ip cfg)) (rj_checksum r))\<rparr>
            in case cs_calculate (rj_checksum r) (take (unat nLength) p) of None \<Rightarrow> None
               | Some x \<Rightarrow>
                 if x \<noteq> CHECKSUM_OK then Some (0, r)
                 else
                   let sg = parse_segment p nLength sender
                   in map_option (Pair 1) (rejector_answer sg
                        (r\<lparr>rj_foreign_ip := Some sender, rj_foreign_port := sg_sport sg\<rparr>)))"

section \<open>Connections\<close>

datatype connection = ConnTcp tcp | ConnUdp udp

type_synonym conn_table = "(32 word \<times> connection) option list"

record transport =
  tl_conns :: conn_table
  tl_own_port :: "16 word"
  tl_rejector :: tcp_rejector
  tl_count :: "32 word"
  tl_ticks :: "32 word"
  tl_secs :: "32 word"

record packet =
  pk_data :: "8 word list"
  pk_len :: "32 word"
  pk_sender :: "32 word"
  pk_receiver :: "32 word"
  pk_protocol :: "32 word"

record notification =
  nt_sender :: "32 word"
  nt_receiver :: "32 word"
  nt_send_port :: "16 word"
  nt_receive_port :: "16 word"
  nt_protocol :: "32 word"

definition OWN_PORT_MIN :: "16 word" where "OWN_PORT_MIN = 60000"
definition OWN_PORT_MAX :: "16 word" where "OWN_PORT_MAX = 60999"

definition transport_new :: "net_config \<Rightarrow> 8 word list \<Rightarrow> 32 word \<Rightarrow> 32 word \<Rightarrow> 32 word \<Rightarrow> transport" where
  "transport_new cfg junk count ticks secs = \<lparr>tl_conns = [], tl_own_port = OWN_PORT_MIN,
     tl_rejector = rejector_new cfg junk, tl_count = count, tl_ticks = ticks, tl_secs = secs\<rparr>"

definition tl_enter :: "transport \<Rightarrow> tcp \<Rightarrow> tcp" where
  "tl_enter s c = c\<lparr>t_connections := tl_count s, t_ticks := tl_ticks s, t_secs := tl_secs s\<rparr>"

definition conn_packet :: "net_config \<Rightarrow> transport \<Rightarrow> packet \<Rightarrow> connection \<Rightarrow> (int \<times> connection) option" where
  "conn_packet cfg s k c = (case c of
     ConnTcp t \<Rightarrow> map_option (map_prod id ConnTcp)
       (packet_received (pk_data k) (pk_len k) (pk_sender k) (pk_protocol k) (tl_enter s t))
   | ConnUdp u \<Rightarrow> map_option (map_prod id ConnUdp)
       (udp_packet_received cfg (pk_data k) (pk_len k) (pk_sender k) (pk_receiver k) (pk_protocol k) u))"

definition conn_notification :: "net_config \<Rightarrow> notification \<Rightarrow> connection \<Rightarrow> (int \<times> connection) option" where
  "conn_notification cfg n c = (case c of
     ConnTcp t \<Rightarrow> map_option (map_prod id ConnTcp) (notification_received (nt_sender n) (nt_receiver n)
       (nt_send_port n) (nt_receive_port n) (nt_protocol n) (nc_ip cfg) t)
   | ConnUdp u \<Rightarrow> map_option (map_prod id ConnUdp) (udp_notification_received cfg (nt_sender n)
       (nt_receiver n) (nt_send_port n) (nt_receive_port n) (nt_protocol n) u))"

definition conn_terminated :: "connection \<Rightarrow> bool" where
  "conn_terminated c = (case c of ConnTcp t \<Rightarrow> tcp_is_terminated t | ConnUdp u \<Rightarrow> udp_is_terminated u)"

definition conn_process :: "transport \<Rightarrow> connection \<Rightarrow> connection option" where
  "conn_process s c = (case c of
     ConnTcp t \<Rightarrow> map_option ConnTcp (tcp_process (tl_enter s t))
   | ConnUdp u \<Rightarrow> Some (ConnUdp (udp_process u)))"

definition conn_own_port :: "connection \<Rightarrow> 16 word option" where
  "conn_own_port c =
    (let nOwnPort = (case c of ConnTcp t \<Rightarrow> own_port t | ConnUdp u \<Rightarrow> u_own_port u)
     in if nOwnPort \<noteq> 0 then Some nOwnPort else None)"

section \<open>Process\<close>

text \<open>A packet goes along the table to the first connection that does not return 0; an empty entry
  is passed over.\<close>

fun tl_offer :: "(connection \<Rightarrow> (int \<times> connection) option) \<Rightarrow> conn_table \<Rightarrow> (bool \<times> conn_table) option" where
  "tl_offer f [] = Some (False, [])"
| "tl_offer f (None # cs) = map_option (map_prod id ((#) None)) (tl_offer f cs)"
| "tl_offer f (Some (pr, c) # cs) =
    (case f c of None \<Rightarrow> None
     | Some (r, c') \<Rightarrow>
       if r \<noteq> 0 then Some (True, Some (pr, c') # cs)
       else map_option (map_prod id ((#) (Some (pr, c')))) (tl_offer f cs))"

definition tl_packet :: "net_config \<Rightarrow> packet \<Rightarrow> transport \<Rightarrow> transport option" where
  "tl_packet cfg k s =
    (case tl_offer (conn_packet cfg s k) (tl_conns s) of None \<Rightarrow> None
     | Some (taken, cs) \<Rightarrow>
       let s = s\<lparr>tl_conns := cs\<rparr>
       in if taken then Some s
          else map_option (\<lambda>(r, j). s\<lparr>tl_rejector := j\<rparr>)
            (rejector_received cfg (pk_data k) (pk_len k) (pk_sender k) (pk_protocol k) (tl_rejector s)))"

definition tl_notification :: "net_config \<Rightarrow> notification \<Rightarrow> transport \<Rightarrow> transport option" where
  "tl_notification cfg n s =
    map_option (\<lambda>(taken, cs). s\<lparr>tl_conns := cs\<rparr>) (tl_offer (conn_notification cfg n) (tl_conns s))"

fun fold_option :: "('a \<Rightarrow> 's \<Rightarrow> 's option) \<Rightarrow> 'a list \<Rightarrow> 's \<Rightarrow> 's option" where
  "fold_option f [] s = Some s"
| "fold_option f (x # xs) s = (case f x s of None \<Rightarrow> None | Some s \<Rightarrow> fold_option f xs s)"

text \<open>A terminated connection is deleted, which counts \<open>s_nConnections\<close> down for a TCP connection.\<close>

definition tl_delete :: "connection \<Rightarrow> transport \<Rightarrow> transport option" where
  "tl_delete c s = (case c of
     ConnTcp t \<Rightarrow> map_option (\<lambda>t. s\<lparr>tl_count := t_connections t\<rparr>) (tcp_delete (tl_enter s t))
   | ConnUdp u \<Rightarrow> map_option (\<lambda>_. s) (udp_delete u))"

definition tl_run_one :: "nat \<Rightarrow> transport \<Rightarrow> transport option" where
  "tl_run_one i s = (case tl_conns s ! i of None \<Rightarrow> Some s
     | Some (pr, c) \<Rightarrow>
       if \<not> conn_terminated c
       then map_option (\<lambda>c. s\<lparr>tl_conns := (tl_conns s)[i := Some (pr, c)]\<rparr>) (conn_process s c)
       else map_option (\<lambda>s. s\<lparr>tl_conns := (tl_conns s)[i := None]\<rparr>) (tl_delete c s))"

definition tl_shrink :: "conn_table \<Rightarrow> conn_table" where
  "tl_shrink cs = rev (dropWhile (\<lambda>x. x = None) (rev cs))"

definition tl_process :: "net_config \<Rightarrow> packet list \<Rightarrow> notification list \<Rightarrow> transport \<Rightarrow> transport option" where
  "tl_process cfg ks ns s = do {
     s \<leftarrow> fold_option (tl_packet cfg) ks s;
     s \<leftarrow> fold_option (tl_notification cfg) ns s;
     s \<leftarrow> fold_option tl_run_one [0..<length (tl_conns s)] s;
     Some (s\<lparr>tl_conns := tl_shrink (tl_conns s)\<rparr>)
   }"

section \<open>Handles\<close>

text \<open>The first empty entry, or a new one at the end.\<close>

fun tl_slot :: "conn_table \<Rightarrow> nat \<times> conn_table" where
  "tl_slot [] = (0, [None])"
| "tl_slot (None # cs) = (0, None # cs)"
| "tl_slot (Some c # cs) = (case tl_slot cs of (i, cs) \<Rightarrow> (Suc i, Some c # cs))"

definition tl_bind :: "net_config \<Rightarrow> 32 word \<Rightarrow> 8 word list \<Rightarrow> 16 word \<Rightarrow> 32 word \<Rightarrow> transport \<Rightarrow> int \<times> transport" where
  "tl_bind cfg junkProtocol junk nOwnPort nProtocol s =
    (if nProtocol \<noteq> IPPROTO_UDP then (- 1, s)
     else case tl_slot (tl_conns s) of (i, cs) \<Rightarrow>
       if nOwnPort = 0 then (- 1, s\<lparr>tl_conns := cs\<rparr>)
       else (int i, s\<lparr>tl_conns := cs[i := Some (junkProtocol, ConnUdp (udp_open_passive cfg nOwnPort junk))]\<rparr>))"

definition tl_listen :: "net_config \<Rightarrow> 32 word \<Rightarrow> 8 word list \<Rightarrow> 8 word list \<Rightarrow> tcp \<Rightarrow> 16 word \<Rightarrow> 32 word \<Rightarrow>
    transport \<Rightarrow> (int \<times> transport) option" where
  "tl_listen cfg junkProtocol junk junk4 c0 nOwnPort nProtocol s =
    (case tl_slot (tl_conns s) of (i, cs) \<Rightarrow>
       let s = s\<lparr>tl_conns := cs\<rparr>
       in if nOwnPort = 0 \<or> nProtocol \<noteq> IPPROTO_TCP then Some (- 1, s)
          else map_option (\<lambda>c. (int i, s\<lparr>tl_conns := cs[i := Some (junkProtocol, ConnTcp c)],
                                         tl_count := t_connections c\<rparr>))
            (tcp_open_passive (nc_ip cfg) nOwnPort junk junk4 (tl_enter s c0)))"

text \<open>The search for a port that no connection of the protocol has: \<open>port_taken\<close> is the inner loop.\<close>

fun port_taken :: "conn_table \<Rightarrow> 32 word \<Rightarrow> 16 word \<Rightarrow> bool option" where
  "port_taken [] nProtocol nPort = Some False"
| "port_taken (None # cs) nProtocol nPort = port_taken cs nProtocol nPort"
| "port_taken (Some (pr, c) # cs) nProtocol nPort =
    (case conn_own_port c of None \<Rightarrow> None
     | Some p \<Rightarrow> if p = nPort \<and> pr = nProtocol then Some True else port_taken cs nProtocol nPort)"

definition next_port :: "16 word \<Rightarrow> 16 word" where
  "next_port p = (if p + 1 > OWN_PORT_MAX then OWN_PORT_MIN else p + 1)"

partial_function (option) port_search :: "conn_table \<Rightarrow> 32 word \<Rightarrow> 16 word \<Rightarrow> (16 word \<times> 16 word) option" where
  "port_search cs nProtocol p =
    (case port_taken cs nProtocol p of None \<Rightarrow> None
     | Some taken \<Rightarrow> if taken then port_search cs nProtocol (next_port p) else Some (p, next_port p))"

definition choose_port :: "16 word \<Rightarrow> 32 word \<Rightarrow> transport \<Rightarrow> (16 word \<times> transport) option" where
  "choose_port nOwnPort nProtocol s =
    (if nOwnPort = 0
     then map_option (\<lambda>(p, q). (p, s\<lparr>tl_own_port := q\<rparr>)) (port_search (tl_conns s) nProtocol (tl_own_port s))
     else Some (nOwnPort, s))"

text \<open>\<open>Connect\<close>; \<open>junk\<close>, \<open>c0\<close> and \<open>sent\<close> are those of \<open>tcp_open_active\<close>. While a TCP connection waits,
  \<open>TcpWait\<close> has been returned; \<open>tl_connect_woken\<close> goes on.\<close>

definition tl_open :: "net_config \<Rightarrow> bool \<Rightarrow> 8 word list \<Rightarrow> tcp \<Rightarrow> 32 word \<Rightarrow> 16 word \<Rightarrow> 16 word \<Rightarrow> 32 word \<Rightarrow>
    transport \<Rightarrow> (connection \<times> transport) option option" where
  "tl_open cfg sent junk c0 foreignIP nPort nOwnPort nProtocol s =
    (if nProtocol = IPPROTO_TCP then
       (case tcp_open_active (nc_ip cfg) foreignIP nPort nOwnPort sent junk (tl_enter s c0) of None \<Rightarrow> None
        | Some c \<Rightarrow> Some (Some (ConnTcp c, s\<lparr>tl_count := t_connections c\<rparr>)))
     else if nProtocol = IPPROTO_UDP
     then Some (Some (ConnUdp (udp_open_active cfg foreignIP nPort nOwnPort), s))
     else Some None)"

definition conn_connect :: "connection \<Rightarrow> (int tcp_result \<times> connection) option" where
  "conn_connect c = (case c of
     ConnTcp t \<Rightarrow> map_option (map_prod id ConnTcp) (tcp_connect t)
   | ConnUdp u \<Rightarrow> map_option (\<lambda>r. (TcpDone r, c)) (udp_connect u))"

definition tl_connect :: "net_config \<Rightarrow> bool \<Rightarrow> 8 word list \<Rightarrow> tcp \<Rightarrow> 32 word \<Rightarrow> 16 word \<Rightarrow> 16 word \<Rightarrow> 32 word \<Rightarrow>
    transport \<Rightarrow> (int tcp_result \<times> transport) option" where
  "tl_connect cfg sent junk c0 foreignIP nPort nOwnPort nProtocol s =
    (case tl_slot (tl_conns s) of (i, cs) \<Rightarrow> do {
       (p, s) \<leftarrow> choose_port nOwnPort nProtocol (s\<lparr>tl_conns := cs\<rparr>);
       o' \<leftarrow> tl_open cfg sent junk c0 foreignIP nPort p nProtocol s;
       (case o' of None \<Rightarrow> Some (TcpDone (- 1), s)
        | Some (c, s) \<Rightarrow> do {
            (r, c) \<leftarrow> conn_connect c;
            let s = s\<lparr>tl_conns := (tl_conns s)[i := Some (nProtocol, c)]\<rparr>;
            Some (case r of TcpWait \<Rightarrow> TcpWait | TcpDone n \<Rightarrow> TcpDone (if n < 0 then - 1 else int i), s)
          })
     })"

definition tl_connect_woken :: "nat \<Rightarrow> tcp \<Rightarrow> int" where
  "tl_connect_woken i c = (if tcp_connect_woken c < 0 then - 1 else int i)"

text \<open>The other calls look up the handle and pass the call on: \<open>tl_call\<close>, with the result for a
  handle without a connection.\<close>

definition tl_call :: "'r \<Rightarrow> (connection \<Rightarrow> ('r \<times> connection) option) \<Rightarrow> int \<Rightarrow> transport \<Rightarrow> ('r \<times> transport) option" where
  "tl_call none f h s =
    (if h < 0 then None
     else if h \<ge> int (length (tl_conns s)) then Some (none, s)
     else case tl_conns s ! nat h of None \<Rightarrow> Some (none, s)
     | Some (pr, c) \<Rightarrow> map_option (\<lambda>(r, c). (r, s\<lparr>tl_conns := (tl_conns s)[nat h := Some (pr, c)]\<rparr>)) (f c))"

definition tl_accept :: "int \<Rightarrow> transport \<Rightarrow> ((int \<times> (32 word \<times> 16 word) option) tcp_result \<times> transport) option" where
  "tl_accept = tl_call (TcpDone (- 1, None)) (\<lambda>c. case c of
     ConnTcp t \<Rightarrow> map_option (map_prod id ConnTcp) (tcp_accept t)
   | ConnUdp u \<Rightarrow> Some (TcpDone (udp_accept u, None), c))"

definition tl_disconnect :: "int \<Rightarrow> transport \<Rightarrow> (int \<times> transport) option" where
  "tl_disconnect = tl_call (- 1) (\<lambda>c. case c of
     ConnTcp t \<Rightarrow> map_option (map_prod id ConnTcp) (tcp_close t)
   | ConnUdp u \<Rightarrow> Some (map_prod id ConnUdp (udp_close u)))"

definition tl_send :: "net_config \<Rightarrow> bool \<Rightarrow> 8 word list \<Rightarrow> int \<Rightarrow> int \<Rightarrow> transport \<Rightarrow>
    (int tcp_result \<times> transport) option" where
  "tl_send cfg sent dat nFlags h s = tl_call (TcpDone (- 1)) (\<lambda>c. if dat = [] then None
     else case c of
       ConnTcp t \<Rightarrow> map_option (map_prod id ConnTcp) (tcp_send dat nFlags t)
     | ConnUdp u \<Rightarrow> map_option (map_prod TcpDone ConnUdp) (udp_send cfg sent dat nFlags u)) h s"

definition tl_receive :: "int \<Rightarrow> int \<Rightarrow> transport \<Rightarrow> ((int \<times> 8 word list) tcp_result \<times> transport) option" where
  "tl_receive nFlags = tl_call (TcpDone (- 1, [])) (\<lambda>c. case c of
     ConnTcp t \<Rightarrow> map_option (map_prod id ConnTcp) (tcp_receive nFlags t)
   | ConnUdp u \<Rightarrow> Some (map_prod id ConnUdp (udp_receive nFlags u)))"

definition tl_send_to :: "net_config \<Rightarrow> bool \<Rightarrow> 8 word list \<Rightarrow> int \<Rightarrow> 32 word \<Rightarrow> 16 word \<Rightarrow> int \<Rightarrow> transport \<Rightarrow>
    (int tcp_result \<times> transport) option" where
  "tl_send_to cfg sent dat nFlags foreignIP nPort = tl_call (TcpDone (- 1)) (\<lambda>c. if dat = [] then None
     else case c of
       ConnTcp t \<Rightarrow> map_option (map_prod id ConnTcp) (tcp_send_to dat nFlags foreignIP nPort t)
     | ConnUdp u \<Rightarrow> map_option (map_prod TcpDone ConnUdp) (udp_send_to cfg sent dat nFlags foreignIP nPort u))"

definition tl_receive_from :: "int \<Rightarrow> bool \<Rightarrow> int \<Rightarrow> transport \<Rightarrow>
    ((int \<times> 8 word list \<times> (32 word \<times> 16 word) option) tcp_result \<times> transport) option" where
  "tl_receive_from nFlags wanted = tl_call (TcpDone (- 1, [], None)) (\<lambda>c. case c of
     ConnTcp t \<Rightarrow> map_option (map_prod id ConnTcp) (tcp_receive_from nFlags wanted t)
   | ConnUdp u \<Rightarrow> Some (map_prod id ConnUdp (udp_receive_from nFlags wanted u)))"

definition tl_set_option_broadcast :: "bool \<Rightarrow> int \<Rightarrow> transport \<Rightarrow> (int \<times> transport) option" where
  "tl_set_option_broadcast bAllowed = tl_call (- 1) (\<lambda>c. case c of
     ConnTcp t \<Rightarrow> Some (tcp_set_option_broadcast bAllowed t, c)
   | ConnUdp u \<Rightarrow> Some (map_prod id ConnUdp (udp_set_option_broadcast bAllowed u)))"

definition tl_is_connected :: "int \<Rightarrow> transport \<Rightarrow> (bool \<times> transport) option" where
  "tl_is_connected = tl_call False (\<lambda>c. Some (case c of
     ConnTcp t \<Rightarrow> tcp_is_connected t | ConnUdp u \<Rightarrow> udp_is_connected u, c))"

text \<open>\<open>GetForeignIP\<close>: \<open>None\<close> in the result is the null pointer.\<close>

definition tl_get_foreign_ip :: "int \<Rightarrow> transport \<Rightarrow> (32 word option \<times> transport) option" where
  "tl_get_foreign_ip = tl_call None (\<lambda>c.
     case (case c of ConnTcp t \<Rightarrow> foreign_ip t | ConnUdp u \<Rightarrow> u_foreign_ip u) of
       None \<Rightarrow> None | Some a \<Rightarrow> Some (Some a, c))"

section \<open>Finding a port\<close>

definition ports_known :: "conn_table \<Rightarrow> bool" where
  "ports_known cs \<longleftrightarrow> (\<forall>pr c. Some (pr, c) \<in> set cs \<longrightarrow> conn_own_port c \<noteq> None)"

definition used_ports :: "conn_table \<Rightarrow> 32 word \<Rightarrow> 16 word set" where
  "used_ports cs nProtocol = {p. \<exists>c. Some (nProtocol, c) \<in> set cs \<and> conn_own_port c = Some p}"

text \<open>The protocol that a connection is of, by its class.\<close>

definition kind_protocol :: "connection \<Rightarrow> 32 word" where
  "kind_protocol c = (case c of ConnTcp t \<Rightarrow> IPPROTO_TCP | ConnUdp u \<Rightarrow> IPPROTO_UDP)"

definition stored_protocols_right :: "conn_table \<Rightarrow> bool" where
  "stored_protocols_right cs \<longleftrightarrow> (\<forall>tag c. Some (tag, c) \<in> set cs \<longrightarrow> tag = kind_protocol c)"

lemma ports_known_simps [simp]:
  "ports_known []" "ports_known (None # cs) \<longleftrightarrow> ports_known cs"
  "ports_known (Some (pr, c) # cs) \<longleftrightarrow> conn_own_port c \<noteq> None \<and> ports_known cs"
  by (auto simp: ports_known_def)

lemma used_ports_simps [simp]:
  "used_ports [] pr = {}" "used_ports (None # cs) pr = used_ports cs pr"
  "used_ports (Some (pr', c) # cs) pr = (if pr' = pr then set_option (conn_own_port c) else {}) \<union> used_ports cs pr"
  by (auto simp: used_ports_def)

lemma port_taken_iff:
  "ports_known cs \<Longrightarrow> port_taken cs pr p = Some (p \<in> used_ports cs pr)"
  by (induction cs pr p rule: port_taken.induct) auto

lemma used_ports_card: "finite (used_ports cs pr) \<and> card (used_ports cs pr) \<le> length cs"
proof (induction cs)
  case (Cons e cs)
  show ?case
  proof (cases e)
    case None
    then show ?thesis using Cons by simp
  next
    case (Some x)
    obtain pr' c where x: "x = (pr', c)" by (cases x)
    let ?new = "if pr' = pr then set_option (conn_own_port c) else {}"
    have "finite ?new" "card ?new \<le> 1" by (cases "conn_own_port c"; simp)+
    moreover have "card (?new \<union> used_ports cs pr) \<le> card ?new + card (used_ports cs pr)"
      by (rule card_Un_le)
    ultimately show ?thesis using Cons by (simp add: Some x)
  qed
qed simp

text \<open>The ports from \<open>p\<close> on, around the range.\<close>

definition port_range :: "16 word set" where
  "port_range = {p. OWN_PORT_MIN \<le> p \<and> p \<le> OWN_PORT_MAX}"

definition port_at :: "nat \<Rightarrow> 16 word" where
  "port_at k = of_nat (60000 + k mod 1000)"

lemma unat_port_at: "unat (port_at k) = 60000 + k mod 1000"
proof -
  have "k mod 1000 < 1000" by simp
  then have "60000 + k mod 1000 < 2 ^ 16" by simp
  then show ?thesis by (simp add: port_at_def unat_of_nat del: of_nat_add)
qed

lemma port_range_iff: "p \<in> port_range \<longleftrightarrow> 60000 \<le> unat p \<and> unat p \<le> 60999"
  by (simp add: port_range_def OWN_PORT_MIN_def OWN_PORT_MAX_def word_le_nat_alt)

lemma port_at_range: "port_at k \<in> port_range"
proof -
  have "k mod 1000 < 1000" by simp
  then show ?thesis unfolding port_range_iff unat_port_at by linarith
qed

lemma next_port_at: "next_port (port_at k) = port_at (Suc k)"
proof -
  have k: "k mod 1000 < 1000" by simp
  have suc: "unat (x + 1) = unat x + 1" if "unat x < 65535" for x :: "16 word"
    using that by (simp add: unat_word_ariths)
  have "unat (port_at k) < 65535" unfolding unat_port_at using k by linarith
  from suc [OF this] have u: "unat (port_at k + 1) = 60001 + k mod 1000" unfolding unat_port_at by linarith
  have gt: "port_at k + 1 > OWN_PORT_MAX \<longleftrightarrow> k mod 1000 = 999"
  proof -
    have "unat OWN_PORT_MAX = 60999" by (simp add: OWN_PORT_MAX_def)
    then show ?thesis unfolding word_less_nat_alt u using k by linarith
  qed
  show ?thesis
  proof (cases "k mod 1000 = 999")
    case True
    then have z: "Suc k mod 1000 = 0" using mod_Suc [of k 1000] by simp
    have "unat OWN_PORT_MIN = 60000" by (simp add: OWN_PORT_MIN_def)
    then have "unat (port_at (Suc k)) = unat OWN_PORT_MIN" unfolding unat_port_at z by linarith
    then have "port_at (Suc k) = OWN_PORT_MIN" by (simp only: word_unat_eq_iff)
    moreover have "port_at k + 1 > OWN_PORT_MAX" using gt True by blast
    ultimately show ?thesis by (simp only: next_port_def if_True)
  next
    case False
    then have s: "Suc k mod 1000 = Suc (k mod 1000)" using mod_Suc [of k 1000] by simp
    have "unat (port_at k + 1) = unat (port_at (Suc k))" unfolding u unat_port_at s by linarith
    then have "port_at k + 1 = port_at (Suc k)" by (simp only: word_unat_eq_iff)
    moreover have "\<not> port_at k + 1 > OWN_PORT_MAX" using gt False by blast
    ultimately show ?thesis by (simp only: next_port_def if_False)
  qed
qed

lemma port_at_surj:
  assumes "p \<in> port_range"
  shows "port_at (unat p - 60000 + 1000 * j) = p"
proof -
  define d where "d = unat p - 60000"
  have d: "unat p = 60000 + d" "d < 1000" using assms unfolding port_range_iff d_def by linarith+
  then have "unat (port_at (unat p - 60000 + 1000 * j)) = unat p"
    unfolding unat_port_at d(1) by simp
  then show ?thesis by (simp only: word_unat_eq_iff)
qed

lemma port_index: "p \<in> port_range \<Longrightarrow> unat p - 60000 < 1000"
  unfolding port_range_iff by linarith

lemma port_range_card: "card port_range = 1000"
proof -
  have "port_range = port_at ` {0..<1000}"
  proof
    show "port_range \<subseteq> port_at ` {0..<1000}"
    proof
      fix p assume p: "p \<in> port_range"
      from port_index [OF p] show "p \<in> port_at ` {0..<1000}"
        using port_at_surj [OF p, of 0] by (intro image_eqI [of _ _ "unat p - 60000"]) simp_all
    qed
  qed (auto simp: port_at_range)
  moreover have "inj_on port_at {0..<1000}"
    by (rule inj_onI) (metis atLeastLessThan_iff mod_less add_left_cancel unat_port_at)
  ultimately have "card port_range = card {0..<1000::nat}" using card_image by metis
  then show ?thesis by simp
qed

lemma port_search_from:
  assumes "ports_known cs" "port_at (k + n) \<notin> used_ports cs pr" "\<forall>m < n. port_at (k + m) \<in> used_ports cs pr"
  shows "port_search cs pr (port_at k) = Some (port_at (k + n), port_at (k + n + 1))"
  using assms
proof (induction n arbitrary: k)
  case 0
  then show ?case by (subst port_search.simps) (simp add: port_taken_iff next_port_at)
next
  case (Suc n)
  have "port_at k \<in> used_ports cs pr" using Suc.prems(3) by (metis add_0_right zero_less_Suc)
  then have "port_search cs pr (port_at k) = port_search cs pr (port_at (Suc k))"
    using Suc.prems(1) by (subst port_search.simps) (simp add: port_taken_iff next_port_at)
  also have "\<dots> = Some (port_at (Suc k + n), port_at (Suc k + n + 1))"
    using Suc.prems by (intro Suc.IH) auto
  finally show ?case by simp
qed

lemma port_search_finds:
  assumes "ports_known cs" "p \<in> port_range" "\<not> port_range \<subseteq> used_ports cs pr"
  shows "\<exists>q q'. port_search cs pr p = Some (q, q') \<and> q \<in> port_range \<and> q' \<in> port_range \<and> q \<notin> used_ports cs pr"
proof -
  obtain f where f: "f \<in> port_range" "f \<notin> used_ports cs pr" using assms(3) by blast
  define k where "k = unat p - 60000"
  have pk: "port_at k = p" using port_at_surj [OF assms(2), of 0] by (simp add: k_def)
  have "k < 1000" using port_index [OF assms(2)] by (simp add: k_def)
  then have "port_at (k + (unat f - 60000 + 1000 * 1 - k)) = f"
    using port_at_surj [OF f(1), of 1] by simp
  then have ex: "\<exists>n. port_at (k + n) \<notin> used_ports cs pr" using f(2) by metis
  define n where "n = (LEAST n. port_at (k + n) \<notin> used_ports cs pr)"
  have free: "port_at (k + n) \<notin> used_ports cs pr" unfolding n_def using ex by (rule LeastI_ex)
  moreover have "\<forall>m < n. port_at (k + m) \<in> used_ports cs pr" unfolding n_def using not_less_Least by blast
  ultimately have "port_search cs pr (port_at k) = Some (port_at (k + n), port_at (k + n + 1))"
    using port_search_from [OF assms(1)] by blast
  then show ?thesis using port_at_range free unfolding pk by blast
qed

text \<open>With no free port the search never ends; fewer than 1000 connections leave one.\<close>

lemma port_search_full:
  assumes "ports_known cs" "port_range \<subseteq> used_ports cs pr" "p \<in> port_range"
  shows "port_search cs pr p = None"
proof (cases "port_search cs pr p")
  case (Some x)
  have "ports_known cs \<and> port_range \<subseteq> used_ports cs pr \<longrightarrow> p \<notin> port_range"
  proof (rule port_search.raw_induct [where P = "\<lambda>cs pr p x. ports_known cs \<and> port_range \<subseteq> used_ports cs pr \<longrightarrow>
      p \<notin> port_range", OF _ Some], intro impI notI)
    fix f cs pr p x
    assume IH: "\<And>cs pr p x. f cs pr p = Some x \<Longrightarrow>
        ports_known cs \<and> port_range \<subseteq> used_ports cs pr \<longrightarrow> p \<notin> port_range"
      and body: "(case port_taken cs pr p of None \<Rightarrow> None
        | Some taken \<Rightarrow> if taken then f cs pr (next_port p) else Some (p, next_port p)) = Some x"
      and full: "ports_known cs \<and> port_range \<subseteq> used_ports cs pr" and p: "p \<in> port_range"
    have "port_taken cs pr p = Some True" using full p by (auto simp: port_taken_iff)
    then have "f cs pr (next_port p) = Some x" using body by simp
    then have "next_port p \<notin> port_range" using IH full by blast
    moreover have "next_port p \<in> port_range"
      using next_port_at [of "unat p - 60000"] port_at_surj [OF p, of 0] port_at_range by simp
    ultimately show False by blast
  qed
  then show ?thesis using assms by blast
qed

lemma few_connections:
  assumes "length cs < 1000"
  shows "\<not> port_range \<subseteq> used_ports cs pr"
proof
  assume "port_range \<subseteq> used_ports cs pr"
  then have "card port_range \<le> card (used_ports cs pr)"
    using used_ports_card [of cs pr] by (intro card_mono) auto
  then show False using used_ports_card [of cs pr] assms by (simp add: port_range_card)
qed

text \<open>C34: A port for a connection. A port is in use for the search when a connection has it whose
  stored protocol (\<open>m_nProtocol\<close>) is the one asked for; every connection has a port. When \<open>Connect\<close> is
  called without a port of its own, the search for one returns if and only if one of the 1000 ports
  is not in use, which fewer than 1000 entries of the table guarantee; the port it returns is such
  a one, and the next search starts inside the range again. With all ports in use it never ends.
  If the stored protocols are right, no connection of the kind asked for has the port. (A passive
  connection stores whatever was in memory, and then its port can be given out again:
  \<open>passive_port_given_again\<close>.)\<close>

theorem own_port_found:
  assumes "ports_known (tl_conns s)" "tl_own_port s \<in> port_range"
  shows "(choose_port 0 pr s \<noteq> None \<longleftrightarrow> \<not> port_range \<subseteq> used_ports (tl_conns s) pr) \<and>
    (length (tl_conns s) < 1000 \<longrightarrow> choose_port 0 pr s \<noteq> None) \<and>
    (\<forall>p s'. choose_port 0 pr s = Some (p, s') \<longrightarrow> p \<in> port_range \<and> p \<notin> used_ports (tl_conns s) pr \<and>
      tl_own_port s' \<in> port_range \<and> tl_conns s' = tl_conns s \<and>
      (stored_protocols_right (tl_conns s) \<longrightarrow>
        (\<forall>tag c. Some (tag, c) \<in> set (tl_conns s) \<longrightarrow> kind_protocol c = pr \<longrightarrow> conn_own_port c \<noteq> Some p)))"
proof (cases "port_range \<subseteq> used_ports (tl_conns s) pr")
  case True
  then show ?thesis using port_search_full [OF assms(1) True assms(2)] few_connections
    by (auto simp: choose_port_def)
next
  case False
  from port_search_finds [OF assms this] show ?thesis using False
    by (auto simp: choose_port_def used_ports_def stored_protocols_right_def)
qed

definition one_client :: transport where
  "one_client = (transport_new udp_host [0, 0, 0, 0] 0 0 0)
     \<lparr>tl_conns := [Some (17, ConnUdp (udp_open_active udp_host 0x0200000A 53 60000))]\<rparr>"

text \<open>A UDP connection bound to the port 60000, with zeros in the memory of \<open>m_nProtocol\<close>: the next
  active UDP connection gets the same port.\<close>

lemma passive_port_given_again:
  "let s = snd (tl_bind udp_host 0 [0, 0, 0, 0] 60000 IPPROTO_UDP (transport_new udp_host [0, 0, 0, 0] 0 0 0))
   in map_option fst (choose_port 0 IPPROTO_UDP s) = Some 60000 \<and>
     map (map_option (conn_own_port \<circ> snd)) (tl_conns s) = [Some (Some 60000)]"
  by (simp add: tl_bind_def transport_new_def choose_port_def port_search.simps [of _ _ 60000]
      IPPROTO_UDP_def conn_own_port_def udp_open_passive_def OWN_PORT_MIN_def)

theorem own_port_found_witness:
  "\<exists>p s'. choose_port 0 IPPROTO_UDP one_client = Some (p, s') \<and> p \<noteq> 60000"
proof -
  have k: "ports_known (tl_conns one_client)" "60000 \<in> used_ports (tl_conns one_client) IPPROTO_UDP"
    "length (tl_conns one_client) < 1000"
    by (simp_all add: one_client_def conn_own_port_def udp_open_active_def IPPROTO_UDP_def)
  have "tl_own_port one_client \<in> port_range"
    by (simp add: one_client_def transport_new_def port_range_def OWN_PORT_MIN_def OWN_PORT_MAX_def)
  note f = own_port_found [OF k(1) this, of IPPROTO_UDP]
  have "choose_port 0 IPPROTO_UDP one_client \<noteq> None" using f k(3) by blast
  then obtain p s' where "choose_port 0 IPPROTO_UDP one_client = Some (p, s')" by (metis not_None_eq prod.collapse)
  moreover from this have "p \<notin> used_ports (tl_conns one_client) IPPROTO_UDP" using f by blast
  ultimately show ?thesis using k(2) by blast
qed

lemma tl_slot_spec:
  "tl_slot cs = (i, cs') \<Longrightarrow> i < length cs' \<and> cs' ! i = None \<and> length cs' \<le> Suc (length cs) \<and>
    (cs' = cs \<or> cs' = cs @ [None])"
proof (induction cs arbitrary: i cs')
  case (Cons e cs)
  then show ?case by (cases e) (auto split: prod.splits)
qed simp

section \<open>Which connection gets a packet\<close>

text \<open>A connection that a segment without SYN is not for leaves it to the others.\<close>

definition not_for :: "packet \<Rightarrow> connection \<Rightarrow> bool" where
  "not_for k c = (case c of
     ConnTcp t \<Rightarrow> own_port t \<noteq> get_be16 (pk_data k) 2 \<or> t_state t = TCPStateListen \<or>
       (\<exists>a. foreign_ip t = Some a \<and> (a \<noteq> pk_sender k \<or> foreign_port t \<noteq> get_be16 (pk_data k) 0))
   | ConnUdp u \<Rightarrow> True)"

lemma not_for_passes:
  assumes "not_for k c" "pk_protocol k = IPPROTO_TCP" "20 \<le> pk_len k"
    and "\<not> has (parse_segment (pk_data k) (pk_len k) (pk_sender k)) TCP_FLAG_SYN"
  shows "\<exists>c'. conn_packet cfg s k c = Some (0, c') \<and> (case c of ConnTcp t \<Rightarrow> c' = ConnTcp (tl_enter s t) | ConnUdp u \<Rightarrow> c' = c)"
proof (cases c)
  case (ConnUdp u)
  then show ?thesis using assms(2)
    by (simp add: conn_packet_def udp_packet_received_def IPPROTO_TCP_def IPPROTO_UDP_def)
next
  case (ConnTcp t)
  let ?t = "tl_enter s t" and ?sg = "parse_segment (pk_data k) (pk_len k) (pk_sender k)"
  have e: "own_port ?t = own_port t" "t_state ?t = t_state t" "foreign_ip ?t = foreign_ip t"
    "foreign_port ?t = foreign_port t" by (simp_all add: tl_enter_def)
  have sg: "sg_sender ?sg = pk_sender k" "sg_sport ?sg = get_be16 (pk_data k) 0"
    by (simp_all add: parse_segment_def Let_def)
  have "own_port t = get_be16 (pk_data k) 2 \<Longrightarrow> rx_match ?sg ?t = Some (False, ?t)"
    using assms(1,4) by (auto simp: not_for_def ConnTcp rx_match_def e sg)
  then have "packet_received (pk_data k) (pk_len k) (pk_sender k) (pk_protocol k) ?t = Some (0, ?t)"
    using assms(2,3) by (auto simp: packet_received_def e Let_def)
  then show ?thesis by (simp add: conn_packet_def ConnTcp)
qed

text \<open>\<open>cs'\<close> is \<open>cs\<close> but for the clock and the count of the connections that were asked, up to \<open>i\<close>.\<close>

definition asked :: "transport \<Rightarrow> nat \<Rightarrow> conn_table \<Rightarrow> conn_table" where
  "asked s i cs = map (map_option (map_prod id (\<lambda>c. case c of ConnTcp t \<Rightarrow> ConnTcp (tl_enter s t) | ConnUdp u \<Rightarrow> c)))
     (take i cs) @ drop i cs"

lemma offer_reaches:
  assumes "i < length cs" "cs ! i = Some (pr, c)" "f c = Some (r, c')" "r \<noteq> 0"
    and "\<And>j pr d. j < i \<Longrightarrow> cs ! j = Some (pr, d) \<Longrightarrow> f d = Some (0, case d of ConnTcp t \<Rightarrow> ConnTcp (tl_enter s t) | ConnUdp u \<Rightarrow> d)"
  shows "tl_offer f cs = Some (True, (asked s i cs)[i := Some (pr, c')])"
  using assms
proof (induction cs arbitrary: i)
  case (Cons e cs)
  show ?case
  proof (cases i)
    case 0
    then show ?thesis using Cons.prems by (simp add: asked_def)
  next
    case (Suc n)
    have IH: "tl_offer f cs = Some (True, (asked s n cs)[n := Some (pr, c')])"
    proof (rule Cons.IH)
      show "f d = Some (0, case d of ConnTcp t \<Rightarrow> ConnTcp (tl_enter s t) | ConnUdp u \<Rightarrow> d)"
        if "j < n" "cs ! j = Some (pr, d)" for j pr d
        using Cons.prems(5) [of "Suc j" pr d] that Suc by simp
    qed (use Cons.prems Suc in simp_all)
    show ?thesis
    proof (cases e)
      case None
      then show ?thesis by (simp add: IH Suc asked_def)
    next
      case (Some x)
      obtain pr' d where x: "x = (pr', d)" by (cases x)
      have "f d = Some (0, case d of ConnTcp t \<Rightarrow> ConnTcp (tl_enter s t) | ConnUdp u \<Rightarrow> d)"
        using Cons.prems(5) [of 0 pr' d] Suc Some x by simp
      then show ?thesis by (simp add: IH Suc asked_def Some x)
    qed
  qed
qed simp

text \<open>C19: A segment reaches its connection. Let a TCP segment without SYN come in, and let the table
  have a connection that takes it, before which there are only connections it is not for: TCP
  connections with another port, listening ones, those with another peer, and UDP connections. Then
  \<open>Process\<close> brings it to that connection and to no other: the entry of the connection is what its
  \<open>PacketReceived\<close> made of it, which includes what the connection answers, those before it have seen
  nothing but the clock, and those behind it are as they were. The rejector, which answers with
  an RST what no connection takes, does not see the segment.\<close>

theorem segment_demultiplexed:
  assumes "pk_protocol k = IPPROTO_TCP" "20 \<le> pk_len k"
    and "\<not> has (parse_segment (pk_data k) (pk_len k) (pk_sender k)) TCP_FLAG_SYN"
    and "i < length (tl_conns s)" "tl_conns s ! i = Some (pr, c)" "conn_packet cfg s k c = Some (r, c')" "r \<noteq> 0"
    and "\<And>j pr d. j < i \<Longrightarrow> tl_conns s ! j = Some (pr, d) \<Longrightarrow> not_for k d"
  shows "tl_packet cfg k s = Some (s\<lparr>tl_conns := (asked s i (tl_conns s))[i := Some (pr, c')]\<rparr>)"
proof -
  have "conn_packet cfg s k d = Some (0, case d of ConnTcp t \<Rightarrow> ConnTcp (tl_enter s t) | ConnUdp u \<Rightarrow> d)"
    if "j < i" "tl_conns s ! j = Some (pr, d)" for j pr d
    using not_for_passes [OF assms(8) [OF that] assms(1-3), of cfg s] by (auto split: connection.splits)
  from offer_reaches [OF assms(4-7) this] show ?thesis by (simp add: tl_packet_def)
qed

definition two_clients :: transport where
  "two_clients = (transport_new udp_host [0, 0, 0, 0] 2 0 0)
     \<lparr>tl_conns := [Some (6, ConnTcp (end_b\<lparr>own_port := 81\<rparr>)),
                  Some (6, ConnTcp (end_b\<lparr>t_state := TCPStateClosed\<rparr>))]\<rparr>"

theorem segment_demultiplexed_witness:
  "\<exists>p d. tl_packet udp_host \<lparr>pk_data = p, pk_len = of_nat (length p), pk_sender = 0x0100000A,
      pk_receiver = 0x0200000A, pk_protocol = IPPROTO_TCP\<rparr> two_clients =
    Some (two_clients\<lparr>tl_conns := (asked two_clients 1 (tl_conns two_clients))[1 := Some (6, ConnTcp d)]\<rparr>)"
proof -
  let ?d = "tl_enter two_clients (end_b\<lparr>t_state := TCPStateClosed\<rparr>)"
  obtain c' where c': "send_segment TCP_FLAG_RESET 5 7 [] end_a = Some c'"
  proof -
    have "\<exists>c'. send_segment TCP_FLAG_RESET 5 7 [] end_a = Some c'"
      by (rule send_segment_returns) (simp_all add: end_a_def cs_new_def)
    then show ?thesis using that by blast
  qed
  have fl: "TCP_FLAG_RESET AND 0xFF = 0" "TCP_FLAG_RESET AND TCP_FLAG_SYN = 0" "t_state ?d \<noteq> TCPStateListen"
    by (simp_all add: tcp_flags tl_enter_def)
  have "tcp_ends 0x0100000A 0x0200000A end_a ?d" using ends_a_b by (simp add: tcp_ends_def tl_enter_def)
  from segment_accepted [OF c' fl(1) this fl(3)] obtain p where
    ps: "parse_segment p (of_nat (length p)) 0x0100000A = sent_segment end_a 0x0100000A TCP_FLAG_RESET 5 7 [] p"
    and rx: "packet_received p (of_nat (length p)) 0x0100000A IPPROTO_TCP ?d =
      map_option (Pair 1) (rx_segment (sent_segment end_a 0x0100000A TCP_FLAG_RESET 5 7 [] p) ?d)"
    using fl(2) by fastforce
  let ?k = "\<lparr>pk_data = p, pk_len = of_nat (length p), pk_sender = 0x0100000A,
      pk_receiver = 0x0200000A, pk_protocol = IPPROTO_TCP\<rparr>"
  have flags: "has (sent_segment end_a 0x0100000A TCP_FLAG_RESET 5 7 [] p) TCP_FLAG_RESET"
    "\<not> has (sent_segment end_a 0x0100000A TCP_FLAG_RESET 5 7 [] p) TCP_FLAG_SYN"
    by (simp_all add: sent_segment_def has_def tcp_flags)
  have "rx_segment (sent_segment end_a 0x0100000A TCP_FLAG_RESET 5 7 [] p) ?d = Some ?d"
    using flags by (simp add: rx_segment_def rx_closed_def tl_enter_def)
  then have got: "conn_packet udp_host two_clients ?k (ConnTcp (end_b\<lparr>t_state := TCPStateClosed\<rparr>)) = Some (1, ConnTcp ?d)"
    using rx by (simp add: conn_packet_def)
  have "sg_dlen (parse_segment p (of_nat (length p)) 0x0100000A) =
      of_nat (length p) - sg_off (parse_segment p (of_nat (length p)) 0x0100000A)"
    by (simp add: parse_segment_def Let_def)
  then have "(of_nat (length p) :: 32 word) = 20"
    by (simp add: ps sent_segment_def segment_offset_def fl)
  then have len: "20 \<le> pk_len ?k" by simp
  have port: "get_be16 p 2 \<noteq> 81"
  proof -
    have "get_be16 p 2 = 80" if "packet_received p (of_nat (length p)) 0x0100000A IPPROTO_TCP ?d = Some (1, ?d)"
      using that by (auto simp: packet_received_def tl_enter_def end_b_def split: if_splits)
    then show ?thesis using got rx by (simp add: conn_packet_def)
  qed
  have before: "not_for ?k d" if "j < 1" "tl_conns two_clients ! j = Some (pr, d)" for j pr d
    using that port by (auto simp: two_clients_def not_for_def)
  have "tl_packet udp_host ?k two_clients =
      Some (two_clients\<lparr>tl_conns := (asked two_clients 1 (tl_conns two_clients))[1 := Some (6, ConnTcp ?d)]\<rparr>)"
  proof (rule segment_demultiplexed)
    show "\<not> has (parse_segment (pk_data ?k) (pk_len ?k) (pk_sender ?k)) TCP_FLAG_SYN"
      using flags(2) by (simp add: ps)
    show "not_for ?k d" if "j < 1" "tl_conns two_clients ! j = Some (pr, d)" for j pr d
      using that by (rule before)
    show "conn_packet udp_host two_clients ?k (ConnTcp (end_b\<lparr>t_state := TCPStateClosed\<rparr>)) = Some (1, ConnTcp ?d)"
      by (rule got)
  qed (use len in \<open>simp_all add: two_clients_def\<close>)
  then show ?thesis by blast
qed

end
