(* ===== verification/Net_Ip.thy ===== *)
theory Net_Ip
  imports Net_Transport
begin

text \<open>
  \<^verbatim>\<open>CNetworkLayer\<close>, \<^verbatim>\<open>CICMPHandler\<close> and \<^verbatim>\<open>CRouteCache\<close> (\<^verbatim>\<open>lib/net/networklayer.cpp\<close>, \<^verbatim>\<open>icmphandler.cpp\<close>,
  \<^verbatim>\<open>routecache.cpp\<close>): IP packets between the link layer and the transport layer.

  \<^item> The packets given to the link layer are collected in \<open>ip_link\<close> with their next hop; what
    \<open>CLinkLayer::Send\<close> returns is the argument \<open>sent\<close>. The frames that the link layer has for \<open>Process\<close>
    are a list.
  \<^item> An entry of a queue carries protocol, source and destination, \<open>TNetworkPrivateData\<close>.
  \<^item> An address is the word of \<^verbatim>\<open>CIPAddress\<close>; \<open>get_ip\<close> reads one from a packet. The addresses of
    \<^verbatim>\<open>CNetConfig\<close> are always set.
\<close>

unbundle bit_operations_syntax

section \<open>State\<close>

definition IPPROTO_ICMP :: "32 word" where "IPPROTO_ICMP = 1"

record ip_config = net_config +
  nc_mask :: "32 word"
  nc_gateway :: "32 word"

datatype icmp_type = ICMPNotificationDestUnreach | ICMPNotificationTimeExceed
  | ICMPNotificationParamProblem

record icmp_notification =
  in_type :: icmp_type
  in_protocol :: "8 word"
  in_source :: "32 word"
  in_dest :: "32 word"
  in_source_port :: "16 word"
  in_dest_port :: "16 word"

type_synonym ip_entry = "8 word list \<times> 8 word \<times> 32 word \<times> 32 word"

record ip_layer =
  ip_rxq :: "ip_entry list"
  ip_icmpq :: "ip_entry list"
  ip_notes :: "icmp_notification list"
  ip_routes :: "(32 word \<times> 32 word) list"
  ip_link :: "(32 word \<times> 8 word list) list"

definition get_ip :: "8 word list \<Rightarrow> nat \<Rightarrow> 32 word" where
  "get_ip p i = ucast (load16 (p ! i) (p ! (i + 1))) OR push_bit 16 (ucast (load16 (p ! (i + 2)) (p ! (i + 3))))"

section \<open>The route cache\<close>

fun route_add :: "32 word \<Rightarrow> 32 word \<Rightarrow> (32 word \<times> 32 word) list \<Rightarrow> (32 word \<times> 32 word) list" where
  "route_add d g [] = [(d, g)]"
| "route_add d g ((d', g') # rs) = (if d' = d then (d', g) # rs else (d', g') # route_add d g rs)"

fun route_get :: "32 word \<Rightarrow> (32 word \<times> 32 word) list \<Rightarrow> 32 word option" where
  "route_get d [] = None"
| "route_get d ((d', g') # rs) = (if d' = d then Some g' else route_get d rs)"

definition route_flush :: "(32 word \<times> 32 word) list \<Rightarrow> (32 word \<times> 32 word) list" where
  "route_flush rs = []"

lemma route_get_add: "route_get d' (route_add d g rs) = (if d' = d then Some g else route_get d' rs)"
  by (induction d g rs rule: route_add.induct) auto

lemma route_add_dests: "fst ` set (route_add d g rs) = insert d (fst ` set rs)"
  by (induction d g rs rule: route_add.induct) auto

lemma route_add_distinct: "distinct (map fst rs) \<Longrightarrow> distinct (map fst (route_add d g rs))"
  by (induction d g rs rule: route_add.induct) (simp_all add: route_add_dests, blast)

section \<open>Sending\<close>

definition ip_same_network :: "32 word \<Rightarrow> 32 word \<Rightarrow> 32 word \<Rightarrow> bool" where
  "ip_same_network a1 a2 nMask \<longleftrightarrow> a2 = 0xFFFFFFFF \<or> a1 AND nMask = a2 AND nMask"

definition ip_next_hop :: "ip_config \<Rightarrow> (32 word \<times> 32 word) list \<Rightarrow> 32 word \<Rightarrow> 32 word option" where
  "ip_next_hop cfg rs a =
    (if ip_same_network (nc_ip cfg) a (nc_mask cfg) then Some a
     else case route_get a rs of
       Some g \<Rightarrow> Some g
     | None \<Rightarrow> if nc_gateway cfg = 0 then None else Some (nc_gateway cfg))"

text \<open>The header before and behind its checksum.\<close>

definition ip_front :: "32 word \<Rightarrow> 32 word \<Rightarrow> 8 word list" where
  "ip_front nPacketLength nProtocol =
    [0x45, 0] @ be16 (ucast nPacketLength) @ [0, 0] @ [0x40, 0] @ [64, ucast nProtocol]"

definition ip_send :: "ip_config \<Rightarrow> bool \<Rightarrow> 32 word \<Rightarrow> 8 word list \<Rightarrow> 32 word \<Rightarrow> ip_layer \<Rightarrow>
    (bool \<times> ip_layer) option" where
  "ip_send cfg sent a dat nProtocol s =
    (let nPacketLength = 20 + of_nat (length dat) :: 32 word
     in if nPacketLength \<le> 20 \<or> unat nPacketLength > FRAME_BUFFER_SIZE then Some (False, s)
        else if nc_ip cfg = 0 \<and> a \<noteq> 0xFFFFFFFF then Some (False, s)
        else
          let u = ip_front nPacketLength nProtocol; w = ip_bytes (nc_ip cfg) @ ip_bytes a
          in case cs_simple (u @ [0, 0] @ w) of None \<Rightarrow> None
             | Some x \<Rightarrow> (case ip_next_hop cfg (ip_routes s) a of
                 None \<Rightarrow> Some (False, s)
               | Some h \<Rightarrow> Some (sent, s\<lparr>ip_link := ip_link s @ [(h, u @ le16 x @ w @ dat)]\<rparr>)))"

section \<open>Packets from the link layer\<close>

definition ip_header_ok :: "8 word list \<Rightarrow> nat \<Rightarrow> bool" where
  "ip_header_ok p nHeaderLength \<longleftrightarrow> cs_simple (take nHeaderLength p) = Some CHECKSUM_OK \<and> drop_bit 4 (p ! 0) = 4"

definition ip_for_us :: "ip_config \<Rightarrow> 32 word \<Rightarrow> bool" where
  "ip_for_us cfg a \<longleftrightarrow> (if nc_ip cfg \<noteq> 0 then nc_ip cfg = a \<or> a = 0xFFFFFFFF \<or> nc_broadcast cfg = a
     else a = 0xFFFFFFFF)"

text \<open>The mask of the code for the offset is \<open>0x1F00\<close>.\<close>

definition ip_fragment :: "8 word list \<Rightarrow> bool" where
  "ip_fragment p \<longleftrightarrow> load16 (p ! 6) (p ! 7) AND 0x20 \<noteq> 0 \<or> get_be16 p 6 AND 0x1F00 \<noteq> 0"

definition ip_enqueue :: "8 word list \<Rightarrow> 8 word \<Rightarrow> 32 word \<Rightarrow> 32 word \<Rightarrow> ip_layer \<Rightarrow> ip_layer option" where
  "ip_enqueue dat proto src dst s =
    (if 0 < length dat \<and> length dat \<le> FRAME_BUFFER_SIZE then
       Some (if ucast proto = IPPROTO_ICMP then s\<lparr>ip_icmpq := ip_icmpq s @ [(dat, proto, src, dst)]\<rparr>
             else s\<lparr>ip_rxq := ip_rxq s @ [(dat, proto, src, dst)]\<rparr>)
     else None)"

text \<open>One turn of the loop. When the total length is smaller than the header, the length of the
  data wraps around and the assert of the queue fails, as it does for a length of 0.\<close>

definition ip_receive_one :: "ip_config \<Rightarrow> 8 word list \<Rightarrow> ip_layer \<Rightarrow> ip_layer option" where
  "ip_receive_one cfg p s =
    (let ihl = unat (p ! 0 AND 0xF); nHeaderLength = ihl * 4; nTotalLength = unat (get_be16 p 2)
     in if length p \<le> 20 \<or> ihl < 5 \<or> ihl > 6 \<or> length p \<le> nHeaderLength \<or> \<not> ip_header_ok p nHeaderLength
        then Some s
        else if \<not> ip_for_us cfg (get_ip p 16) \<or> ip_fragment p \<or> length p < nTotalLength then Some s
        else
          let n = of_nat nTotalLength - of_nat nHeaderLength :: 32 word
          in if unat n \<le> FRAME_BUFFER_SIZE
             then ip_enqueue (take (unat n) (drop nHeaderLength p)) (p ! 9) (get_ip p 12) (get_ip p 16) s
             else None)"

section \<open>ICMP\<close>

definition icmp_notify :: "icmp_type \<Rightarrow> 8 word list \<Rightarrow> nat \<Rightarrow> ip_layer \<Rightarrow> ip_layer" where
  "icmp_notify ty h nIPHeaderLength s = s\<lparr>ip_notes := ip_notes s @
     [\<lparr>in_type = ty, in_protocol = h ! 9, in_source = get_ip h 16, in_dest = get_ip h 12,
       in_source_port = get_be16 h (nIPHeaderLength + 2), in_dest_port = get_be16 h nIPHeaderLength\<rparr>]\<rparr>"

definition ip_get_gateway :: "ip_config \<Rightarrow> 32 word \<Rightarrow> ip_layer \<Rightarrow> 32 word" where
  "ip_get_gateway cfg d s = (case route_get d (ip_routes s) of Some g \<Rightarrow> g | None \<Rightarrow> nc_gateway cfg)"

definition icmp_redirect :: "ip_config \<Rightarrow> 32 word \<Rightarrow> 32 word \<Rightarrow> 32 word \<Rightarrow> ip_layer \<Rightarrow> ip_layer" where
  "icmp_redirect cfg src gateway d s =
    (if \<not> ip_same_network gateway (nc_ip cfg) (nc_mask cfg) \<or> src \<noteq> ip_get_gateway cfg d s then s
     else s\<lparr>ip_routes := route_add d gateway (ip_routes s)\<rparr>)"

text \<open>An error message \<open>b\<close> from \<open>src\<close>: behind its header it has the header \<open>h\<close> of our packet.\<close>

definition icmp_error :: "ip_config \<Rightarrow> 8 word list \<Rightarrow> 32 word \<Rightarrow> ip_layer \<Rightarrow> ip_layer" where
  "icmp_error cfg b src s =
    (let h = drop 8 b; ihl = unat (h ! 0 AND 0xF)
     in if length b \<le> 28 \<or> ihl < 5 \<or> ihl > 6 \<or> drop_bit 4 (h ! 0) \<noteq> 4 \<or> nc_ip cfg \<noteq> get_ip h 12
          \<or> length b < 8 + ihl * 4 + 8
        then s
        else if b ! 0 = 3 then icmp_notify ICMPNotificationDestUnreach h (ihl * 4) s
        else if b ! 0 = 5 then icmp_redirect cfg src (get_ip b 4) (get_ip h 16) s
        else if b ! 0 = 11 then icmp_notify ICMPNotificationTimeExceed h (ihl * 4) s
        else if b ! 0 = 12 then icmp_notify ICMPNotificationParamProblem h (ihl * 4) s
        else s)"

definition icmp_echo :: "ip_config \<Rightarrow> bool \<Rightarrow> 8 word list \<Rightarrow> 32 word \<Rightarrow> ip_layer \<Rightarrow> ip_layer option" where
  "icmp_echo cfg sent b src s =
    (case cs_simple ([0, 0] @ [0, 0] @ drop 4 b) of None \<Rightarrow> None
     | Some x \<Rightarrow> map_option snd (ip_send cfg sent src ([0, 0] @ le16 x @ drop 4 b) IPPROTO_ICMP s))"

definition icmp_one :: "ip_config \<Rightarrow> bool \<Rightarrow> ip_entry \<Rightarrow> ip_layer \<Rightarrow> ip_layer option" where
  "icmp_one cfg sent e s = (case e of (b, proto, src, dst) \<Rightarrow>
     if dst = 0xFFFFFFFF \<or> dst = nc_broadcast cfg \<or> length b < 8 \<or> cs_simple b \<noteq> Some CHECKSUM_OK then Some s
     else if b ! 0 = 8 then (if b ! 1 = 0 then icmp_echo cfg sent b src s else Some s)
     else Some (icmp_error cfg b src s))"

definition icmp_process :: "ip_config \<Rightarrow> bool \<Rightarrow> ip_layer \<Rightarrow> ip_layer option" where
  "icmp_process cfg sent s = fold_option (icmp_one cfg sent) (ip_icmpq s) (s\<lparr>ip_icmpq := []\<rparr>)"

definition ip_process :: "ip_config \<Rightarrow> bool \<Rightarrow> 8 word list list \<Rightarrow> ip_layer \<Rightarrow> ip_layer option" where
  "ip_process cfg sent frames s =
    fold_option (ip_receive_one cfg) frames s \<bind> icmp_process cfg sent"

section \<open>For the transport layer\<close>

definition ip_receive :: "ip_layer \<Rightarrow> packet option \<times> ip_layer" where
  "ip_receive s = (case ip_rxq s of [] \<Rightarrow> (None, s)
     | (dat, proto, src, dst) # q \<Rightarrow> (Some \<lparr>pk_data = dat, pk_len = of_nat (length dat), pk_sender = src,
         pk_receiver = dst, pk_protocol = ucast proto\<rparr>, s\<lparr>ip_rxq := q\<rparr>))"

definition ip_receive_notification :: "ip_layer \<Rightarrow> notification option \<times> ip_layer" where
  "ip_receive_notification s = (case ip_notes s of [] \<Rightarrow> (None, s)
     | n # ns \<Rightarrow> (Some \<lparr>nt_sender = in_source n, nt_receiver = in_dest n, nt_send_port = in_source_port n,
         nt_receive_port = in_dest_port n, nt_protocol = ucast (in_protocol n)\<rparr>, s\<lparr>ip_notes := ns\<rparr>))"

section \<open>From one host to the other\<close>

lemma cs_simple_eq:
  assumes "p \<noteq> []" "length p \<le> 65535"
  shows "\<exists>x. cs_simple p = Some x \<and> unat x = 65535 - ones_rep (sum16 p)"
proof -
  have "sum16 p < 2 ^ 32" using sum16_bound [of p] assms(2) by simp
  then have "unat (cs_chunk p 0) = sum16 p" using cs_chunk_eq [of 0 p] by simp
  moreover have "unat (NOT x) = 65535 - unat x" for x :: "16 word"
  proof -
    have "NOT x = - 1 - x" by (simp add: not_eq_complement)
    moreover have "unat (- 1 :: 16 word) = 65535" by (simp add: unsigned_minus_1_eq_mask mask_eq_exp_minus_1)
    ultimately show ?thesis by (simp only: unat_sub [OF word_n1_ge])
  qed
  ultimately show ?thesis using assms(1) by (simp add: cs_simple_def cs_fold_eq)
qed

lemma simple_accepted:
  assumes "even (length u)" "length u + 2 + length w \<le> 65535" "cs_simple (u @ [0, 0] @ w) = Some c"
  shows "cs_simple (u @ le16 c @ w) = Some CHECKSUM_OK"
proof -
  let ?t = "sum16 (u @ [0, 0] @ w)"
  have c: "unat c = 65535 - ones_rep ?t"
    using cs_simple_eq [of "u @ [0, 0] @ w"] assms(2,3) by simp
  have s: "sum16 (u @ le16 c @ w) = ?t + unat c"
    using assms(1) load16_bytes [of c] by (simp add: sum16_append le16_def)
  obtain x where x: "cs_simple (u @ le16 c @ w) = Some x" "unat x = 65535 - ones_rep (?t + unat c)"
    using cs_simple_eq [of "u @ le16 c @ w"] assms(2) s by (auto simp: le16_def)
  have "(?t + unat c) mod 65535 = (ones_rep ?t + unat c) mod 65535"
    by (metis mod_add_left_eq ones_rep_mod)
  then have "(?t + unat c) mod 65535 = 0" using c ones_rep_le [of ?t] by simp
  moreover have "0 < ?t + unat c" using c by (cases "?t = 0") (simp_all add: ones_rep_def)
  ultimately have "ones_rep (?t + unat c) = 65535" by (simp only: ones_rep_full)
  then show ?thesis using x by (simp add: CHECKSUM_OK_def word_unat_eq_iff)
qed

lemma get_ip_bytes: "length pre = i \<Longrightarrow> get_ip (pre @ ip_bytes a @ post) i = a"
  by (simp add: get_ip_def ip_bytes_def nth_append load16_def)
    (rule bit_word_eqI, auto simp: bit_simps dest: bit_imp_le_length)

text \<open>A last fragment is taken for a whole packet when its offset is less than 256 units.\<close>

lemma small_offset_taken: "p ! 6 = 0 \<Longrightarrow> \<not> ip_fragment p"
proof -
  assume z: "p ! 6 = 0"
  have "load16 0 (p ! 7) AND 2 ^ 5 = 0"
    by (rule bit_word_eqI) (auto simp: load16_def bit_simps simp del: power_numeral)
  then have "load16 0 (p ! 7) AND 0x20 = 0" by simp
  moreover have "load16 (p ! 7) 0 AND 0x1F00 = 0"
  proof -
    have "load16 (p ! 7) 0 AND m = take_bit 8 (load16 (p ! 7) 0) AND take_bit 8 m" for m
      by (rule bit_word_eqI) (auto simp: load16_def bit_simps dest: bit_imp_le_length)
    from this [of "0x1F00"] show ?thesis by simp
  qed
  ultimately show ?thesis by (simp add: ip_fragment_def get_be16_def z)
qed

text \<open>C21: An IP packet arrives as it was sent. When \<open>Send\<close> hands a packet to the link layer, it goes
  to the next hop of its destination, and \<open>Process\<close> of a host that the destination address is
  for takes it, with whatever padding the link layer left behind it: header checksum, version
  and lengths are right, it is no fragment, and the queue of its protocol gets exactly the
  data, with the addresses of the sender and the receiver.\<close>

theorem ip_packet_delivered:
  assumes "ip_send cfg True a dat nProtocol s = Some (True, s')" "length dat < 2 ^ 32" "ip_for_us cfg' a"
  shows "\<exists>h p. ip_next_hop cfg (ip_routes s) a = Some h \<and> ip_link s' = ip_link s @ [(h, p)] \<and>
    (\<forall>pad r. ip_receive_one cfg' (p @ pad) r =
      Some (if (ucast (ucast nProtocol :: 8 word) :: 32 word) = IPPROTO_ICMP
        then r\<lparr>ip_icmpq := ip_icmpq r @ [(dat, ucast nProtocol, nc_ip cfg, a)]\<rparr>
        else r\<lparr>ip_rxq := ip_rxq r @ [(dat, ucast nProtocol, nc_ip cfg, a)]\<rparr>))"
proof -
  define L where "L = (20 + of_nat (length dat) :: 32 word)"
  define u where "u = ip_front L nProtocol"
  define w where "w = ip_bytes (nc_ip cfg) @ ip_bytes a"
  obtain x h where x: "cs_simple (u @ [0, 0] @ w) = Some x" and h: "ip_next_hop cfg (ip_routes s) a = Some h"
    and s': "ip_link s' = ip_link s @ [(h, u @ le16 x @ w @ dat)]"
    and L: "\<not> L \<le> 20" "unat L \<le> FRAME_BUFFER_SIZE"
    using assms(1) unfolding ip_send_def Let_def L_def [symmetric] u_def [symmetric] w_def [symmetric]
    by (auto split: if_splits option.splits)
  have uL: "unat L = 20 + length dat"
    using packet_length [OF _ assms(2), of 20] L(1) by (simp add: L_def)
  have ld: "0 < length dat" "20 + length dat \<le> FRAME_BUFFER_SIZE" "length dat \<le> 1580"
    using L uL by (auto simp: word_le_nat_alt FRAME_BUFFER_SIZE_def)
  have lu: "length u = 10" by (simp add: u_def ip_front_def be16_def)
  have lw: "length w = 8" by (simp add: w_def ip_bytes_def)
  have hdr: "cs_simple (u @ le16 x @ w) = Some CHECKSUM_OK"
    by (rule simple_accepted [OF _ _ x]) (simp_all add: lu lw)
  have "ip_receive_one cfg' ((u @ le16 x @ w @ dat) @ pad) r =
      ip_enqueue dat (ucast nProtocol) (nc_ip cfg) a r" for pad r
  proof -
    define q where "q = u @ le16 x @ w @ dat @ pad"
    have tk: "take 20 q = u @ le16 x @ w" "take (length dat) (drop 20 q) = dat"
      by (simp_all add: q_def lu lw le16_def)
    have b: "q ! 0 = 0x45" "q ! 6 = 0x40" "q ! 7 = 0" "q ! 9 = ucast nProtocol"
      by (simp_all add: q_def u_def ip_front_def be16_def)
    have tot: "unat (get_be16 q 2) = 20 + length dat"
    proof -
      have "get_be16 q 2 = ucast L" by (simp add: q_def u_def ip_front_def be16_def get_be16_def load16_be16)
      moreover have "take_bit 16 (unat L) = unat L"
        by (rule take_bit_nat_eq_self) (use uL ld(3) in simp)
      ultimately show ?thesis using uL by (simp add: unsigned_ucast_eq)
    qed
    have addr: "get_ip q 12 = nc_ip cfg" "get_ip q 16 = a"
      using get_ip_bytes [of "u @ le16 x" 12 "nc_ip cfg" "ip_bytes a @ dat @ pad"]
        get_ip_bytes [of "u @ le16 x @ ip_bytes (nc_ip cfg)" 16 a "dat @ pad"]
      by (simp_all add: q_def w_def lu le16_def ip_bytes_def)
    have frag: "\<not> ip_fragment q"
      by (simp add: ip_fragment_def b get_be16_def load16_def)
    have ok: "ip_header_ok q 20" using hdr by (simp add: ip_header_ok_def tk b)
    have n: "unat (of_nat (20 + length dat) - of_nat 20 :: 32 word) = length dat"
    proof -
      have "(of_nat (20 + length dat) - of_nat 20 :: 32 word) = of_nat (length dat)" by simp
      then show ?thesis using ld(3) by (simp only: unat_of_nat) (rule mod_less, simp)
    qed
    have lq: "length q = 20 + length dat + length pad" by (simp add: q_def lu lw le16_def)
    have ihl: "unat (q ! 0 AND 0xF) = 5" by (simp add: b)
    have "ip_receive_one cfg' q r = ip_enqueue dat (ucast nProtocol) (nc_ip cfg) a r"
      unfolding ip_receive_one_def Let_def ihl tot addr b(4)
      using ld lq ok frag assms(3) n tk(2) by (simp add: FRAME_BUFFER_SIZE_def)
    then show ?thesis by (simp add: q_def)
  qed
  then have "ip_receive_one cfg' ((u @ le16 x @ w @ dat) @ pad) r =
      Some (if (ucast (ucast nProtocol :: 8 word) :: 32 word) = IPPROTO_ICMP
        then r\<lparr>ip_icmpq := ip_icmpq r @ [(dat, ucast nProtocol, nc_ip cfg, a)]\<rparr>
        else r\<lparr>ip_rxq := ip_rxq r @ [(dat, ucast nProtocol, nc_ip cfg, a)]\<rparr>)" for pad r
    using ld by (simp add: ip_enqueue_def)
  with h s' show ?thesis by blast
qed

definition ip_host :: ip_config where
  "ip_host = \<lparr>nc_ip = 0x0100000A, nc_broadcast = 0xFF00000A, nc_mask = 0xFFFFFF, nc_gateway = 0\<rparr>"

theorem ip_packet_delivered_witness:
  "\<exists>s' p. ip_send ip_host True 0x0200000A [1, 2, 3] IPPROTO_UDP \<lparr>ip_rxq = [], ip_icmpq = [], ip_notes = [],
      ip_routes = [], ip_link = []\<rparr> = Some (True, s') \<and> ip_link s' = [(0x0200000A, p)] \<and>
    ip_receive_one (ip_host\<lparr>nc_ip := 0x0200000A\<rparr>) (p @ [0, 0]) s' =
      Some (s'\<lparr>ip_rxq := ip_rxq s' @ [([1, 2, 3], 17, 0x0100000A, 0x0200000A)]\<rparr>)"
proof -
  let ?s = "\<lparr>ip_rxq = [], ip_icmpq = [], ip_notes = [], ip_routes = [], ip_link = []\<rparr>"
  have hop: "ip_next_hop ip_host (ip_routes ?s) 0x0200000A = Some 0x0200000A"
    by (simp add: ip_next_hop_def ip_same_network_def ip_host_def)
  then have "\<exists>s'. ip_send ip_host True 0x0200000A [1, 2, 3] IPPROTO_UDP ?s = Some (True, s')"
    by (simp add: ip_send_def ip_host_def FRAME_BUFFER_SIZE_def Let_def cs_simple_def ip_front_def be16_def)
  then obtain s' where s': "ip_send ip_host True 0x0200000A [1, 2, 3] IPPROTO_UDP ?s = Some (True, s')" ..
  have us: "ip_for_us (ip_host\<lparr>nc_ip := 0x0200000A\<rparr>) 0x0200000A" by (simp add: ip_for_us_def ip_host_def)
  have "nc_ip ip_host = 0x0100000A" "(ucast (ucast IPPROTO_UDP :: 8 word) :: 32 word) \<noteq> IPPROTO_ICMP"
    "ucast IPPROTO_UDP = (17 :: 8 word)" "ip_link ?s = []"
    by (simp_all add: ip_host_def IPPROTO_UDP_def IPPROTO_ICMP_def)
  with ip_packet_delivered [OF s' _ us] s' hop show ?thesis by fastforce
qed

end
