(* ===== verification/Net_Link.thy ===== *)
theory Net_Link
  imports Net_Ip
begin

text \<open>
  \<^verbatim>\<open>CLinkLayer\<close> and \<^verbatim>\<open>CARPHandler\<close> (\<^verbatim>\<open>lib/net/linklayer.cpp\<close>, \<^verbatim>\<open>arphandler.cpp\<close>): Ethernet frames below
  the IP layer, and the table of the hardware addresses.

  \<^item> The frames given to the device are collected in \<open>ll_dev\<close>; the frames that it has for \<open>Process\<close>
    are a list. A MAC address is its six bytes.
  \<^item> The kernel timer of an entry is whether it is armed; that it fires is the event
    \<open>arp_timer_handler\<close>. \<open>ll_ticks\<close> is the clock.
  \<^item> \<open>None\<close> is a failed \<open>assert\<close>. The table is locked while it is used, so each function on it is one
    step.
\<close>

unbundle bit_operations_syntax

section \<open>State\<close>

definition ARP_MAX_ENTRIES :: nat where "ARP_MAX_ENTRIES = 20"
definition ARP_LIFETIME_HZ :: "32 word" where "ARP_LIFETIME_HZ = 600 * HZ"

datatype arp_state = ARPStateFreeSlot | ARPStateRequestSent | ARPStateValid

record arp_entry =
  ae_state :: arp_state
  ae_ip :: "32 word"
  ae_mac :: "8 word list"
  ae_timer :: bool
  ae_ticks :: "32 word"

record link_layer =
  ll_entries :: "arp_entry list"
  ll_mac :: "8 word list"
  ll_ticks :: "32 word"
  ll_dev :: "8 word list list"
  ll_ipq :: net_queue
  ll_arpq :: net_queue

definition mac_broadcast :: "8 word list" where
  "mac_broadcast = replicate 6 0xFF"

text \<open>The constructor frees the slots; their other fields are what was in memory.\<close>

definition link_new :: "8 word list \<Rightarrow> arp_entry list \<Rightarrow> link_layer" where
  "link_new mac junk = \<lparr>ll_entries = map (\<lambda>i. (junk ! i)\<lparr>ae_state := ARPStateFreeSlot\<rparr>) [0..<ARP_MAX_ENTRIES],
     ll_mac = mac, ll_ticks = 0, ll_dev = [], ll_ipq = [], ll_arpq = []\<rparr>"

section \<open>ARP packets\<close>

definition arp_send_packet :: "ip_config \<Rightarrow> bool \<Rightarrow> 32 word \<Rightarrow> 8 word list \<Rightarrow> link_layer \<Rightarrow> link_layer" where
  "arp_send_packet cfg bRequest ip mac s = s\<lparr>ll_dev := ll_dev s @
     [mac @ ll_mac s @ be16 0x806 @
      be16 1 @ be16 0x800 @ [6, 4] @ be16 (if bRequest then 1 else 2) @
      ll_mac s @ ip_bytes (nc_ip cfg) @ mac @ ip_bytes ip]\<rparr>"

text \<open>The loop of \<open>Resolve\<close>: \<open>Inl\<close> is the entry of the address and whether it is valid, \<open>Inr\<close> the first
  free slot and the valid entry that was not used for the longest time.\<close>

fun arp_scan :: "32 word \<Rightarrow> arp_entry list \<Rightarrow> nat \<Rightarrow> nat option \<Rightarrow> nat option \<Rightarrow> 32 word \<Rightarrow>
    (nat \<times> bool) + (nat option \<times> nat option)" where
  "arp_scan ip [] i free old nMinTicks = Inr (free, old)"
| "arp_scan ip (e # es) i free old nMinTicks =
    (case ae_state e of
       ARPStateFreeSlot \<Rightarrow> arp_scan ip es (Suc i) (if free = None then Some i else free) old nMinTicks
     | ARPStateRequestSent \<Rightarrow>
         if ip = ae_ip e then Inl (i, False) else arp_scan ip es (Suc i) free old nMinTicks
     | ARPStateValid \<Rightarrow>
         if ip = ae_ip e then Inl (i, True)
         else if ae_ticks e < nMinTicks then arp_scan ip es (Suc i) free (Some i) (ae_ticks e)
         else arp_scan ip es (Suc i) free old nMinTicks)"

definition arp_resolve :: "ip_config \<Rightarrow> 32 word \<Rightarrow> link_layer \<Rightarrow> (8 word list option \<times> link_layer) option" where
  "arp_resolve cfg ip s =
    (case arp_scan ip (ll_entries s) 0 None None (- 1) of
       Inl (i, valid) \<Rightarrow>
         let e = ll_entries s ! i
         in Some (if valid then Some (ae_mac e) else None,
              s\<lparr>ll_entries := (ll_entries s)[i := e\<lparr>ae_ticks := ll_ticks s\<rparr>]\<rparr>)
     | Inr (free, old) \<Rightarrow>
         (case (if free = None then old else free) of None \<Rightarrow> None
          | Some i \<Rightarrow>
            let e = (ll_entries s ! i)\<lparr>ae_state := ARPStateRequestSent, ae_ip := ip, ae_ticks := ll_ticks s,
                                     ae_timer := True\<rparr>
            in Some (None, arp_send_packet cfg True ip mac_broadcast
                 (s\<lparr>ll_entries := (ll_entries s)[i := e]\<rparr>))))"

fun arp_set_reply :: "32 word \<Rightarrow> 8 word list \<Rightarrow> arp_entry list \<Rightarrow> arp_entry list" where
  "arp_set_reply ip mac [] = []"
| "arp_set_reply ip mac (e # es) =
    (if ae_state e = ARPStateRequestSent \<and> ip = ae_ip e
     then e\<lparr>ae_timer := False, ae_mac := mac, ae_state := ARPStateValid\<rparr> # es
     else e # arp_set_reply ip mac es)"

definition arp_reply_received :: "32 word \<Rightarrow> 8 word list \<Rightarrow> link_layer \<Rightarrow> link_layer" where
  "arp_reply_received ip mac s = s\<lparr>ll_entries := arp_set_reply ip mac (ll_entries s)\<rparr>"

text \<open>The loop of \<open>RequestReceived\<close>: \<open>None\<close> is the return for a known address, and otherwise the result
  is the first free slot.\<close>

fun arp_slot :: "32 word \<Rightarrow> arp_entry list \<Rightarrow> nat \<Rightarrow> nat option \<Rightarrow> nat option option" where
  "arp_slot ip [] i free = Some free"
| "arp_slot ip (e # es) i free =
    (if ae_state e = ARPStateFreeSlot then arp_slot ip es (Suc i) (if free = None then Some i else free)
     else if ip = ae_ip e then None else arp_slot ip es (Suc i) free)"

definition arp_request_received :: "32 word \<Rightarrow> 8 word list \<Rightarrow> link_layer \<Rightarrow> link_layer" where
  "arp_request_received ip mac s =
    (case arp_slot ip (ll_entries s) 0 None of
       Some (Some i) \<Rightarrow> s\<lparr>ll_entries := (ll_entries s)[i := (ll_entries s ! i)
         \<lparr>ae_ip := ip, ae_mac := mac, ae_ticks := ll_ticks s, ae_state := ARPStateValid\<rparr>]\<rparr>
     | _ \<Rightarrow> s)"

text \<open>One turn of the loop of \<open>Process\<close>.\<close>

definition arp_for_us :: "ip_config \<Rightarrow> 8 word list \<Rightarrow> bool" where
  "arp_for_us cfg p \<longleftrightarrow> 28 \<le> length p \<and> get_be16 p 0 = 1 \<and> get_be16 p 2 = 0x800 \<and> p ! 4 = 6 \<and> p ! 5 = 4 \<and>
     nc_ip cfg \<noteq> 0 \<and> nc_ip cfg = get_ip p 24"

definition arp_sender :: "8 word list \<Rightarrow> 32 word \<times> 8 word list" where
  "arp_sender p = (get_ip p 14, take 6 (drop 8 p))"

definition arp_one :: "ip_config \<Rightarrow> 8 word list \<Rightarrow> link_layer \<Rightarrow> link_layer" where
  "arp_one cfg p s =
    (if \<not> arp_for_us cfg p then s
     else case arp_sender p of (ip, mac) \<Rightarrow>
       if get_be16 p 6 = 1 then arp_request_received ip mac (arp_send_packet cfg False ip mac s)
       else if get_be16 p 6 = 2 then arp_reply_received ip mac s
       else s)"

definition arp_age :: "link_layer \<Rightarrow> link_layer" where
  "arp_age s =
    (if (ll_ticks s div HZ) mod 60 = 0
     then s\<lparr>ll_entries := map (\<lambda>e. if ae_state e = ARPStateValid \<and> ae_ticks e + ARP_LIFETIME_HZ < ll_ticks s
       then e\<lparr>ae_state := ARPStateFreeSlot\<rparr> else e) (ll_entries s)\<rparr>
     else s)"

definition arp_process :: "ip_config \<Rightarrow> link_layer \<Rightarrow> link_layer" where
  "arp_process cfg s = arp_age (fold (arp_one cfg) (ll_arpq s) (s\<lparr>ll_arpq := []\<rparr>))"

definition arp_timer_handler :: "nat \<Rightarrow> link_layer \<Rightarrow> link_layer option" where
  "arp_timer_handler i s =
    (if i < ARP_MAX_ENTRIES then
       let e = (ll_entries s ! i)\<lparr>ae_timer := False\<rparr>
       in Some (s\<lparr>ll_entries := (ll_entries s)[i :=
            if ae_state e = ARPStateRequestSent then e\<lparr>ae_state := ARPStateFreeSlot\<rparr> else e]\<rparr>)
     else None)"

section \<open>Frames\<close>

definition link_receive_one :: "8 word list \<Rightarrow> link_layer \<Rightarrow> link_layer option" where
  "link_receive_one p s =
    (if length p > FRAME_BUFFER_SIZE then None
     else if length p \<le> 14 then Some s
     else if take 6 p \<noteq> ll_mac s \<and> take 6 p \<noteq> mac_broadcast then Some s
     else if get_be16 p 12 = 0x800 then map_option (\<lambda>q. s\<lparr>ll_ipq := q\<rparr>) (nq_enqueue (ll_ipq s) (drop 14 p))
     else if get_be16 p 12 = 0x806 then map_option (\<lambda>q. s\<lparr>ll_arpq := q\<rparr>) (nq_enqueue (ll_arpq s) (drop 14 p))
     else Some s)"

definition link_process :: "ip_config \<Rightarrow> 8 word list list \<Rightarrow> link_layer \<Rightarrow> link_layer option" where
  "link_process cfg ps s = map_option (arp_process cfg) (fold_option link_receive_one ps s)"

definition link_frame :: "8 word list \<Rightarrow> 8 word list \<Rightarrow> link_layer \<Rightarrow> bool \<times> link_layer" where
  "link_frame mac dat s =
    (let nFrameLength = 14 + of_nat (length dat) :: 32 word
     in if nFrameLength \<le> 14 \<or> unat nFrameLength > FRAME_BUFFER_SIZE then (False, s)
        else (True, s\<lparr>ll_dev := ll_dev s @ [mac @ ll_mac s @ be16 0x800 @ dat]\<rparr>))"

definition link_send :: "ip_config \<Rightarrow> 32 word \<Rightarrow> 8 word list \<Rightarrow> link_layer \<Rightarrow> (bool \<times> link_layer) option" where
  "link_send cfg ip dat s =
    (if ip = 0xFFFFFFFF \<or> ip = nc_broadcast cfg then Some (link_frame mac_broadcast dat s)
     else case arp_resolve cfg ip s of None \<Rightarrow> None
     | Some (None, s) \<Rightarrow> Some (True, s)
     | Some (Some mac, s) \<Rightarrow> Some (link_frame mac dat s))"

definition link_receive :: "link_layer \<Rightarrow> (8 word list \<times> link_layer) option" where
  "link_receive s = (case nq_dequeue (ll_ipq s) of None \<Rightarrow> None
     | Some (p, q) \<Rightarrow> Some (p, s\<lparr>ll_ipq := q\<rparr>))"

section \<open>The table\<close>

definition arp_live :: "arp_entry \<Rightarrow> bool" where
  "arp_live e \<longleftrightarrow> ae_state e \<noteq> ARPStateFreeSlot"

text \<open>An address is in the table once.\<close>

definition arp_unique :: "arp_entry list \<Rightarrow> bool" where
  "arp_unique es \<longleftrightarrow> (\<forall>i < length es. \<forall>j < length es. i \<noteq> j \<longrightarrow> arp_live (es ! i) \<longrightarrow> arp_live (es ! j) \<longrightarrow>
     ae_ip (es ! i) \<noteq> ae_ip (es ! j))"

text \<open>Every valid entry was announced: \<open>A\<close> are the pairs of addresses that came in ARP packets.\<close>

definition arp_announced :: "(32 word \<times> 8 word list) set \<Rightarrow> arp_entry list \<Rightarrow> bool" where
  "arp_announced A es \<longleftrightarrow> (\<forall>e \<in> set es. ae_state e = ARPStateValid \<longrightarrow> (ae_ip e, ae_mac e) \<in> A)"

definition arp_ok :: "(32 word \<times> 8 word list) set \<Rightarrow> arp_entry list \<Rightarrow> bool" where
  "arp_ok A es \<longleftrightarrow> length es = ARP_MAX_ENTRIES \<and> arp_unique es \<and> arp_announced A es"

lemma arp_ok_mono: "arp_ok A es \<Longrightarrow> A \<subseteq> B \<Longrightarrow> arp_ok B es"
  by (auto simp: arp_ok_def arp_announced_def)

lemma arp_ok_update:
  assumes "arp_ok A es" "\<And>e'. arp_live e \<Longrightarrow> e' \<in> set es \<Longrightarrow> arp_live e' \<Longrightarrow> ae_ip e' \<noteq> ae_ip e"
    "ae_state e = ARPStateValid \<longrightarrow> (ae_ip e, ae_mac e) \<in> A"
  shows "arp_ok A (es[i := e])"
proof -
  have "arp_unique (es[i := e])"
    using assms(1,2) unfolding arp_ok_def arp_unique_def
    by (metis length_list_update nth_list_update nth_list_update_neq nth_mem)
  moreover have "arp_announced A (es[i := e])"
    using assms(1,3) set_update_subset_insert [of es i e] unfolding arp_ok_def arp_announced_def by fastforce
  ultimately show ?thesis using assms(1) by (simp add: arp_ok_def)
qed

text \<open>A change that leaves the live addresses of an entry alone.\<close>

lemma arp_ok_map:
  assumes "arp_ok A es" "length es' = length es"
    and "\<And>i. i < length es \<Longrightarrow> arp_live (es' ! i) \<Longrightarrow> arp_live (es ! i) \<and> ae_ip (es' ! i) = ae_ip (es ! i)"
    and "\<And>i. i < length es \<Longrightarrow> ae_state (es' ! i) = ARPStateValid \<Longrightarrow> (ae_ip (es' ! i), ae_mac (es' ! i)) \<in> A"
  shows "arp_ok A es'"
  using assms unfolding arp_ok_def arp_unique_def arp_announced_def
  by (auto simp: in_set_conv_nth)

lemma arp_ok_touch:
  assumes ok: "arp_ok A es" and i: "i < length es" and e: "arp_live e \<Longrightarrow> arp_live (es ! i)" "ae_ip e = ae_ip (es ! i)"
    "ae_state e = ARPStateValid \<Longrightarrow> ae_state (es ! i) = ARPStateValid \<and> ae_mac e = ae_mac (es ! i)"
  shows "arp_ok A (es[i := e])"
proof (rule arp_ok_map [OF ok])
  fix j assume j: "j < length es"
  show "arp_live (es ! j) \<and> ae_ip (es[i := e] ! j) = ae_ip (es ! j)" if "arp_live (es[i := e] ! j)"
    using that e i j by (cases "j = i") simp_all
  have "(ae_ip (es ! j), ae_mac (es ! j)) \<in> A" if "ae_state (es ! j) = ARPStateValid"
    using ok that nth_mem [OF j] by (simp add: arp_ok_def arp_announced_def)
  then show "(ae_ip (es[i := e] ! j), ae_mac (es[i := e] ! j)) \<in> A" if "ae_state (es[i := e] ! j) = ARPStateValid"
    using that e i by (cases "j = i") simp_all
qed simp

lemma arp_scan_found:
  "arp_scan ip es k free old m = Inl (i, v) \<Longrightarrow>
    \<exists>j < length es. i = k + j \<and> arp_live (es ! j) \<and> ae_ip (es ! j) = ip \<and> (v \<longleftrightarrow> ae_state (es ! j) = ARPStateValid)"
proof (induction es arbitrary: k free old m)
  case (Cons e es)
  show ?case
  proof (cases "ae_state e \<noteq> ARPStateFreeSlot \<and> ip = ae_ip e")
    case True
    then have "i = k" "v \<longleftrightarrow> ae_state e = ARPStateValid" using Cons.prems by (cases "ae_state e"; simp)+
    then show ?thesis using True by (intro exI [of _ 0]) (simp add: arp_live_def)
  next
    case False
    have "\<exists>f' o' m'. arp_scan ip es (Suc k) f' o' m' = Inl (i, v)"
    proof (cases "ae_state e")
      case ARPStateFreeSlot
      then have "arp_scan ip es (Suc k) (if free = None then Some k else free) old m = Inl (i, v)"
        using Cons.prems by simp
      then show ?thesis by blast
    next
      case ARPStateRequestSent
      then have "arp_scan ip es (Suc k) free old m = Inl (i, v)" using Cons.prems False by simp
      then show ?thesis by blast
    next
      case ARPStateValid
      then have "arp_scan ip es (Suc k) free (if ae_ticks e < m then Some k else old)
          (if ae_ticks e < m then ae_ticks e else m) = Inl (i, v)"
        using Cons.prems False by (simp split: if_splits)
      then show ?thesis by blast
    qed
    then obtain f' o' m' where "arp_scan ip es (Suc k) f' o' m' = Inl (i, v)" by blast
    from Cons.IH [OF this] obtain j where "j < length es" "i = Suc k + j" "arp_live (es ! j)" "ae_ip (es ! j) = ip"
      "v \<longleftrightarrow> ae_state (es ! j) = ARPStateValid" by blast
    then show ?thesis by (intro exI [of _ "Suc j"]) simp
  qed
qed simp

lemma arp_scan_none:
  "arp_scan ip es k free old m = Inr (f, ol) \<Longrightarrow>
    (\<forall>e \<in> set es. arp_live e \<longrightarrow> ae_ip e \<noteq> ip) \<and>
    (f = None \<longrightarrow> free = None \<and> (\<forall>e \<in> set es. arp_live e)) \<and>
    (ol = None \<longrightarrow> old = None \<and> (\<forall>e \<in> set es. ae_state e = ARPStateValid \<longrightarrow> m \<le> ae_ticks e))"
proof (induction es arbitrary: k free old m)
  case (Cons e es)
  show ?case
  proof (cases "ae_state e")
    case ARPStateFreeSlot
    then have "arp_scan ip es (Suc k) (if free = None then Some k else free) old m = Inr (f, ol)"
      using Cons.prems by simp
    note IH = Cons.IH [OF this]
    show ?thesis using IH ARPStateFreeSlot
      by (cases "free = None"; cases "f = None") (simp_all add: arp_live_def)
  next
    case ARPStateRequestSent
    then have "arp_scan ip es (Suc k) free old m = Inr (f, ol)" "ip \<noteq> ae_ip e"
      using Cons.prems by (simp_all split: if_splits)
    from Cons.IH [OF this(1)] this(2) show ?thesis using ARPStateRequestSent
      by (simp add: arp_live_def)
  next
    case ARPStateValid
    then have ip: "ip \<noteq> ae_ip e" using Cons.prems by auto
    show ?thesis
    proof (cases "ae_ticks e < m")
      case True
      then have "arp_scan ip es (Suc k) free (Some k) (ae_ticks e) = Inr (f, ol)"
        using Cons.prems ARPStateValid ip by simp
      note IH = Cons.IH [OF this]
      show ?thesis using IH ip ARPStateValid by (auto simp: arp_live_def)
    next
      case False
      then have "arp_scan ip es (Suc k) free old m = Inr (f, ol)"
        using Cons.prems ARPStateValid ip by simp
      note IH = Cons.IH [OF this]
      show ?thesis using IH ip False ARPStateValid by (auto simp: arp_live_def not_less)
    qed
  qed
qed simp

lemma arp_slot_none:
  "arp_slot ip es k free = Some f \<Longrightarrow> \<forall>e \<in> set es. arp_live e \<longrightarrow> ae_ip e \<noteq> ip"
  by (induction ip es k free rule: arp_slot.induct) (auto simp: arp_live_def split: if_splits)

lemma arp_resolve_ok:
  assumes "arp_ok A (ll_entries s)" "arp_resolve cfg ip s = Some (r, s')"
  shows "arp_ok A (ll_entries s') \<and> (\<forall>mac. r = Some mac \<longrightarrow> (ip, mac) \<in> A)"
proof (cases "arp_scan ip (ll_entries s) 0 None None (- 1)")
  case (Inl iv)
  obtain i v where iv: "iv = (i, v)" by (cases iv)
  from arp_scan_found [OF Inl [unfolded iv]] have e: "i < length (ll_entries s)" "arp_live (ll_entries s ! i)"
    "ae_ip (ll_entries s ! i) = ip" "v \<longleftrightarrow> ae_state (ll_entries s ! i) = ARPStateValid" by auto
  have s': "s' = s\<lparr>ll_entries := (ll_entries s)[i := (ll_entries s ! i)\<lparr>ae_ticks := ll_ticks s\<rparr>]\<rparr>"
    and r: "r = (if v then Some (ae_mac (ll_entries s ! i)) else None)"
    using assms(2) by (auto simp: arp_resolve_def Inl iv Let_def)
  have "arp_ok A (ll_entries s')" unfolding s'
    by (simp, rule arp_ok_touch [OF assms(1) e(1)]) (use e(2) in simp_all)
  moreover have "(ip, mac) \<in> A" if "r = Some mac" for mac
    using that r e assms(1) nth_mem [OF e(1)] by (auto simp: arp_ok_def arp_announced_def split: if_splits)
  ultimately show ?thesis by blast
next
  case (Inr fo)
  obtain f ol where fo: "fo = (f, ol)" by (cases fo)
  note n = arp_scan_none [OF Inr [unfolded fo]]
  obtain i where i: "r = None" "ll_entries s' = (ll_entries s)[i := (ll_entries s ! i)
      \<lparr>ae_state := ARPStateRequestSent, ae_ip := ip, ae_ticks := ll_ticks s, ae_timer := True\<rparr>]"
    using assms(2) by (auto simp: arp_resolve_def Inr fo Let_def arp_send_packet_def split: option.splits)
  have "arp_ok A (ll_entries s')" unfolding i(2)
    by (rule arp_ok_update [OF assms(1)]) (use n in simp_all)
  then show ?thesis using i(1) by simp
qed

lemma arp_set_reply_nth:
  "length (arp_set_reply ip mac es) = length es \<and> (\<forall>i < length es. arp_set_reply ip mac es ! i = es ! i \<or>
     arp_live (es ! i) \<and> ip = ae_ip (es ! i) \<and>
     arp_set_reply ip mac es ! i = (es ! i)\<lparr>ae_timer := False, ae_mac := mac, ae_state := ARPStateValid\<rparr>)"
  by (induction es) (auto simp: arp_live_def nth_Cons split: nat.splits)

lemma arp_reply_ok:
  assumes "arp_ok A es" "(ip, mac) \<in> A"
  shows "arp_ok A (arp_set_reply ip mac es)"
proof (rule arp_ok_map [OF assms(1)])
  show "length (arp_set_reply ip mac es) = length es" using arp_set_reply_nth by blast
  fix i assume i: "i < length es"
  have *: "arp_set_reply ip mac es ! i = es ! i \<or> arp_live (es ! i) \<and> ip = ae_ip (es ! i) \<and>
     arp_set_reply ip mac es ! i = (es ! i)\<lparr>ae_timer := False, ae_mac := mac, ae_state := ARPStateValid\<rparr>"
    using arp_set_reply_nth i by blast
  show "arp_live (es ! i) \<and> ae_ip (arp_set_reply ip mac es ! i) = ae_ip (es ! i)"
    if "arp_live (arp_set_reply ip mac es ! i)"
    using * that by auto
  show "(ae_ip (arp_set_reply ip mac es ! i), ae_mac (arp_set_reply ip mac es ! i)) \<in> A"
    if "ae_state (arp_set_reply ip mac es ! i) = ARPStateValid"
    using * that assms nth_mem [OF i] by (auto simp: arp_ok_def arp_announced_def)
qed

lemma arp_one_ok:
  assumes "arp_ok A (ll_entries s)" "arp_for_us cfg p \<Longrightarrow> arp_sender p \<in> A"
  shows "arp_ok A (ll_entries (arp_one cfg p s))"
proof (cases "arp_for_us cfg p")
  case True
  obtain ip mac where p: "arp_sender p = (ip, mac)" by (cases "arp_sender p")
  have A: "(ip, mac) \<in> A" using assms(2) [OF True] p by simp
  have req: "arp_ok A (ll_entries (arp_request_received ip mac (arp_send_packet cfg False ip mac s)))"
  proof (cases "\<exists>i. arp_slot ip (ll_entries s) 0 None = Some (Some i)")
    case True
    then obtain i where i: "arp_slot ip (ll_entries s) 0 None = Some (Some i)" ..
    have "arp_ok A ((ll_entries s)[i := (ll_entries s ! i)
        \<lparr>ae_ip := ip, ae_mac := mac, ae_ticks := ll_ticks s, ae_state := ARPStateValid\<rparr>])"
      by (rule arp_ok_update [OF assms(1)]) (use arp_slot_none [OF i] A in simp_all)
    then show ?thesis by (simp add: arp_request_received_def arp_send_packet_def i)
  next
    case False
    then show ?thesis using assms(1)
      by (auto simp: arp_request_received_def arp_send_packet_def split: option.splits)
  qed
  show ?thesis
    using True p req arp_reply_ok [OF assms(1) A] assms(1)
    by (simp add: arp_one_def arp_reply_received_def)
qed (simp add: arp_one_def assms(1))

lemma arp_age_ok: "arp_ok A (ll_entries s) \<Longrightarrow> arp_ok A (ll_entries (arp_age s))"
proof (cases "(ll_ticks s div HZ) mod 60 = 0")
  case True
  assume ok: "arp_ok A (ll_entries s)"
  show ?thesis unfolding arp_age_def if_P [OF True]
    by (simp, rule arp_ok_map [OF ok])
      (use ok in \<open>auto simp: arp_live_def arp_ok_def arp_announced_def split: if_splits\<close>)
qed (simp add: arp_age_def)

lemma arp_timer_ok:
  assumes "arp_ok A (ll_entries s)" "arp_timer_handler i s = Some s'"
  shows "arp_ok A (ll_entries s')"
proof -
  have i: "i < length (ll_entries s)"
    using assms by (simp add: arp_timer_handler_def arp_ok_def split: if_splits)
  let ?e = "(ll_entries s ! i)\<lparr>ae_timer := False\<rparr>"
  have "ll_entries s' = (ll_entries s)[i :=
      if ae_state ?e = ARPStateRequestSent then ?e\<lparr>ae_state := ARPStateFreeSlot\<rparr> else ?e]"
    using assms(2) by (auto simp: arp_timer_handler_def Let_def split: if_splits)
  then show ?thesis
    by (simp only:, intro arp_ok_touch [OF assms(1) i]) (auto simp: arp_live_def)
qed

section \<open>Runs\<close>

text \<open>The pairs of addresses that the ARP packets among the frames announce: the frame has the type
  of ARP and is for the own hardware address or for all, and the packet in it is for us.\<close>

definition arp_frame :: "8 word list \<Rightarrow> 8 word list \<Rightarrow> bool" where
  "arp_frame mac f \<longleftrightarrow> 14 < length f \<and> (take 6 f = mac \<or> take 6 f = mac_broadcast) \<and> get_be16 f 12 = 0x806"

definition arp_heard :: "ip_config \<Rightarrow> 8 word list \<Rightarrow> 8 word list set \<Rightarrow> (32 word \<times> 8 word list) set" where
  "arp_heard cfg mac F = {arp_sender (drop 14 f) | f. f \<in> F \<and> arp_frame mac f \<and> arp_for_us cfg (drop 14 f)}"

inductive link_run :: "ip_config \<Rightarrow> link_layer \<Rightarrow> (32 word \<times> 8 word list) set \<Rightarrow> bool" for cfg where
  lr_start: "link_run cfg (link_new mac junk) {}"
| lr_process: "link_run cfg s A \<Longrightarrow> link_process cfg ps s = Some s' \<Longrightarrow>
    link_run cfg s' (A \<union> arp_heard cfg (ll_mac s) (set ps))"
| lr_send: "link_run cfg s A \<Longrightarrow> link_send cfg ip dat s = Some (r, s') \<Longrightarrow> link_run cfg s' A"
| lr_receive: "link_run cfg s A \<Longrightarrow> link_receive s = Some (p, s') \<Longrightarrow> link_run cfg s' A"
| lr_timer: "link_run cfg s A \<Longrightarrow> arp_timer_handler i s = Some s' \<Longrightarrow> link_run cfg s' A"
| lr_clock: "link_run cfg s A \<Longrightarrow> link_run cfg (s\<lparr>ll_ticks := t\<rparr>) A"

lemma link_receive_keeps:
  assumes "fold_option link_receive_one ps s = Some s'"
  shows "ll_entries s' = ll_entries s \<and> ll_mac s' = ll_mac s \<and>
    set (ll_arpq s') \<subseteq> set (ll_arpq s) \<union> drop 14 ` {f \<in> set ps. arp_frame (ll_mac s) f}"
  using assms
proof (induction ps arbitrary: s)
  case (Cons p ps)
  obtain x where x: "link_receive_one p s = Some x" "fold_option link_receive_one ps x = Some s'"
    using Cons.prems by (auto split: option.splits)
  have "ll_entries x = ll_entries s" "ll_mac x = ll_mac s"
    "set (ll_arpq x) \<subseteq> set (ll_arpq s) \<union> drop 14 ` {f \<in> {p}. arp_frame (ll_mac s) f}"
    using x(1) by (auto simp: link_receive_one_def nq_enqueue_def arp_frame_def split: if_splits)
  then show ?case using Cons.IH [OF x(2)] by auto
qed simp

lemma arp_one_queue: "ll_arpq (arp_one cfg p s) = ll_arpq s"
  by (auto simp: arp_one_def arp_send_packet_def arp_reply_received_def arp_request_received_def
      split: prod.splits option.splits)

lemma arp_fold_ok:
  assumes "arp_ok A (ll_entries s)" "\<And>p. p \<in> set q \<Longrightarrow> arp_for_us cfg p \<Longrightarrow> arp_sender p \<in> A"
  shows "arp_ok A (ll_entries (fold (arp_one cfg) q s)) \<and> ll_arpq (fold (arp_one cfg) q s) = ll_arpq s"
  using assms
proof (induction q arbitrary: s)
  case (Cons p q)
  have "arp_ok A (ll_entries (arp_one cfg p s))"
    using Cons.prems by (intro arp_one_ok) simp_all
  then show ?case using Cons.IH [of "arp_one cfg p s"] Cons.prems(2) by (simp add: arp_one_queue)
qed simp

lemma link_send_keeps:
  assumes "arp_ok A (ll_entries s)" "link_send cfg ip dat s = Some (r, s')"
  shows "arp_ok A (ll_entries s') \<and> ll_arpq s' = ll_arpq s"
proof -
  have f: "ll_entries (snd (link_frame m dat x)) = ll_entries x \<and> ll_arpq (snd (link_frame m dat x)) = ll_arpq x" for m x
    by (simp add: link_frame_def Let_def)
  have q: "ll_arpq x = ll_arpq s" if "arp_resolve cfg ip s = Some (y, x)" for x y
    using that by (auto simp: arp_resolve_def arp_send_packet_def Let_def split: sum.splits option.splits)
  show ?thesis
  proof (cases "ip = 0xFFFFFFFF \<or> ip = nc_broadcast cfg")
    case True
    then have "s' = snd (link_frame mac_broadcast dat s)" using assms(2) by (simp add: link_send_def)
    then show ?thesis using f assms(1) by simp
  next
    case False
    with assms(2) obtain y x where x: "arp_resolve cfg ip s = Some (y, x)"
      by (cases "arp_resolve cfg ip s") (auto simp: link_send_def)
    have "s' = x \<or> (\<exists>m. s' = snd (link_frame m dat x))"
    proof (cases y)
      case (Some m)
      then have "link_frame m dat x = (r, s')" using assms(2) False x by (simp add: link_send_def)
      then have "s' = snd (link_frame m dat x)" by simp
      then show ?thesis by blast
    qed (use assms(2) False x in \<open>simp add: link_send_def\<close>)
    then show ?thesis using f arp_resolve_ok [OF assms(1) x] q [OF x] by auto
  qed
qed

lemma link_run_ok: "link_run cfg s A \<Longrightarrow> arp_ok A (ll_entries s) \<and> ll_arpq s = []"
proof (induction rule: link_run.induct)
  case (lr_start mac junk)
  show ?case
    by (auto simp: link_new_def arp_ok_def arp_unique_def arp_announced_def arp_live_def)
next
  case (lr_process s A ps s')
  let ?A = "A \<union> arp_heard cfg (ll_mac s) (set ps)"
  obtain x where x: "fold_option link_receive_one ps s = Some x" "s' = arp_process cfg x"
    using lr_process.hyps(2) by (auto simp: link_process_def)
  note k = link_receive_keeps [OF x(1)]
  have "arp_ok ?A (ll_entries x)" using lr_process.IH k arp_ok_mono [of A _ ?A] by simp
  moreover have "arp_sender p \<in> ?A" if "p \<in> set (ll_arpq x)" "arp_for_us cfg p" for p
    using that k lr_process.IH by (auto simp: arp_heard_def)
  ultimately have "arp_ok ?A (ll_entries (fold (arp_one cfg) (ll_arpq x) (x\<lparr>ll_arpq := []\<rparr>))) \<and>
      ll_arpq (fold (arp_one cfg) (ll_arpq x) (x\<lparr>ll_arpq := []\<rparr>)) = ll_arpq (x\<lparr>ll_arpq := []\<rparr>)"
    by (intro arp_fold_ok) simp_all
  then show ?case using arp_age_ok by (simp add: x(2) arp_process_def) (simp add: arp_age_def)
next
  case (lr_send s A ip dat r s')
  then show ?case using link_send_keeps [OF _ lr_send.hyps(2)] by auto
next
  case (lr_receive s A p s')
  then show ?case by (auto simp: link_receive_def split: option.splits)
next
  case (lr_timer s A i s')
  then show ?case using arp_timer_ok [OF _ lr_timer.hyps(2)]
    by (auto simp: arp_timer_handler_def Let_def split: if_splits)
qed simp

text \<open>C20: The table of hardware addresses. In every run of the link layer, over frames with any
  content, packets to send, timers and the clock, an address is in the table at most once;
  \<open>Resolve\<close> answers only with a hardware address that an ARP packet for us, in a frame for us or
  for all, announced for that address; and it fails (its assert halts the system) only when none of the twenty slots is free
  and every valid entry was last used at the largest value of the clock, so in practice when
  all of them wait for answers.\<close>

theorem arp_table:
  assumes "link_run cfg s A"
  shows "arp_unique (ll_entries s) \<and>
    (\<forall>ip mac s'. arp_resolve cfg ip s = Some (Some mac, s') \<longrightarrow> (ip, mac) \<in> A) \<and>
    (\<forall>ip. arp_resolve cfg ip s = None \<longrightarrow> (\<forall>e \<in> set (ll_entries s). arp_live e \<and> ae_ip e \<noteq> ip \<and>
      (ae_state e = ARPStateValid \<longrightarrow> ae_ticks e = - 1)))"
proof (intro conjI allI impI)
  have ok: "arp_ok A (ll_entries s)" using link_run_ok [OF assms] by blast
  then show "arp_unique (ll_entries s)" by (simp add: arp_ok_def)
  show "(ip, mac) \<in> A" if "arp_resolve cfg ip s = Some (Some mac, s')" for ip mac s'
    using arp_resolve_ok [OF ok that] by blast
  show "\<forall>e \<in> set (ll_entries s). arp_live e \<and> ae_ip e \<noteq> ip \<and> (ae_state e = ARPStateValid \<longrightarrow> ae_ticks e = - 1)"
    if "arp_resolve cfg ip s = None" for ip
  proof -
    have s: "arp_scan ip (ll_entries s) 0 None None (- 1) = Inr (None, None)"
      using that by (auto simp: arp_resolve_def Let_def split: sum.splits option.splits if_splits)
    have "e = - 1" if "- 1 \<le> e" for e :: "32 word" using that word_n1_ge [of e] by simp
    then show ?thesis using arp_scan_none [OF s] by fastforce
  qed
qed

definition arp_frame_ex :: "8 word list" where
  "arp_frame_ex = mac_broadcast @ replicate 6 2 @ be16 0x806 @ be16 1 @ be16 0x800 @ [6, 4] @ be16 1 @
     replicate 6 2 @ ip_bytes 0x0200000A @ replicate 6 0 @ ip_bytes 0x0100000A"

definition link_ex :: link_layer where
  "link_ex = link_new (replicate 6 1) (replicate 20 \<lparr>ae_state = ARPStateValid, ae_ip = 0, ae_mac = [], ae_timer = False, ae_ticks = 0\<rparr>)"

lemma link_ex_own: "ll_mac link_ex = replicate 6 1"
  by (simp add: link_ex_def link_new_def)

lemma link_ex_heard:
  "(case link_process ip_host [arp_frame_ex] link_ex of None \<Rightarrow> False
    | Some s \<Rightarrow> map_option fst (arp_resolve ip_host 0x0200000A s) = Some (Some (replicate 6 2)))"
  by code_simp

theorem arp_table_witness:
  "\<exists>s s'. link_process ip_host [arp_frame_ex] link_ex = Some s \<and>
    arp_resolve ip_host 0x0200000A s = Some (Some (replicate 6 2), s') \<and>
    (0x0200000A, replicate 6 2) \<in> arp_heard ip_host (replicate 6 1) {arp_frame_ex} \<and> arp_unique (ll_entries s)"
proof -
  obtain s where s: "link_process ip_host [arp_frame_ex] link_ex = Some s"
      "map_option fst (arp_resolve ip_host 0x0200000A s) = Some (Some (replicate 6 2))"
    using link_ex_heard by (cases "link_process ip_host [arp_frame_ex] link_ex") auto
  then obtain s' where s': "arp_resolve ip_host 0x0200000A s = Some (Some (replicate 6 2), s')" by auto
  have "link_run ip_host link_ex {}" unfolding link_ex_def by (rule lr_start)
  from lr_process [OF this s(1)] have "link_run ip_host s (arp_heard ip_host (replicate 6 1) {arp_frame_ex})" by (simp add: link_ex_own)
  from arp_table [OF this] s(1) s' show ?thesis by blast
qed

section \<open>Packets between hosts\<close>

lemma arp_heard_length: "link_run cfg s A \<Longrightarrow> (ip, mac) \<in> A \<Longrightarrow> length mac = 6"
  by (induction rule: link_run.induct) (auto simp: arp_heard_def arp_sender_def arp_for_us_def)

lemma link_frame_received:
  assumes "length mac = 6" "length (ll_mac s) = 6" "dat \<noteq> []" "14 + length dat \<le> FRAME_BUFFER_SIZE"
  shows "\<exists>f. link_frame mac dat s = (True, s\<lparr>ll_dev := ll_dev s @ [f]\<rparr>) \<and>
    (\<forall>t. link_receive_one f t =
      Some (if mac = ll_mac t \<or> mac = mac_broadcast then t\<lparr>ll_ipq := ll_ipq t @ [dat]\<rparr> else t))"
proof -
  let ?f = "mac @ ll_mac s @ be16 0x800 @ dat"
  have n: "length dat \<le> 1586" "0 < length dat" using assms by (auto simp: FRAME_BUFFER_SIZE_def)
  have "(14 + of_nat (length dat) :: 32 word) = of_nat (14 + length dat)" by simp
  moreover have "unat (of_nat (14 + length dat) :: 32 word) = 14 + length dat"
    unfolding unat_of_nat using n by (simp add: take_bit_nat_eq_self)
  ultimately have u: "unat (14 + of_nat (length dat) :: 32 word) = 14 + length dat" by simp
  then have "\<not> (14 + of_nat (length dat) :: 32 word) \<le> 14" using n by (simp add: word_le_nat_alt)
  then have "link_frame mac dat s = (True, s\<lparr>ll_dev := ll_dev s @ [?f]\<rparr>)"
    using u assms(4) by (simp add: link_frame_def Let_def)
  moreover have "get_be16 ?f 12 = 0x800"
    using assms(1,2) by (simp add: get_be16_def be16_def nth_append load16_def)
  then have "link_receive_one ?f t =
      Some (if mac = ll_mac t \<or> mac = mac_broadcast then t\<lparr>ll_ipq := ll_ipq t @ [dat]\<rparr> else t)" for t
    using assms n by (auto simp: link_receive_one_def nq_enqueue_def be16_def)
  ultimately show ?thesis by blast
qed

lemma arp_resolve_frame:
  "arp_resolve cfg ip s = Some (Some mac, x) \<Longrightarrow> ll_dev x = ll_dev s \<and> ll_mac x = ll_mac s"
  by (auto simp: arp_resolve_def Let_def split: sum.splits option.splits)

text \<open>C22: A packet for a resolved address. In every run, a packet that fits in a frame, sent to an
  address that is not a broadcast address and that \<open>Resolve\<close> knows, is given to the device in one
  frame. The address of the frame came in an ARP packet for us; the host that has it queues the
  packet, unchanged, for its IP layer, and (unless it is the broadcast address) any other host
  drops the frame.\<close>

theorem frame_delivered:
  assumes "link_run cfg s A" "length (ll_mac s) = 6"
    "ip \<noteq> 0xFFFFFFFF" "ip \<noteq> nc_broadcast cfg" "arp_resolve cfg ip s = Some (Some mac, x)"
    "dat \<noteq> []" "14 + length dat \<le> FRAME_BUFFER_SIZE"
  shows "(ip, mac) \<in> A \<and> (\<exists>f s'. link_send cfg ip dat s = Some (True, s') \<and> ll_dev s' = ll_dev s @ [f] \<and>
    (\<forall>t. link_receive_one f t =
      Some (if mac = ll_mac t \<or> mac = mac_broadcast then t\<lparr>ll_ipq := ll_ipq t @ [dat]\<rparr> else t)))"
proof -
  have A: "(ip, mac) \<in> A" using arp_resolve_ok [OF _ assms(5)] link_run_ok [OF assms(1)] by blast
  note x = arp_resolve_frame [OF assms(5)]
  have "length mac = 6" by (rule arp_heard_length [OF assms(1) A])
  from link_frame_received [of mac x dat, OF this] x assms(2,6,7) obtain f where
    f: "link_frame mac dat x = (True, x\<lparr>ll_dev := ll_dev x @ [f]\<rparr>)"
      "\<forall>t. link_receive_one f t =
        Some (if mac = ll_mac t \<or> mac = mac_broadcast then t\<lparr>ll_ipq := ll_ipq t @ [dat]\<rparr> else t)" by auto
  have "link_send cfg ip dat s = Some (True, x\<lparr>ll_dev := ll_dev x @ [f]\<rparr>)"
    using assms(3-5) f(1) by (simp add: link_send_def)
  then show ?thesis using A f(2) x by auto
qed

lemma link_ex_mac:
  "map_option ll_mac (link_process ip_host [arp_frame_ex] link_ex) = Some (replicate 6 1)"
  by code_simp

theorem frame_delivered_witness:
  "\<exists>s s' f t. link_process ip_host [arp_frame_ex] link_ex = Some s \<and>
    link_send ip_host 0x0200000A [1, 2, 3] s = Some (True, s') \<and> ll_dev s' = ll_dev s @ [f] \<and>
    t = link_ex\<lparr>ll_mac := replicate 6 2\<rparr> \<and> link_receive_one f t = Some (t\<lparr>ll_ipq := [[1, 2, 3]]\<rparr>) \<and>
    link_receive_one f link_ex = Some link_ex"
proof -
  let ?t = "link_ex\<lparr>ll_mac := replicate 6 2\<rparr>"
  obtain s where s: "link_process ip_host [arp_frame_ex] link_ex = Some s"
      "map_option fst (arp_resolve ip_host 0x0200000A s) = Some (Some (replicate 6 2))"
    using link_ex_heard by (cases "link_process ip_host [arp_frame_ex] link_ex") auto
  then obtain x where x: "arp_resolve ip_host 0x0200000A s = Some (Some (replicate 6 2), x)" by auto
  have "link_run ip_host link_ex {}" unfolding link_ex_def by (rule lr_start)
  from lr_process [OF this s(1)] have r: "link_run ip_host s (arp_heard ip_host (replicate 6 1) {arp_frame_ex})" by (simp add: link_ex_own)
  have m: "length (ll_mac s) = 6" using link_ex_mac s(1) by simp
  have b: "0x0200000A \<noteq> (0xFFFFFFFF :: 32 word)" "0x0200000A \<noteq> nc_broadcast ip_host" by (simp_all add: ip_host_def)
  have l: "[1, 2, 3] \<noteq> ([] :: 8 word list)" "14 + length [1, 2, 3 :: 8 word] \<le> FRAME_BUFFER_SIZE"
    by (simp_all add: FRAME_BUFFER_SIZE_def)
  obtain f s' where f: "link_send ip_host 0x0200000A [1, 2, 3] s = Some (True, s')" "ll_dev s' = ll_dev s @ [f]"
    "\<forall>t. link_receive_one f t = Some (if replicate 6 2 = ll_mac t \<or> replicate 6 2 = mac_broadcast
      then t\<lparr>ll_ipq := ll_ipq t @ [[1, 2, 3]]\<rparr> else t)"
    using frame_delivered [OF r m b x l] by blast
  have e: "ll_mac link_ex = replicate 6 1" "ll_ipq link_ex = []" by (simp_all add: link_ex_def link_new_def)
  have "replicate 6 2 \<noteq> (replicate 6 1 :: 8 word list)" "replicate 6 2 \<noteq> mac_broadcast"
    by (simp_all add: mac_broadcast_def)
  then have "link_receive_one f link_ex = Some link_ex" "link_receive_one f ?t = Some (?t\<lparr>ll_ipq := [[1, 2, 3]]\<rparr>)"
    using f(3) e by simp_all
  then show ?thesis using s(1) f(1,2) by blast
qed

end
